(* ===== verification/Prelude.thy ===== *)
theory Prelude
  imports Complex_Main "HOL-Library.Char_ord" "HOL-Library.List_Lexorder"
begin

text \<open>
  Shared vocabulary of the development.

  \<^item> Identifiers: a UUID is its 128-bit integer, a \<open>nat\<close>. \<open>str(uuid)\<close> is a fixed-width
    hexadecimal rendering, so comparing or sorting rendered ids is comparing the integers.
    Ids that arrive as JSON text are \<open>raw_id\<close>: what \<open>uuid.UUID(str(x))\<close> makes of them.
  \<^item> Time: \<open>datetime\<close> values are counted in microseconds, Python's resolution.
  \<^item> Errors: \<open>fastapi.HTTPException\<close> is a value; an operation that can raise returns
    \<open>http_error + 'a\<close>.
  \<^item> Text: \<open>string\<close> holds the code points below 256; \<open>isspace\<close>, \<open>strip\<close> and \<open>lower\<close>
    are Python's on that range.
  \<^item> Rows: a table is a list of records, looked up and updated by primary key.
\<close>

section \<open>Fact collections\<close>

named_theorems row_simps \<open>lookups and updates of rows by key\<close>
named_theorems guard_simps \<open>operations written as a chain of guards\<close>
named_theorems keeps \<open>what an operation leaves unchanged\<close>

section \<open>Identifiers, time and errors\<close>

type_synonym uuid = nat
type_synonym instant = int

definition seconds :: "int \<Rightarrow> int" where
  "seconds n = n * 1000000"

definition minutes :: "int \<Rightarrow> int" where
  "minutes n = seconds (n * 60)"

lemma seconds_mono [simp]: "seconds a \<le> seconds b \<longleftrightarrow> a \<le> b"
  by (simp add: seconds_def)

lemma minutes_seconds: "minutes n = seconds (60 * n)"
  by (simp add: minutes_def mult.commute)

datatype raw_id = UuidText uuid | BadText string

fun parse_uuid :: "raw_id \<Rightarrow> uuid option" where
  "parse_uuid (UuidText u) = Some u"
| "parse_uuid (BadText s) = None"

text \<open>A list comprehension of \<open>uuid.UUID(str(x))\<close> raises at the first bad item.\<close>

fun parse_uuids :: "raw_id list \<Rightarrow> uuid list option" where
  "parse_uuids [] = Some []"
| "parse_uuids (r # rs) =
     (case parse_uuid r of
        None \<Rightarrow> None
      | Some u \<Rightarrow> (case parse_uuids rs of None \<Rightarrow> None | Some us \<Rightarrow> Some (u # us)))"

lemma parse_uuids_texts [simp]: "parse_uuids (map UuidText us) = Some us"
  by (induction us) auto

lemma parse_uuids_Some: "parse_uuids rs = Some us \<longleftrightarrow> rs = map UuidText us"
proof (induction rs arbitrary: us)
  case Nil
  then show ?case by auto
next
  case (Cons r rs)
  show ?case
  proof (cases r)
    case (UuidText u)
    with Cons show ?thesis by (cases us) (auto simp: inj_def split: option.splits)
  qed auto
qed

datatype detail = Text string | Coded string "string list"

datatype http_error = HTTPException (status_code: nat) (detail: detail)

type_synonym 'a result = "http_error + 'a"

abbreviation raise :: "nat \<Rightarrow> string \<Rightarrow> 'a result" where
  "raise st msg \<equiv> Inl (HTTPException st (Text msg))"

definition status_of :: "'a result \<Rightarrow> nat option" where
  "status_of r = (case r of Inl e \<Rightarrow> Some (status_code e) | Inr _ \<Rightarrow> None)"

lemma status_of_simps [simp]:
  "status_of (Inl e) = Some (status_code e)"
  "status_of (Inr x) = None"
  by (simp_all add: status_of_def)

section \<open>Text\<close>

definition isspace :: "char \<Rightarrow> bool" where
  "isspace c = (let n = (of_char c :: nat)
     in (9 \<le> n \<and> n \<le> 13) \<or> (28 \<le> n \<and> n \<le> 32) \<or> n = 133 \<or> n = 160)"

definition lower_char :: "char \<Rightarrow> char" where
  "lower_char c = (let n = (of_char c :: nat)
     in if (65 \<le> n \<and> n \<le> 90) \<or> (192 \<le> n \<and> n \<le> 222 \<and> n \<noteq> 215) then char_of (n + 32) else c)"

definition lower :: "string \<Rightarrow> string" where
  "lower s = map lower_char s"

definition lstrip :: "string \<Rightarrow> string" where
  "lstrip s = dropWhile isspace s"

definition rstrip :: "string \<Rightarrow> string" where
  "rstrip s = rev (dropWhile isspace (rev s))"

definition strip :: "string \<Rightarrow> string" where
  "strip s = rstrip (lstrip s)"

lemma strip_Nil [simp]: "strip [] = []" "lstrip [] = []" "rstrip [] = []"
  by (simp_all add: strip_def lstrip_def rstrip_def)

lemma length_lstrip: "length (lstrip s) \<le> length s"
  by (simp add: lstrip_def length_dropWhile_le)

lemma length_rstrip: "length (rstrip s) \<le> length s"
  by (simp add: rstrip_def length_dropWhile_le [of isspace "rev s", simplified])

lemma length_strip: "length (strip s) \<le> length s"
  using length_lstrip [of s] length_rstrip [of "lstrip s"] by (simp add: strip_def)

lemma rstrip_prefix: "\<exists>t. s = rstrip s @ t \<and> list_all isspace t"
proof -
  have "rev s = takeWhile isspace (rev s) @ dropWhile isspace (rev s)" by simp
  then have "s = rstrip s @ rev (takeWhile isspace (rev s))"
    unfolding rstrip_def by (metis rev_append rev_rev_ident)
  moreover have "list_all isspace (rev (takeWhile isspace (rev s)))"
    by (auto simp: list_all_iff dest: set_takeWhileD)
  ultimately show ?thesis by blast
qed

lemma lstrip_suffix: "\<exists>t. s = t @ lstrip s \<and> list_all isspace t"
proof -
  have "s = takeWhile isspace s @ lstrip s" by (simp add: lstrip_def)
  moreover have "list_all isspace (takeWhile isspace s)"
    by (auto simp: list_all_iff dest: set_takeWhileD)
  ultimately show ?thesis by blast
qed

text \<open>A string that is empty or absent counts as false in an \<open>or\<close> chain.\<close>

definition truthy :: "string option \<Rightarrow> bool" where
  "truthy x = (case x of None \<Rightarrow> False | Some s \<Rightarrow> s \<noteq> [])"

definition or_else :: "string option \<Rightarrow> string \<Rightarrow> string" where
  "or_else x d = (case x of None \<Rightarrow> d | Some s \<Rightarrow> if s = [] then d else s)"

lemma truthy_simps [simp]: "\<not> truthy None" "truthy (Some s) \<longleftrightarrow> s \<noteq> []"
  by (simp_all add: truthy_def)

lemma or_else_simps [simp]:
  "or_else None d = d" "or_else (Some []) d = d" "s \<noteq> [] \<Longrightarrow> or_else (Some s) d = s"
  by (simp_all add: or_else_def)

section \<open>Lists\<close>

text \<open>\<open>list(dict.fromkeys(xs))\<close>: distinct elements in order of first occurrence.\<close>

definition fromkeys :: "'a list \<Rightarrow> 'a list" where
  "fromkeys xs = rev (remdups (rev xs))"

lemma set_fromkeys [simp]: "set (fromkeys xs) = set xs"
  by (simp add: fromkeys_def)

lemma distinct_fromkeys [simp]: "distinct (fromkeys xs)"
  by (simp add: fromkeys_def)

lemma fromkeys_Nil [simp]: "fromkeys [] = []"
  by (simp add: fromkeys_def)

lemma fromkeys_eq_Nil [simp]: "fromkeys xs = [] \<longleftrightarrow> xs = []"
  by (simp add: fromkeys_def)

lemma fromkeys_distinct: "distinct xs \<Longrightarrow> fromkeys xs = xs"
  by (simp add: fromkeys_def distinct_remdups_id)

section \<open>Tables\<close>

text \<open>The first row of a table with a given primary key.\<close>

definition get_row :: "('r \<Rightarrow> uuid) \<Rightarrow> uuid \<Rightarrow> 'r list \<Rightarrow> 'r option" where
  "get_row key i rows = find (\<lambda>r. key r = i) rows"

text \<open>Writing a loaded row back: the row with its key is replaced.\<close>

definition put_row :: "('r \<Rightarrow> uuid) \<Rightarrow> 'r \<Rightarrow> 'r list \<Rightarrow> 'r list" where
  "put_row key r rows = map (\<lambda>q. if key q = key r then r else q) rows"

definition unique_key :: "('r \<Rightarrow> uuid) \<Rightarrow> 'r list \<Rightarrow> bool" where
  "unique_key key rows = distinct (map key rows)"

lemma get_row_Nil [row_simps, simp]: "get_row key i [] = None"
  by (simp add: get_row_def)

lemma get_row_Cons [row_simps, simp]:
  "get_row key i (r # rows) = (if key r = i then Some r else get_row key i rows)"
  by (simp add: get_row_def)

lemma put_row_Nil [row_simps, simp]: "put_row key r [] = []"
  by (simp add: put_row_def)

lemma put_row_Cons [row_simps, simp]:
  "put_row key r (q # rows) = (if key q = key r then r else q) # put_row key r rows"
  by (simp add: put_row_def)

lemma get_row_SomeD:
  assumes "get_row key i rows = Some r"
  shows "r \<in> set rows" "key r = i"
  using assms by (auto simp: get_row_def find_Some_iff)

lemma get_row_None_iff: "get_row key i rows = None \<longleftrightarrow> i \<notin> key ` set rows"
  by (auto simp: get_row_def find_None_iff)

lemma get_row_append:
  "get_row key i (xs @ ys) = (case get_row key i xs of None \<Rightarrow> get_row key i ys | Some r \<Rightarrow> Some r)"
  by (induction xs) auto

lemma map_key_put_row [simp]: "map key (put_row key r rows) = map key rows"
  by (induction rows) auto

lemma length_put_row [simp]: "length (put_row key r rows) = length rows"
  by (simp add: put_row_def)

lemma unique_key_put_row [simp]: "unique_key key (put_row key r rows) = unique_key key rows"
  by (simp add: unique_key_def)

lemma get_put_same:
  "get_row key (key r) rows \<noteq> None \<Longrightarrow> get_row key (key r) (put_row key r rows) = Some r"
  by (induction rows) auto

lemma get_put_other: "i \<noteq> key r \<Longrightarrow> get_row key i (put_row key r rows) = get_row key i rows"
  by (induction rows) auto

lemma unique_key_get_row:
  "unique_key key rows \<Longrightarrow> r \<in> set rows \<Longrightarrow> get_row key (key r) rows = Some r"
  by (induction rows) (force simp: unique_key_def)+

lemma set_put_row_subset: "set (put_row key r rows) \<subseteq> insert r (set rows)"
  by (induction rows) auto

lemma set_put_row:
  assumes "unique_key key rows" and "get_row key (key r) rows = Some q"
  shows "set (put_row key r rows) = insert r (set rows - {q})"
  using assms
proof (induction rows)
  case Nil
  then show ?case by simp
next
  case (Cons a rows)
  show ?case
  proof (cases "key a = key r")
    case True
    with Cons.prems have "a = q" and "key r \<notin> key ` set rows"
      by (auto simp: unique_key_def)
    moreover from this have "put_row key r rows = rows"
      unfolding put_row_def by (intro map_idI) (metis imageI)
    moreover from True \<open>key r \<notin> key ` set rows\<close> have "a \<notin> set rows"
      by (metis imageI)
    ultimately show ?thesis using True by auto
  next
    case False
    with Cons have "set (put_row key r rows) = insert r (set rows - {q})"
      by (auto simp: unique_key_def)
    moreover have "a \<noteq> q"
      using False Cons.prems(2) by (auto dest: get_row_SomeD)
    ultimately show ?thesis using False by auto
  qed
qed

lemma get_row_map:
  "(\<And>r. key (f r) = key r) \<Longrightarrow> get_row key i (map f rows) = map_option f (get_row key i rows)"
  by (induction rows) auto

text \<open>How many rows satisfy a condition, and what writing one row back does to it.\<close>

definition count_rows :: "('r \<Rightarrow> bool) \<Rightarrow> 'r list \<Rightarrow> nat" where
  "count_rows P rows = length (filter P rows)"

lemma count_rows_simps [simp]:
  "count_rows P [] = 0"
  "count_rows P (r # rows) = (if P r then 1 else 0) + count_rows P rows"
  "count_rows P (rows @ rows') = count_rows P rows + count_rows P rows'"
  by (simp_all add: count_rows_def)

lemma count_rows_zero: "count_rows P rows = 0 \<longleftrightarrow> (\<forall>r \<in> set rows. \<not> P r)"
  by (auto simp: count_rows_def filter_empty_conv)

lemma count_rows_mono: "(\<And>r. r \<in> set rows \<Longrightarrow> P r \<Longrightarrow> Q r) \<Longrightarrow> count_rows P rows \<le> count_rows Q rows"
  by (induction rows) (auto intro: le_SucI)

lemma count_rows_map:
  "(\<And>r. r \<in> set rows \<Longrightarrow> P (f r) \<Longrightarrow> P r) \<Longrightarrow> count_rows P (map f rows) \<le> count_rows P rows"
  by (induction rows) (auto intro: le_SucI)

lemma count_put_row:
  "(\<And>q. q \<in> set rows \<Longrightarrow> key q = key r \<Longrightarrow> P r \<Longrightarrow> P q) \<Longrightarrow>
     count_rows P (put_row key r rows) \<le> count_rows P rows"
  unfolding put_row_def by (rule count_rows_map) (auto split: if_splits)

lemma put_row_absent: "key r \<notin> key ` set rows \<Longrightarrow> put_row key r rows = rows"
  unfolding put_row_def by (intro map_idI) (metis imageI)

lemma count_put_row_Suc:
  "unique_key key rows \<Longrightarrow> count_rows P (put_row key r rows) \<le> Suc (count_rows P rows)"
  by (induction rows) (auto simp: unique_key_def put_row_absent)

lemmas row_laws = get_put_same get_put_other get_row_None_iff

section \<open>Decimal rendering\<close>

fun show_nat :: "nat \<Rightarrow> string" where
  "show_nat n =
     (if n < 10 then [char_of (48 + n)] else show_nat (n div 10) @ [char_of (48 + n mod 10)])"

declare show_nat.simps [simp del]

definition show_int :: "int \<Rightarrow> string" where
  "show_int k = (if k < 0 then ''-'' @ show_nat (nat (- k)) else show_nat (nat k))"

section \<open>Sequencing operations that may raise\<close>

definition and_then :: "'a result \<Rightarrow> ('a \<Rightarrow> 'b result) \<Rightarrow> 'b result" where
  "and_then r f = (case r of Inl e \<Rightarrow> Inl e | Inr x \<Rightarrow> f x)"

definition unless :: "bool \<Rightarrow> nat \<Rightarrow> string \<Rightarrow> unit result" where
  "unless bad st msg = (if bad then raise st msg else Inr ())"

text \<open>One transaction: an exception rolls it back.\<close>

definition transaction :: "'s \<Rightarrow> ('a \<times> 's) result \<Rightarrow> 'a result \<times> 's" where
  "transaction s r = (case r of Inl e \<Rightarrow> (Inl e, s) | Inr (x, s') \<Rightarrow> (Inr x, s'))"

lemma and_then_simps [simp]: "and_then (Inr x) f = f x" "and_then (Inl e) f = Inl e"
  by (simp_all add: and_then_def)

lemma and_then_Inr [guard_simps]: "and_then r f = Inr y \<longleftrightarrow> (\<exists>x. r = Inr x \<and> f x = Inr y)"
  by (cases r) simp_all

lemma unless_Inr [guard_simps]: "unless bad st msg = Inr x \<longleftrightarrow> \<not> bad"
  by (simp add: unless_def)

lemma transaction_Inl: "transaction s r = (Inl e, s') \<Longrightarrow> s' = s"
  by (auto simp: transaction_def split: sum.splits)

lemma transaction_Inr [guard_simps]: "transaction s r = (Inr x, s') \<longleftrightarrow> r = Inr (x, s')"
  by (auto simp: transaction_def split: sum.splits)

end
