(* ===== verification/Models.thy ===== *)
theory Models
  imports Prelude
begin

text \<open>
  The rows of \<open>src/models\<close> that the domain services read and write, one record per table.
  A nullable column is an \<open>option\<close>; a relationship that the repositories load eagerly
  (roles of a user, departments and permissions of an article, candidates of a draft) is a
  field holding the loaded rows. JSON columns are records of the keys the code reads;
  JSON values that are only passed through are kept as text. Timestamps kept by the
  database alone (\<open>created_at\<close> where nothing orders by it, \<open>updated_at\<close>) are left out.
\<close>

section \<open>Departments, roles and users (models/user.py, models/rbac.py)\<close>

record department =
  dept_id :: uuid
  dept_company :: string
  dept_name :: string
  dept_active :: bool
  review_required :: bool
  auto_publish_by :: "uuid option"

record department_manager =
  mgr_active :: bool
  mgr_department :: department

text \<open>The four permission scopes; a stored scope outside \<open>SCOPES\<close> is \<open>None\<close>.\<close>

datatype scope = Own | Department | Company | Global

record role_permission =
  rp_permission :: "string option"
  rp_scope :: "scope option"

record role =
  role_id :: uuid
  role_name :: string
  role_company :: "string option"
  role_active :: bool
  role_permissions :: "role_permission list"

record user =
  user_id :: uuid
  u_name :: string
  u_company :: string
  u_dept :: "string option"
  u_role :: string
  u_active :: bool
  u_roles :: "role list"
  u_departments :: "department list"
  u_department_ownerships :: "department_manager list"

section \<open>Articles (models/article.py)\<close>

datatype article_status = Draft_article | Pending_review | Published | Archived | Deleted

datatype effect = Allow | Deny

record article_user_permission =
  aup_user :: uuid
  aup_effect :: effect
  aup_source :: "string option"

record document_source =
  src_article :: "uuid option"
  source_system :: string
  source_ref :: string
  source_hash :: string
  storage_key :: "string option"
  original_filename :: "string option"
  mime_type :: "string option"
  page_texts :: "string option list option"

record article =
  article_id :: uuid
  a_title :: string
  a_external_id :: "string option"
  body_md :: string
  a_dept :: string
  a_domain :: string
  a_company :: string
  a_type :: string
  sensitivity :: string
  visibility :: string
  language :: string
  owner_id :: "uuid option"
  a_status :: article_status
  lifecycle_status :: string
  retention_until :: "instant option"
  legal_hold :: bool
  a_related :: "string list option"
  structured_metadata :: "string option"
  a_source_position :: "string option"
  version :: int
  last_reviewed :: "instant option"
  next_review :: "instant option"
  needs_update :: bool
  self_approved :: bool
  source_changed :: bool
  source_changed_at :: "instant option"
  index_status :: string
  index_error :: "string option"
  a_departments :: "department list"
  user_permissions :: "article_user_permission list"
  sources :: "document_source list"
  a_tags :: "string list"

text \<open>The JSON snapshot stored with every version of an article.\<close>

record snapshot =
  sn_title :: string
  sn_body_md :: string
  sn_dept :: string
  sn_department_ids :: "uuid list option"
  sn_domain :: string
  sn_type :: string
  sn_sensitivity :: string
  sn_visibility :: "string option"
  sn_explicit_user_ids :: "uuid list option"
  sn_denied_user_ids :: "uuid list option"
  sn_language :: string
  sn_external_id :: "string option"
  sn_tags :: "string list"
  sn_original_body_md :: "string option"
  sn_restored_from :: "int option"

record article_version =
  av_article :: uuid
  av_version :: int
  av_snapshot :: snapshot
  av_edited_by :: "uuid option"

section \<open>Drafts and governance rows (models/governance.py)\<close>

datatype draft_status = Draft | Pending | Approved | Rejected

datatype candidate_status = Candidate | Discarded | Committed

text \<open>
  A JSON list of ids: the key may be missing, may hold null, or may hold items that
  \<open>uuid.UUID\<close> accepts or refuses.
\<close>

datatype json_ids = MissingIds | NullIds | Ids "raw_id list"

datatype raw_date = DateText instant | BadDate string

record content_metadata =
  md_type :: "string option"
  md_dept :: "string option"
  md_sensitivity :: "string option"
  md_visibility :: "string option"
  md_domain :: "string option"
  md_language :: "string option"
  md_external_id :: "string option"
  md_next_review :: "raw_date option"
  md_submission_kind :: "string option"
  md_suggested_update :: "raw_id option"
  md_source_position :: "string option"
  md_department_names :: "string list"
  md_department_ids :: json_ids
  md_explicit_user_ids :: json_ids
  md_denied_user_ids :: json_ids

definition no_metadata :: content_metadata where
  "no_metadata = \<lparr>md_type = None, md_dept = None, md_sensitivity = None, md_visibility = None,
     md_domain = None, md_language = None, md_external_id = None, md_next_review = None,
     md_submission_kind = None, md_suggested_update = None, md_source_position = None,
     md_department_names = [], md_department_ids = MissingIds,
     md_explicit_user_ids = MissingIds, md_denied_user_ids = MissingIds\<rparr>"

record candidate =
  cand_id :: uuid
  cand_draft :: uuid
  position :: int
  cand_title :: string
  cand_body :: string
  source_start :: int
  source_end :: int
  cand_source_position :: "string option"
  heading :: "string option"
  cand_department_ids :: "uuid list option"
  cand_suggestions :: "string option"
  cand_proposed :: "string option"
  cand_status :: candidate_status
  cand_note :: "string option"

record pending_draft =
  draft_id :: uuid
  d_title :: string
  d_company :: string
  d_dept :: "string option"
  d_source_ref :: string
  d_source_hash :: string
  summary :: "string option"
  restructured_body_md :: "string option"
  restructure_candidate_md :: "string option"
  restructure_decision :: string
  restructure_status :: string
  restructure_model :: "string option"
  restructure_error :: "string option"
  d_storage_key :: "string option"
  d_original_filename :: "string option"
  d_mime_type :: "string option"
  d_page_texts :: "string option list option"
  similarity_matches :: "rat option list option"
  requires_update_confirmation :: bool
  update_target_article_id :: "uuid option"
  d_related :: "string list option"
  d_tags :: "string list option"
  d_metadata :: "content_metadata option"
  d_status :: draft_status
  created_by :: "uuid option"
  assigned_approver_id :: "uuid option"
  assigned_by :: "uuid option"
  assigned_at :: "instant option"
  reviewed_by :: "uuid option"
  reviewed_at :: "instant option"
  review_note :: "string option"
  external_document_id :: "uuid option"
  d_created_at :: instant
  candidates :: "candidate list"

text \<open>\<open>getattr(draft, "content_metadata", None) or {}\<close>\<close>

definition metadata :: "pending_draft \<Rightarrow> content_metadata" where
  "metadata d = (case d_metadata d of None \<Rightarrow> no_metadata | Some m \<Rightarrow> m)"

record draft_transition =
  tr_draft :: uuid
  from_status :: "draft_status option"
  to_status :: draft_status
  actor_id :: "uuid option"
  tr_reason :: "string option"

record approver_rule =
  ar_company :: string
  ar_dept :: string
  ar_approver :: uuid
  ar_active :: bool

datatype fingerprint_status = Fp_pending | Fp_approved

record ingestion_fingerprint =
  fp_company :: string
  fp_hash :: string
  fp_status :: fingerprint_status
  fp_article :: "uuid option"
  fp_created_by :: "uuid option"

datatype gap_status = Gap_open | Gap_assigned | Gap_dismissed

record gap =
  gap_id :: uuid
  gap_company :: string
  gap_query :: string
  gap_count :: int
  gap_dept :: "string option"
  gap_status :: gap_status

record audit_log =
  al_user :: "uuid option"
  al_action :: string
  al_target_type :: string
  al_target :: "uuid option"
  al_outcome :: string

record notification =
  nt_recipient :: "uuid option"
  nt_event :: string
  nt_subject :: uuid

section \<open>Connectors (models/ops.py, models/connectors.py)\<close>

record connector =
  conn_id :: uuid
  conn_system :: string
  conn_company :: string

text \<open>The ACL keys the approval reads from \<open>ExternalDocument.metadata_json\<close>.\<close>

record external_document =
  ext_id :: uuid
  ext_connector :: uuid
  ext_article :: "uuid option"
  ext_unmapped_groups :: "string list"
  ext_unmapped_users :: "string list"
  ext_unmapped_principals :: "string list"
  ext_mapped_departments :: "uuid list"
  ext_mapped_users :: "raw_id list"

section \<open>Orders on the model's types\<close>

text \<open>The rank table of \<open>get_effective_permissions\<close>: 1 for own up to 4 for global.\<close>

fun rank :: "scope \<Rightarrow> nat" where
  "rank Own = 1"
| "rank Department = 2"
| "rank Company = 3"
| "rank Global = 4"

lemma rank_inject [simp]: "rank a = rank b \<longleftrightarrow> a = b"
  by (cases a; cases b) simp_all

lemma rank_pos [simp]: "0 < rank a"
  by (cases a) simp_all

instantiation scope :: linorder
begin

definition less_eq_scope :: "scope \<Rightarrow> scope \<Rightarrow> bool" where
  "less_eq_scope a b = (rank a \<le> rank b)"

definition less_scope :: "scope \<Rightarrow> scope \<Rightarrow> bool" where
  "less_scope a b = (rank a < rank b)"

instance
  by standard (auto simp: less_eq_scope_def less_scope_def)

end

lemma scope_le_Global [simp]: "(a :: scope) \<le> Global"
  by (cases a) (simp_all add: less_eq_scope_def)

lemma Own_le_scope [simp]: "Own \<le> (a :: scope)"
  by (cases a) (simp_all add: less_eq_scope_def)

section \<open>Fixture rows\<close>

text \<open>Rows with every column at its default, from which the witnesses build their inputs.\<close>

definition blank_department :: department where
  "blank_department = \<lparr>dept_id = 1, dept_company = ''acme'', dept_name = ''HR'',
     dept_active = True, review_required = True, auto_publish_by = None\<rparr>"

definition blank_user :: user where
  "blank_user = \<lparr>user_id = 1, u_name = ''user'', u_company = ''acme'', u_dept = None,
     u_role = ''Staff'', u_active = True, u_roles = [], u_departments = [],
     u_department_ownerships = []\<rparr>"

definition blank_article :: article where
  "blank_article = \<lparr>article_id = 1, a_title = ''title'', a_external_id = None, body_md = ''body'',
     a_dept = ''HR'', a_domain = ''Ingestion'', a_company = ''acme'', a_type = ''SOP'',
     sensitivity = ''internal'', visibility = ''department'', language = ''vi'',
     owner_id = None, a_status = Published, lifecycle_status = ''active'',
     retention_until = None, legal_hold = False, a_related = None,
     structured_metadata = None, a_source_position = None, version = 1,
     last_reviewed = None, next_review = None, needs_update = False, self_approved = False,
     source_changed = False, source_changed_at = None, index_status = ''pending'',
     index_error = None, a_departments = [], user_permissions = [], sources = [],
     a_tags = []\<rparr>"

definition blank_draft :: pending_draft where
  "blank_draft = \<lparr>draft_id = 1, d_title = ''title'', d_company = ''acme'', d_dept = Some ''HR'',
     d_source_ref = ''ref'', d_source_hash = ''hash'', summary = Some ''text'',
     restructured_body_md = None, restructure_candidate_md = None,
     restructure_decision = ''not_reviewed'', restructure_status = ''pending'',
     restructure_model = None, restructure_error = None, d_storage_key = None,
     d_original_filename = None, d_mime_type = None, d_page_texts = None,
     similarity_matches = None, requires_update_confirmation = False,
     update_target_article_id = None, d_related = None, d_tags = None, d_metadata = None,
     d_status = Pending, created_by = None, assigned_approver_id = None, assigned_by = None,
     assigned_at = None, reviewed_by = None, reviewed_at = None, review_note = None,
     external_document_id = None, d_created_at = 0, candidates = []\<rparr>"

lemmas fixture_defs = blank_department_def blank_user_def blank_article_def blank_draft_def
  no_metadata_def

end
