(* ===== verification/Rbac.thy ===== *)
theory Rbac
  imports Models
begin

text \<open>
  \<open>src/domain/rbac.py\<close>: the permission catalogue, the default role grants,
  \<open>AuthorizationService\<close> over the eagerly loaded roles of a user, and \<open>bootstrap_rbac\<close>
  over the permission, role and user tables.
\<close>

section \<open>Catalogue and default grants\<close>

definition PERMISSION_CATALOG :: "string list" where
  "PERMISSION_CATALOG =
     [''article.read'', ''article.create'', ''article.edit'', ''article.publish'',
      ''article.delete'', ''article.review'', ''user.read'', ''user.manage'',
      ''role.manage'', ''permission.manage'', ''connector.manage'', ''ai.ask'',
      ''governance.read'']"

definition DEFAULT_ROLE_PERMISSIONS :: "(string \<times> (string \<times> scope) list) list" where
  "DEFAULT_ROLE_PERMISSIONS =
     [(''Admin'', map (\<lambda>key. (key, Global)) PERMISSION_CATALOG),
      (''CEO'',
        [(''article.read'', Company), (''article.create'', Company),
         (''article.edit'', Company), (''article.publish'', Company),
         (''article.review'', Company), (''article.delete'', Company),
         (''user.read'', Company), (''user.manage'', Company),
         (''connector.manage'', Company), (''governance.read'', Company),
         (''ai.ask'', Company)]),
      (''Reviewer'',
        [(''article.read'', Company), (''article.review'', Company),
         (''governance.read'', Company), (''ai.ask'', Company)]),
      (''Staff'',
        [(''article.read'', Company), (''article.create'', Own),
         (''article.edit'', Own), (''ai.ask'', Company)])]"

abbreviation default_grants :: "string \<Rightarrow> (string \<times> scope) list option" where
  "default_grants name \<equiv> map_of DEFAULT_ROLE_PERMISSIONS name"

definition legacy_roles_for_permission :: "string \<Rightarrow> string list" where
  "legacy_roles_for_permission permission =
     map fst (filter (\<lambda>(name, values). permission \<in> fst ` set values) DEFAULT_ROLE_PERMISSIONS)"

section \<open>Resources\<close>

text \<open>
  What \<open>_scope_allows\<close> reads of a resource through \<open>getattr\<close>: \<open>r_company\<close> is \<open>None\<close>
  when the object has no \<open>company_domain\<close>.
\<close>

record resource =
  r_company :: "string option"
  r_departments :: "string list"
  r_dept :: "string option"
  r_owner :: "uuid option"

definition article_resource :: "article \<Rightarrow> resource" where
  "article_resource a =
     \<lparr>r_company = Some (a_company a), r_departments = map dept_name (a_departments a),
      r_dept = Some (a_dept a), r_owner = owner_id a\<rparr>"

text \<open>A draft has no \<open>departments\<close> and no \<open>owner_id\<close> attribute.\<close>

definition draft_resource :: "pending_draft \<Rightarrow> resource" where
  "draft_resource d =
     \<lparr>r_company = Some (d_company d), r_departments = [], r_dept = d_dept d, r_owner = None\<rparr>"

section \<open>AuthorizationService\<close>

definition owned_department_names :: "user \<Rightarrow> string set" where
  "owned_department_names u =
     set (map (dept_name \<circ> mgr_department)
       (filter (\<lambda>m. mgr_active m \<and> dept_active (mgr_department m)
                  \<and> dept_company (mgr_department m) = u_company u)
         (u_department_ownerships u)))"

definition member_department_names :: "user \<Rightarrow> string set" where
  "member_department_names u =
     set (map dept_name
       (filter (\<lambda>d. dept_active d \<and> dept_company d = u_company u) (u_departments u)))"

definition article_department_names :: "article \<Rightarrow> string set" where
  "article_department_names a =
     {name \<in> set (map dept_name (filter dept_active (a_departments a)))
        \<union> (if a_dept a \<noteq> [] then {a_dept a} else {}). name \<noteq> []}"

definition same_tenant :: "user \<Rightarrow> resource \<Rightarrow> bool" where
  "same_tenant u r =
     ((case r_company r of None \<Rightarrow> u_company u | Some c \<Rightarrow> c) = u_company u)"

definition scope_allows :: "scope option \<Rightarrow> scope \<Rightarrow> user \<Rightarrow> resource option \<Rightarrow> bool" where
  "scope_allows granted requested u res =
     (case granted of
        None \<Rightarrow> False
      | Some Global \<Rightarrow> True
      | Some g \<Rightarrow>
          (case res of
             None \<Rightarrow> requested \<in> {Own, Department, Company} \<and> g \<in> {requested, Company, Global}
           | Some r \<Rightarrow>
               (if g = Company then
                  requested \<in> {Own, Department, Company} \<and> same_tenant u r
                else if g = Department then
                  requested \<in> {Own, Department} \<and> same_tenant u r
                  \<and> (Some ` set (r_departments r) \<union> {r_dept r})
                      \<inter> Some ` owned_department_names u \<noteq> {}
                else requested = Own \<and> r_owner r = Some (user_id u))))"

text \<open>Roles of the loop in \<open>has_permission\<close> that are not skipped.\<close>

definition role_counts :: "user \<Rightarrow> role \<Rightarrow> bool" where
  "role_counts u r =
     (role_active r \<and> (case role_company r of None \<Rightarrow> True | Some c \<Rightarrow> c = u_company u))"

definition has_permission ::
  "user \<Rightarrow> string \<Rightarrow> resource option \<Rightarrow> scope \<Rightarrow> bool" where
  "has_permission u key res requested =
     (let legacy = (if u_roles u = [] then
                      (case default_grants (u_role u) of
                         None \<Rightarrow> None
                       | Some grants \<Rightarrow> map_of grants key)
                    else None)
      in case legacy of
           Some s \<Rightarrow> scope_allows (Some s) requested u res
         | None \<Rightarrow>
             list_ex (\<lambda>r. role_counts u r \<and>
               list_ex (\<lambda>a. rp_permission a = Some key
                          \<and> scope_allows (rp_scope a) requested u res)
                 (role_permissions r))
               (u_roles u))"

definition privileged_role :: "user \<Rightarrow> bool" where
  "privileged_role u =
     (if u_roles u = [] then u_role u \<in> {''Admin'', ''CEO''}
      else list_ex (\<lambda>r. role_active r \<and> role_name r \<in> {''Admin'', ''CEO''}
                      \<and> role_company r \<in> {None, Some (u_company u)}) (u_roles u))"

definition has_full_company_article_access :: "user \<Rightarrow> bool" where
  "has_full_company_article_access u =
     (has_permission u ''article.read'' None Global
      \<or> privileged_role u \<and> has_permission u ''article.read'' None Company)"

definition can_access_article_departments :: "user \<Rightarrow> article \<Rightarrow> bool" where
  "can_access_article_departments u a =
     (has_permission u ''article.read'' None Global \<or> has_full_company_article_access u
      \<or> member_department_names u \<inter> article_department_names a \<noteq> {})"

definition restrict_article_metadata :: "user \<Rightarrow> article \<Rightarrow> article" where
  "restrict_article_metadata u a =
     (if has_permission u ''article.read'' None Global \<or> has_full_company_article_access u
      then a
      else
        let members = member_department_names u;
            visible = filter (\<lambda>d. dept_name d \<in> members) (a_departments a);
            a' = a\<lparr>a_departments := visible\<rparr>
        in (case visible of
              d # _ \<Rightarrow> if a_dept a \<notin> members then a'\<lparr>a_dept := dept_name d\<rparr> else a'
            | [] \<Rightarrow> a'))"

definition has_department_ownership :: "user \<Rightarrow> bool" where
  "has_department_ownership u = (owned_department_names u \<noteq> {})"

definition has_narrow_article_access :: "user \<Rightarrow> resource option \<Rightarrow> bool" where
  "has_narrow_article_access u res =
     (\<not> has_permission u ''article.read'' None Company
      \<and> list_ex (\<lambda>s. has_permission u ''article.read'' res s) [Own, Department])"

definition is_global_administrator :: "user \<Rightarrow> bool" where
  "is_global_administrator u =
     list_ex (\<lambda>r. role_active r \<and> role_name r = ''Admin'' \<and> role_company r = None) (u_roles u)"

definition has_global_identity_management :: "user \<Rightarrow> bool" where
  "has_global_identity_management u =
     list_ex (\<lambda>p. has_permission u p None Global)
       [''user.read'', ''user.manage'', ''role.manage'', ''permission.manage'']"

definition has_global_connector_management :: "user \<Rightarrow> bool" where
  "has_global_connector_management u = has_permission u ''connector.manage'' None Global"

definition has_global_governance_access :: "user \<Rightarrow> bool" where
  "has_global_governance_access u = has_permission u ''governance.read'' None Global"

definition has_global_article_access :: "user \<Rightarrow> bool" where
  "has_global_article_access u =
     list_ex (\<lambda>k. has_permission u k None Global)
       [''article.read'', ''article.create'', ''article.edit'', ''article.publish'',
        ''article.delete'', ''article.review'']"

text \<open>\<open>rank.get(scope, 0)\<close>, for an assigned or an absent scope.\<close>

definition rank_of :: "scope option \<Rightarrow> nat" where
  "rank_of s = (case s of None \<Rightarrow> 0 | Some x \<Rightarrow> rank x)"

text \<open>The inner loop of \<open>get_effective_permissions\<close> over one role's assignments.\<close>

fun merge_assignments ::
  "role_permission list \<Rightarrow> (string \<rightharpoonup> scope) \<Rightarrow> (string \<rightharpoonup> scope)" where
  "merge_assignments [] result = result"
| "merge_assignments (a # as) result =
     merge_assignments as
       (case (rp_permission a, rp_scope a) of
          (Some key, Some s) \<Rightarrow>
            if rank s > rank_of (result key) then result(key \<mapsto> s) else result
        | _ \<Rightarrow> result)"

fun merge_roles :: "user \<Rightarrow> role list \<Rightarrow> (string \<rightharpoonup> scope) \<Rightarrow> (string \<rightharpoonup> scope)" where
  "merge_roles u [] result = result"
| "merge_roles u (r # rs) result =
     merge_roles u rs
       (if role_counts u r then merge_assignments (role_permissions r) result else result)"

text \<open>
  The dictionary \<open>get_effective_permissions\<close> returns sorted by key. Its values only ever
  come from assignments that passed the rank comparison, so an unknown scope never enters.
\<close>

definition effective_permissions :: "user \<Rightarrow> (string \<rightharpoonup> scope)" where
  "effective_permissions u =
     (if u_roles u = [] then
        (case default_grants (u_role u) of None \<Rightarrow> Map.empty | Some grants \<Rightarrow> map_of grants)
      else merge_roles u (u_roles u) Map.empty)"

definition permission_keys :: "user \<Rightarrow> string list" where
  "permission_keys u =
     (if u_roles u = [] then
        (case default_grants (u_role u) of None \<Rightarrow> [] | Some grants \<Rightarrow> map fst grants)
      else concat (map (\<lambda>r. List.map_filter rp_permission (role_permissions r)) (u_roles u)))"

definition get_effective_permissions :: "user \<Rightarrow> (string \<times> scope) list" where
  "get_effective_permissions u =
     List.map_filter (\<lambda>key. map_option (Pair key) (effective_permissions u key))
       (sort (remdups (permission_keys u)))"

text \<open>
  The payload of \<open>authorization_fingerprint\<close>; the JSON rendering and SHA-256 of it are a
  parameter. Role and department rows are sorted by their (unique) ids.
\<close>

record authorization_payload =
  ap_user_id :: uuid
  ap_company :: string
  ap_dept :: "string option"
  ap_owned :: "string set"
  ap_roles :: "(uuid \<times> string \<times> string option \<times> bool) list"
  ap_permissions :: "(string \<times> scope) list"
  ap_departments :: "(uuid \<times> string) list"

definition authorization_payload_of :: "user \<Rightarrow> authorization_payload" where
  "authorization_payload_of u =
     \<lparr>ap_user_id = user_id u, ap_company = u_company u, ap_dept = u_dept u,
      ap_owned = owned_department_names u,
      ap_roles = map (\<lambda>r. (role_id r, role_name r, role_company r, role_active r))
                   (sort_key role_id (u_roles u)),
      ap_permissions = get_effective_permissions u,
      ap_departments = map (\<lambda>d. (dept_id d, dept_name d)) (sort_key dept_id (u_departments u))\<rparr>"

definition authorization_fingerprint ::
  "(authorization_payload \<Rightarrow> 'h) \<Rightarrow> user \<Rightarrow> 'h" where
  "authorization_fingerprint sha256_json u = sha256_json (authorization_payload_of u)"

section \<open>Grants\<close>

text \<open>The scopes an identity holds for a permission, whichever way it got them.\<close>

definition grants :: "user \<Rightarrow> string \<Rightarrow> scope set" where
  "grants u key =
     (if u_roles u = [] then
        (case default_grants (u_role u) of
           None \<Rightarrow> {}
         | Some gs \<Rightarrow> (case map_of gs key of None \<Rightarrow> {} | Some s \<Rightarrow> {s}))
      else {s. \<exists>r \<in> set (u_roles u). role_counts u r \<and>
                 (\<exists>a \<in> set (role_permissions r). rp_permission a = Some key \<and> rp_scope a = Some s)})"

lemma scope_allows_None [simp]: "\<not> scope_allows None requested u res"
  by (simp add: scope_allows_def)

lemma scope_allows_Global [simp]: "scope_allows (Some Global) requested u res"
  by (simp add: scope_allows_def)

lemma scope_allows_no_resource:
  "scope_allows (Some g) requested u None \<longleftrightarrow>
     g = Global \<or> (requested \<noteq> Global \<and> (g = requested \<or> g = Company))"
  by (cases g; cases requested) (simp_all add: scope_allows_def)

lemma has_permission_iff:
  "has_permission u key res requested \<longleftrightarrow>
     (\<exists>s \<in> grants u key. scope_allows (Some s) requested u res)"
proof (cases "u_roles u = []")
  case True
  then show ?thesis
    by (auto simp: has_permission_def grants_def Let_def split: option.splits)
next
  case False
  have scope: "scope_allows (rp_scope a) requested u res \<longleftrightarrow>
      (\<exists>s. rp_scope a = Some s \<and> scope_allows (Some s) requested u res)" for a
    by (cases "rp_scope a") simp_all
  from False show ?thesis
    unfolding has_permission_def grants_def Let_def scope
    by (auto simp: list_ex_iff)
qed

lemma has_global_permission: "has_permission u key None Global \<longleftrightarrow> Global \<in> grants u key"
  by (auto simp: has_permission_iff scope_allows_no_resource intro: bexI [of _ Global])

lemma has_permission_no_resource:
  "has_permission u key None requested \<longleftrightarrow>
     Global \<in> grants u key \<or>
     (requested \<noteq> Global \<and> (requested \<in> grants u key \<or> Company \<in> grants u key))"
  by (auto simp: has_permission_iff scope_allows_no_resource)

section \<open>Scope laws\<close>

lemma scope_allows_narrower:
  assumes "scope_allows g requested u (Some r)" and "narrow \<le> requested"
  shows "scope_allows g narrow u (Some r)"
  using assms
  by (cases g; cases "the g"; cases requested; cases narrow)
     (auto simp: scope_allows_def less_eq_scope_def)

lemma scope_allows_foreign:
  assumes "scope_allows (Some g) requested u (Some r)" and "g \<noteq> Global"
    and "r_company r = Some c" and "c \<noteq> u_company u"
  shows "requested = Own \<and> r_owner r = Some (user_id u)"
  using assms by (cases g) (auto simp: scope_allows_def same_tenant_def)

text \<open>
  What the services that ask for permissions rely on: a decision at a wide scope covers
  the narrower ones, a global grant covers every request, and a resource of another
  tenant is only reachable through a global grant or by its owner.
\<close>

locale scoped_authorization =
  fixes permit :: "user \<Rightarrow> string \<Rightarrow> resource option \<Rightarrow> scope \<Rightarrow> bool"
  assumes narrower:
      "permit u key (Some r) wide \<Longrightarrow> narrow \<le> wide \<Longrightarrow> permit u key (Some r) narrow"
    and bypass: "permit u key None Global \<Longrightarrow> permit u key res s"
    and foreign:
      "permit u key (Some r) s \<Longrightarrow> \<not> permit u key None Global \<Longrightarrow>
         r_company r = Some c \<Longrightarrow> c \<noteq> u_company u \<Longrightarrow> s = Own \<and> r_owner r = Some (user_id u)"
begin

lemma any_scope:
  "list_ex (permit u key (Some r)) [Own, Department, Company, Global] \<longleftrightarrow>
     permit u key (Some r) Own"
  using narrower [of u key r _ Own] by auto

lemma some_scope:
  "list_ex (permit u key (Some r)) [Own, Department, Company] \<longleftrightarrow> permit u key (Some r) Own"
  using narrower [of u key r _ Own] by auto

lemma ownerless_foreign:
  assumes "permit u key (Some r) s" and "\<not> permit u key None Global"
    and "r_company r = Some c" and "r_owner r = None"
  shows "c = u_company u"
  using foreign [OF assms(1-3)] assms(4) by auto

end

interpretation rbac: scoped_authorization has_permission
proof
  fix u key r wide narrow
  assume "has_permission u key (Some r) wide" and "(narrow :: scope) \<le> wide"
  then show "has_permission u key (Some r) narrow"
    by (auto simp: has_permission_iff intro: scope_allows_narrower)
next
  fix u key res s
  assume "has_permission u key None Global"
  then show "has_permission u key res s"
    unfolding has_global_permission unfolding has_permission_iff
    by (intro bexI [of _ Global]) simp_all
next
  fix u key r s c
  assume "has_permission u key (Some r) s" and ng: "\<not> has_permission u key None Global"
    and c: "r_company r = Some c" "c \<noteq> u_company u"
  then obtain g where g: "g \<in> grants u key" "scope_allows (Some g) s u (Some r)"
    by (auto simp: has_permission_iff)
  from ng g(1) have "g \<noteq> Global" by (auto simp: has_global_permission)
  from scope_allows_foreign [OF g(2) this c]
  show "s = Own \<and> r_owner r = Some (user_id u)" .
qed

section \<open>Effective permissions\<close>

lemma rank_of_simps [simp]: "rank_of None = 0" "rank_of (Some s) = rank s"
  by (simp_all add: rank_of_def)

lemma finite_scopes [simp]: "finite (S :: scope set)"
  by (rule finite_subset [of _ "{Own, Department, Company, Global}"])
     (auto intro: scope.exhaust)

definition best :: "scope set \<Rightarrow> scope option" where
  "best S = (if S = {} then None else Some (Max S))"

text \<open>One step of the merge keeps the larger scope.\<close>

lemma best_insert: "(if rank s > rank_of (best S) then Some s else best S) = best (insert s S)"
  by (cases "S = {}") (auto simp: best_def max_def less_eq_scope_def)

lemma merge_assignments_best:
  assumes "\<And>k. result k = best (S k)"
  shows "merge_assignments xs result key =
     best (S key \<union> {s. \<exists>a \<in> set xs. rp_permission a = Some key \<and> rp_scope a = Some s})"
  using assms
proof (induction xs arbitrary: result S)
  case Nil
  then show ?case by simp
next
  case (Cons a as)
  show ?case
  proof (cases "\<exists>k s. rp_permission a = Some k \<and> rp_scope a = Some s")
    case True
    then obtain k s where ks: "rp_permission a = Some k" "rp_scope a = Some s" by blast
    let ?S = "S(k := insert s (S k))"
    let ?result = "if rank s > rank_of (result k) then result(k \<mapsto> s) else result"
    have "?result k' = best (?S k')" for k'
      using Cons.prems best_insert [where S = "S k" and s = s] by (auto split: if_splits)
    then have "merge_assignments as ?result key =
        best (?S key \<union> {s. \<exists>a \<in> set as. rp_permission a = Some key \<and> rp_scope a = Some s})"
      by (rule Cons.IH)
    moreover have "?S key \<union> {s. \<exists>a \<in> set as. rp_permission a = Some key \<and> rp_scope a = Some s} =
        S key \<union> {s. \<exists>a \<in> set (a # as). rp_permission a = Some key \<and> rp_scope a = Some s}"
      using ks by auto
    ultimately show ?thesis using ks by simp
  next
    case False
    then have "merge_assignments (a # as) result = merge_assignments as result"
      by (auto split: option.splits)
    moreover have "{s. \<exists>a \<in> set as. rp_permission a = Some key \<and> rp_scope a = Some s} =
        {s. \<exists>b \<in> set (a # as). rp_permission b = Some key \<and> rp_scope b = Some s}"
      using False by auto
    ultimately show ?thesis using Cons.IH [OF Cons.prems] by simp
  qed
qed

lemma merge_roles_best:
  assumes "\<And>k. result k = best (S k)"
  shows "merge_roles u rs result key =
     best (S key \<union> {s. \<exists>r \<in> set rs. role_counts u r \<and>
       (\<exists>a \<in> set (role_permissions r). rp_permission a = Some key \<and> rp_scope a = Some s)})"
  using assms
proof (induction rs arbitrary: result S)
  case Nil
  then show ?case by simp
next
  case (Cons r rs)
  let ?new = "\<lambda>k. if role_counts u r
      then {s. \<exists>a \<in> set (role_permissions r). rp_permission a = Some k \<and> rp_scope a = Some s}
      else {}"
  have "(if role_counts u r then merge_assignments (role_permissions r) result else result) k =
      best (S k \<union> ?new k)" for k
    using merge_assignments_best [of result S "role_permissions r" k, OF Cons.prems] Cons.prems
    by simp
  from Cons.IH [OF this] show ?case
    by (auto intro!: arg_cong [where f = best])
qed

lemma effective_permissions_best: "effective_permissions u key = best (grants u key)"
proof (cases "u_roles u = []")
  case True
  then show ?thesis
    by (auto simp: effective_permissions_def grants_def best_def split: option.splits)
next
  case False
  then show ?thesis
    using merge_roles_best [of Map.empty "\<lambda>_. {}" u "u_roles u" key]
    by (simp add: effective_permissions_def grants_def best_def)
qed

lemma effective_permissions_SomeD:
  "effective_permissions u key = Some s \<Longrightarrow> s \<in> grants u key \<and> (\<forall>g \<in> grants u key. g \<le> s)"
  by (auto simp: effective_permissions_best best_def split: if_splits intro: Max_in)

lemma grants_key: "s \<in> grants u key \<Longrightarrow> key \<in> set (permission_keys u)"
  by (auto simp: grants_def permission_keys_def List.map_filter_def image_iff
      split: if_splits option.splits dest!: map_of_SomeD; force)

lemma in_effective_list:
  "(key, s) \<in> set (get_effective_permissions u) \<longleftrightarrow> effective_permissions u key = Some s"
proof -
  have "effective_permissions u key = Some s \<Longrightarrow> key \<in> set (permission_keys u)"
    using effective_permissions_SomeD grants_key by blast
  then show ?thesis
    by (auto simp: get_effective_permissions_def List.map_filter_def image_iff)
qed

lemma sorted_map_filter_keys:
  "sorted xs \<Longrightarrow> sorted (map fst (List.map_filter (\<lambda>k. map_option (Pair k) (f k)) xs))"
  by (induction xs) (auto simp: List.map_filter_def split: option.splits)

lemma distinct_map_filter_keys:
  "distinct xs \<Longrightarrow> distinct (map fst (List.map_filter (\<lambda>k. map_option (Pair k) (f k)) xs))"
  by (induction xs) (auto simp: List.map_filter_def split: option.splits)

section \<open>Properties\<close>

text \<open>
  C8: tenant isolation of \<open>AuthorizationService.has_permission\<close>. An identity without a
  global grant for a permission is never allowed an action on a resource of another
  company, unless it owns the resource and asked for the own scope.
\<close>

theorem has_permission_tenant_isolation:
  assumes "has_permission u key (Some r) requested"
    and "\<not> has_permission u key None Global"
    and "r_company r = Some c" and "c \<noteq> u_company u"
  shows "requested = Own \<and> r_owner r = Some (user_id u)"
  using assms by (rule rbac.foreign)

theorem has_permission_tenant_isolation_witness:
  "\<exists>u r. has_permission u ''article.edit'' (Some r) Own \<and> r_company r = Some ''other''
     \<and> u_company u = ''acme'' \<and> r_owner r = Some (user_id u)"
proof -
  let ?r = "\<lparr>r_company = Some ''other'', r_departments = [], r_dept = None, r_owner = Some 1\<rparr>"
  have p: "has_permission blank_user ''article.edit'' (Some ?r) Own"
    and g: "\<not> has_permission blank_user ''article.edit'' None Global"
    by (simp_all add: has_permission_def scope_allows_def DEFAULT_ROLE_PERMISSIONS_def
        blank_user_def)
  have c: "r_company ?r = Some ''other''" and n: "''other'' \<noteq> u_company blank_user"
    by (simp_all add: blank_user_def)
  from has_permission_tenant_isolation [OF p g c n] p c show ?thesis
    by (intro exI [of _ blank_user] exI [of _ ?r]) (simp add: blank_user_def)
qed

text \<open>
  \<open>get_effective_permissions\<close> is a faithful summary of \<open>has_permission\<close>. The list has
  one entry per key, in key order; every listed scope is really granted, and whatever
  \<open>has_permission\<close> grants without a resource is listed at that scope or a wider one.
\<close>

theorem effective_permissions_correct:
  "sorted (map fst (get_effective_permissions u)) \<and> distinct (map fst (get_effective_permissions u))
   \<and> (\<forall>(key, s) \<in> set (get_effective_permissions u). has_permission u key None s)
   \<and> (\<forall>key requested. has_permission u key None requested \<longrightarrow>
        (\<exists>s. (key, s) \<in> set (get_effective_permissions u) \<and> requested \<le> s))"
proof (intro conjI)
  show "sorted (map fst (get_effective_permissions u))"
    by (simp add: get_effective_permissions_def sorted_map_filter_keys)
  show "distinct (map fst (get_effective_permissions u))"
    by (simp add: get_effective_permissions_def distinct_map_filter_keys)
  show "\<forall>(key, s) \<in> set (get_effective_permissions u). has_permission u key None s"
    by (auto simp: in_effective_list has_permission_no_resource dest!: effective_permissions_SomeD)
  show "\<forall>key requested. has_permission u key None requested \<longrightarrow>
      (\<exists>s. (key, s) \<in> set (get_effective_permissions u) \<and> requested \<le> s)"
  proof (intro allI impI)
    fix key requested
    assume "has_permission u key None requested"
    then obtain g where g: "g \<in> grants u key" "requested \<le> g"
      by (cases requested) (auto simp: has_permission_no_resource less_eq_scope_def)
    then have s: "effective_permissions u key = Some (Max (grants u key))"
      by (auto simp: effective_permissions_best best_def)
    let ?s = "Max (grants u key)"
    from g effective_permissions_SomeD [OF s] have "requested \<le> ?s" by (blast intro: order_trans)
    with s show "\<exists>s. (key, s) \<in> set (get_effective_permissions u) \<and> requested \<le> s"
      by (auto simp: in_effective_list)
  qed
qed

theorem effective_permissions_correct_witness:
  "(''ai.ask'', Company) \<in> set (get_effective_permissions blank_user)"
proof -
  have "has_permission blank_user ''ai.ask'' None Company"
    by (simp add: has_permission_def scope_allows_def DEFAULT_ROLE_PERMISSIONS_def blank_user_def)
  with effective_permissions_correct [of blank_user]
  obtain s where s: "(''ai.ask'', s) \<in> set (get_effective_permissions blank_user)"
    by blast
  moreover have "effective_permissions blank_user ''ai.ask'' = Some Company"
    by (simp add: effective_permissions_def DEFAULT_ROLE_PERMISSIONS_def blank_user_def)
  ultimately show ?thesis by (simp add: in_effective_list)
qed

text \<open>
  Redaction of department labels. For a reader who sees an article because of a shared
  department, and who is neither a global nor a full-company reader, the redacted article
  carries only labels of departments that reader belongs to, the primary label included.
\<close>

theorem restrict_article_metadata_hides:
  assumes "can_access_article_departments u a"
    and "\<not> has_full_company_article_access u"
  shows "dept_name ` set (a_departments (restrict_article_metadata u a))
           \<union> {a_dept (restrict_article_metadata u a)} \<subseteq> member_department_names u"
proof -
  have ng: "\<not> has_permission u ''article.read'' None Global"
    using assms(2) by (simp add: has_full_company_article_access_def)
  with assms have shared: "member_department_names u \<inter> article_department_names a \<noteq> {}"
    by (simp add: can_access_article_departments_def)
  define vis where "vis = filter (\<lambda>d. dept_name d \<in> member_department_names u) (a_departments a)"
  have vis: "dept_name ` set vis \<subseteq> member_department_names u"
    by (auto simp: vis_def)
  show ?thesis
  proof (cases vis)
    case Nil
    with shared have "a_dept a \<in> member_department_names u"
      by (auto simp: vis_def article_department_names_def filter_empty_conv split: if_splits)
    with Nil assms(2) ng show ?thesis
      by (simp add: restrict_article_metadata_def Let_def flip: vis_def)
  next
    case (Cons d ds)
    with vis assms(2) ng show ?thesis
      by (simp add: restrict_article_metadata_def Let_def flip: vis_def)
  qed
qed

definition hr_member :: user where
  "hr_member = blank_user\<lparr>u_departments := [blank_department]\<rparr>"

theorem restrict_article_metadata_hides_witness:
  "a_dept (restrict_article_metadata hr_member
     (blank_article\<lparr>a_dept := ''Finance'', a_departments := [blank_department]\<rparr>))
   \<in> member_department_names hr_member"
proof -
  let ?a = "blank_article\<lparr>a_dept := ''Finance'', a_departments := [blank_department]\<rparr>"
  have "can_access_article_departments hr_member ?a"
    by (simp add: can_access_article_departments_def member_department_names_def
        article_department_names_def hr_member_def fixture_defs)
  moreover have "\<not> has_full_company_article_access hr_member"
    by (simp add: has_full_company_article_access_def privileged_role_def has_permission_def
        scope_allows_def DEFAULT_ROLE_PERMISSIONS_def hr_member_def blank_user_def)
  ultimately show ?thesis using restrict_article_metadata_hides [of hr_member ?a] by blast
qed

end
