(* ===== verification/Permissions.thy ===== *)
theory Permissions
  imports Rbac
begin

text \<open>
  \<open>src/domain/connector_providers.py\<close> (provider vocabulary), \<open>src/domain/permissions.py\<close>
  (\<open>PermissionService\<close>, the decision on a loaded article) and the visibility predicate of
  \<open>src/repositories/article.py\<close> (\<open>_authorized_article_filters\<close>, the same decision as a
  query filter), with the relation between the two.
\<close>

section \<open>Connector providers\<close>

definition REMOTE_PROVIDERS :: "string set" where
  "REMOTE_PROVIDERS = {''sharepoint'', ''onedrive'', ''google_drive''}"

definition CONNECTOR_PROVIDERS :: "string set" where
  "CONNECTOR_PROVIDERS = REMOTE_PROVIDERS \<union> {''local_folder''}"

definition MICROSOFT_GRAPH_PROVIDERS :: "string set" where
  "MICROSOFT_GRAPH_PROVIDERS = {''sharepoint'', ''onedrive''}"

definition SOURCE_ACL_PROVIDERS :: "string list" where
  "SOURCE_ACL_PROVIDERS = sorted_list_of_set REMOTE_PROVIDERS"

definition is_microsoft_graph :: "string option \<Rightarrow> bool" where
  "is_microsoft_graph system = (\<exists>s \<in> MICROSOFT_GRAPH_PROVIDERS. system = Some s)"

definition identity_provider :: "string option \<Rightarrow> string" where
  "identity_provider system =
     (if is_microsoft_graph system then ''microsoft_entra''
      else case system of None \<Rightarrow> ''None'' | Some s \<Rightarrow> s)"

definition cursor_type :: "string option \<Rightarrow> string" where
  "cursor_type system = (if is_microsoft_graph system then ''delta'' else ''changes'')"

definition supports_lifecycle_webhooks :: "string option \<Rightarrow> bool" where
  "supports_lifecycle_webhooks system = is_microsoft_graph system"

definition acl_present_key :: "string option \<Rightarrow> string" where
  "acl_present_key system =
     (if system = Some ''sharepoint'' then ''sharepoint_acl_present''
      else ''provider_acl_present'')"

lemma set_SOURCE_ACL_PROVIDERS [simp]: "set SOURCE_ACL_PROVIDERS = REMOTE_PROVIDERS"
  by (auto simp: SOURCE_ACL_PROVIDERS_def REMOTE_PROVIDERS_def)

section \<open>PermissionService\<close>

definition explicit_user_effect :: "user \<Rightarrow> article \<Rightarrow> effect option" where
  "explicit_user_effect u a =
     (let effects = set (map aup_effect
                      (filter (\<lambda>p. aup_user p = user_id u) (user_permissions a)))
      in if Deny \<in> effects then Some Deny else if Allow \<in> effects then Some Allow else None)"

definition governed_by :: "article \<Rightarrow> string set" where
  "governed_by a = set (map source_system (sources a)) \<inter> set SOURCE_ACL_PROVIDERS"

definition shares_department_id :: "user \<Rightarrow> article \<Rightarrow> bool" where
  "shares_department_id u a =
     (dept_id ` set (u_departments u) \<inter> dept_id ` set (a_departments a) \<noteq> {})"

definition source_acl_allows :: "user \<Rightarrow> article \<Rightarrow> bool" where
  "source_acl_allows u a =
     (governed_by a = {}
      \<or> list_ex (\<lambda>p. aup_user p = user_id u \<and> aup_effect p = Allow
                   \<and> (\<exists>s \<in> governed_by a. aup_source p = Some s)) (user_permissions a)
      \<or> shares_department_id u a)"

definition governance_access :: "user \<Rightarrow> article \<Rightarrow> bool" where
  "governance_access u a =
     list_ex (\<lambda>permission.
         list_ex (has_permission u permission (Some (article_resource a)))
           [Own, Department, Company, Global])
       [''article.review'', ''article.publish'', ''article.edit'', ''article.delete'']"

definition can_view_article :: "user \<Rightarrow> article \<Rightarrow> bool" where
  "can_view_article u a =
     (if a_status a = Deleted \<or> lifecycle_status a \<noteq> ''active'' then False
      else if \<not> list_ex (has_permission u ''article.read'' (Some (article_resource a)))
                  [Own, Department, Company, Global] then False
      else
        let explicit_effect = explicit_user_effect u a in
        if explicit_effect = Some Deny then False
        else if \<not> source_acl_allows u a then False
        else if visibility a = ''users'' then explicit_effect = Some Allow
        else if a_status a \<in> {Draft_article, Pending_review, Archived}
             \<and> owner_id a \<noteq> Some (user_id u) \<and> \<not> governance_access u a then False
        else if has_full_company_article_access u then True
        else if explicit_effect = Some Allow then True
        else if sensitivity a = ''restricted'' \<and> \<not> shares_department_id u a then False
        else can_access_article_departments u a)"

definition can_edit_article :: "user \<Rightarrow> article \<Rightarrow> bool" where
  "can_edit_article u a =
     list_ex (has_permission u ''article.edit'' (Some (article_resource a)))
       [Own, Department, Company]"

definition can_delete_article :: "user \<Rightarrow> article \<Rightarrow> bool" where
  "can_delete_article u a =
     list_ex (has_permission u ''article.delete'' (Some (article_resource a)))
       [Own, Department, Company]"

section \<open>The query filter of ArticleRepository\<close>

definition has_article_read_permission :: "user \<Rightarrow> bool" where
  "has_article_read_permission u =
     list_ex (has_permission u ''article.read'' None) [Own, Department, Company, Global]"

definition in_departments :: "string set \<Rightarrow> article \<Rightarrow> bool" where
  "in_departments names a =
     (a_dept a \<in> names \<or> list_ex (\<lambda>d. dept_name d \<in> names) (a_departments a))"

definition has_override :: "user \<Rightarrow> effect \<Rightarrow> article \<Rightarrow> bool" where
  "has_override u e a =
     list_ex (\<lambda>p. aup_user p = user_id u \<and> aup_effect p = e) (user_permissions a)"

definition source_explicit_allow :: "user \<Rightarrow> article \<Rightarrow> bool" where
  "source_explicit_allow u a =
     list_ex (\<lambda>p. aup_user p = user_id u \<and> aup_effect p = Allow
                \<and> (\<exists>s \<in> set SOURCE_ACL_PROVIDERS. aup_source p = Some s)) (user_permissions a)"

text \<open>The audience clause: the \<open>if not (global_read or full_company_access)\<close> branch and its else.\<close>

definition audience_filter :: "user \<Rightarrow> article \<Rightarrow> bool" where
  "audience_filter u a =
     (if \<not> (has_permission u ''article.read'' None Global
            \<or> has_full_company_article_access u)
      then
        let members = member_department_names u
              \<union> (case u_dept u of Some d \<Rightarrow> if d \<noteq> [] then {d} else {} | None \<Rightarrow> {});
            owned = owned_department_names u;
            owned_scope = (has_permission u ''article.read'' None Department
                           \<and> owned \<noteq> {} \<and> in_departments owned a)
        in (visibility a \<noteq> ''users''
              \<and> (in_departments members a \<or> sensitivity a = ''public''
                 \<or> owner_id a = Some (user_id u) \<or> has_override u Allow a \<or> owned_scope))
           \<or> (visibility a = ''users'' \<and> has_override u Allow a)
      else visibility a \<noteq> ''users'' \<or> has_override u Allow a)"

definition source_acl_filter :: "user \<Rightarrow> article \<Rightarrow> bool" where
  "source_acl_filter u a =
     (\<not> list_ex (\<lambda>s. source_system s \<in> set SOURCE_ACL_PROVIDERS) (sources a)
      \<or> source_explicit_allow u a \<or> shares_department_id u a)"

definition unpublished_filter :: "user \<Rightarrow> article \<Rightarrow> bool" where
  "unpublished_filter u a =
     (a_status a = Published
      \<or> (if has_permission u ''article.review'' None Global
             \<or> has_permission u ''article.publish'' None Global then True
         else if has_permission u ''article.review'' None Company
             \<or> has_permission u ''article.publish'' None Company then True
         else
           ((has_permission u ''article.review'' None Department
               \<or> has_permission u ''article.publish'' None Department)
             \<and> owned_department_names u \<noteq> {} \<and> in_departments (owned_department_names u) a)
           \<or> (list_ex (\<lambda>key. has_permission u key None Own)
                [''article.review'', ''article.publish'', ''article.edit'', ''article.delete'']
              \<and> owner_id a = Some (user_id u))))"

definition authorized_article_filters :: "department list \<Rightarrow> user \<Rightarrow> article \<Rightarrow> bool" where
  "authorized_article_filters departments u a =
     (has_article_read_permission u
      \<and> lifecycle_status a = ''active'' \<and> a_status a \<noteq> Deleted
      \<and> list_ex (\<lambda>d. dept_company d = a_company a \<and> dept_name d = a_dept a \<and> dept_active d)
          departments
      \<and> \<not> has_override u Deny a
      \<and> (has_permission u ''article.read'' None Global \<or> a_company a = u_company u)
      \<and> audience_filter u a \<and> source_acl_filter u a \<and> unpublished_filter u a)"

definition get_article_by_id ::
  "department list \<Rightarrow> article list \<Rightarrow> uuid \<Rightarrow> user option \<Rightarrow> article option" where
  "get_article_by_id departments articles i viewer =
     (case viewer of
        None \<Rightarrow> get_row article_id i articles
      | Some u \<Rightarrow>
          find (\<lambda>a. article_id a = i \<and> authorized_article_filters departments u a) articles)"

section \<open>Lemmas\<close>

lemma explicit_user_effect_iff:
  "explicit_user_effect u a = Some Deny \<longleftrightarrow> has_override u Deny a"
  "explicit_user_effect u a = Some Allow \<longleftrightarrow> has_override u Allow a \<and> \<not> has_override u Deny a"
  by (auto simp: explicit_user_effect_def has_override_def list_ex_iff Let_def image_iff)

lemma article_read_any_scope:
  "list_ex (has_permission u key (Some (article_resource a))) [Own, Department, Company, Global]
     \<longleftrightarrow> has_permission u key (Some (article_resource a)) Own"
  by (rule rbac.any_scope)

lemma article_resource_simps [simp]:
  "r_company (article_resource a) = Some (a_company a)"
  "r_owner (article_resource a) = owner_id a"
  by (simp_all add: article_resource_def)

text \<open>The clauses of \<open>can_view_article\<close> without the early returns.\<close>

lemma can_view_article_iff:
  "can_view_article u a \<longleftrightarrow>
     a_status a \<noteq> Deleted \<and> lifecycle_status a = ''active''
     \<and> has_permission u ''article.read'' (Some (article_resource a)) Own
     \<and> \<not> has_override u Deny a \<and> source_acl_allows u a
     \<and> (if visibility a = ''users'' then has_override u Allow a
        else (a_status a = Published \<or> owner_id a = Some (user_id u) \<or> governance_access u a)
          \<and> (has_full_company_article_access u \<or> has_override u Allow a
             \<or> (sensitivity a = ''restricted'' \<longrightarrow> shares_department_id u a)
               \<and> can_access_article_departments u a))"
proof -
  have status: "a_status a \<in> {Draft_article, Pending_review, Archived} \<longleftrightarrow>
      a_status a \<noteq> Published \<and> a_status a \<noteq> Deleted"
    by (cases "a_status a") simp_all
  show ?thesis
    unfolding can_view_article_def article_read_any_scope Let_def explicit_user_effect_iff status
    by auto
qed

lemma source_acl_allows_filter: "source_acl_allows u a \<Longrightarrow> source_acl_filter u a"
  by (auto simp: source_acl_allows_def source_acl_filter_def source_explicit_allow_def
      governed_by_def list_ex_iff)

text \<open>
  A provider's permission row only appears on an article that has a source of that
  provider: what the connector sync writes.
\<close>

definition provider_rows_match :: "article \<Rightarrow> bool" where
  "provider_rows_match a =
     list_all (\<lambda>p. case aup_source p of None \<Rightarrow> True
                 | Some s \<Rightarrow> s \<in> set SOURCE_ACL_PROVIDERS \<longrightarrow> s \<in> governed_by a)
       (user_permissions a)"

lemma source_acl_filter_allows:
  assumes "provider_rows_match a" and "source_acl_filter u a"
  shows "source_acl_allows u a"
proof (cases "governed_by a = {}")
  case True
  then show ?thesis by (simp add: source_acl_allows_def)
next
  case False
  with assms(2) have "source_explicit_allow u a \<or> shares_department_id u a"
    by (auto simp: source_acl_filter_def governed_by_def list_ex_iff)
  then show ?thesis
  proof
    assume "source_explicit_allow u a"
    then obtain p s where p: "p \<in> set (user_permissions a)" "aup_user p = user_id u"
      "aup_effect p = Allow" "aup_source p = Some s" "s \<in> set SOURCE_ACL_PROVIDERS"
      unfolding source_explicit_allow_def list_ex_iff by blast
    from assms(1) p(1,4,5) have "s \<in> governed_by a"
      by (fastforce simp: provider_rows_match_def list_all_iff)
    with p show ?thesis unfolding source_acl_allows_def list_ex_iff by blast
  qed (simp add: source_acl_allows_def)
qed

lemma same_tenant_article: "same_tenant u (article_resource a) \<longleftrightarrow> a_company a = u_company u"
  by (simp add: same_tenant_def)

lemma company_grant_on_article:
  assumes "has_permission u key None Company" and "a_company a = u_company u"
  shows "has_permission u key (Some (article_resource a)) Own"
proof -
  from assms(1) obtain g where "g \<in> grants u key" "g = Global \<or> g = Company"
    by (auto simp: has_permission_no_resource)
  moreover from assms(2) have "scope_allows (Some Company) Own u (Some (article_resource a))"
    by (simp add: scope_allows_def same_tenant_article)
  ultimately show ?thesis unfolding has_permission_iff by (intro bexI [of _ g]) auto
qed

lemma full_access_company_read:
  "has_full_company_article_access u \<Longrightarrow> has_permission u ''article.read'' None Company"
  by (auto simp: has_full_company_article_access_def intro: rbac.bypass)

section \<open>Properties\<close>

text \<open>
  Tenant isolation of \<open>PermissionService.can_view_article\<close>. A reader without a global
  read grant sees no article of another company, except one it owns itself.
\<close>

theorem can_view_article_tenant:
  assumes "can_view_article u a" and "\<not> has_permission u ''article.read'' None Global"
  shows "a_company a = u_company u \<or> owner_id a = Some (user_id u)"
  using assms rbac.foreign [of u "''article.read''" "article_resource a" Own "a_company a"]
  by (auto simp: can_view_article_iff)

theorem can_view_article_tenant_witness:
  "a_company (blank_article\<lparr>a_departments := [blank_department]\<rparr>) = u_company hr_member
   \<or> owner_id (blank_article\<lparr>a_departments := [blank_department]\<rparr>) = Some (user_id hr_member)"
proof (rule can_view_article_tenant)
  show "can_view_article hr_member (blank_article\<lparr>a_departments := [blank_department]\<rparr>)"
    by (simp add: can_view_article_iff has_permission_def scope_allows_def same_tenant_def
        article_resource_def has_override_def source_acl_allows_def governed_by_def
        can_access_article_departments_def member_department_names_def
        article_department_names_def DEFAULT_ROLE_PERMISSIONS_def hr_member_def fixture_defs)
  show "\<not> has_permission hr_member ''article.read'' None Global"
    by (simp add: has_permission_def scope_allows_def DEFAULT_ROLE_PERMISSIONS_def
        hr_member_def blank_user_def)
qed

text \<open>
  C14: the boundaries every visible article respects. A deleted or inactive article is never
  visible; an explicit deny wins over every grant; an article with a provider source needs
  a provider allow for that reader or a shared department; explicit-user visibility needs
  an explicit allow; unpublished content is shown to its owner and to governance only; and
  restricted content needs a shared department, an explicit allow or full company access.
\<close>

theorem can_view_article_boundaries:
  assumes "can_view_article u a"
  shows "a_status a \<noteq> Deleted \<and> lifecycle_status a = ''active''
    \<and> (\<forall>p \<in> set (user_permissions a). aup_user p = user_id u \<longrightarrow> aup_effect p = Allow)
    \<and> (governed_by a \<noteq> {} \<longrightarrow>
         (\<exists>p \<in> set (user_permissions a). aup_user p = user_id u
            \<and> (\<exists>s \<in> governed_by a. aup_source p = Some s)) \<or> shares_department_id u a)
    \<and> (visibility a = ''users'' \<longrightarrow> (\<exists>p \<in> set (user_permissions a). aup_user p = user_id u))
    \<and> (a_status a \<noteq> Published \<and> visibility a \<noteq> ''users'' \<longrightarrow>
         owner_id a = Some (user_id u) \<or> governance_access u a)
    \<and> (sensitivity a = ''restricted'' \<and> visibility a \<noteq> ''users'' \<longrightarrow>
         has_full_company_article_access u \<or> has_override u Allow a \<or> shares_department_id u a)"
proof -
  note v = assms [unfolded can_view_article_iff]
  have "aup_effect p = Allow" if "p \<in> set (user_permissions a)" "aup_user p = user_id u" for p
    using v that by (cases "aup_effect p") (auto simp: has_override_def list_ex_iff)
  moreover have "visibility a = ''users'' \<Longrightarrow> has_override u Allow a" using v by simp
  moreover have "source_acl_allows u a" using v by simp
  ultimately show ?thesis
    using v unfolding source_acl_allows_def has_override_def list_ex_iff by (auto split: if_splits)
qed

theorem can_view_article_boundaries_witness:
  "shares_department_id hr_member
     (blank_article\<lparr>a_departments := [blank_department], sensitivity := ''restricted''\<rparr>)"
proof -
  let ?a = "blank_article\<lparr>a_departments := [blank_department], sensitivity := ''restricted''\<rparr>"
  have v: "can_view_article hr_member ?a"
    by (simp add: can_view_article_iff has_permission_def scope_allows_def same_tenant_def
        article_resource_def has_override_def source_acl_allows_def governed_by_def
        can_access_article_departments_def member_department_names_def shares_department_id_def
        article_department_names_def DEFAULT_ROLE_PERMISSIONS_def hr_member_def fixture_defs)
  have "\<not> has_full_company_article_access hr_member"
    by (simp add: has_full_company_article_access_def privileged_role_def has_permission_def
        scope_allows_def DEFAULT_ROLE_PERMISSIONS_def hr_member_def blank_user_def)
  moreover have "\<not> has_override hr_member Allow ?a"
    by (simp add: has_override_def blank_article_def)
  ultimately show ?thesis
    using can_view_article_boundaries [OF v] by (simp add: blank_article_def)
qed




definition acme_ceo :: user where
  "acme_ceo = blank_user\<lparr>u_role := ''CEO''\<rparr>"


text \<open>
  In general the two decisions differ, in both directions. The query filter returns a
  public-sensitivity article of a department the reader does not belong to, which
  \<open>can_view_article\<close> refuses; and it hides an unpublished article from an editor with a
  company-wide edit grant, which \<open>can_view_article\<close> shows.
\<close>

definition company_editor :: user where
  "company_editor = blank_user\<lparr>u_departments := [blank_department], u_roles :=
     [\<lparr>role_id = 1, role_name = ''Editor'', role_company = Some ''acme'', role_active = True,
       role_permissions =
         [\<lparr>rp_permission = Some ''article.read'', rp_scope = Some Company\<rparr>,
          \<lparr>rp_permission = Some ''article.edit'', rp_scope = Some Company\<rparr>]\<rparr>]\<rparr>"

theorem query_filter_and_can_view_differ:
  "(\<exists>a. authorized_article_filters [blank_department] blank_user a \<and> \<not> can_view_article blank_user a)
   \<and> (\<exists>a. \<not> authorized_article_filters [blank_department] company_editor a
          \<and> can_view_article company_editor a)"
proof
  let ?a = "blank_article\<lparr>sensitivity := ''public''\<rparr>"
  have "authorized_article_filters [blank_department] blank_user ?a"
    by (simp add: authorized_article_filters_def has_article_read_permission_def
        has_permission_def scope_allows_def audience_filter_def source_acl_filter_def
        unpublished_filter_def has_full_company_article_access_def privileged_role_def
        has_override_def DEFAULT_ROLE_PERMISSIONS_def fixture_defs)
  moreover have "\<not> can_view_article blank_user ?a"
    by (simp add: can_view_article_iff can_access_article_departments_def has_permission_def
        scope_allows_def has_full_company_article_access_def privileged_role_def
        has_override_def member_department_names_def DEFAULT_ROLE_PERMISSIONS_def fixture_defs)
  ultimately show "\<exists>a. authorized_article_filters [blank_department] blank_user a
      \<and> \<not> can_view_article blank_user a" by blast
  let ?b = "blank_article\<lparr>a_status := Pending_review\<rparr>"
  have "\<not> authorized_article_filters [blank_department] company_editor ?b"
    by (simp add: authorized_article_filters_def unpublished_filter_def has_permission_def
        scope_allows_def role_counts_def company_editor_def fixture_defs)
  moreover have "can_view_article company_editor ?b"
    by (simp add: can_view_article_iff governance_access_def can_access_article_departments_def
        has_permission_def scope_allows_def role_counts_def same_tenant_def article_resource_def
        has_override_def source_acl_allows_def governed_by_def member_department_names_def
        article_department_names_def company_editor_def fixture_defs)
  ultimately show "\<exists>a. \<not> authorized_article_filters [blank_department] company_editor a
      \<and> can_view_article company_editor a" by blast
qed

end
