(* ===== verification/Departments.thy ===== *)
theory Departments
  imports Models
begin

text \<open>
  \<open>src/domain/departments.py\<close>: canonical department names and the tenant-scoped resolution
  of one department by name and of several by id. The \<open>departments\<close> argument is the table;
  \<open>lock_company_scope\<close> only takes a database lock and has no counterpart here.
\<close>

section \<open>Operations\<close>

definition normalize_department_name :: "string option \<Rightarrow> string option" where
  "normalize_department_name name =
     (let value = strip (or_else name []) in if value = [] then None else Some value)"

definition resolve_active_department ::
  "department list \<Rightarrow> string \<Rightarrow> string option \<Rightarrow> bool \<Rightarrow> department option result" where
  "resolve_active_department departments company name required =
     (case normalize_department_name name of
        None \<Rightarrow>
          if required then raise 422 ''A department is required'' else Inr None
      | Some canonical \<Rightarrow>
          (case find (\<lambda>d. dept_company d = company \<and> dept_active d
                        \<and> lower (dept_name d) = lower canonical) departments of
             None \<Rightarrow> raise 422 ''Department does not exist or is inactive''
           | Some d \<Rightarrow> Inr (Some d)))"

text \<open>
  \<open>by_id\<close> is looked up at ids whose rows were just counted, so no id is missing from it
  when the primary key is unique.
\<close>

definition resolve_active_departments ::
  "department list \<Rightarrow> string \<Rightarrow> uuid list \<Rightarrow> bool \<Rightarrow> department list result" where
  "resolve_active_departments departments company ids required =
     (let unique_ids = fromkeys ids in
      if unique_ids = [] then
        (if required then raise 422 ''At least one department is required'' else Inr [])
      else
        let found = filter (\<lambda>d. dept_id d \<in> set unique_ids \<and> dept_company d = company
                              \<and> dept_active d) departments
        in if length found \<noteq> length unique_ids
           then raise 422 ''Every department must be active and belong to the user's company''
           else Inr (List.map_filter (\<lambda>i. get_row dept_id i found) unique_ids))"

section \<open>Lemmas\<close>

lemma resolve_active_department_Some:
  assumes "resolve_active_department departments company name required = Inr (Some d)"
  shows "d \<in> set departments \<and> dept_company d = company \<and> dept_active d
    \<and> lower (dept_name d) = lower (strip (or_else name []))"
  using assms
  by (auto simp: resolve_active_department_def normalize_department_name_def Let_def find_Some_iff
      split: option.splits if_splits)

text \<open>A required department is either found or refused: the result is never \<open>None\<close>.\<close>

lemma resolve_required [simp]:
  "resolve_active_department departments company name True \<noteq> Inr None"
  by (auto simp: resolve_active_department_def split: option.splits)

lemma count_ids:
  assumes "unique_key key rows" "distinct ids"
  shows "length (filter (\<lambda>r. key r \<in> set ids \<and> P r) rows)
    = card {i \<in> set ids. \<exists>r \<in> set rows. key r = i \<and> P r}"
proof -
  let ?found = "filter (\<lambda>r. key r \<in> set ids \<and> P r) rows"
  have "distinct (map key ?found)"
    using assms(1) by (simp add: unique_key_def distinct_map_filter)
  from distinct_card [OF this] have "length ?found = card (key ` set ?found)" by simp
  also have "key ` set ?found = {i \<in> set ids. \<exists>r \<in> set rows. key r = i \<and> P r}" by auto
  finally show ?thesis .
qed

lemma count_ids_all:
  assumes "unique_key key rows" "distinct ids"
  shows "length (filter (\<lambda>r. key r \<in> set ids \<and> P r) rows) = length ids
    \<longleftrightarrow> (\<forall>i \<in> set ids. \<exists>r \<in> set rows. key r = i \<and> P r)"
proof -
  have "length ids = card (set ids)" using assms(2) by (simp add: distinct_card)
  moreover have "card {i \<in> set ids. Q i} = card (set ids) \<longleftrightarrow> (\<forall>i \<in> set ids. Q i)" for Q
  proof
    assume "card {i \<in> set ids. Q i} = card (set ids)"
    then have "{i \<in> set ids. Q i} = set ids"
      by (intro card_subset_eq) auto
    then show "\<forall>i \<in> set ids. Q i" by blast
  next
    assume "\<forall>i \<in> set ids. Q i"
    then have "{i \<in> set ids. Q i} = set ids" by blast
    then show "card {i \<in> set ids. Q i} = card (set ids)" by simp
  qed
  ultimately show ?thesis using count_ids [OF assms, of P] by simp
qed

lemma map_filter_get_row:
  assumes "\<forall>i \<in> set ids. \<exists>r \<in> set rows. key r = i"
  shows "map key (List.map_filter (\<lambda>i. get_row key i rows) ids) = ids"
    and "set (List.map_filter (\<lambda>i. get_row key i rows) ids) \<subseteq> set rows"
proof -
  have some: "\<exists>r. get_row key i rows = Some r \<and> key r = i \<and> r \<in> set rows" if "i \<in> set ids" for i
    using assms that get_row_None_iff [of key i rows] get_row_SomeD [of key i rows]
    by (cases "get_row key i rows") auto
  show "map key (List.map_filter (\<lambda>i. get_row key i rows) ids) = ids"
    using some by (induction ids) (fastforce simp: List.map_filter_simps)+
  show "set (List.map_filter (\<lambda>i. get_row key i rows) ids) \<subseteq> set rows"
    using get_row_SomeD(1) [of key _ rows] by (auto simp: List.map_filter_def)
qed

lemma resolve_active_departments_facts:
  assumes "unique_key dept_id departments"
  shows "(\<exists>ds. resolve_active_departments departments company ids required = Inr ds) \<longleftrightarrow>
      (ids \<noteq> [] \<or> \<not> required) \<and>
      (\<forall>i \<in> set ids. \<exists>d \<in> set departments. dept_id d = i \<and> dept_company d = company \<and> dept_active d)"
    and "resolve_active_departments departments company ids required = Inr ds \<longrightarrow>
      map dept_id ds = fromkeys ids
      \<and> (\<forall>d \<in> set ds. d \<in> set departments \<and> dept_company d = company \<and> dept_active d)"
    and "\<forall>e. resolve_active_departments departments company ids required = Inl e
      \<longrightarrow> status_code e = 422"
proof -
  let ?found = "filter (\<lambda>d. dept_id d \<in> set (fromkeys ids) \<and> dept_company d = company
    \<and> dept_active d) departments"
  note all = count_ids_all [OF assms distinct_fromkeys [of ids],
      of "\<lambda>d. dept_company d = company \<and> dept_active d"]
  show "(\<exists>ds. resolve_active_departments departments company ids required = Inr ds) \<longleftrightarrow>
      (ids \<noteq> [] \<or> \<not> required) \<and>
      (\<forall>i \<in> set ids. \<exists>d \<in> set departments. dept_id d = i \<and> dept_company d = company \<and> dept_active d)"
    using all by (auto simp: resolve_active_departments_def Let_def)
  show "resolve_active_departments departments company ids required = Inr ds \<longrightarrow>
      map dept_id ds = fromkeys ids
      \<and> (\<forall>d \<in> set ds. d \<in> set departments \<and> dept_company d = company \<and> dept_active d)"
  proof
    assume ok: "resolve_active_departments departments company ids required = Inr ds"
    show "map dept_id ds = fromkeys ids
      \<and> (\<forall>d \<in> set ds. d \<in> set departments \<and> dept_company d = company \<and> dept_active d)"
    proof (cases "ids = []")
      case True
      with ok show ?thesis by (simp add: resolve_active_departments_def split: if_splits)
    next
      case False
      with ok have len: "length ?found = length (fromkeys ids)"
        and ds: "ds = List.map_filter (\<lambda>i. get_row dept_id i ?found) (fromkeys ids)"
        by (auto simp: resolve_active_departments_def Let_def split: if_splits)
      from len all have "\<forall>i \<in> set (fromkeys ids). \<exists>d \<in> set ?found. dept_id d = i" by auto
      from map_filter_get_row [OF this] ds show ?thesis by auto
    qed
  qed
  show "\<forall>e. resolve_active_departments departments company ids required = Inl e
      \<longrightarrow> status_code e = 422"
    by (auto simp: resolve_active_departments_def Let_def split: if_splits)
qed

section \<open>Properties\<close>

text \<open>
  \<open>resolve_active_departments\<close> accepts a selection exactly when it names at least one
  department (or none is required) and every named one exists, is active and belongs to the
  company; it then returns one row per distinct id, in order of first occurrence, all of
  them active and of that company. A refusal is always a 422.
\<close>

theorem resolve_active_departments_correct:
  assumes "unique_key dept_id departments"
  shows "((\<exists>ds. resolve_active_departments departments company ids required = Inr ds) \<longleftrightarrow>
      (ids \<noteq> [] \<or> \<not> required) \<and>
      (\<forall>i \<in> set ids. \<exists>d \<in> set departments.
         dept_id d = i \<and> dept_company d = company \<and> dept_active d))
    \<and> (\<forall>ds. resolve_active_departments departments company ids required = Inr ds \<longrightarrow>
      map dept_id ds = fromkeys ids
      \<and> (\<forall>d \<in> set ds. d \<in> set departments \<and> dept_company d = company \<and> dept_active d))
    \<and> (\<forall>e. resolve_active_departments departments company ids required = Inl e
      \<longrightarrow> status_code e = 422)"
  by (intro conjI allI resolve_active_departments_facts [OF assms]
      resolve_active_departments_facts(3) [OF assms, rule_format])

theorem resolve_active_departments_correct_witness:
  "resolve_active_departments [blank_department] ''acme'' [1, 1] True = Inr [blank_department]
   \<and> map dept_id [blank_department] = fromkeys [1, 1]"
proof -
  have u: "unique_key dept_id [blank_department]" by (simp add: unique_key_def)
  have r: "resolve_active_departments [blank_department] ''acme'' [1, 1] True
      = Inr [blank_department]"
    by (simp add: resolve_active_departments_def fromkeys_def blank_department_def
        List.map_filter_simps)
  with resolve_active_departments_correct [OF u, of "''acme''" "[1, 1]" True]
  show ?thesis by blast
qed

end
