(* ===== verification/Store.thy ===== *)
theory Store
  imports Permissions Departments "HOL-Library.Product_Lexorder"
begin

text \<open>
  The database the services share, as a record of tables (with the keys of the object store
  that holds uploaded sources), and the repositories that read it:
  \<open>src/repositories/governance.py\<close> (drafts, approver rules, candidates, gaps, audit rows) and
  the identity lookups of \<open>src/repositories/user.py\<close>. A query is a function of the tables; an
  update returns the new database. A handler returns its result together with the database
  its commits leave behind, so a raise before the first commit returns the database it was
  given: the request's session is rolled back.
\<close>

section \<open>Tables\<close>

record db =
  department_table :: "department list"
  user_table :: "user list"
  article_table :: "article list"
  version_table :: "article_version list"
  draft_table :: "pending_draft list"
  transition_table :: "draft_transition list"
  approver_rule_table :: "approver_rule list"
  fingerprint_table :: "ingestion_fingerprint list"
  gap_table :: "gap list"
  audit_table :: "audit_log list"
  notification_table :: "notification list"
  external_document_table :: "external_document list"
  connector_table :: "connector list"
  follower_table :: "(uuid \<times> uuid) list"
  stored_objects :: "string list"
  fresh_id :: uuid

type_synonym 'a outcome = "'a result \<times> db"

text \<open>Every table with a primary key has it unique, and fresh ids are really fresh.\<close>

definition keys_ok :: "db \<Rightarrow> bool" where
  "keys_ok s =
     (unique_key dept_id (department_table s)
      \<and> unique_key user_id (user_table s)
      \<and> unique_key article_id (article_table s)
      \<and> unique_key draft_id (draft_table s)
      \<and> unique_key gap_id (gap_table s)
      \<and> list_all (\<lambda>a. article_id a < fresh_id s) (article_table s)
      \<and> list_all (\<lambda>d. draft_id d < fresh_id s) (draft_table s))"

section \<open>UserRepository\<close>

text \<open>
  \<open>_identity_scope\<close> as a filter on rows: no viewer or a global identity grant leaves the query
  alone, a viewer without any identity grant matches nothing.
\<close>

definition identity_scope :: "user option \<Rightarrow> user \<Rightarrow> bool" where
  "identity_scope viewer row =
     (case viewer of
        None \<Rightarrow> True
      | Some v \<Rightarrow>
          if has_permission v ''user.read'' None Global
             \<or> has_permission v ''user.manage'' None Global then True
          else if \<not> (has_permission v ''user.read'' None Company
                     \<or> has_permission v ''user.manage'' None Company) then False
          else u_company row = u_company v)"

definition get_user_by_id :: "db \<Rightarrow> uuid \<Rightarrow> user option \<Rightarrow> user option" where
  "get_user_by_id s i viewer =
     find (\<lambda>u. user_id u = i \<and> identity_scope viewer u) (user_table s)"

definition get_users_by_ids :: "db \<Rightarrow> uuid list \<Rightarrow> string option \<Rightarrow> user list" where
  "get_users_by_ids s ids company =
     (if ids = [] then []
      else filter (\<lambda>u. user_id u \<in> set ids
                     \<and> (case company of None \<Rightarrow> True | Some c \<Rightarrow> u_company u = c)) (user_table s))"

definition list_users ::
  "db \<Rightarrow> nat \<Rightarrow> nat \<Rightarrow> user option \<Rightarrow> string option \<Rightarrow> bool option \<Rightarrow> uuid option \<Rightarrow> user list"
where
  "list_users s offset limit viewer company active exclude =
     take limit (drop offset
       (sort_key (\<lambda>u. (u_company u, u_name u))
         (filter (\<lambda>u. identity_scope viewer u
                    \<and> (case company of None \<Rightarrow> True | Some c \<Rightarrow> u_company u = c)
                    \<and> (case active of None \<Rightarrow> True | Some b \<Rightarrow> u_active u = b)
                    \<and> (case exclude of None \<Rightarrow> True | Some i \<Rightarrow> user_id u \<noteq> i))
           (user_table s))))"

section \<open>LIKE patterns\<close>

definition LIKE_ESCAPE :: char where
  "LIKE_ESCAPE = CHR ''!''"

text \<open>
  \<open>_escape_like\<close>: three \<open>str.replace\<close> passes, each replacing one character by the escape
  character followed by it.
\<close>

definition replace_char :: "char \<Rightarrow> string \<Rightarrow> string \<Rightarrow> string" where
  "replace_char c new s = concat (map (\<lambda>x. if x = c then new else [x]) s)"

definition escape_like :: "string \<Rightarrow> string" where
  "escape_like term =
     replace_char (CHR ''_'') [LIKE_ESCAPE, CHR ''_'']
       (replace_char (CHR ''%'') [LIKE_ESCAPE, CHR ''%'']
         (replace_char LIKE_ESCAPE [LIKE_ESCAPE, LIKE_ESCAPE] term))"

text \<open>
  SQL's \<open>LIKE ... ESCAPE '!'\<close>: \<open>%\<close> matches any text, \<open>_\<close> any character, and an escaped
  character itself. A pattern that ends in the escape character is an error in PostgreSQL;
  it matches nothing here.
\<close>

fun like_match :: "string \<Rightarrow> string \<Rightarrow> bool" where
  "like_match [] s = (s = [])"
| "like_match (p # ps) [] = (p = CHR ''%'' \<and> like_match ps [])"
| "like_match (p # ps) (c # s) =
     (if p = CHR ''%'' then like_match ps (c # s) \<or> like_match (p # ps) s
      else if p = LIKE_ESCAPE then
        (case ps of [] \<Rightarrow> False | q # qs \<Rightarrow> c = q \<and> like_match qs s)
      else (p = CHR ''_'' \<or> c = p) \<and> like_match ps s)"

text \<open>\<open>ILIKE\<close> compares lower-case forms; \<open>immutable_unaccent\<close> is the database's function.\<close>

definition search_matches :: "(string \<Rightarrow> string) \<Rightarrow> string \<Rightarrow> pending_draft \<Rightarrow> bool" where
  "search_matches unaccent term d =
     (let pattern = lower (unaccent (''%'' @ escape_like (strip term) @ ''%'')) in
      like_match pattern (lower (unaccent (d_title d)))
      \<or> like_match pattern (lower (unaccent (d_source_ref d)))
      \<or> (case d_dept d of None \<Rightarrow> False | Some c \<Rightarrow> like_match pattern (lower (unaccent c))))"

section \<open>GovernanceRepository: drafts\<close>

definition get_draft :: "db \<Rightarrow> uuid \<Rightarrow> pending_draft option" where
  "get_draft s i = get_row draft_id i (draft_table s)"

text \<open>\<open>departments\<close> of the scoped queries: the memberships and the legacy label.\<close>

definition reviewer_departments :: "user \<Rightarrow> string set" where
  "reviewer_departments u =
     member_department_names u \<union> (if truthy (u_dept u) then {the (u_dept u)} else {})"

definition dept_in :: "string set \<Rightarrow> pending_draft \<Rightarrow> bool" where
  "dept_in names d = (case d_dept d of None \<Rightarrow> False | Some n \<Rightarrow> n \<in> names)"

text \<open>The WHERE clause of \<open>get_draft_for_user\<close>.\<close>

definition draft_in_scope :: "user \<Rightarrow> pending_draft \<Rightarrow> bool" where
  "draft_in_scope u d =
     (if has_permission u ''governance.read'' None Global
         \<or> has_permission u ''article.publish'' None Global then True
      else
        d_company d = u_company u
        \<and> (if u_role u \<in> {''Admin'', ''CEO''}
               \<or> list_ex (\<lambda>r. role_active r \<and> role_name r \<in> {''Admin'', ''CEO''}) (u_roles u)
            then True
            else assigned_approver_id d = Some (user_id u)
                 \<or> created_by d = Some (user_id u)
                 \<or> dept_in (reviewer_departments u) d))"

definition get_draft_for_user :: "db \<Rightarrow> uuid \<Rightarrow> user \<Rightarrow> pending_draft option" where
  "get_draft_for_user s i u =
     find (\<lambda>d. draft_id d = i \<and> draft_in_scope u d) (draft_table s)"

definition DRAFT_PAGE_LIMIT :: nat where
  "DRAFT_PAGE_LIMIT = 500"

text \<open>The keyword arguments that describe whose queue is read.\<close>

record queue_scope =
  qs_company :: "string option"
  qs_dept :: "string option"
  qs_depts :: "string list option"
  qs_assigned :: "uuid option"

definition draft_scope_filters ::
  "(string \<Rightarrow> string) \<Rightarrow> draft_status option \<Rightarrow> queue_scope \<Rightarrow> string option \<Rightarrow> pending_draft \<Rightarrow> bool"
where
  "draft_scope_filters unaccent status sc search d =
     (let depts = (case qs_depts sc of None \<Rightarrow> [] | Some ds \<Rightarrow> ds) in
      (truthy (map_option strip search) \<longrightarrow> search_matches unaccent (the search) d)
      \<and> (case status of None \<Rightarrow> True | Some st \<Rightarrow> d_status d = st)
      \<and> (truthy (qs_company sc) \<longrightarrow> Some (d_company d) = qs_company sc)
      \<and> (if depts \<noteq> [] then dept_in (set depts) d
         else truthy (qs_dept sc) \<longrightarrow> d_dept d = qs_dept sc)
      \<and> (case qs_assigned sc of
           None \<Rightarrow> True
         | Some i \<Rightarrow> assigned_approver_id d = None \<or> assigned_approver_id d = Some i
             \<or> depts \<noteq> [] \<and> dept_in (set depts) d))"

text \<open>Newest first; the primary key makes the order total.\<close>

definition newest_first :: "pending_draft list \<Rightarrow> pending_draft list" where
  "newest_first ds = rev (sort_key (\<lambda>d. (d_created_at d, draft_id d)) ds)"

definition list_drafts_page ::
  "(string \<Rightarrow> string) \<Rightarrow> db \<Rightarrow> draft_status option \<Rightarrow> queue_scope \<Rightarrow> nat option \<Rightarrow> int
     \<Rightarrow> string option \<Rightarrow> pending_draft list"
where
  "list_drafts_page unaccent s status sc limit offset search =
     take (case limit of None \<Rightarrow> DRAFT_PAGE_LIMIT | Some n \<Rightarrow> n)
       (drop (nat (max 0 offset))
         (newest_first (filter (draft_scope_filters unaccent status sc search) (draft_table s))))"

definition count_drafts_in ::
  "(string \<Rightarrow> string) \<Rightarrow> db \<Rightarrow> draft_status option \<Rightarrow> queue_scope \<Rightarrow> string option \<Rightarrow> nat"
where
  "count_drafts_in unaccent s status sc search =
     count_rows (draft_scope_filters unaccent status sc search) (draft_table s)"

definition company_lead :: "user \<Rightarrow> bool" where
  "company_lead u =
     (u_role u \<in> {''Admin'', ''CEO''}
      \<or> list_ex (\<lambda>r. role_active r \<and> role_name r \<in> {''Admin'', ''CEO''}
                   \<and> role_company r \<in> {None, Some (u_company u)}) (u_roles u))"

definition awaiting_user :: "user \<Rightarrow> pending_draft \<Rightarrow> bool" where
  "awaiting_user u d =
     (let open_or_mine = (assigned_approver_id d = None
                          \<or> assigned_approver_id d = Some (user_id u)) in
      d_status d = Pending
      \<and> (if list_ex (\<lambda>key. has_permission u key None Global)
              [''governance.read'', ''article.review'', ''article.publish'']
         then open_or_mine
         else d_company d = u_company u
              \<and> (if company_lead u then open_or_mine
                 else assigned_approver_id d = Some (user_id u)
                      \<or> assigned_approver_id d = None \<and> dept_in (reviewer_departments u) d)))"

definition count_pending_for_user :: "db \<Rightarrow> user \<Rightarrow> nat" where
  "count_pending_for_user s u =
     (if \<not> list_ex (\<lambda>key. list_ex (has_permission u key None) [Company, Global])
             [''article.review'', ''article.publish'']
      then 0
      else count_rows (awaiting_user u) (draft_table s))"

definition create_draft :: "pending_draft \<Rightarrow> db \<Rightarrow> pending_draft \<times> db" where
  "create_draft d s =
     (let d' = d\<lparr>draft_id := fresh_id s\<rparr>;
          s' = s\<lparr>draft_table := draft_table s @ [d'], fresh_id := Suc (fresh_id s)\<rparr>
      in (d',
          if d_status d = Draft
          then s'\<lparr>transition_table := transition_table s @
                 [\<lparr>tr_draft = draft_id d', from_status = None, to_status = Draft,
                   actor_id = created_by d, tr_reason = Some ''Draft created''\<rparr>]\<rparr>
          else s'))"

definition update_draft :: "pending_draft \<Rightarrow> db \<Rightarrow> db" where
  "update_draft d s = s\<lparr>draft_table := put_row draft_id d (draft_table s)\<rparr>"

definition get_approver_rule :: "db \<Rightarrow> string \<Rightarrow> string option \<Rightarrow> approver_rule option" where
  "get_approver_rule s company dept =
     (if \<not> truthy dept then None
      else find (\<lambda>r. ar_company r = company \<and> Some (ar_dept r) = dept \<and> ar_active r)
             (approver_rule_table s))"

definition list_approver_rules :: "db \<Rightarrow> string option \<Rightarrow> approver_rule list" where
  "list_approver_rules s company =
     sort_key (\<lambda>r. (ar_company r, ar_dept r))
       (filter (\<lambda>r. ar_active r \<and> (truthy company \<longrightarrow> Some (ar_company r) = company))
         (approver_rule_table s))"

definition list_draft_transitions :: "db \<Rightarrow> uuid \<Rightarrow> user \<Rightarrow> draft_transition list" where
  "list_draft_transitions s i u =
     (case get_draft_for_user s i u of
        None \<Rightarrow> []
      | Some d \<Rightarrow> filter (\<lambda>t. tr_draft t = draft_id d) (transition_table s))"

definition list_candidates_of :: "db \<Rightarrow> uuid \<Rightarrow> user \<Rightarrow> candidate list" where
  "list_candidates_of s i u =
     (case get_draft_for_user s i u of
        None \<Rightarrow> []
      | Some d \<Rightarrow> sort_key position (candidates d))"

section \<open>GovernanceRepository: gaps and audit rows\<close>

definition GAP_QUERY_CHARS :: nat where
  "GAP_QUERY_CHARS = 255"

definition log_gap :: "string option \<Rightarrow> string \<Rightarrow> string option \<Rightarrow> db \<Rightarrow> gap option \<times> db" where
  "log_gap query company dept s =
     (let q = take GAP_QUERY_CHARS (or_else query []);
          same = (\<lambda>g. gap_company g = company \<and> gap_query g = q)
      in case find same (gap_table s) of
           Some g \<Rightarrow>
             (let rows = map (\<lambda>r. if same r then r\<lparr>gap_count := gap_count r + 1\<rparr> else r) (gap_table s)
              in (get_row gap_id (gap_id g) rows, s\<lparr>gap_table := rows\<rparr>))
         | None \<Rightarrow>
             (let g = \<lparr>gap_id = fresh_id s, gap_company = company, gap_query = q, gap_count = 1,
                       gap_dept = dept, gap_status = Gap_open\<rparr>
              in (Some g, s\<lparr>gap_table := gap_table s @ [g], fresh_id := Suc (fresh_id s)\<rparr>)))"

definition list_gaps_of :: "db \<Rightarrow> gap_status option \<Rightarrow> string option \<Rightarrow> gap list" where
  "list_gaps_of s status company =
     take 500 (rev (sort_key gap_count
       (rev (filter (\<lambda>g. (case status of None \<Rightarrow> True | Some st \<Rightarrow> gap_status g = st)
                       \<and> (truthy company \<longrightarrow> Some (gap_company g) = company)) (gap_table s)))))"

definition get_gap :: "db \<Rightarrow> uuid \<Rightarrow> string option \<Rightarrow> gap option" where
  "get_gap s i company =
     find (\<lambda>g. gap_id g = i \<and> (truthy company \<longrightarrow> Some (gap_company g) = company)) (gap_table s)"

definition update_gap :: "gap \<Rightarrow> db \<Rightarrow> db" where
  "update_gap g s = s\<lparr>gap_table := put_row gap_id g (gap_table s)\<rparr>"

definition log_audit_row :: "audit_log \<Rightarrow> db \<Rightarrow> db" where
  "log_audit_row r s = s\<lparr>audit_table := audit_table s @ [r]\<rparr>"

definition add_notification :: "notification \<Rightarrow> db \<Rightarrow> db" where
  "add_notification n s = s\<lparr>notification_table := notification_table s @ [n]\<rparr>"

definition add_transition :: "draft_transition \<Rightarrow> db \<Rightarrow> db" where
  "add_transition t s = s\<lparr>transition_table := transition_table s @ [t]\<rparr>"

section \<open>Pattern lemmas\<close>

abbreviation like_special :: "char set" where
  "like_special \<equiv> {LIKE_ESCAPE, CHR ''%'', CHR ''_''}"

definition escape_char :: "char \<Rightarrow> string" where
  "escape_char c = (if c \<in> like_special then [LIKE_ESCAPE, c] else [c])"

lemma escape_like_chars: "escape_like s = concat (map escape_char s)"
  by (induction s)
     (auto simp: escape_like_def replace_char_def escape_char_def LIKE_ESCAPE_def)

lemma escape_like_simps [simp]:
  "escape_like [] = []" "escape_like (c # s) = escape_char c @ escape_like s"
  by (simp_all add: escape_like_chars)

lemma like_match_escape_char:
  "like_match (escape_char c @ ps) s \<longleftrightarrow> s \<noteq> [] \<and> hd s = c \<and> like_match ps (tl s)"
  by (cases s) (auto simp: escape_char_def LIKE_ESCAPE_def)

lemma like_match_escaped:
  "like_match (escape_like t @ ps) s \<longleftrightarrow> (\<exists>rest. s = t @ rest \<and> like_match ps rest)"
proof (induction t arbitrary: s)
  case (Cons c t)
  then show ?case by (cases s) (auto simp: like_match_escape_char)
qed simp

lemma like_match_any: "like_match ''%'' s"
  by (induction s) auto

lemma like_match_percent:
  "like_match (CHR ''%'' # ps) s \<longleftrightarrow> (\<exists>u v. s = u @ v \<and> like_match ps v)"
proof (induction s)
  case (Cons c s)
  show ?case
  proof
    assume "like_match (CHR ''%'' # ps) (c # s)"
    then have "like_match ps (c # s) \<or> like_match (CHR ''%'' # ps) s" by simp
    then show "\<exists>u v. c # s = u @ v \<and> like_match ps v"
      using Cons by (metis append_Cons append_Nil)
  next
    assume "\<exists>u v. c # s = u @ v \<and> like_match ps v"
    then show "like_match (CHR ''%'' # ps) (c # s)"
      using Cons by (auto simp: Cons_eq_append_conv)
  qed
qed auto

lemma like_contains:
  "like_match (''%'' @ escape_like t @ ''%'') s \<longleftrightarrow> (\<exists>u v. s = u @ t @ v)"
  by (simp add: like_match_percent like_match_escaped like_match_any) blast

lemma lower_char_special [simp]: "lower_char c \<in> like_special \<longleftrightarrow> c \<in> like_special"
proof -
  have "of_char (lower_char c) \<in> {33, 37, 95 :: nat} \<longleftrightarrow> of_char c \<in> {33, 37, 95 :: nat}"
    by (auto simp: lower_char_def Let_def of_char_of)
  moreover have "c \<in> like_special \<longleftrightarrow> of_char c \<in> {33, 37, 95 :: nat}" for c
  proof -
    have eq: "c = d \<longleftrightarrow> of_char c = (of_char d :: nat)" for d by simp
    show ?thesis by (simp add: LIKE_ESCAPE_def eq del: of_char_eq_iff)
  qed
  ultimately show ?thesis by blast
qed

lemma lower_special [simp]: "c \<in> like_special \<Longrightarrow> lower_char c = c"
  by (auto simp: lower_char_def LIKE_ESCAPE_def)

lemma lower_append [simp]: "lower (s @ t) = lower s @ lower t"
  by (simp add: lower_def)

lemma lower_escape_like: "lower (escape_like t) = escape_like (lower t)"
proof (induction t)
  case (Cons c t)
  have "lower (escape_char c) = escape_char (lower_char c)"
    using lower_char_special [of c] lower_special [of c] lower_special [of LIKE_ESCAPE]
    unfolding escape_char_def lower_def by auto
  with Cons show ?case by (simp add: lower_def)
qed (simp add: lower_def)

section \<open>Queue lemmas\<close>

lemma set_newest_first [simp]: "set (newest_first ds) = set ds"
  by (simp add: newest_first_def)

lemma length_newest_first [simp]: "length (newest_first ds) = length ds"
  by (simp add: newest_first_def)

lemma distinct_newest_first: "distinct (map draft_id (newest_first ds)) = distinct (map draft_id ds)"
  by (simp add: newest_first_def distinct_map)

lemma sorted_newest_first:
  "sorted_wrt (\<lambda>a b. (d_created_at b, draft_id b) \<le> (d_created_at a, draft_id a)) (newest_first ds)"
  using sorted_sort_key [of "\<lambda>d. (d_created_at d, draft_id d)" ds]
  by (simp add: newest_first_def sorted_wrt_rev sorted_wrt_map)

text \<open>Cutting a list into consecutive pages of \<open>n\<close> items loses and repeats nothing.\<close>

lemma pages_concat:
  "concat (map (\<lambda>k. take n (drop (k * n) xs)) [0..<m]) = take (m * n) xs"
proof (induction m)
  case (Suc m)
  have "take (Suc m * n) xs = take (m * n) xs @ take n (drop (m * n) xs)"
    by (metis add.commute mult_Suc take_add)
  with Suc show ?case by simp
qed simp

text \<open>The rows of \<open>log_gap\<close>'s table: one per tenant and query.\<close>

definition gaps_unique :: "db \<Rightarrow> bool" where
  "gaps_unique s = distinct (map (\<lambda>g. (gap_company g, gap_query g)) (gap_table s))"

definition gap_count_of :: "db \<Rightarrow> string \<Rightarrow> string \<Rightarrow> int" where
  "gap_count_of s company query =
     sum_list (map gap_count (filter (\<lambda>g. gap_company g = company \<and> gap_query g = query) (gap_table s)))"

lemma find_gap_unique:
  assumes "gaps_unique s"
    and "find (\<lambda>g. gap_company g = c \<and> gap_query g = q) (gap_table s) = Some g"
  shows "filter (\<lambda>g. gap_company g = c \<and> gap_query g = q) (gap_table s) = [g]"
proof -
  have "distinct (map (\<lambda>g. (gap_company g, gap_query g)) rows) \<Longrightarrow>
      find (\<lambda>g. gap_company g = c \<and> gap_query g = q) rows = Some g \<Longrightarrow>
      filter (\<lambda>g. gap_company g = c \<and> gap_query g = q) rows = [g]" for rows
    by (induction rows) (auto simp: filter_empty_conv image_iff split: if_splits)
  with assms show ?thesis by (simp add: gaps_unique_def)
qed

lemma log_gap_existing:
  assumes "gaps_unique s"
    and "find (\<lambda>g. gap_company g = c \<and> gap_query g = take GAP_QUERY_CHARS (or_else query []))
           (gap_table s) = Some g"
    and "log_gap query c dept s = (r, s')"
  shows "gaps_unique s'
    \<and> gap_count_of s' c (take GAP_QUERY_CHARS (or_else query []))
        = gap_count_of s c (take GAP_QUERY_CHARS (or_else query [])) + 1
    \<and> map (\<lambda>g. (gap_id g, gap_status g, gap_dept g)) (gap_table s')
        = map (\<lambda>g. (gap_id g, gap_status g, gap_dept g)) (gap_table s)"
proof -
  let ?q = "take GAP_QUERY_CHARS (or_else query [])"
  let ?same = "\<lambda>g. gap_company g = c \<and> gap_query g = ?q"
  let ?up = "\<lambda>r :: gap. if ?same r then r\<lparr>gap_count := gap_count r + 1\<rparr> else r"
  have s': "gap_table s' = map ?up (gap_table s)"
    using assms(2,3) by (auto simp: log_gap_def Let_def)
  have up: "filter ?same (map ?up rows) = map (\<lambda>r. r\<lparr>gap_count := gap_count r + 1\<rparr>) (filter ?same rows)"
    for rows by (induction rows) auto
  have "filter ?same (gap_table s') = [g\<lparr>gap_count := gap_count g + 1\<rparr>]"
    unfolding s' up find_gap_unique [OF assms(1,2)] by simp
  moreover have "(\<lambda>g. (gap_company g, gap_query g)) \<circ> ?up = (\<lambda>g. (gap_company g, gap_query g))"
    "(\<lambda>g. (gap_id g, gap_status g, gap_dept g)) \<circ> ?up = (\<lambda>g. (gap_id g, gap_status g, gap_dept g))"
    by auto
  ultimately show ?thesis
    using assms(1) find_gap_unique [OF assms(1,2)] s'
    by (simp add: gaps_unique_def gap_count_of_def)
qed

lemma log_gap_new:
  assumes "gaps_unique s"
    and "find (\<lambda>g. gap_company g = c \<and> gap_query g = take GAP_QUERY_CHARS (or_else query []))
           (gap_table s) = None"
    and "log_gap query c dept s = (r, s')"
  shows "gaps_unique s'
    \<and> gap_count_of s' c (take GAP_QUERY_CHARS (or_else query []))
        = gap_count_of s c (take GAP_QUERY_CHARS (or_else query [])) + 1
    \<and> (\<exists>g. gap_table s' = gap_table s @ [g] \<and> gap_status g = Gap_open \<and> gap_dept g = dept)"
proof -
  let ?q = "take GAP_QUERY_CHARS (or_else query [])"
  have s': "gap_table s' = gap_table s @ [\<lparr>gap_id = fresh_id s, gap_company = c, gap_query = ?q,
      gap_count = 1, gap_dept = dept, gap_status = Gap_open\<rparr>]"
    using assms(2,3) by (auto simp: log_gap_def Let_def)
  have "\<forall>g \<in> set (gap_table s). \<not> (gap_company g = c \<and> gap_query g = ?q)"
    using assms(2) by (auto simp: find_None_iff)
  then show ?thesis
    using assms(1) unfolding gaps_unique_def gap_count_of_def s' by (auto simp: filter_empty_conv)
qed

section \<open>Properties\<close>

text \<open>
  The queue search is literal. With an accent folding that acts per character and
  neither produces nor removes the pattern characters, a search term matches a draft exactly
  when its folded, lower-cased text occurs in the folded title, source reference or
  department: \<open>%\<close>, \<open>_\<close> and \<open>!\<close> in the term stand for themselves.
\<close>

theorem search_is_literal:
  assumes fold: "\<forall>s. unaccent s = concat (map f s)"
    and special: "\<forall>c. if c \<in> like_special then f c = [c] else set (f c) \<inter> like_special = {}"
  shows "search_matches unaccent term d \<longleftrightarrow>
    (\<exists>column u v. (column = d_title d \<or> column = d_source_ref d \<or> Some column = d_dept d)
       \<and> lower (unaccent column) = u @ lower (unaccent (strip term)) @ v)"
proof -
  have plain: "set s \<inter> like_special = {} \<Longrightarrow> escape_like s = s" for s
    by (induction s) (auto simp: escape_char_def)
  have escape_append: "escape_like (a @ b) = escape_like a @ escape_like b" for a b
    by (simp add: escape_like_chars)
  have char: "unaccent (escape_char c) = escape_like (f c)" for c
    using special [rule_format, of c] special [rule_format, of LIKE_ESCAPE] plain [of "f c"]
    unfolding fold [rule_format] by (cases "c \<in> like_special") (auto simp: escape_char_def)
  have "unaccent (escape_like t) = escape_like (unaccent t)" for t
  proof (induction t)
    case (Cons c t)
    then show ?case using char [of c] by (simp add: fold escape_append)
  qed (simp add: fold)
  moreover have "unaccent (''%'' @ s @ ''%'') = ''%'' @ unaccent s @ ''%''" for s
    using special [rule_format, of "CHR ''%''"] by (simp add: fold)
  ultimately have pattern: "lower (unaccent (''%'' @ escape_like (strip term) @ ''%''))
      = ''%'' @ escape_like (lower (unaccent (strip term))) @ ''%''"
    using lower_special [of "CHR ''%''"] lower_escape_like [of "unaccent (strip term)"]
    by (simp add: lower_def)
  show ?thesis
    unfolding search_matches_def pattern Let_def like_contains
    by (auto split: option.splits)
qed

theorem search_is_literal_witness:
  "search_matches (\<lambda>s. s) '' 50% '' (blank_draft\<lparr>d_title := ''Up to 50% off''\<rparr>)
   \<and> \<not> search_matches (\<lambda>s. s) '' 50% '' (blank_draft\<lparr>d_title := ''Up to 500 off''\<rparr>)"
proof -
  note lit = search_is_literal [of "\<lambda>s. s" "\<lambda>c. [c]" "'' 50% ''"]
  have "search_matches (\<lambda>s. s) '' 50% '' (blank_draft\<lparr>d_title := ''Up to 50% off''\<rparr>)"
  proof (subst lit)
    show "\<exists>column u v. (column = d_title (blank_draft\<lparr>d_title := ''Up to 50% off''\<rparr>)
        \<or> column = d_source_ref (blank_draft\<lparr>d_title := ''Up to 50% off''\<rparr>)
        \<or> Some column = d_dept (blank_draft\<lparr>d_title := ''Up to 50% off''\<rparr>))
        \<and> lower column = u @ lower (strip '' 50% '') @ v"
    proof (intro exI conjI)
      show "lower ''Up to 50% off'' = ''up to '' @ lower (strip '' 50% '') @ '' off''" by code_simp
    qed simp
  qed auto
  moreover have "\<not> search_matches (\<lambda>s. s) '' 50% '' (blank_draft\<lparr>d_title := ''Up to 500 off''\<rparr>)"
    by code_simp
  ultimately show ?thesis by blast
qed

text \<open>
  Paging the review queue is exact. Consecutive pages of any size, read until they cover
  the reported total, list every draft of the caller's scope once and no other, newest first;
  the total is the number of drafts listed.
\<close>

theorem draft_pages_partition:
  assumes "unique_key draft_id (draft_table s)"
    and "count_drafts_in unaccent s status sc search \<le> m * n"
  shows "let pages = concat (map (\<lambda>k. list_drafts_page unaccent s status sc (Some n) (int (k * n)) search)
                       [0..<m])
     in distinct (map draft_id pages)
        \<and> set pages = {d \<in> set (draft_table s). draft_scope_filters unaccent status sc search d}
        \<and> length pages = count_drafts_in unaccent s status sc search
        \<and> sorted_wrt (\<lambda>a b. (d_created_at b, draft_id b) \<le> (d_created_at a, draft_id a)) pages"
proof -
  let ?rows = "filter (draft_scope_filters unaccent status sc search) (draft_table s)"
  have "nat (max 0 (int (k * n))) = k * n" for k by (simp del: of_nat_mult)
  then have "concat (map (\<lambda>k. list_drafts_page unaccent s status sc (Some n) (int (k * n)) search) [0..<m])
      = take (m * n) (newest_first ?rows)"
    unfolding list_drafts_page_def by (simp add: pages_concat del: of_nat_mult)
  also have "\<dots> = newest_first ?rows"
    using assms(2) by (simp add: count_drafts_in_def count_rows_def)
  finally show ?thesis
    using assms(1) sorted_newest_first [of ?rows]
    by (simp add: Let_def distinct_newest_first unique_key_def distinct_map_filter
        count_drafts_in_def count_rows_def)
qed

definition empty_db :: db where
  "empty_db = \<lparr>department_table = [], user_table = [], article_table = [], version_table = [],
     draft_table = [], transition_table = [], approver_rule_table = [], fingerprint_table = [],
     gap_table = [], audit_table = [], notification_table = [], external_document_table = [],
     connector_table = [], follower_table = [], stored_objects = [], fresh_id = 100\<rparr>"

definition two_drafts :: db where
  "two_drafts = empty_db\<lparr>draft_table := [blank_draft, blank_draft\<lparr>draft_id := 2\<rparr>]\<rparr>"

definition whole_queue :: queue_scope where
  "whole_queue = \<lparr>qs_company = None, qs_dept = None, qs_depts = None, qs_assigned = None\<rparr>"

theorem draft_pages_partition_witness:
  "length (concat (map (\<lambda>k. list_drafts_page (\<lambda>s. s) two_drafts (Some Pending) whole_queue
      (Some 1) (int (k * 1)) None) [0..<2])) = 2"
proof -
  have n: "count_drafts_in (\<lambda>s. s) two_drafts (Some Pending) whole_queue None = 2"
    by (simp add: count_drafts_in_def draft_scope_filters_def two_drafts_def whole_queue_def
        blank_draft_def)
  have "unique_key draft_id (draft_table two_drafts)"
    by (simp add: unique_key_def two_drafts_def blank_draft_def)
  from draft_pages_partition [OF this, of "\<lambda>s. s" "Some Pending" whole_queue None 2 1]
  show ?thesis unfolding n Let_def by (elim impE conjE meta_impE) simp_all
qed

text \<open>
  A search miss is recorded exactly once. \<open>log_gap\<close> keeps one row per tenant and
  (truncated) query, adds one to the count of that row alone, never reopens a triaged gap or
  moves it to another department, and opens a new gap with the caller's department on a first
  miss.
\<close>

theorem log_gap_counts:
  assumes "gaps_unique s" and "log_gap query c dept s = (r, s')"
  shows "gaps_unique s'
    \<and> gap_count_of s' c (take 255 (or_else query [])) = gap_count_of s c (take 255 (or_else query [])) + 1
    \<and> (map (\<lambda>g. (gap_id g, gap_status g, gap_dept g)) (gap_table s')
         = map (\<lambda>g. (gap_id g, gap_status g, gap_dept g)) (gap_table s)
       \<or> (\<exists>g. gap_table s' = gap_table s @ [g] \<and> gap_status g = Gap_open \<and> gap_dept g = dept))"
  using log_gap_existing [OF assms(1) _ assms(2)] log_gap_new [OF assms(1) _ assms(2)]
  unfolding GAP_QUERY_CHARS_def
  by (cases "find (\<lambda>g. gap_company g = c \<and> gap_query g = take 255 (or_else query [])) (gap_table s)")
     blast+

theorem log_gap_counts_witness:
  "gap_count_of (snd (log_gap (Some ''vpn'') ''acme'' None (snd (log_gap (Some ''vpn'') ''acme'' None empty_db))))
     ''acme'' ''vpn'' = 2"
proof -
  let ?s = "snd (log_gap (Some ''vpn'') ''acme'' None empty_db)"
  have u: "gaps_unique empty_db" "gaps_unique ?s" and one: "gap_count_of ?s ''acme'' ''vpn'' = 1"
    by (simp_all add: gaps_unique_def log_gap_def empty_db_def Let_def gap_count_of_def
        GAP_QUERY_CHARS_def)
  show ?thesis
    using log_gap_counts [OF u(2), of "Some ''vpn''" "''acme''" None
        "fst (log_gap (Some ''vpn'') ''acme'' None ?s)"
        "snd (log_gap (Some ''vpn'') ''acme'' None ?s)"] one
    by simp
qed

end
