(* ===== verification/Chunker.thy ===== *)
theory Chunker
  imports Prelude "HOL-Library.Sublist"
begin

text \<open>
  \<open>src/rag/chunker.py\<close>: splitting a document into logical blocks, packing blocks into
  chunks of a bounded size with an overlap, and the parent/child chunks of the indexer.
  The regular expressions are written out as the scanners they denote on code points
  below 256.
\<close>

section \<open>Line and sentence scanners\<close>

definition newline :: char where
  "newline = CHR 0x0A"

definition is_line_break :: "char \<Rightarrow> bool" where
  "is_line_break c = (let n = (of_char c :: nat)
     in (10 \<le> n \<and> n \<le> 13) \<or> (28 \<le> n \<and> n \<le> 30) \<or> n = 133)"

text \<open>\<open>str.splitlines()\<close>; a carriage return and the line feed after it are one break.\<close>

fun splitlines_from :: "string \<Rightarrow> string \<Rightarrow> string list" where
  "splitlines_from acc [] = (if acc = [] then [] else [rev acc])"
| "splitlines_from acc (c # d # s) =
     (if c = CHR 0x0D \<and> d = newline then rev acc # splitlines_from [] s
      else if is_line_break c then rev acc # splitlines_from [] (d # s)
      else splitlines_from (c # acc) (d # s))"
| "splitlines_from acc [c] =
     (if is_line_break c then [rev acc] else [rev (c # acc)])"

definition splitlines :: "string \<Rightarrow> string list" where
  "splitlines s = splitlines_from [] s"

text \<open>\<open>#{1,6}\s+\<close> or an upper-case label that ends with a colon, at the start of a stripped line.\<close>

definition is_upper :: "char \<Rightarrow> bool" where
  "is_upper c = ((of_char c :: nat) \<in> {65..90})"

definition is_digit :: "char \<Rightarrow> bool" where
  "is_digit c = ((of_char c :: nat) \<in> {48..57})"

definition label_char :: "char \<Rightarrow> bool" where
  "label_char c = (is_upper c \<or> is_digit c \<or> c \<in> set '' /&:()_-'')"

definition matches_heading_re :: "string \<Rightarrow> bool" where
  "matches_heading_re s =
     (let hashes = takeWhile (\<lambda>c. c = CHR ''#'') s;
          rest = dropWhile (\<lambda>c. c = CHR ''#'') s
      in (1 \<le> length hashes \<and> length hashes \<le> 6 \<and> rest \<noteq> [] \<and> isspace (hd rest))
         \<or> (4 \<le> length s \<and> is_upper (hd s) \<and> last s = CHR '':''
            \<and> list_all label_char (butlast (tl s))))"

definition is_heading :: "string \<Rightarrow> bool" where
  "is_heading line = (let clean = strip line in clean \<noteq> [] \<and> matches_heading_re clean)"

definition is_table :: "string list \<Rightarrow> bool" where
  "is_table lines =
     (length lines \<ge> 2 \<and> count_rows (\<lambda>line. CHR ''|'' \<in> set line) lines \<ge> 2)"

definition matches_list_re :: "string \<Rightarrow> bool" where
  "matches_list_re line =
     (let s = dropWhile isspace line;
          digits = takeWhile is_digit s;
          rest = dropWhile is_digit s
      in (case s of c # d # _ \<Rightarrow> c \<in> set ''-*+'' \<and> isspace d | _ \<Rightarrow> False)
         \<or> (digits \<noteq> [] \<and>
            (case rest of c # d # _ \<Rightarrow> c \<in> set ''.)'' \<and> isspace d | _ \<Rightarrow> False)))"

definition is_list :: "string list \<Rightarrow> bool" where
  "is_list lines = (length lines \<ge> 2 \<and> count_rows matches_list_re lines \<ge> 2)"

text \<open>\<open>re.split(r"(?<=[.!?])\s+", s)\<close>: a split at every run of spaces right after a stop.\<close>

function sentence_parts :: "string \<Rightarrow> string \<Rightarrow> string list" where
  "sentence_parts acc [] = [rev acc]"
| "sentence_parts acc (c # s) =
     (if isspace c \<and> acc \<noteq> [] \<and> hd acc \<in> set ''.!?''
      then rev acc # sentence_parts [] (dropWhile isspace s)
      else sentence_parts (c # acc) s)"
  by pat_completeness auto
termination
  by (relation "measure (\<lambda>(acc, s). length s)") (auto simp: le_imp_less_Suc length_dropWhile_le)

definition split_sentences :: "string \<Rightarrow> string list" where
  "split_sentences text =
     filter (\<lambda>p. p \<noteq> []) (map strip (sentence_parts [] (strip text)))"

text \<open>
  \<open>re.split(r"\n\s*\n", text)\<close>: the match runs from a line feed to the last line feed of the
  white space that follows it.
\<close>

definition after_last_newline :: "string \<Rightarrow> string" where
  "after_last_newline s =
     rev (takeWhile (\<lambda>c. c \<noteq> newline) (rev (takeWhile isspace s))) @ dropWhile isspace s"

lemma length_after_last_newline: "length (after_last_newline s) \<le> length s"
proof -
  have "length (takeWhile (\<lambda>c. c \<noteq> newline) (rev (takeWhile isspace s)))
      \<le> length (takeWhile isspace s)"
    using length_takeWhile_le [of _ "rev (takeWhile isspace s)"] by simp
  moreover have "length (takeWhile isspace s) + length (dropWhile isspace s) = length s"
    by (metis length_append takeWhile_dropWhile_id)
  ultimately show ?thesis by (simp add: after_last_newline_def)
qed

function paragraphs :: "string \<Rightarrow> string \<Rightarrow> string list" where
  "paragraphs acc [] = [rev acc]"
| "paragraphs acc (c # s) =
     (if c = newline \<and> newline \<in> set (takeWhile isspace s)
      then rev acc # paragraphs [] (after_last_newline s)
      else paragraphs (c # acc) s)"
  by pat_completeness auto
termination
  by (relation "measure (\<lambda>(acc, s). length s)")
     (auto simp: le_imp_less_Suc length_after_last_newline)

section \<open>Blocks\<close>

datatype block_type = Heading_block | Table_block | List_block | Text_block

record block =
  blk_text :: string
  blk_type :: block_type
  blk_heading :: string

fun join :: "string \<Rightarrow> string list \<Rightarrow> string" where
  "join sep [] = []"
| "join sep [x] = x"
| "join sep (x # y # xs) = x @ sep @ join sep (y # xs)"

text \<open>One paragraph: the blocks it gives and the heading that is active after it.\<close>

definition paragraph_blocks :: "string \<Rightarrow> string \<Rightarrow> block list \<times> string" where
  "paragraph_blocks active raw =
     (let clean = strip raw;
          lines = map rstrip (filter (\<lambda>line. strip line \<noteq> []) (splitlines clean))
      in if clean = [] then ([], active)
         else if lines = [] then ([], active)
         else
           let first = strip (hd lines) in
           if is_heading first then
             let h = take 255 (rev (dropWhile (\<lambda>c. c = CHR '':'')
                       (rev (strip (dropWhile (\<lambda>c. c = CHR ''#'') first)))))
             in ([\<lparr>blk_text = clean, blk_type = Heading_block, blk_heading = h\<rparr>], h)
           else if is_table lines then
             ([\<lparr>blk_text = join [newline] lines, blk_type = Table_block, blk_heading = active\<rparr>],
              active)
           else if is_list lines then
             ([\<lparr>blk_text = join [newline] lines, blk_type = List_block, blk_heading = active\<rparr>],
              active)
           else
             (map (\<lambda>s. \<lparr>blk_text = s, blk_type = Text_block, blk_heading = active\<rparr>)
                (split_sentences clean), active))"

fun blocks_from :: "string \<Rightarrow> string list \<Rightarrow> block list" where
  "blocks_from active [] = []"
| "blocks_from active (raw # raws) =
     (case paragraph_blocks active raw of (bs, active') \<Rightarrow> bs @ blocks_from active' raws)"

text \<open>An absent heading and an empty one are both the empty string here.\<close>

definition blocks :: "string \<Rightarrow> string \<Rightarrow> block list" where
  "blocks text heading = blocks_from (strip heading) (paragraphs [] text)"

section \<open>Packing\<close>

fun slices :: "nat \<Rightarrow> string \<Rightarrow> string list" where
  "slices sz s =
     (if s = [] \<or> sz = 0 then [] else take sz s # slices sz (drop sz s))"

declare slices.simps [simp del]

fun group_lines :: "nat \<Rightarrow> string list \<Rightarrow> string list \<Rightarrow> string list" where
  "group_lines sz current [] = (if current = [] then [] else [join [newline] current])"
| "group_lines sz current (line # lines) =
     (if current \<noteq> [] \<and> length (join [newline] (current @ [line])) > sz
      then join [newline] current # group_lines sz [line] lines
      else group_lines sz (current @ [line]) lines)"

fun group_sentences :: "nat \<Rightarrow> string \<Rightarrow> string list \<Rightarrow> string list" where
  "group_sentences sz running [] = (if running = [] then [] else [running])"
| "group_sentences sz running (s # ss) =
     (let candidate = strip (running @ '' '' @ s)
      in if running \<noteq> [] \<and> length candidate > sz
         then running # group_sentences sz s ss
         else group_sentences sz candidate ss)"

definition split_large_block :: "nat \<Rightarrow> block \<Rightarrow> block list" where
  "split_large_block sz b =
     (if length (blk_text b) \<le> sz then [b]
      else if blk_type b \<in> {Table_block, List_block} then
        map (\<lambda>t. b\<lparr>blk_text := t\<rparr>) (group_lines sz [] (splitlines (blk_text b)))
      else
        let sentences = split_sentences (blk_text b)
        in if length sentences \<le> 1
           then map (\<lambda>t. b\<lparr>blk_text := t\<rparr>) (slices sz (blk_text b))
           else map (\<lambda>t. b\<lparr>blk_text := t\<rparr>) (group_sentences sz [] sentences))"

definition packed_type :: "block list \<Rightarrow> block_type" where
  "packed_type bs =
     (if list_ex (\<lambda>b. blk_type b = Table_block) bs then Table_block
      else if list_ex (\<lambda>b. blk_type b = List_block) bs then List_block
      else if list_ex (\<lambda>b. blk_type b = Heading_block) bs then Heading_block
      else Text_block)"

definition packed_heading :: "block list \<Rightarrow> string" where
  "packed_heading bs =
     (case find (\<lambda>b. blk_heading b \<noteq> []) (rev bs) of None \<Rightarrow> [] | Some b \<Rightarrow> blk_heading b)"

definition emit :: "block list \<Rightarrow> block" where
  "emit current =
     \<lparr>blk_text = strip (join [newline, newline] (map blk_text current)),
      blk_type = packed_type current, blk_heading = packed_heading current\<rparr>"

definition last_chars :: "nat \<Rightarrow> string \<Rightarrow> string" where
  "last_chars n s = drop (length s - n) s"

text \<open>The block that seeds the next chunk with the tail of the one just closed.\<close>

definition overlap_seed :: "nat \<Rightarrow> block \<Rightarrow> block list" where
  "overlap_seed overlap done_block =
     (let t = (if overlap \<noteq> 0 \<and> blk_type done_block = Text_block
               then last_chars overlap (blk_text done_block) else [])
      in if t = [] then []
         else [\<lparr>blk_text = t, blk_type = Text_block, blk_heading = blk_heading done_block\<rparr>])"

fun pack_loop :: "nat \<Rightarrow> nat \<Rightarrow> block list \<Rightarrow> nat \<Rightarrow> block list \<Rightarrow> block list" where
  "pack_loop sz overlap current len [] = (if current = [] then [] else [emit current])"
| "pack_loop sz overlap current len (piece # pieces) =
     (let n = length (blk_text piece);
          proposed = len + n + (if current \<noteq> [] then 1 else 0)
      in if current \<noteq> [] \<and> proposed > sz then
           let done_block = emit current;
               seed = overlap_seed overlap done_block;
               len' = sum_list (map (length \<circ> blk_text) seed)
           in done_block # pack_loop sz overlap (seed @ [piece])
                (len' + n + (if len' \<noteq> 0 then 1 else 0)) pieces
         else pack_loop sz overlap (current @ [piece])
                (len + n + (if len \<noteq> 0 then 1 else 0)) pieces)"

definition pack :: "nat \<Rightarrow> nat \<Rightarrow> block list \<Rightarrow> block list" where
  "pack sz overlap bs =
     filter (\<lambda>b. blk_text b \<noteq> [])
       (pack_loop sz overlap [] 0 (concat (map (split_large_block sz) bs)))"

definition sliding_chunks :: "string \<Rightarrow> nat \<Rightarrow> nat \<Rightarrow> string list" where
  "sliding_chunks text sz overlap = map blk_text (pack sz overlap (blocks text []))"

record parent_chunk =
  parent_index :: nat
  parent_text :: string
  chunk_type :: block_type
  chunk_heading :: string
  children :: "string list"

definition create_parent_child_chunks :: "string \<Rightarrow> string \<Rightarrow> parent_chunk list" where
  "create_parent_child_chunks text heading =
     map (\<lambda>(i, p). \<lparr>parent_index = i, parent_text = blk_text p, chunk_type = blk_type p,
            chunk_heading = (if blk_heading p \<noteq> [] then blk_heading p else heading),
            children = sliding_chunks (blk_text p) 250 60\<rparr>)
       (enumerate 0 (pack 1800 250 (blocks text heading)))"

section \<open>Nothing but white space is dropped\<close>

text \<open>The visible characters of a text, in order.\<close>

definition ns :: "string \<Rightarrow> string" where
  "ns s = filter (\<lambda>c. \<not> isspace c) s"

abbreviation all_ns :: "block list \<Rightarrow> string" where
  "all_ns bs \<equiv> concat (map (\<lambda>b. ns (blk_text b)) bs)"

named_theorems visible \<open>what a scanner keeps of the visible characters\<close>

lemma ns_simps [simp, visible]:
  "ns [] = []" "ns (s @ t) = ns s @ ns t" "ns (rev s) = rev (ns s)"
  by (simp_all add: ns_def rev_filter)

lemma ns_Cons [simp, visible]: "ns (c # s) = (if isspace c then ns s else c # ns s)"
  by (simp add: ns_def)

lemma ns_all_space: "list_all isspace s \<Longrightarrow> ns s = []"
  by (auto simp: ns_def list_all_iff filter_empty_conv)

lemma ns_lstrip [simp, visible]: "ns (lstrip s) = ns s"
  using lstrip_suffix [of s] by (metis append_Nil ns_all_space ns_simps(2))

lemma ns_rstrip [simp, visible]: "ns (rstrip s) = ns s"
  using rstrip_prefix [of s] by (metis append_Nil2 ns_all_space ns_simps(2))

lemma ns_strip [simp, visible]: "ns (strip s) = ns s"
  by (simp add: strip_def)

lemma ns_dropWhile_space [simp, visible]: "ns (dropWhile isspace s) = ns s"
  using ns_lstrip [of s] by (simp add: lstrip_def)

lemma isspace_newline [simp]:
  "isspace newline" "isspace (CHR 0x0A)" "isspace (CHR 0x0D)" "isspace CHR '' ''"
  by (simp_all add: isspace_def newline_def)

lemma isspace_line_break: "is_line_break c \<Longrightarrow> isspace c"
  by (auto simp: isspace_def is_line_break_def Let_def)

lemma strip_empty_ns: "strip s = [] \<Longrightarrow> ns s = []"
  by (metis ns_strip ns_simps(1))

lemma ns_splitlines_from: "concat (map ns (splitlines_from acc s)) = ns (rev acc) @ ns s"
  by (induction acc s rule: splitlines_from.induct)
     (auto simp: isspace_line_break)

lemma ns_splitlines [visible]: "concat (map ns (splitlines s)) = ns s"
  by (simp add: splitlines_def ns_splitlines_from)

lemma ns_sentence_parts: "concat (map ns (sentence_parts acc s)) = ns (rev acc) @ ns s"
  by (induction acc s rule: sentence_parts.induct) auto

lemma concat_map_ns_filter:
  "(\<And>x. x \<in> set xs \<Longrightarrow> \<not> P x \<Longrightarrow> ns (f x) = []) \<Longrightarrow>
     concat (map (\<lambda>x. ns (f x)) (filter P xs)) = concat (map (\<lambda>x. ns (f x)) xs)"
  by (induction xs) auto

lemma ns_split_sentences [visible]: "concat (map ns (split_sentences s)) = ns s"
proof -
  have "concat (map ns (split_sentences s)) =
      concat (map ns (map strip (sentence_parts [] (strip s))))"
    unfolding split_sentences_def by (rule concat_map_ns_filter) simp
  then show ?thesis by (simp add: comp_def ns_sentence_parts)
qed

lemma ns_after_last_newline [simp]: "ns (after_last_newline s) = ns s"
proof -
  have "list_all isspace (rev (takeWhile (\<lambda>c. c \<noteq> newline) (rev (takeWhile isspace s))))"
    by (auto simp: list_all_iff dest!: set_takeWhileD)
  then show ?thesis by (simp add: after_last_newline_def ns_all_space del: ns_simps(3))
qed

lemma ns_paragraphs: "concat (map ns (paragraphs acc s)) = ns (rev acc) @ ns s"
  by (induction acc s rule: paragraphs.induct) auto

lemma ns_join: "list_all isspace sep \<Longrightarrow> ns (join sep xs) = concat (map ns xs)"
  by (induction sep xs rule: join.induct) (auto simp: ns_all_space)

lemma ns_paragraph_blocks: "all_ns (fst (paragraph_blocks active raw)) = ns raw"
proof -
  let ?clean = "strip raw"
  let ?lines = "map rstrip (filter (\<lambda>line. strip line \<noteq> []) (splitlines ?clean))"
  have lines: "concat (map ns ?lines) = ns raw"
  proof -
    have "concat (map ns ?lines) =
        concat (map ns (filter (\<lambda>line. strip line \<noteq> []) (splitlines ?clean)))"
      by (simp add: comp_def)
    also have "\<dots> = concat (map ns (splitlines ?clean))"
      by (rule concat_map_ns_filter) (simp add: strip_empty_ns)
    finally show ?thesis by (simp add: visible)
  qed
  then have joined: "ns (join [newline] ?lines) = ns raw"
    by (simp add: ns_join)
  have empty: "?lines = [] \<Longrightarrow> ns raw = []" using lines by simp
  have clean: "?clean = [] \<Longrightarrow> ns raw = []" by (rule strip_empty_ns)
  have sentences: "concat (map (\<lambda>b. ns (blk_text b))
      (map (\<lambda>s. \<lparr>blk_text = s, blk_type = Text_block, blk_heading = active\<rparr>)
        (split_sentences ?clean))) = ns raw"
    by (simp add: comp_def visible)
  show ?thesis
    unfolding paragraph_blocks_def Let_def
    using joined empty clean sentences by (simp del: map_map list.map_comp)
qed

lemma ns_blocks_from: "all_ns (blocks_from active raws) = concat (map ns raws)"
proof (induction raws arbitrary: active)
  case (Cons raw raws)
  then show ?case
    using ns_paragraph_blocks [of active raw] by (cases "paragraph_blocks active raw") simp
qed simp

lemma ns_blocks: "all_ns (blocks text heading) = ns text"
  by (simp add: blocks_def ns_blocks_from ns_paragraphs)

lemma concat_slices: "0 < sz \<Longrightarrow> concat (slices sz s) = s"
  by (induction sz s rule: slices.induct) (simp add: slices.simps)

lemma ns_concat: "concat (map ns xs) = ns (concat xs)"
  by (induction xs) auto

lemma ns_group_lines:
  "concat (map ns (group_lines sz current lines)) = concat (map ns current) @ concat (map ns lines)"
  by (induction sz current lines rule: group_lines.induct) (auto simp: ns_join)

lemma ns_group_sentences:
  "concat (map ns (group_sentences sz running ss)) = ns running @ concat (map ns ss)"
  by (induction sz running ss rule: group_sentences.induct) (auto simp: Let_def)

lemma ns_split_large_block:
  assumes "0 < sz"
  shows "all_ns (split_large_block sz b) = ns (blk_text b)"
proof -
  have retext: "all_ns (map (\<lambda>t. b\<lparr>blk_text := t\<rparr>) ts) = concat (map ns ts)" for ts
    by (simp add: comp_def)
  show ?thesis
    using assms
    by (simp add: split_large_block_def Let_def retext ns_group_lines ns_group_sentences visible
        ns_concat [of "slices _ _"] concat_slices del: map_map list.map_comp)
qed

lemma ns_emit: "ns (blk_text (emit current)) = all_ns current"
  by (simp add: emit_def ns_join comp_def)

lemma subseq_pack_loop: "subseq (all_ns current @ all_ns pieces) (all_ns (pack_loop sz overlap current len pieces))"
proof (induction pieces arbitrary: current len)
  case Nil
  then show ?case by (simp add: ns_emit)
next
  case (Cons piece pieces)
  let ?seed = "overlap_seed overlap (emit current)"
  have "subseq (all_ns (piece # pieces)) (all_ns (?seed @ [piece]) @ all_ns pieces)"
    by (simp add: list_emb_append2)
  also have "subseq \<dots> (all_ns (pack_loop sz overlap (?seed @ [piece]) len' pieces))" for len'
    by (rule Cons.IH)
  finally have fresh: "subseq (all_ns (piece # pieces))
      (all_ns (pack_loop sz overlap (?seed @ [piece]) len' pieces))" for len' .
  show ?case
  proof (cases "current \<noteq> [] \<and> len + length (blk_text piece) + 1 > sz")
    case True
    then show ?thesis using fresh by (simp add: Let_def ns_emit subseq_append')
  next
    case False
    then show ?thesis using Cons.IH [of "current @ [piece]"] by (auto simp: Let_def)
  qed
qed

lemma all_ns_filter_nonempty: "all_ns (filter (\<lambda>b. blk_text b \<noteq> []) bs) = all_ns bs"
  by (induction bs) auto

lemma all_ns_pieces:
  "0 < sz \<Longrightarrow> all_ns (concat (map (split_large_block sz) bs)) = all_ns bs"
  by (induction bs) (auto simp: ns_split_large_block)

lemma subseq_pack: "0 < sz \<Longrightarrow> subseq (all_ns bs) (all_ns (pack sz overlap bs))"
  using subseq_pack_loop [of "[]" "concat (map (split_large_block sz) bs)" sz overlap 0]
  by (simp add: pack_def all_ns_filter_nonempty all_ns_pieces del: map_concat)

lemma no_overlap_seed [simp]: "overlap_seed 0 b = []"
  by (simp add: overlap_seed_def)

lemma pack_loop_no_overlap:
  "all_ns (pack_loop sz 0 current len pieces) = all_ns current @ all_ns pieces"
  by (induction pieces arbitrary: current len) (auto simp: ns_emit Let_def)

lemma pack_no_overlap: "0 < sz \<Longrightarrow> all_ns (pack sz 0 bs) = all_ns bs"
  by (simp add: pack_def all_ns_filter_nonempty pack_loop_no_overlap all_ns_pieces del: map_concat)

section \<open>How long a chunk can get\<close>

text \<open>
  The longest unit the splitter never cuts: a line of a table or list block, a sentence of a
  heading block with several sentences.
\<close>

definition block_fits :: "nat \<Rightarrow> block \<Rightarrow> bool" where
  "block_fits sz b =
     (if length (blk_text b) \<le> sz then True
      else case blk_type b of
        Text_block \<Rightarrow> True
      | Heading_block \<Rightarrow>
          length (split_sentences (blk_text b)) \<le> 1
          \<or> list_all (\<lambda>s. length s \<le> sz) (split_sentences (blk_text b))
      | _ \<Rightarrow> list_all (\<lambda>line. length line \<le> sz) (splitlines (blk_text b)))"

lemma length_join: "length (join [x, y] ts) = sum_list (map length ts) + 2 * (length ts - 1)"
  by (induction "[x, y]" ts rule: join.induct) auto

lemma length_emit:
  "length (blk_text (emit bs)) \<le> sum_list (map (length \<circ> blk_text) bs) + 2 * (length bs - 1)"
  using length_strip [of "join [newline, newline] (map blk_text bs)"]
  by (simp add: emit_def length_join comp_def)

lemma overlap_seed_cases:
  obtains "overlap_seed overlap b = []"
  | c where "overlap_seed overlap b = [c]" "blk_text c \<noteq> []" "length (blk_text c) \<le> overlap"
  by (cases "overlap \<noteq> 0 \<and> blk_type b = Text_block \<and> last_chars overlap (blk_text b) \<noteq> []")
     (auto simp: overlap_seed_def Let_def last_chars_def)

text \<open>What the packing loop knows of the chunk it is filling.\<close>

definition filling :: "nat \<Rightarrow> nat \<Rightarrow> block list \<Rightarrow> nat \<Rightarrow> bool" where
  "filling sz overlap current len =
     (list_all (\<lambda>b. blk_text b \<noteq> []) current
      \<and> len = sum_list (map (length \<circ> blk_text) current) + (length current - 1)
      \<and> (len \<le> sz \<or> length current \<le> 2 \<and> len \<le> sz + overlap + 1))"

lemma sum_nonempty:
  "list_all (\<lambda>b. blk_text b \<noteq> []) bs \<Longrightarrow> length bs \<le> sum_list (map (length \<circ> blk_text) bs)"
proof (induction bs)
  case (Cons b bs)
  then show ?case by (cases "blk_text b") auto
qed simp

lemma filling_emit:
  assumes "filling sz overlap current len"
  shows "length (blk_text (emit current)) \<le> sz + max (overlap + 2) (sz div 2)"
  using assms length_emit [of current] sum_nonempty [of current]
  unfolding filling_def by (cases current) auto

lemma filling_restart:
  assumes "blk_text piece \<noteq> []" "length (blk_text piece) \<le> sz"
  shows "filling sz overlap (overlap_seed overlap b @ [piece])
    (let l = sum_list (map (length \<circ> blk_text) (overlap_seed overlap b))
     in l + length (blk_text piece) + (if l \<noteq> 0 then 1 else 0))"
  using assms by (cases rule: overlap_seed_cases [of overlap b]) (auto simp: filling_def Let_def)

lemma filling_extend:
  assumes "filling sz overlap current len"
    and "blk_text piece \<noteq> []" "length (blk_text piece) \<le> sz"
    and "\<not> (current \<noteq> [] \<and> len + length (blk_text piece) + (if current \<noteq> [] then 1 else 0) > sz)"
  shows "filling sz overlap (current @ [piece])
    (len + length (blk_text piece) + (if len \<noteq> 0 then 1 else 0))"
  using assms by (cases current) (auto simp: filling_def)

lemma pack_loop_bound:
  assumes "filling sz overlap current len"
    and "\<forall>p \<in> set pieces. blk_text p \<noteq> [] \<and> length (blk_text p) \<le> sz"
    and "c \<in> set (pack_loop sz overlap current len pieces)"
  shows "length (blk_text c) \<le> sz + max (overlap + 2) (sz div 2)"
  using assms
proof (induction pieces arbitrary: current len)
  case Nil
  then show ?case using filling_emit by (simp split: if_splits)
next
  case (Cons piece pieces)
  from Cons.prems(2) have piece: "blk_text piece \<noteq> []" "length (blk_text piece) \<le> sz"
    and rest: "\<forall>p \<in> set pieces. blk_text p \<noteq> [] \<and> length (blk_text p) \<le> sz" by auto
  show ?case
  proof (cases "current \<noteq> [] \<and> len + length (blk_text piece) + (if current \<noteq> [] then 1 else 0) > sz")
    case True
    with Cons.prems(3) consider "c = emit current"
      | "c \<in> set (pack_loop sz overlap (overlap_seed overlap (emit current) @ [piece])
          (let l = sum_list (map (length \<circ> blk_text) (overlap_seed overlap (emit current)))
           in l + length (blk_text piece) + (if l \<noteq> 0 then 1 else 0)) pieces)"
      by (auto simp: Let_def)
    then show ?thesis
    proof cases
      case 1 then show ?thesis using filling_emit Cons.prems(1) by simp
    next
      case 2 then show ?thesis
        using Cons.IH filling_restart [OF piece] rest by blast
    qed
  next
    case False
    then have "c \<in> set (pack_loop sz overlap (current @ [piece])
        (len + length (blk_text piece) + (if len \<noteq> 0 then 1 else 0)) pieces)"
      using Cons.prems(3) by (simp only: pack_loop.simps Let_def if_False)
    then show ?thesis
      using Cons.IH filling_extend [OF Cons.prems(1) piece False] rest by blast
  qed
qed

text \<open>The lines of a block that was joined from lines are those lines.\<close>

abbreviation one_line :: "string \<Rightarrow> bool" where
  "one_line \<equiv> list_all (\<lambda>c. \<not> is_line_break c)"

lemma is_line_break_CR [simp]: "is_line_break newline" "is_line_break (CHR 0x0D)"
  by (simp_all add: is_line_break_def newline_def)

lemma splitlines_from_line:
  "one_line l \<Longrightarrow> splitlines_from acc (l @ newline # rest) = (rev acc @ l) # splitlines_from [] rest"
proof (induction l arbitrary: acc)
  case Nil
  then show ?case by (cases rest) (auto simp: newline_def is_line_break_def)
next
  case (Cons c l)
  then have "c \<noteq> CHR 0x0D" "\<not> is_line_break c" by auto
  with Cons show ?case by (cases "l @ newline # rest") auto
qed

lemma splitlines_from_last: "one_line l \<Longrightarrow> rev acc @ l \<noteq> [] \<Longrightarrow> splitlines_from acc l = [rev acc @ l]"
proof (induction l arbitrary: acc)
  case (Cons c l)
  then have "c \<noteq> CHR 0x0D" "\<not> is_line_break c" by auto
  with Cons show ?case by (cases l) auto
qed simp

lemma splitlines_join:
  "list_all (\<lambda>l. l \<noteq> [] \<and> one_line l) ls \<Longrightarrow> splitlines (join [newline] ls) = ls"
  by (induction "[newline]" ls rule: join.induct)
     (auto simp: splitlines_def splitlines_from_line splitlines_from_last)

lemma one_line_splitlines_from:
  "one_line acc \<Longrightarrow> l \<in> set (splitlines_from acc s) \<Longrightarrow> one_line l"
proof (induction acc s rule: splitlines_from.induct)
  case (2 acc c d s)
  then show ?case by (cases "c = CHR 0x0D \<and> d = newline"; cases "is_line_break c") auto
qed (auto split: if_splits)

lemma one_line_splitlines: "l \<in> set (splitlines s) \<Longrightarrow> one_line l"
  unfolding splitlines_def by (rule one_line_splitlines_from [of "[]"]) simp

text \<open>A sentence is not cut again by the sentence splitter.\<close>

definition unsplit :: "string \<Rightarrow> bool" where
  "unsplit s = (\<forall>u v c d. s = u @ c # d # v \<longrightarrow> c \<in> set ''.!?'' \<longrightarrow> \<not> isspace d)"

lemma unsplit_sublist: "unsplit s \<Longrightarrow> s = u @ t @ v \<Longrightarrow> unsplit t"
  unfolding unsplit_def by (metis append.assoc append_Cons)

lemma strip_middle: "\<exists>u v. s = u @ strip s @ v"
  using lstrip_suffix [of s] rstrip_prefix [of "lstrip s"] unfolding strip_def
  by metis

lemma unsplit_strip: "unsplit s \<Longrightarrow> unsplit (strip s)"
  using strip_middle unsplit_sublist by blast

lemma unsplit_snoc:
  "unsplit (s @ [c]) = (unsplit s \<and> \<not> (s \<noteq> [] \<and> last s \<in> set ''.!?'' \<and> isspace c))"
proof
  assume *: "unsplit (s @ [c])"
  have "unsplit s" by (rule unsplit_sublist [OF *, of "[]" _ "[c]"]) simp
  moreover have "\<not> (s \<noteq> [] \<and> last s \<in> set ''.!?'' \<and> isspace c)"
    using * unfolding unsplit_def by (metis append_butlast_last_id append.assoc append_Cons append_Nil)
  ultimately show "unsplit s \<and> \<not> (s \<noteq> [] \<and> last s \<in> set ''.!?'' \<and> isspace c)" ..
next
  assume *: "unsplit s \<and> \<not> (s \<noteq> [] \<and> last s \<in> set ''.!?'' \<and> isspace c)"
  show "unsplit (s @ [c])"
    unfolding unsplit_def
  proof (intro allI impI)
    fix u v a d assume eq: "s @ [c] = u @ a # d # v" and a: "a \<in> set ''.!?''"
    show "\<not> isspace d"
    proof (cases v rule: rev_cases)
      case Nil
      with eq have "s = u @ [a]" "d = c" by (metis append.assoc append_Cons append_Nil append1_eq_conv)+
      with * a show ?thesis by auto
    next
      case (snoc w x)
      with eq have "s = u @ a # d # w" by simp
      with * a show ?thesis unfolding unsplit_def by blast
    qed
  qed
qed

lemma sentence_parts_unsplit:
  "unsplit (rev acc) \<Longrightarrow> p \<in> set (sentence_parts acc s) \<Longrightarrow> unsplit p"
proof (induction acc s rule: sentence_parts.induct)
  case (2 acc c s)
  have nil: "unsplit (rev [])" by (simp add: unsplit_def)
  show ?case
  proof (cases "isspace c \<and> acc \<noteq> [] \<and> hd acc \<in> set ''.!?''")
    case True
    then show ?thesis using 2 nil by auto
  next
    case False
    then have "unsplit (rev (c # acc))" using 2(3) by (auto simp: unsplit_snoc last_rev)
    then show ?thesis using 2 False by auto
  qed
qed simp

lemma sentence_parts_whole: "unsplit (rev acc @ s) \<Longrightarrow> sentence_parts acc s = [rev acc @ s]"
proof (induction s arbitrary: acc)
  case (Cons c s)
  have "unsplit (rev acc @ [c])"
    by (rule unsplit_sublist [OF Cons.prems, of "[]" _ s]) simp
  then have "\<not> (isspace c \<and> acc \<noteq> [] \<and> hd acc \<in> set ''.!?'')" by (auto simp: unsplit_snoc last_rev)
  then show ?case using Cons by (auto simp del: set_simps)
qed simp

lemma split_sentence_again:
  assumes "s \<in> set (split_sentences t)"
  shows "length (split_sentences s) \<le> 1"
proof -
  have "unsplit s"
    using assms sentence_parts_unsplit [of "[]" _ "strip t"] unsplit_strip
    by (auto simp: split_sentences_def unsplit_def [of "[]"])
  then have "sentence_parts [] (strip s) = [strip s]"
    using sentence_parts_whole [of "[]" "strip s"] unsplit_strip by simp
  then show ?thesis by (simp add: split_sentences_def)
qed

text \<open>Every block has text, and a text block is one sentence.\<close>

definition well_formed_block :: "block \<Rightarrow> bool" where
  "well_formed_block b =
     (blk_text b \<noteq> []
      \<and> (blk_type b = Text_block \<longrightarrow> length (split_sentences (blk_text b)) \<le> 1)
      \<and> (blk_type b \<in> {Table_block, List_block} \<longrightarrow>
           list_all (\<lambda>l. l \<noteq> []) (splitlines (blk_text b))))"

lemma join_nonempty: "ls \<noteq> [] \<Longrightarrow> list_all (\<lambda>l. l \<noteq> []) ls \<Longrightarrow> join [newline] ls \<noteq> []"
  by (induction "[newline]" ls rule: join.induct) auto

lemma one_line_rstrip: "one_line l \<Longrightarrow> one_line (rstrip l)"
  using rstrip_prefix [of l] by (metis list_all_append)

lemma strip_rstrip_nonempty: "strip l \<noteq> [] \<Longrightarrow> rstrip l \<noteq> []"
  by (auto simp: strip_def rstrip_def lstrip_def dropWhile_eq_Nil_conv dest!: set_dropWhileD)

lemma paragraph_blocks_well_formed:
  assumes "b \<in> set (fst (paragraph_blocks active raw))"
  shows "well_formed_block b"
proof -
  let ?lines = "map rstrip (filter (\<lambda>line. strip line \<noteq> []) (splitlines (strip raw)))"
  have lines: "list_all (\<lambda>l. l \<noteq> [] \<and> one_line l) ?lines"
    using one_line_rstrip [OF one_line_splitlines, of _ "strip raw"] strip_rstrip_nonempty
    by (auto simp: list.pred_set)
  then have ne: "list_all (\<lambda>l. l \<noteq> []) ?lines" by (auto simp: list_all_iff)
  have split: "splitlines (join [newline] ?lines) = ?lines" by (rule splitlines_join [OF lines])
  have sentence: "s \<in> set (split_sentences (strip raw)) \<Longrightarrow> s \<noteq> []" for s
    by (auto simp: split_sentences_def)
  show ?thesis
    using assms ne split join_nonempty [OF _ ne] sentence split_sentence_again
    unfolding paragraph_blocks_def Let_def well_formed_block_def
    by (auto split: if_splits)
qed

lemma blocks_well_formed: "b \<in> set (blocks_from active raws) \<Longrightarrow> well_formed_block b"
  using paragraph_blocks_well_formed
  by (induction raws arbitrary: active) (auto split: prod.splits, metis fst_conv)

lemma group_lines_piece:
  assumes "t \<in> set (group_lines sz current lines)"
    and "list_all (\<lambda>l. l \<noteq> [] \<and> length l \<le> sz) (current @ lines)"
    and "length (join [newline] current) \<le> sz"
  shows "t \<noteq> [] \<and> length t \<le> sz"
  using assms
proof (induction sz current lines rule: group_lines.induct)
  case (1 sz current)
  then show ?case by (auto split: if_splits simp: join_nonempty list.pred_set)
next
  case (2 sz current line lines)
  then show ?case by (auto split: if_splits simp: join_nonempty list.pred_set)
qed

lemma group_sentences_piece:
  assumes "t \<in> set (group_sentences sz running ss)"
    and "list_all (\<lambda>s. s \<noteq> [] \<and> length s \<le> sz) ss"
    and "length running \<le> sz" 
    and "\<And>s. s \<in> set ss \<Longrightarrow> strip s = s"
  shows "t \<noteq> [] \<and> length t \<le> sz"
  using assms
proof (induction sz running ss rule: group_sentences.induct)
  case (2 sz running s ss)
  show ?case
  proof (cases "running \<noteq> [] \<and> length (strip (running @ '' '' @ s)) > sz")
    case True
    then show ?thesis using 2 by (auto simp: Let_def)
  next
    case False
    have "length (strip (running @ '' '' @ s)) \<le> sz"
      using False 2(4,6) by (cases "running = []") (auto simp: strip_def lstrip_def)
    then show ?thesis using 2 False by (auto simp: Let_def)
  qed
qed (auto split: if_splits)

lemma slices_piece: "0 < sz \<Longrightarrow> t \<in> set (slices sz s) \<Longrightarrow> t \<noteq> [] \<and> length t \<le> sz"
proof (induction sz s rule: slices.induct)
  case (1 sz s)
  then show ?case by (subst (asm) (2) slices.simps) (auto split: if_splits)
qed

lemma strip_strip [simp]: "strip (strip s) = strip s"
proof -
  have l: "lstrip (lstrip t) = lstrip t" for t by (simp add: lstrip_def)
  have r: "rstrip (rstrip t) = rstrip t" for t by (simp add: rstrip_def)
  have "lstrip (rstrip (lstrip s)) = rstrip (lstrip s)"
  proof (cases "rstrip (lstrip s)")
    case (Cons c u)
    obtain v where "lstrip s = (c # u) @ v" using rstrip_prefix [of "lstrip s"] Cons by metis
    then have "lstrip s = c # u @ v" by simp
    then have "\<not> isspace c" unfolding lstrip_def by (simp add: dropWhile_eq_Cons_conv)
    then show ?thesis using Cons by (simp add: lstrip_def)
  qed simp
  then show ?thesis using r by (simp add: strip_def)
qed

lemma split_sentences_stripped: "s \<in> set (split_sentences t) \<Longrightarrow> strip s = s \<and> s \<noteq> []"
  by (auto simp: split_sentences_def)

lemma split_large_block_piece:
  assumes "0 < sz" "well_formed_block b" "block_fits sz b" "p \<in> set (split_large_block sz b)"
  shows "blk_text p \<noteq> [] \<and> length (blk_text p) \<le> sz"
proof (cases "length (blk_text b) \<le> sz")
  case True
  then show ?thesis using assms by (simp add: split_large_block_def well_formed_block_def)
next
  case long: False
  show ?thesis
  proof (cases "blk_type b \<in> {Table_block, List_block}")
    case True
    then have "list_all (\<lambda>l. l \<noteq> [] \<and> length l \<le> sz) ([] @ splitlines (blk_text b))"
      using assms(2,3) long by (auto simp: well_formed_block_def block_fits_def list.pred_set)
    then show ?thesis
      using assms(4) long True group_lines_piece [of _ sz "[]"] by (auto simp: split_large_block_def)
  next
    case False
    then have ty: "blk_type b \<in> {Text_block, Heading_block}" by (cases "blk_type b") auto
    show ?thesis
    proof (cases "length (split_sentences (blk_text b)) \<le> 1")
      case True
      then show ?thesis
        using assms(1,4) long False slices_piece by (auto simp: split_large_block_def Let_def)
    next
      case several: False
      then have "list_all (\<lambda>s. s \<noteq> [] \<and> length s \<le> sz) (split_sentences (blk_text b))"
        using assms(2,3) long ty split_sentences_stripped
        by (auto simp: well_formed_block_def block_fits_def list.pred_set)
      then show ?thesis
        using assms(4) long False several split_sentences_stripped
          group_sentences_piece [of _ sz "[]" "split_sentences (blk_text b)"]
        by (auto simp: split_large_block_def Let_def)
    qed
  qed
qed

section \<open>Properties\<close>

text \<open>
  C39: chunking loses no visible character and keeps their order: for every text, chunk size
  \<open>size > 0\<close> and overlap, the non-space characters of the text are a subsequence of those of its
  chunks read in order; without overlap the two are equal, so nothing is repeated either.
\<close>

theorem sliding_chunks_keep_text:
  assumes "0 < sz"
  shows "subseq (ns text) (concat (map ns (sliding_chunks text sz overlap)))
    \<and> (overlap = 0 \<longrightarrow> concat (map ns (sliding_chunks text sz overlap)) = ns text)"
  using subseq_pack [OF assms, of "blocks text []" overlap] pack_no_overlap [OF assms]
  by (auto simp: sliding_chunks_def ns_blocks comp_def)

lemma sliding_chunks_sample:
  "sliding_chunks ''One Two. Three'' 9 3 = [''One Two.'', ''wo.'' @ [newline, newline] @ ''Three'']"
  by code_simp

theorem sliding_chunks_keep_text_witness:
  "subseq (ns ''One Two. Three'')
     (concat (map ns [''One Two.'', ''wo.'' @ [newline, newline] @ ''Three'']))"
  by (rule sliding_chunks_keep_text
        [of 9 "''One Two. Three''" 3, unfolded sliding_chunks_sample, THEN conjunct1]) simp

text \<open>
  A chunk is longer than the chunk size by at most the larger of overlap + 2 and half the
  size, provided the document holds no table or list line, and no sentence of a multi-sentence
  heading, that is itself longer than the size (those units are never cut).
\<close>

theorem sliding_chunks_bounded:
  assumes "0 < sz" "list_all (block_fits sz) (blocks text [])"
    and "c \<in> set (sliding_chunks text sz overlap)"
  shows "length c \<le> sz + max (overlap + 2) (sz div 2)"
proof -
  obtain b where b: "b \<in> set (pack_loop sz overlap [] 0
      (concat (map (split_large_block sz) (blocks text []))))" "c = blk_text b"
    using assms(3) by (auto simp: sliding_chunks_def pack_def)
  have "blk_text p \<noteq> [] \<and> length (blk_text p) \<le> sz"
    if "a \<in> set (blocks text [])" "p \<in> set (split_large_block sz a)" for a p
    using split_large_block_piece [OF assms(1) _ _ that(2)] blocks_well_formed that(1) assms(2)
    by (auto simp: blocks_def list.pred_set)
  then have "\<forall>p \<in> set (concat (map (split_large_block sz) (blocks text []))).
      blk_text p \<noteq> [] \<and> length (blk_text p) \<le> sz" by auto
  moreover have "filling sz overlap [] 0" by (simp add: filling_def)
  ultimately show ?thesis using pack_loop_bound b by blast
qed

theorem sliding_chunks_bounded_witness:
  "length (''wo.'' @ [newline, newline] @ ''Three'') \<le> 9 + max (3 + 2) (9 div 2)"
proof (rule sliding_chunks_bounded [of _ "''One Two. Three''"])
  show "list_all (block_fits 9) (blocks ''One Two. Three'' [])" by code_simp
  show "''wo.'' @ [newline, newline] @ ''Three'' \<in> set (sliding_chunks ''One Two. Three'' 9 3)"
    unfolding sliding_chunks_sample by simp
qed simp

text \<open>
  The documented bound size + overlap + 2 on a chunk does not hold in general: ninety
  short sentences packed at the child size 250 and overlap 60 give a chunk of 330 characters,
  because the joining blank line is counted as one character; and a list line longer than the
  size is kept whole, whatever its length.
\<close>

theorem chunk_exceeds_documented_bound:
  "(\<exists>c \<in> set (sliding_chunks (concat (replicate 90 ''A. '')) 250 60). length c > 250 + 60 + 2)
   \<and> (\<exists>c \<in> set (sliding_chunks (''- a'' @ [newline] @ ''- b'' @ replicate 400 (CHR ''x'')) 250 60).
        length c > 250 + 60 + 2)"
  by code_simp

end
