(* ===== verification/Restructure.thy ===== *)
theory Restructure
  imports Chunker
begin

text \<open>
  \<open>src/domain/content_restructure.py\<close>, the deterministic part: the lossless reading view that
  replaces an unsafe AI result (\<open>_fallback_text\<close>), the heading counters and the split of a
  Markdown document at its section headings. The language-model call itself
  (\<open>restructure_document\<close>) is a parameter of the handlers that use it.
\<close>

section \<open>The lossless fallback\<close>

text \<open>
  The bullet U+2022 is outside the range of \<open>char\<close>; the unused control code 0x95 stands for it.
\<close>

definition bullet :: char where
  "bullet = CHR 0x95"

definition is_lower_az :: "char \<Rightarrow> bool" where
  "is_lower_az c = ((of_char c :: nat) \<in> {97..122})"

definition isupper :: "char \<Rightarrow> bool" where
  "isupper c = (let n = (of_char c :: nat) in n \<in> {65..90} \<or> n \<in> {192..222} - {215})"

text \<open>\<open>re.search(r"\s[a-z]{1,2}\s", line)\<close>\<close>

fun has_short_word :: "string \<Rightarrow> bool" where
  "has_short_word [] = False"
| "has_short_word (c # s) =
     ((isspace c \<and>
        (case s of
           a # b # r \<Rightarrow> is_lower_az a
             \<and> (isspace b \<or> is_lower_az b \<and> (case r of [] \<Rightarrow> False | d # _ \<Rightarrow> isspace d))
         | _ \<Rightarrow> False))
      \<or> has_short_word s)"

definition looks_like_heading :: "string \<Rightarrow> bool" where
  "looks_like_heading line =
     (length line \<le> 90 \<and> last line \<notin> set ''.!?''
      \<and> (last line = CHR '':'' \<or> isupper (hd line) \<and> \<not> has_short_word line))"

fun fallback_lines :: "string option \<Rightarrow> string list \<Rightarrow> string list" where
  "fallback_lines repeated [] = []"
| "fallback_lines repeated (raw # raws) =
     (let line = strip raw in
      if line = [] then [] # fallback_lines repeated raws
      else if hd line = bullet then (''- '' @ lstrip (tl line)) # fallback_lines repeated raws
      else if looks_like_heading line \<and> repeated = Some line
      then line # fallback_lines repeated raws
      else if looks_like_heading line
      then (''### '' @ line) # fallback_lines (Some line) raws
      else line # fallback_lines None raws)"

text \<open>\<open>re.sub(r"\n{3,}", "\n\n", s)\<close>\<close>

fun collapse_newlines :: "nat \<Rightarrow> string \<Rightarrow> string" where
  "collapse_newlines k [] = []"
| "collapse_newlines k (c # s) =
     (if c = newline
      then (if k < 2 then c # collapse_newlines (Suc k) s else collapse_newlines k s)
      else c # collapse_newlines 0 s)"

definition fallback_text :: "string \<Rightarrow> string" where
  "fallback_text text =
     strip (collapse_newlines 0 (join [newline] (fallback_lines None (splitlines text))))"

section \<open>Headings and sections\<close>

definition opens_fence :: "string \<Rightarrow> bool" where
  "opens_fence line =
     (let s = take 3 (dropWhile isspace line) in s = ''```'' \<or> s = ''~~~'')"

definition heading_of_depth :: "nat \<Rightarrow> nat \<Rightarrow> string \<Rightarrow> bool" where
  "heading_of_depth least greatest line =
     (let hashes = length (takeWhile (\<lambda>c. c = CHR ''#'') line);
          rest = dropWhile (\<lambda>c. c = CHR ''#'') line
      in least \<le> hashes \<and> hashes \<le> greatest \<and> rest \<noteq> [] \<and> isspace (hd rest)
         \<and> dropWhile isspace rest \<noteq> [])"

fun count_headings :: "(string \<Rightarrow> bool) \<Rightarrow> bool \<Rightarrow> string list \<Rightarrow> nat" where
  "count_headings is_head in_fence [] = 0"
| "count_headings is_head in_fence (line # lines) =
     (if opens_fence line then count_headings is_head (\<not> in_fence) lines
      else (if \<not> in_fence \<and> is_head line then 1 else 0) + count_headings is_head in_fence lines)"

definition heading_count :: "string \<Rightarrow> nat" where
  "heading_count markdown = count_headings (heading_of_depth 1 6) False (splitlines markdown)"

definition chunk_heading_count :: "string \<Rightarrow> nat" where
  "chunk_heading_count markdown =
     count_headings (heading_of_depth 2 3) False (splitlines markdown)"

fun section_chunks :: "bool \<Rightarrow> string list \<Rightarrow> string list \<Rightarrow> string list" where
  "section_chunks in_fence current [] =
     (if current \<noteq> [] \<and> strip (join [newline] current) \<noteq> []
      then [strip (join [newline] current)] else [])"
| "section_chunks in_fence current (line # lines) =
     (let in_fence' = (if opens_fence line then \<not> in_fence else in_fence);
          starts_chunk = (\<not> in_fence' \<and> heading_of_depth 2 3 line)
      in if starts_chunk \<and> current \<noteq> [] \<and> strip (join [newline] current) \<noteq> []
         then strip (join [newline] current) # section_chunks in_fence' [line] lines
         else section_chunks in_fence' (current @ [line]) lines)"

definition split_into_chunks :: "string \<Rightarrow> string list" where
  "split_into_chunks markdown =
     (if strip markdown = [] then [] else section_chunks False [] (splitlines markdown))"

text \<open>\<open>is_already_structured\<close>; the three settings are arguments, the density an exact fraction.\<close>

definition is_already_structured :: "bool \<Rightarrow> nat \<Rightarrow> rat \<Rightarrow> string \<Rightarrow> bool" where
  "is_already_structured skip_when_structured min_headings per_10k markdown =
     (let body = strip markdown; headings = chunk_heading_count body in
      skip_when_structured \<and> body \<noteq> [] \<and> headings \<ge> min_headings
      \<and> of_nat headings / (of_nat (length body) / 10000) \<ge> per_10k)"

section \<open>Lemmas\<close>

lemma ns_collapse_newlines: "ns (collapse_newlines k s) = ns s"
  by (induction k s rule: collapse_newlines.induct) auto

text \<open>The visible characters of a text, bullet glyphs apart.\<close>

definition content :: "string \<Rightarrow> string" where
  "content s = filter (\<lambda>c. c \<noteq> bullet) (ns s)"

lemma content_append [simp]: "content (s @ t) = content s @ content t"
  by (simp add: content_def)

lemma content_strip [simp]: "content (strip s) = content s" "content (lstrip s) = content s"
  by (simp_all add: content_def)

lemma subseq_content: "subseq (content s) (ns s)"
  unfolding content_def by (rule subseq_filter_left)

lemma subseq_skip: "subseq xs zs \<Longrightarrow> subseq xs (ys @ zs)"
  by (rule list_emb_append2)

lemma subseq_bullet_line:
  assumes "hd line = bullet" "line \<noteq> []"
  shows "subseq (content line) (ns (''- '' @ lstrip (tl line)))"
proof -
  have "line = [bullet] @ tl line" using assms by (cases line) auto
  then have "content line = content [bullet] @ content (tl line)" by (metis content_append)
  moreover have "content [bullet] = []" by (simp add: content_def)
  ultimately have "content line = content (tl line)" by simp
  then show ?thesis
    using subseq_skip [OF subseq_content, of "tl line" "ns ''- ''"] by (simp only: ns_simps ns_lstrip)
qed

lemma fallback_line:
  "\<exists>t repeated'. fallback_lines repeated (raw # raws) = t # fallback_lines repeated' raws
     \<and> subseq (content raw) (ns t)"
proof (cases "strip raw = []")
  case True
  then have "content raw = []" by (metis content_strip(1) content_def filter.simps(1) ns_simps(1))
  with True show ?thesis by auto
next
  case line: False
  have c: "subseq (content raw) (ns (strip raw))" using subseq_content [of raw] by simp
  show ?thesis
  proof (cases "hd (strip raw) = bullet")
    case True
    with line subseq_bullet_line [OF True line] show ?thesis by (auto simp: Let_def)
  next
    case False
    have "subseq (content raw) (ns (''### '' @ strip raw))"
      using subseq_skip [OF c, of "ns ''### ''"] by (simp only: ns_simps)
    with False line c show ?thesis
      by (cases "looks_like_heading (strip raw)"; cases "repeated = Some (strip raw)")
         (auto simp: Let_def simp del: ns_Cons)
  qed
qed

lemma subseq_fallback_lines:
  "subseq (concat (map content raws)) (concat (map ns (fallback_lines repeated raws)))"
proof (induction raws arbitrary: repeated)
  case (Cons raw raws)
  obtain t repeated' where t: "fallback_lines repeated (raw # raws) = t # fallback_lines repeated' raws"
    "subseq (content raw) (ns t)" using fallback_line by blast
  show ?case unfolding t(1) using list_emb_append_mono [OF t(2) Cons.IH] by simp
qed simp

lemma content_concat: "concat (map content xs) = filter (\<lambda>c. c \<noteq> bullet) (concat (map ns xs))"
  by (induction xs) (auto simp: content_def)

lemma ns_section_chunks:
  "concat (map ns (section_chunks in_fence current lines))
     = concat (map ns current) @ concat (map ns lines)"
proof (induction lines arbitrary: in_fence current)
  case Nil
  then show ?case
    using ns_join [of "[newline]" current] strip_empty_ns [of "join [newline] current"]
    by (cases "strip (join [newline] current) = []") auto
next
  case (Cons line lines)
  then show ?case
    using ns_join [of "[newline]" current] by (simp add: Let_def)
qed

lemma section_chunks_nonempty: "c \<in> set (section_chunks in_fence current lines) \<Longrightarrow> strip c = c \<and> c \<noteq> []"
  by (induction in_fence current lines rule: section_chunks.induct)
     (auto simp: Let_def split: if_splits)

section \<open>Properties\<close>

text \<open>
  The reading view that replaces an unsafe AI result is lossless. Every visible character
  of the source, bullet glyphs apart, appears in \<open>_fallback_text\<close>'s result in the same order:
  the function only adds layout markers and changes white space.
\<close>

theorem fallback_text_lossless:
  "subseq (filter (\<lambda>c. c \<noteq> bullet) (ns text)) (ns (fallback_text text))"
proof -
  have "ns (fallback_text text) = concat (map ns (fallback_lines None (splitlines text)))"
    by (simp add: fallback_text_def ns_collapse_newlines ns_join)
  then show ?thesis
    using subseq_fallback_lines [of "splitlines text" None]
    by (simp add: content_concat ns_splitlines)
qed

text \<open>
  \<open>split_into_chunks\<close> is lossless: the sections, read in order, hold exactly the visible
  characters of the document, and no section is blank.
\<close>

theorem split_into_chunks_lossless:
  "concat (map ns (split_into_chunks markdown)) = ns markdown
   \<and> list_all (\<lambda>c. strip c = c \<and> c \<noteq> []) (split_into_chunks markdown)"
  using section_chunks_nonempty strip_empty_ns [of markdown]
  by (auto simp: split_into_chunks_def ns_section_chunks ns_splitlines list.pred_set)

end
