(* ===== verification/Governance.thy ===== *)
theory Governance
  imports Store Restructure
begin

text \<open>
  \<open>src/domain/governance.py\<close>, first half: the draft state machine (\<open>_transition_draft\<close>), who may
  review, approve and assign, the review queue, \<open>submit_draft\<close>, \<open>assign_approver\<close>,
  \<open>reject_draft\<close>, the reading-view decisions and the gap queue. Each handler returns its result
  and the database left by its commits. \<open>now\<close> is what \<open>datetime.utcnow()\<close> returns in it.
\<close>

section \<open>Rows the handlers write\<close>

definition log_audit ::
  "uuid option \<Rightarrow> string \<Rightarrow> string \<Rightarrow> uuid option \<Rightarrow> db \<Rightarrow> db" where
  "log_audit who action target_type target s =
     log_audit_row \<lparr>al_user = who, al_action = action, al_target_type = target_type,
       al_target = target, al_outcome = ''success''\<rparr> s"

definition notify :: "uuid option \<Rightarrow> string \<Rightarrow> uuid \<Rightarrow> db \<Rightarrow> db" where
  "notify recipient event subject s =
     add_notification \<lparr>nt_recipient = recipient, nt_event = event, nt_subject = subject\<rparr> s"

section \<open>The draft state machine\<close>

definition allowed :: "draft_status \<Rightarrow> draft_status set" where
  "allowed st =
     (case st of
        Draft \<Rightarrow> {Pending, Rejected}
      | Pending \<Rightarrow> {Approved, Rejected}
      | Rejected \<Rightarrow> {Pending}
      | Approved \<Rightarrow> {})"

fun status_name :: "draft_status \<Rightarrow> string" where
  "status_name Draft = ''draft''"
| "status_name Pending = ''pending''"
| "status_name Approved = ''approved''"
| "status_name Rejected = ''rejected''"

text \<open>\<open>reason.strip() if reason and reason.strip() else None\<close>\<close>

definition clean_note :: "string option \<Rightarrow> string option" where
  "clean_note reason =
     (case reason of None \<Rightarrow> None | Some r \<Rightarrow> if strip r = [] then None else Some (strip r))"

definition transition_draft ::
  "pending_draft \<Rightarrow> user option \<Rightarrow> draft_status \<Rightarrow> string option
     \<Rightarrow> (pending_draft \<times> draft_transition) result" where
  "transition_draft d actor target reason =
     (if target \<notin> allowed (d_status d)
      then raise 409 (''Draft cannot transition from '' @ status_name (d_status d)
                      @ '' to '' @ status_name target)
      else Inr (d\<lparr>d_status := target\<rparr>,
             \<lparr>tr_draft = draft_id d, from_status = Some (d_status d), to_status = target,
              actor_id = map_option user_id actor, tr_reason = clean_note reason\<rparr>))"

definition preparing :: "pending_draft \<Rightarrow> bool" where
  "preparing d = (restructure_status d \<in> {''queued'', ''processing'', ''deferred''})"

definition ensure_preparation_complete :: "pending_draft \<Rightarrow> unit result" where
  "ensure_preparation_complete d =
     (if preparing d then Inl (HTTPException 409 (Coded ''preparation_in_progress'' []))
      else Inr ())"

section \<open>Who may act on a draft\<close>

definition may_self_approve :: "user \<Rightarrow> bool" where
  "may_self_approve u =
     (u_role u \<in> {''Admin'', ''CEO''}
      \<or> list_ex (\<lambda>r. role_active r \<and> role_name r \<in> {''Admin'', ''CEO''}
                   \<and> role_company r \<in> {None, Some (u_company u)}) (u_roles u))"

definition may_publish_own_change :: "user \<Rightarrow> bool" where
  "may_publish_own_change u = may_self_approve u"

definition can_approve_draft :: "user \<Rightarrow> pending_draft \<Rightarrow> bool" where
  "can_approve_draft u d =
     (assigned_approver_id d = Some (user_id u) \<or> may_self_approve u)"

definition has_draft_permission :: "user \<Rightarrow> string \<Rightarrow> pending_draft \<Rightarrow> bool" where
  "has_draft_permission u key d =
     list_ex (has_permission u key (Some (draft_resource d))) [Own, Department, Company, Global]"

definition can_review_draft :: "user \<Rightarrow> pending_draft \<Rightarrow> bool" where
  "can_review_draft u d =
     (has_draft_permission u ''article.review'' d \<or> has_draft_permission u ''article.publish'' d)"

definition can_assign_approver :: "user \<Rightarrow> pending_draft \<Rightarrow> bool" where
  "can_assign_approver u d = can_review_draft u d"

definition is_company_governance_lead :: "user \<Rightarrow> bool" where
  "is_company_governance_lead u = may_self_approve u"

definition draft_department_names :: "pending_draft \<Rightarrow> string set" where
  "draft_department_names d =
     (if truthy (d_dept d) then {strip (the (d_dept d))} else {})
     \<union> set (filter (\<lambda>n. n \<noteq> []) (map strip (md_department_names (metadata d))))"

definition unmapped_external_acl_principals :: "external_document \<Rightarrow> string list" where
  "unmapped_external_acl_principals e =
     sort (remdups
       (map (\<lambda>i. ''group:'' @ i) (filter (\<lambda>i. i \<noteq> []) (ext_unmapped_groups e))
        @ map (\<lambda>i. ''user:'' @ i) (filter (\<lambda>i. i \<noteq> []) (ext_unmapped_users e))
        @ filter (\<lambda>i. i \<noteq> []) (ext_unmapped_principals e)))"

definition is_global_publisher :: "user \<Rightarrow> bool" where
  "is_global_publisher u = has_permission u ''article.publish'' None Global"

definition outside_company :: "user \<Rightarrow> pending_draft \<Rightarrow> bool" where
  "outside_company u d = (d_company d \<noteq> u_company u \<and> \<not> is_global_publisher u)"

section \<open>The review queue\<close>

text \<open>\<open>reviewer_departments\<close> is a finite set of names; \<open>sorted\<close> lists it.\<close>

definition draft_queue_scope :: "user \<Rightarrow> queue_scope result" where
  "draft_queue_scope u =
     (if is_global_publisher u
      then Inr \<lparr>qs_company = None, qs_dept = None, qs_depts = None, qs_assigned = None\<rparr>
      else if list_ex (\<lambda>key. has_permission u key None Company)
                [''article.review'', ''article.publish'', ''governance.read'']
      then
        (if is_company_governance_lead u
         then Inr \<lparr>qs_company = Some (u_company u), qs_dept = None, qs_depts = None,
                   qs_assigned = None\<rparr>
         else Inr \<lparr>qs_company = Some (u_company u), qs_dept = None,
                   qs_depts = Some (sorted_list_of_set (reviewer_departments u)),
                   qs_assigned = Some (user_id u)\<rparr>)
      else raise 403 ''Not authorized to view the approval queue'')"

definition list_drafts ::
  "(string \<Rightarrow> string) \<Rightarrow> db \<Rightarrow> user \<Rightarrow> draft_status option \<Rightarrow> nat option \<Rightarrow> int \<Rightarrow> string option
     \<Rightarrow> pending_draft list result" where
  "list_drafts unaccent s u status limit offset search =
     (case draft_queue_scope u of
        Inl e \<Rightarrow> Inl e
      | Inr sc \<Rightarrow> Inr (list_drafts_page unaccent s status sc limit offset search))"

definition count_drafts ::
  "(string \<Rightarrow> string) \<Rightarrow> db \<Rightarrow> user \<Rightarrow> draft_status option \<Rightarrow> string option \<Rightarrow> nat result" where
  "count_drafts unaccent s u status search =
     (case draft_queue_scope u of
        Inl e \<Rightarrow> Inl e
      | Inr sc \<Rightarrow> Inr (count_drafts_in unaccent s status sc search))"

section \<open>Submission\<close>

text \<open>The approver the department's rule selects for a draft, when it may be applied.\<close>

definition rule_approver :: "db \<Rightarrow> user \<Rightarrow> pending_draft \<Rightarrow> user option" where
  "rule_approver s u d =
     (case get_approver_rule s (d_company d) (d_dept d) of
        None \<Rightarrow> None
      | Some rule \<Rightarrow>
          if \<not> ar_active rule then None
          else (case get_user_by_id s (ar_approver rule) (Some u) of
                  None \<Rightarrow> None
                | Some approver \<Rightarrow>
                    if u_active approver \<and> u_company approver = d_company d
                       \<and> can_review_draft approver d
                       \<and> (created_by d = None \<or> created_by d \<noteq> Some (user_id approver)
                          \<or> may_self_approve approver)
                    then Some approver else None))"

definition assign_to :: "instant \<Rightarrow> user \<Rightarrow> user \<Rightarrow> pending_draft \<Rightarrow> pending_draft" where
  "assign_to now u approver d =
     d\<lparr>assigned_approver_id := Some (user_id approver), assigned_by := Some (user_id u),
       assigned_at := Some now\<rparr>"

definition is_split_candidate :: "pending_draft \<Rightarrow> bool" where
  "is_split_candidate d = (md_submission_kind (metadata d) = Some ''split_candidate'')"

definition submit_draft ::
  "instant \<Rightarrow> user \<Rightarrow> uuid \<Rightarrow> string option \<Rightarrow> db \<Rightarrow> pending_draft outcome" where
  "submit_draft now u i reason s =
     (case get_draft_for_user s i u of
        None \<Rightarrow> (raise 404 ''Draft not found'', s)
      | Some d \<Rightarrow>
          if created_by d \<noteq> Some (user_id u) \<and> \<not> is_global_publisher u
             \<and> \<not> (is_split_candidate d \<and> can_review_draft u d)
          then (raise 403 ''Only the draft author or a global publisher can submit this draft'', s)
          else if d_status d \<noteq> Draft
          then (raise 409 (''Draft cannot be submitted from status: '' @ status_name (d_status d)), s)
          else
            case transition_draft d (Some u) Pending
                   (Some (or_else reason ''Submitted for independent approval'')) of
              Inl e \<Rightarrow> (Inl e, s)
            | Inr (d1, t) \<Rightarrow>
                let s1 = add_transition t s;
                    (d2, s2) =
                      (case rule_approver s u d1 of
                         None \<Rightarrow> (d1, s1)
                       | Some approver \<Rightarrow>
                           (assign_to now u approver d1,
                            log_audit (Some (user_id u)) ''assign_approver_rule'' ''draft''
                              (Some (draft_id d))
                              (notify (Some (user_id approver)) ''draft_assigned_by_rule''
                                (draft_id d) s1)))
                in (Inr d2,
                    log_audit (Some (user_id u)) ''submit'' ''draft'' (Some (draft_id d))
                      (update_draft d2 s2)))"

section \<open>Assignment\<close>

definition assign_approver ::
  "instant \<Rightarrow> user \<Rightarrow> uuid \<Rightarrow> uuid option \<Rightarrow> bool \<Rightarrow> db \<Rightarrow> pending_draft outcome" where
  "assign_approver now u i approver_id use_rule s =
     (case get_draft_for_user s i u of
        None \<Rightarrow> (raise 404 ''Draft not found'', s)
      | Some d \<Rightarrow>
          if d_status d \<noteq> Pending then (raise 409 ''Only pending drafts can be assigned'', s)
          else if outside_company u d then (raise 403 ''Draft is outside your company'', s)
          else if \<not> can_assign_approver u d
          then (raise 403 ''Not authorized to assign approvers for this draft'', s)
          else
            let rule = (if use_rule then get_approver_rule s (d_company d) (d_dept d) else None);
                chosen = (if use_rule then map_option ar_approver rule else approver_id)
            in if use_rule \<and> (case rule of None \<Rightarrow> True | Some r \<Rightarrow> \<not> ar_active r)
               then (raise 404 ''No active approver rule exists for this department'', s)
               else case chosen of
                 None \<Rightarrow> (raise 422 ''approver_id is required unless use_rule is true'', s)
               | Some ai \<Rightarrow>
                   (case get_user_by_id s ai (Some u) of
                      None \<Rightarrow> (raise 422 ''Approver must be an active user in the draft's company'', s)
                    | Some approver \<Rightarrow>
                        if \<not> u_active approver \<or> u_company approver \<noteq> d_company d
                        then (raise 422 ''Approver must be an active user in the draft's company'', s)
                        else if created_by d = Some (user_id approver) \<and> \<not> may_self_approve approver
                        then (raise 422 ''A submitter cannot approve their own draft'', s)
                        else if \<not> can_review_draft approver d
                        then (raise 422 ''Selected user does not have approval permission for this draft'', s)
                        else if assigned_approver_id d = Some (user_id approver)
                        then (raise 409 ''The selected approver is already assigned'', s)
                        else
                          let previous = assigned_approver_id d;
                              d' = assign_to now u approver d;
                              s1 = update_draft d' s;
                              s2 = notify (Some (user_id approver))
                                     (if previous \<noteq> None then ''draft_reassigned'' else ''draft_assigned'')
                                     (draft_id d) s1;
                              s3 = (if previous \<noteq> None
                                    then notify previous ''draft_reassigned_away'' (draft_id d) s2
                                    else s2)
                          in (Inr d',
                              log_audit (Some (user_id u))
                                (if previous \<noteq> None then ''reassign_approver''
                                 else if use_rule then ''assign_approver_rule'' else ''assign_approver'')
                                ''draft'' (Some (draft_id d)) s3)))"

definition eligible_approvers :: "user \<Rightarrow> uuid \<Rightarrow> db \<Rightarrow> user list result" where
  "eligible_approvers u i s =
     (case get_draft_for_user s i u of
        None \<Rightarrow> raise 404 ''Draft not found''
      | Some d \<Rightarrow>
          if outside_company u d then raise 403 ''Draft is outside your company''
          else if \<not> can_assign_approver u d
          then raise 403 ''Not authorized to assign approvers for this draft''
          else Inr (filter (\<lambda>c. (created_by d \<noteq> Some (user_id c) \<or> may_self_approve c)
                              \<and> can_review_draft c d)
                 (list_users s 0 500 (Some u) (Some (d_company d)) (Some True) None)))"

section \<open>Rejection\<close>

record storage_settings =
  st_bucket :: string
  st_prefix :: string
  st_up :: bool

definition strip_slashes :: "string \<Rightarrow> string" where
  "strip_slashes p =
     rev (dropWhile (\<lambda>c. c = CHR ''/'') (rev (dropWhile (\<lambda>c. c = CHR ''/'') p)))"

text \<open>\<open>source_storage.delete_source\<close>; \<open>None\<close> is an exception, \<open>st_up\<close> whether the store answers.\<close>

definition delete_source :: "storage_settings \<Rightarrow> string \<Rightarrow> string list \<Rightarrow> string list option" where
  "delete_source cfg key objects =
     (if take 5 key \<noteq> ''s3://'' then None
      else
        let rest = drop 5 key;
            bucket = takeWhile (\<lambda>c. c \<noteq> CHR ''/'') rest;
            name = drop (Suc (length bucket)) rest;
            expected = strip_slashes (st_prefix cfg) @ ''/''
        in if bucket \<noteq> st_bucket cfg \<or> take (length expected) name \<noteq> expected \<or> \<not> st_up cfg
           then None
           else Some (filter (\<lambda>k. k \<noteq> key) objects))"

definition drop_fingerprints :: "string \<Rightarrow> string \<Rightarrow> db \<Rightarrow> db" where
  "drop_fingerprints company h s =
     s\<lparr>fingerprint_table :=
         filter (\<lambda>f. \<not> (fp_company f = company \<and> fp_hash f = h)) (fingerprint_table s)\<rparr>"

definition reject_draft ::
  "storage_settings \<Rightarrow> instant \<Rightarrow> user \<Rightarrow> uuid \<Rightarrow> string \<Rightarrow> db \<Rightarrow> pending_draft outcome" where
  "reject_draft cfg now u i note s =
     (case get_draft_for_user s i u of
        None \<Rightarrow> (raise 404 ''Draft not found'', s)
      | Some d \<Rightarrow>
          if d_status d \<noteq> Pending
          then (raise 409 (''Draft cannot be rejected from status: '' @ status_name (d_status d)), s)
          else case ensure_preparation_complete d of
            Inl e \<Rightarrow> (Inl e, s)
          | Inr _ \<Rightarrow>
              if outside_company u d then (raise 403 ''Draft is outside your company'', s)
              else if \<not> can_approve_draft u d
              then (raise 403 ''Only the assigned approver or an Admin can reject this draft'', s)
              else case transition_draft d (Some u) Rejected (Some note) of
                Inl e \<Rightarrow> (Inl e, s)
              | Inr (d1, t) \<Rightarrow>
                  let d2 = d1\<lparr>reviewed_by := Some (user_id u), reviewed_at := Some now,
                              review_note := Some (strip note)\<rparr>;
                      s1 = notify (created_by d) ''draft_rejected'' (draft_id d)
                             (drop_fingerprints (d_company d) (d_source_hash d)
                               (add_transition t s));
                      s2 = update_draft d2 s1;
                      key = (if external_document_id d = None then d_storage_key d else None);
                      s3 = (if truthy key
                            then case delete_source cfg (the key) (stored_objects s2) of
                                   None \<Rightarrow> s2
                                 | Some objects \<Rightarrow> s2\<lparr>stored_objects := objects\<rparr>
                            else s2)
                  in (Inr d2, log_audit (Some (user_id u)) ''reject'' ''draft'' (Some (draft_id d)) s3))"

section \<open>Reading view\<close>

record restructure_result =
  rr_body :: string
  rr_status :: string
  rr_model :: string
  rr_error :: "string option"
  rr_candidate :: "string option"

text \<open>\<open>restructure\<close> stands for the language-model call \<open>restructure_document\<close>.\<close>

definition restructure_draft ::
  "(string \<Rightarrow> string \<Rightarrow> bool \<Rightarrow> restructure_result) \<Rightarrow> user \<Rightarrow> uuid \<Rightarrow> bool \<Rightarrow> db
     \<Rightarrow> pending_draft outcome" where
  "restructure_draft restructure u i enabled s =
     (case get_draft_for_user s i u of
        None \<Rightarrow> (raise 404 ''Draft not found'', s)
      | Some d \<Rightarrow>
          if d_status d \<noteq> Pending then (raise 400 ''Only pending drafts can be restructured'', s)
          else if outside_company u d then (raise 403 ''Draft is outside your company'', s)
          else if \<not> can_review_draft u d
          then (raise 403 ''Only users with review or publish permission can restructure this draft'', s)
          else
            let pages = (case d_page_texts d of None \<Rightarrow> [] | Some ps \<Rightarrow> ps);
                source_text = or_else (summary d)
                  (join [newline, newline] (map the (filter truthy pages)));
                r = restructure (d_title d) source_text enabled;
                d' = d\<lparr>restructured_body_md := Some (rr_body r),
                       restructure_candidate_md := rr_candidate r,
                       restructure_decision :=
                         (if truthy (rr_candidate r) then ''pending_review''
                          else if rr_status r = ''llm'' then ''ai_ready'' else ''lossless_ready''),
                       restructure_status := rr_status r, restructure_model := Some (rr_model r),
                       restructure_error := rr_error r\<rparr>
            in (Inr d', log_audit (Some (user_id u)) ''restructure'' ''draft'' (Some (draft_id d))
                          (update_draft d' s)))"

definition decide_restructure ::
  "user \<Rightarrow> uuid \<Rightarrow> string \<Rightarrow> db \<Rightarrow> pending_draft outcome" where
  "decide_restructure u i decision s =
     (case get_draft_for_user s i u of
        None \<Rightarrow> (raise 404 ''Draft not found'', s)
      | Some d \<Rightarrow>
          if d_status d \<noteq> Pending
          then (raise 400 ''Only pending drafts can change the reading-view decision'', s)
          else if outside_company u d then (raise 403 ''Draft is outside your company'', s)
          else if assigned_approver_id d \<noteq> None \<and> assigned_approver_id d \<noteq> Some (user_id u)
          then (raise 403 ''This draft is assigned to another approver'', s)
          else if \<not> can_review_draft u d
          then (raise 403 ''You do not have approval permission for this draft'', s)
          else if decision \<notin> {''keep_ai'', ''keep_lossless''}
          then (raise 422 ''Decision must be keep_ai or keep_lossless'', s)
          else if decision = ''keep_ai'' \<and> \<not> truthy (restructure_candidate_md d)
          then (raise 409 ''There is no retained AI candidate to keep'', s)
          else
            let d' = (if decision = ''keep_ai''
                      then d\<lparr>restructured_body_md := restructure_candidate_md d,
                             restructure_status := ''llm_reviewed'',
                             restructure_decision := ''ai_kept''\<rparr>
                      else d\<lparr>restructured_body_md :=
                               Some (fallback_text
                                 (or_else (summary d) (or_else (restructured_body_md d) []))),
                             restructure_status := ''fallback_formatting'',
                             restructure_decision := ''lossless_kept''\<rparr>)
            in (Inr d', log_audit (Some (user_id u)) (''restructure_'' @ decision) ''draft''
                          (Some (draft_id d)) (update_draft d' s)))"

section \<open>Gap queue\<close>

definition gap_company_scope :: "user \<Rightarrow> string option" where
  "gap_company_scope u =
     (if has_permission u ''governance.read'' None Global then None else Some (u_company u))"

definition list_gaps :: "db \<Rightarrow> user \<Rightarrow> gap_status option \<Rightarrow> gap list result" where
  "list_gaps s u status =
     (if \<not> has_permission u ''governance.read'' None Company
      then raise 403 ''Not authorized to view gaps''
      else Inr (list_gaps_of s status (gap_company_scope u)))"

definition assign_gap :: "user \<Rightarrow> uuid \<Rightarrow> string \<Rightarrow> db \<Rightarrow> gap outcome" where
  "assign_gap u i dept s =
     (if \<not> has_permission u ''governance.read'' None Company
      then (raise 403 ''Not authorized to manage gaps'', s)
      else case get_gap s i (gap_company_scope u) of
        None \<Rightarrow> (raise 404 ''Gap not found'', s)
      | Some g \<Rightarrow>
          (case resolve_active_department (department_table s) (gap_company g) (Some dept) True of
             Inl e \<Rightarrow> (Inl e, s)
           | Inr None \<Rightarrow> (raise 500 ''AttributeError'', s)
           | Inr (Some d) \<Rightarrow>
               let g' = g\<lparr>gap_dept := Some (dept_name d), gap_status := Gap_assigned\<rparr>
               in (Inr g', log_audit (Some (user_id u)) ''assign'' ''gap'' (Some (gap_id g))
                             (update_gap g' s))))"

definition dismiss_gap :: "user \<Rightarrow> uuid \<Rightarrow> db \<Rightarrow> gap outcome" where
  "dismiss_gap u i s =
     (if \<not> has_permission u ''governance.read'' None Company
      then (raise 403 ''Not authorized to manage gaps'', s)
      else case get_gap s i (gap_company_scope u) of
        None \<Rightarrow> (raise 404 ''Gap not found'', s)
      | Some g \<Rightarrow>
          let g' = g\<lparr>gap_status := Gap_dismissed\<rparr>
          in (Inr g', log_audit (Some (user_id u)) ''dismiss'' ''gap'' (Some (gap_id g))
                        (update_gap g' s)))"

section \<open>What the row writers leave alone\<close>

lemma log_audit_keeps [simp, keeps]:
  "department_table (log_audit who a k t s) = department_table s"
  "user_table (log_audit who a k t s) = user_table s"
  "article_table (log_audit who a k t s) = article_table s"
  "draft_table (log_audit who a k t s) = draft_table s"
  "transition_table (log_audit who a k t s) = transition_table s"
  "fingerprint_table (log_audit who a k t s) = fingerprint_table s"
  "gap_table (log_audit who a k t s) = gap_table s"
  "notification_table (log_audit who a k t s) = notification_table s"
  "stored_objects (log_audit who a k t s) = stored_objects s"
  "fresh_id (log_audit who a k t s) = fresh_id s"
  by (simp_all add: log_audit_def log_audit_row_def)

lemma notify_keeps [simp, keeps]:
  "department_table (notify w e i s) = department_table s"
  "user_table (notify w e i s) = user_table s"
  "article_table (notify w e i s) = article_table s"
  "draft_table (notify w e i s) = draft_table s"
  "transition_table (notify w e i s) = transition_table s"
  "fingerprint_table (notify w e i s) = fingerprint_table s"
  "gap_table (notify w e i s) = gap_table s"
  "audit_table (notify w e i s) = audit_table s"
  "stored_objects (notify w e i s) = stored_objects s"
  "fresh_id (notify w e i s) = fresh_id s"
  by (simp_all add: notify_def add_notification_def)

lemma add_transition_keeps [simp, keeps]:
  "department_table (add_transition t s) = department_table s"
  "user_table (add_transition t s) = user_table s"
  "article_table (add_transition t s) = article_table s"
  "draft_table (add_transition t s) = draft_table s"
  "transition_table (add_transition t s) = transition_table s @ [t]"
  "fingerprint_table (add_transition t s) = fingerprint_table s"
  "gap_table (add_transition t s) = gap_table s"
  "audit_table (add_transition t s) = audit_table s"
  "stored_objects (add_transition t s) = stored_objects s"
  "fresh_id (add_transition t s) = fresh_id s"
  by (simp_all add: add_transition_def)

lemma update_draft_keeps [simp, keeps]:
  "department_table (update_draft d s) = department_table s"
  "user_table (update_draft d s) = user_table s"
  "article_table (update_draft d s) = article_table s"
  "draft_table (update_draft d s) = put_row draft_id d (draft_table s)"
  "transition_table (update_draft d s) = transition_table s"
  "fingerprint_table (update_draft d s) = fingerprint_table s"
  "gap_table (update_draft d s) = gap_table s"
  "audit_table (update_draft d s) = audit_table s"
  "stored_objects (update_draft d s) = stored_objects s"
  "fresh_id (update_draft d s) = fresh_id s"
  by (simp_all add: update_draft_def)

lemma drop_fingerprints_keeps [simp, keeps]:
  "department_table (drop_fingerprints c h s) = department_table s"
  "user_table (drop_fingerprints c h s) = user_table s"
  "article_table (drop_fingerprints c h s) = article_table s"
  "draft_table (drop_fingerprints c h s) = draft_table s"
  "transition_table (drop_fingerprints c h s) = transition_table s"
  "gap_table (drop_fingerprints c h s) = gap_table s"
  "audit_table (drop_fingerprints c h s) = audit_table s"
  "stored_objects (drop_fingerprints c h s) = stored_objects s"
  "fresh_id (drop_fingerprints c h s) = fresh_id s"
  by (simp_all add: drop_fingerprints_def)

lemma log_audit_adds [simp]:
  "audit_table (log_audit who a k t s) = audit_table s @
     [\<lparr>al_user = who, al_action = a, al_target_type = k, al_target = t, al_outcome = ''success''\<rparr>]"
  by (simp add: log_audit_def log_audit_row_def)

section \<open>Transitions\<close>

lemma transition_draft_Inr [simp]:
  "transition_draft d actor target reason = Inr (d', t) \<longleftrightarrow>
     target \<in> allowed (d_status d) \<and> d' = d\<lparr>d_status := target\<rparr>
     \<and> t = \<lparr>tr_draft = draft_id d, from_status = Some (d_status d), to_status = target,
            actor_id = map_option user_id actor, tr_reason = clean_note reason\<rparr>"
  by (auto simp: transition_draft_def)

lemma transition_draft_Inl:
  "transition_draft d actor target reason = Inl e \<Longrightarrow>
     target \<notin> allowed (d_status d) \<and> status_code e = 409"
  by (auto simp: transition_draft_def split: if_splits)

lemma allowed_simps [simp]:
  "allowed Draft = {Pending, Rejected}" "allowed Pending = {Approved, Rejected}"
  "allowed Rejected = {Pending}" "allowed Approved = {}"
  by (simp_all add: allowed_def)

lemma get_draft_for_user_SomeD:
  assumes "get_draft_for_user s i u = Some d"
  shows "d \<in> set (draft_table s)" "draft_id d = i" "draft_in_scope u d"
  using assms by (auto simp: get_draft_for_user_def find_Some_iff)

text \<open>
  The transitions of one draft, in order, form a path of the state machine that ends at the
  draft's status.
\<close>

fun path_to :: "draft_status \<Rightarrow> draft_transition list \<Rightarrow> bool" where
  "path_to st [] = True"
| "path_to st (t # ts) =
     (to_status t = st
      \<and> (case from_status t of
           None \<Rightarrow> ts = [] \<and> to_status t = Draft
         | Some prev \<Rightarrow> st \<in> allowed prev \<and> path_to prev ts))"

definition transitions_of :: "db \<Rightarrow> uuid \<Rightarrow> draft_transition list" where
  "transitions_of s i = filter (\<lambda>t. tr_draft t = i) (transition_table s)"

definition history_ok :: "db \<Rightarrow> bool" where
  "history_ok s =
     (\<forall>d \<in> set (draft_table s). path_to (d_status d) (rev (transitions_of s (draft_id d))))"

section \<open>The contract of a draft operation\<close>

text \<open>
  What every handler that acts on one draft promises, whoever calls it: an error leaves the
  database as it was; a success replaces one draft the caller may see, keeps its identity and
  tenant, records exactly the status change it makes, and leaves the other tables the workflow
  depends on alone.
\<close>

definition draft_effect :: "user \<Rightarrow> pending_draft \<Rightarrow> db \<Rightarrow> db \<Rightarrow> bool" where
  "draft_effect u d' s s' =
     (\<exists>d ts. get_draft_for_user s (draft_id d') u = Some d
        \<and> d_company d' = d_company d \<and> created_by d' = created_by d
        \<and> draft_table s' = put_row draft_id d' (draft_table s)
        \<and> transition_table s' = transition_table s @ ts
        \<and> (ts = [] \<and> d_status d' = d_status d
           \<or> (\<exists>t. ts = [t] \<and> tr_draft t = draft_id d' \<and> from_status t = Some (d_status d)
                \<and> to_status t = d_status d' \<and> d_status d' \<in> allowed (d_status d)
                \<and> actor_id t = Some (user_id u))))"

lemma draft_effect_history:
  assumes "draft_effect u d' s s'" and ok: "history_ok s"
  shows "history_ok s'"
proof -
  obtain d ts where d: "get_draft_for_user s (draft_id d') u = Some d"
    and drafts: "draft_table s' = put_row draft_id d' (draft_table s)"
    and trans: "transition_table s' = transition_table s @ ts"
    and ts: "ts = [] \<and> d_status d' = d_status d
      \<or> (\<exists>t. ts = [t] \<and> tr_draft t = draft_id d' \<and> from_status t = Some (d_status d)
           \<and> to_status t = d_status d' \<and> d_status d' \<in> allowed (d_status d)
           \<and> actor_id t = Some (user_id u))"
    using assms(1) unfolding draft_effect_def by blast
  note d_in = get_draft_for_user_SomeD [OF d]
  have path_d: "path_to (d_status d) (rev (transitions_of s (draft_id d')))"
    using ok d_in(1,2) unfolding history_ok_def by metis
  have other: "transitions_of s' i = transitions_of s i" if "i \<noteq> draft_id d'" for i
    using ts that by (auto simp: transitions_of_def trans)
  show ?thesis
    unfolding history_ok_def
  proof
    fix e assume "e \<in> set (draft_table s')"
    then obtain q where q: "q \<in> set (draft_table s)" "e = (if draft_id q = draft_id d' then d' else q)"
      unfolding drafts put_row_def by auto
    show "path_to (d_status e) (rev (transitions_of s' (draft_id e)))"
    proof (cases "draft_id q = draft_id d'")
      case True
      then have "e = d'" using q by simp
      with path_d ts show ?thesis by (auto simp: transitions_of_def trans)
    next
      case False
      with q other ok show ?thesis unfolding history_ok_def by simp
    qed
  qed
qed

lemma draft_effect_approved:
  assumes "draft_effect u d' s s'" and keys: "unique_key draft_id (draft_table s)"
    and d: "d \<in> set (draft_table s)" "d_status d = Approved"
  shows "\<exists>d2 \<in> set (draft_table s'). draft_id d2 = draft_id d \<and> d_status d2 = Approved"
proof -
  obtain q where q: "get_draft_for_user s (draft_id d') u = Some q"
    and drafts: "draft_table s' = put_row draft_id d' (draft_table s)"
    and st: "d_status d' = d_status q \<or> d_status d' \<in> allowed (d_status q)"
    using assms(1) unfolding draft_effect_def by blast
  show ?thesis
  proof (cases "draft_id d = draft_id d'")
    case True
    then have "q = d"
      using get_draft_for_user_SomeD [OF q] d(1) keys unique_key_get_row
      by (metis option.inject)
    with st d(2) have "d_status d' = Approved" by auto
    then show ?thesis unfolding drafts put_row_def using d(1) True by force
  next
    case False
    then show ?thesis unfolding drafts put_row_def using d by force
  qed
qed

definition same_frame :: "db \<Rightarrow> db \<Rightarrow> bool" where
  "same_frame s s' =
     (department_table s' = department_table s \<and> user_table s' = user_table s
      \<and> fresh_id s' = fresh_id s \<and> gap_table s' = gap_table s)"

locale draft_operation =
  fixes run :: "db \<Rightarrow> pending_draft outcome" and viewer :: user
  assumes error_keeps: "run s = (Inl e, s') \<Longrightarrow> s' = s"
    and effect: "run s = (Inr d', s') \<Longrightarrow> draft_effect viewer d' s s'"
    and frame: "run s = (r, s') \<Longrightarrow> same_frame s s'"
    and audited: "run s = (Inr d', s') \<Longrightarrow>
      \<exists>rows. audit_table s' = audit_table s @ rows \<and> rows \<noteq> []
         \<and> (\<forall>r \<in> set rows. al_user r = Some (user_id viewer) \<and> al_target r = Some (draft_id d'))"
begin

lemma keeps_keys:
  assumes "unique_key draft_id (draft_table s)" "run s = (r, s')"
  shows "unique_key draft_id (draft_table s')"
  using assms error_keeps [of s] effect [of s] by (cases r) (auto simp: draft_effect_def)

lemma keeps_history:
  assumes "history_ok s" "run s = (r, s')"
  shows "history_ok s'"
  using assms error_keeps [of s] effect [of s] draft_effect_history by (cases r) blast+

lemma approved_final:
  assumes "unique_key draft_id (draft_table s)" "run s = (r, s')"
    and "d \<in> set (draft_table s)" "d_status d = Approved"
  shows "\<exists>d2 \<in> set (draft_table s'). draft_id d2 = draft_id d \<and> d_status d2 = Approved"
  using assms error_keeps [of s] effect [of s] draft_effect_approved by (cases r) blast+

lemma other_drafts:
  assumes "run s = (Inr d', s')" "i \<noteq> draft_id d'"
  shows "get_row draft_id i (draft_table s') = get_row draft_id i (draft_table s)"
  using effect [OF assms(1)] get_put_other [of i draft_id d'] assms(2) by (auto simp: draft_effect_def)

end

section \<open>The handlers keep the contract\<close>

lemma draft_effect_same_status:
  assumes "get_draft_for_user s i u = Some d" "draft_id d' = draft_id d"
    "d_company d' = d_company d" "created_by d' = created_by d" "d_status d' = d_status d"
    "draft_table s' = put_row draft_id d' (draft_table s)" "transition_table s' = transition_table s"
  shows "draft_effect u d' s s'"
  unfolding draft_effect_def
  using assms get_draft_for_user_SomeD(2) [OF assms(1)] by (intro exI [of _ d] exI [of _ "[]"]) simp

lemma draft_effect_transition:
  assumes "get_draft_for_user s i u = Some d" "draft_id d' = draft_id d"
    "d_company d' = d_company d" "created_by d' = created_by d"
    "draft_table s' = put_row draft_id d' (draft_table s)"
    "transition_table s' = transition_table s @
       [\<lparr>tr_draft = draft_id d, from_status = Some (d_status d), to_status = d_status d',
         actor_id = Some (user_id u), tr_reason = reason\<rparr>]"
    "d_status d' \<in> allowed (d_status d)"
  shows "draft_effect u d' s s'"
  unfolding draft_effect_def
  using assms get_draft_for_user_SomeD(2) [OF assms(1)]
  by (intro exI [of _ d] exI [of _ "[\<lparr>tr_draft = draft_id d, from_status = Some (d_status d),
    to_status = d_status d', actor_id = Some (user_id u), tr_reason = reason\<rparr>]"]) simp

text \<open>The success branch of each handler, read off its definition once.\<close>

lemma submit_draft_Inr:
  assumes "submit_draft now u i reason s = (Inr d', s')"
  obtains d where "get_draft_for_user s i u = Some d" "d_status d = Draft"
    "created_by d = Some (user_id u) \<or> is_global_publisher u
       \<or> is_split_candidate d \<and> can_review_draft u d"
    "d' = (case rule_approver s u (d\<lparr>d_status := Pending\<rparr>) of
             None \<Rightarrow> d\<lparr>d_status := Pending\<rparr>
           | Some a \<Rightarrow> assign_to now u a (d\<lparr>d_status := Pending\<rparr>))"
    "draft_table s' = put_row draft_id d' (draft_table s)"
    "transition_table s' = transition_table s @
       [\<lparr>tr_draft = draft_id d, from_status = Some Draft, to_status = Pending,
         actor_id = Some (user_id u),
         tr_reason = clean_note (Some (or_else reason ''Submitted for independent approval''))\<rparr>]"
    "same_frame s s'"
    "\<exists>rows. audit_table s' = audit_table s @ rows \<and> rows \<noteq> []
       \<and> (\<forall>r \<in> set rows. al_user r = Some (user_id u) \<and> al_target r = Some (draft_id d))"
    "article_table s' = article_table s" "stored_objects s' = stored_objects s"
proof -
  obtain d where d: "get_draft_for_user s i u = Some d"
    using assms by (auto simp: submit_draft_def split: option.splits)
  have guards: "d_status d = Draft"
    "created_by d = Some (user_id u) \<or> is_global_publisher u
       \<or> is_split_candidate d \<and> can_review_draft u d"
    using assms d by (auto simp: submit_draft_def split: if_splits)
  show thesis
    using assms d guards
    by (cases "rule_approver s u (d\<lparr>d_status := Pending\<rparr>)")
       (rule that [OF d guards];
        auto simp: submit_draft_def transition_draft_def same_frame_def Let_def)+
qed

lemma submit_draft_Inl: "submit_draft now u i reason s = (Inl e, s') \<Longrightarrow> s' = s"
  by (auto simp: submit_draft_def Let_def split: option.splits if_splits sum.splits prod.splits)

interpretation submit: draft_operation "submit_draft now u i reason" u for now u i reason
proof
  fix s e s' d'
  assume ok: "submit_draft now u i reason s = (Inr d', s')"
  then obtain d where d: "get_draft_for_user s i u = Some d" "d_status d = Draft"
    "draft_table s' = put_row draft_id d' (draft_table s)"
    "transition_table s' = transition_table s @
       [\<lparr>tr_draft = draft_id d, from_status = Some Draft, to_status = Pending,
         actor_id = Some (user_id u),
         tr_reason = clean_note (Some (or_else reason ''Submitted for independent approval''))\<rparr>]"
    "d' = (case rule_approver s u (d\<lparr>d_status := Pending\<rparr>) of
             None \<Rightarrow> d\<lparr>d_status := Pending\<rparr>
           | Some a \<Rightarrow> assign_to now u a (d\<lparr>d_status := Pending\<rparr>))"
    "\<exists>rows. audit_table s' = audit_table s @ rows \<and> rows \<noteq> []
       \<and> (\<forall>r \<in> set rows. al_user r = Some (user_id u) \<and> al_target r = Some (draft_id d))"
    by (rule submit_draft_Inr)
  have d': "draft_id d' = draft_id d" "d_company d' = d_company d" "created_by d' = created_by d"
    "d_status d' = Pending"
    unfolding d(5) by (simp_all add: assign_to_def split: option.splits)
  show "draft_effect u d' s s'"
    by (rule draft_effect_transition [OF d(1)]) (use d' d in simp_all)
  show "\<exists>rows. audit_table s' = audit_table s @ rows \<and> rows \<noteq> []
     \<and> (\<forall>r \<in> set rows. al_user r = Some (user_id u) \<and> al_target r = Some (draft_id d'))"
    using d(6) d'(1) by simp
next
  fix s r s'
  assume run: "submit_draft now u i reason s = (r, s')"
  show "same_frame s s'"
  proof (cases r)
    case (Inl e)
    then show ?thesis using run submit_draft_Inl by (force simp: same_frame_def)
  next
    case (Inr d')
    with run show ?thesis by (blast elim: submit_draft_Inr)
  qed
qed (rule submit_draft_Inl)

lemma assign_approver_Inl: "assign_approver now u i a use_rule s = (Inl e, s') \<Longrightarrow> s' = s"
  by (auto simp: assign_approver_def Let_def split: option.splits if_splits)

lemma assign_approver_Inr:
  assumes "assign_approver now u i a use_rule s = (Inr d', s')"
  obtains d approver where "get_draft_for_user s i u = Some d" "d_status d = Pending"
    "\<not> outside_company u d" "can_review_draft u d"
    "get_user_by_id s (user_id approver) (Some u) = Some approver"
    "u_active approver" "u_company approver = d_company d" "can_review_draft approver d"
    "created_by d \<noteq> Some (user_id approver) \<or> may_self_approve approver"
    "assigned_approver_id d \<noteq> Some (user_id approver)"
    "d' = assign_to now u approver d"
    "draft_table s' = put_row draft_id d' (draft_table s)"
    "transition_table s' = transition_table s" "same_frame s s'"
    "\<exists>r. audit_table s' = audit_table s @ [r] \<and> al_user r = Some (user_id u)
       \<and> al_target r = Some (draft_id d)"
    "article_table s' = article_table s" "stored_objects s' = stored_objects s"
proof -
  obtain d where d: "get_draft_for_user s i u = Some d"
    using assms by (auto simp: assign_approver_def split: option.splits)
  have guards: "d_status d = Pending" "\<not> outside_company u d" "can_review_draft u d"
    using assms d by (auto simp: assign_approver_def can_assign_approver_def split: if_splits)
  obtain ai approver where ap: "get_user_by_id s ai (Some u) = Some approver"
    and checks: "u_active approver" "u_company approver = d_company d" "can_review_draft approver d"
      "created_by d \<noteq> Some (user_id approver) \<or> may_self_approve approver"
      "assigned_approver_id d \<noteq> Some (user_id approver)"
    and d': "d' = assign_to now u approver d"
    and rest: "draft_table s' = put_row draft_id d' (draft_table s)"
      "transition_table s' = transition_table s" "same_frame s s'"
      "\<exists>r. audit_table s' = audit_table s @ [r] \<and> al_user r = Some (user_id u)
         \<and> al_target r = Some (draft_id d)"
      "article_table s' = article_table s" "stored_objects s' = stored_objects s"
    using assms d guards
    by (auto simp: assign_approver_def can_assign_approver_def Let_def same_frame_def
        split: option.splits if_splits)
  have "user_id approver = ai" using ap by (auto simp: get_user_by_id_def find_Some_iff)
  with ap show thesis by (intro that [OF d guards _ checks d' rest]) simp
qed

interpretation assign: draft_operation "assign_approver now u i a use_rule" u for now u i a use_rule
proof
  fix s e s' d'
  assume ok: "assign_approver now u i a use_rule s = (Inr d', s')"
  show "draft_effect u d' s s'"
    by (rule assign_approver_Inr [OF ok], rule draft_effect_same_status)
       (auto simp: assign_to_def)
  show "\<exists>rows. audit_table s' = audit_table s @ rows \<and> rows \<noteq> []
     \<and> (\<forall>r \<in> set rows. al_user r = Some (user_id u) \<and> al_target r = Some (draft_id d'))"
    by (rule assign_approver_Inr [OF ok]) (auto simp: assign_to_def)
next
  fix s r s'
  assume "assign_approver now u i a use_rule s = (r, s')"
  then show "same_frame s s'"
    using assign_approver_Inl assign_approver_Inr by (cases r) (fastforce simp: same_frame_def)+
qed (rule assign_approver_Inl)

lemma reject_draft_Inl: "reject_draft cfg now u i note s = (Inl e, s') \<Longrightarrow> s' = s"
  by (auto simp: reject_draft_def Let_def split: option.splits if_splits sum.splits prod.splits)

lemma reject_draft_Inr:
  assumes "reject_draft cfg now u i note s = (Inr d', s')"
  obtains d where "get_draft_for_user s i u = Some d" "d_status d = Pending" "\<not> preparing d"
    "\<not> outside_company u d" "can_approve_draft u d"
    "d' = d\<lparr>d_status := Rejected, reviewed_by := Some (user_id u), reviewed_at := Some now,
           review_note := Some (strip note)\<rparr>"
    "draft_table s' = put_row draft_id d' (draft_table s)"
    "transition_table s' = transition_table s @
       [\<lparr>tr_draft = draft_id d, from_status = Some Pending, to_status = Rejected,
         actor_id = Some (user_id u), tr_reason = clean_note (Some note)\<rparr>]"
    "same_frame s s'"
    "\<exists>r. audit_table s' = audit_table s @ [r] \<and> al_user r = Some (user_id u)
       \<and> al_target r = Some (draft_id d)"
    "article_table s' = article_table s"
    "fingerprint_table s' = filter (\<lambda>f. \<not> (fp_company f = d_company d \<and> fp_hash f = d_source_hash d))
       (fingerprint_table s)"
    "stored_objects s' =
       (case (if external_document_id d = None then d_storage_key d else None) of
          None \<Rightarrow> stored_objects s
        | Some key \<Rightarrow> (if key = [] then stored_objects s
            else case delete_source cfg key (stored_objects s) of
                   None \<Rightarrow> stored_objects s | Some objects \<Rightarrow> objects))"
proof -
  obtain d where d: "get_draft_for_user s i u = Some d"
    using assms by (auto simp: reject_draft_def split: option.splits)
  have guards: "d_status d = Pending" "\<not> preparing d" "\<not> outside_company u d" "can_approve_draft u d"
    using assms d
    by (auto simp: reject_draft_def ensure_preparation_complete_def split: if_splits)
  show thesis
    using assms d guards
    by (intro that [OF d guards])
       (auto simp: reject_draft_def ensure_preparation_complete_def transition_draft_def Let_def
          same_frame_def drop_fingerprints_def truthy_def
        split: option.splits if_splits)
qed

interpretation reject: draft_operation "reject_draft cfg now u i memo" u for cfg now u i memo
proof
  fix s e s' d'
  assume ok: "reject_draft cfg now u i memo s = (Inr d', s')"
  show "draft_effect u d' s s'"
    by (rule reject_draft_Inr [OF ok], rule draft_effect_transition) auto
  show "\<exists>rows. audit_table s' = audit_table s @ rows \<and> rows \<noteq> []
     \<and> (\<forall>r \<in> set rows. al_user r = Some (user_id u) \<and> al_target r = Some (draft_id d'))"
    by (rule reject_draft_Inr [OF ok]) auto
next
  fix s r s'
  assume "reject_draft cfg now u i memo s = (r, s')"
  then show "same_frame s s'"
    using reject_draft_Inl reject_draft_Inr by (cases r) (fastforce simp: same_frame_def)+
qed (rule reject_draft_Inl)

lemma restructure_draft_Inl: "restructure_draft f u i enabled s = (Inl e, s') \<Longrightarrow> s' = s"
  by (auto simp: restructure_draft_def Let_def split: option.splits if_splits)

lemma restructure_draft_Inr:
  assumes "restructure_draft f u i enabled s = (Inr d', s')"
  obtains d where "get_draft_for_user s i u = Some d" "d_status d = Pending"
    "\<not> outside_company u d" "can_review_draft u d"
    "draft_id d' = draft_id d" "d_company d' = d_company d" "created_by d' = created_by d"
    "d_status d' = d_status d"
    "draft_table s' = put_row draft_id d' (draft_table s)"
    "transition_table s' = transition_table s" "same_frame s s'"
    "\<exists>r. audit_table s' = audit_table s @ [r] \<and> al_user r = Some (user_id u)
       \<and> al_target r = Some (draft_id d)"
    "article_table s' = article_table s" "stored_objects s' = stored_objects s"
  using assms
  by (auto simp: restructure_draft_def Let_def same_frame_def split: option.splits if_splits)

interpretation restructure: draft_operation "restructure_draft f u i enabled" u for f u i enabled
proof
  fix s e s' d'
  assume ok: "restructure_draft f u i enabled s = (Inr d', s')"
  show "draft_effect u d' s s'"
    by (rule restructure_draft_Inr [OF ok], rule draft_effect_same_status) auto
  show "\<exists>rows. audit_table s' = audit_table s @ rows \<and> rows \<noteq> []
     \<and> (\<forall>r \<in> set rows. al_user r = Some (user_id u) \<and> al_target r = Some (draft_id d'))"
    by (rule restructure_draft_Inr [OF ok]) auto
next
  fix s r s'
  assume "restructure_draft f u i enabled s = (r, s')"
  then show "same_frame s s'"
    using restructure_draft_Inl restructure_draft_Inr by (cases r) (fastforce simp: same_frame_def)+
qed (rule restructure_draft_Inl)

lemma decide_restructure_Inl: "decide_restructure u i decision s = (Inl e, s') \<Longrightarrow> s' = s"
  by (auto simp: decide_restructure_def Let_def split: option.splits if_splits)

lemma decide_restructure_Inr:
  assumes "decide_restructure u i decision s = (Inr d', s')"
  obtains d where "get_draft_for_user s i u = Some d" "d_status d = Pending"
    "\<not> outside_company u d" "can_review_draft u d"
    "assigned_approver_id d = None \<or> assigned_approver_id d = Some (user_id u)"
    "draft_id d' = draft_id d" "d_company d' = d_company d" "created_by d' = created_by d"
    "d_status d' = d_status d"
    "restructured_body_md d' =
       (if decision = ''keep_ai'' then restructure_candidate_md d
        else Some (fallback_text (or_else (summary d) (or_else (restructured_body_md d) []))))"
    "draft_table s' = put_row draft_id d' (draft_table s)"
    "transition_table s' = transition_table s" "same_frame s s'"
    "\<exists>r. audit_table s' = audit_table s @ [r] \<and> al_user r = Some (user_id u)
       \<and> al_target r = Some (draft_id d)"
    "article_table s' = article_table s" "stored_objects s' = stored_objects s"
  using assms
  by (auto simp: decide_restructure_def Let_def same_frame_def split: option.splits if_splits)

interpretation decide: draft_operation "decide_restructure u i decision" u for u i decision
proof
  fix s e s' d'
  assume ok: "decide_restructure u i decision s = (Inr d', s')"
  show "draft_effect u d' s s'"
    by (rule decide_restructure_Inr [OF ok], rule draft_effect_same_status) auto
  show "\<exists>rows. audit_table s' = audit_table s @ rows \<and> rows \<noteq> []
     \<and> (\<forall>r \<in> set rows. al_user r = Some (user_id u) \<and> al_target r = Some (draft_id d'))"
    by (rule decide_restructure_Inr [OF ok]) auto
next
  fix s r s'
  assume "decide_restructure u i decision s = (r, s')"
  then show "same_frame s s'"
    using decide_restructure_Inl decide_restructure_Inr by (cases r) (fastforce simp: same_frame_def)+
qed (rule decide_restructure_Inl)

section \<open>Tenants and departments of a draft\<close>

lemma draft_permission_any_scope:
  "has_draft_permission u key d \<longleftrightarrow> has_permission u key (Some (draft_resource d)) Own"
  unfolding has_draft_permission_def by (rule rbac.any_scope)

text \<open>A draft has no owner, so only a global grant reaches another company's draft.\<close>

lemma can_review_draft_tenant:
  assumes "can_review_draft u d"
    and "\<not> has_permission u ''article.review'' None Global"
    and "\<not> has_permission u ''article.publish'' None Global"
  shows "d_company d = u_company u"
  using assms rbac.ownerless_foreign [of u _ "draft_resource d" Own "d_company d"]
  unfolding can_review_draft_def draft_permission_any_scope
  by (auto simp: draft_resource_def)

lemma draft_in_scope_tenant:
  assumes "draft_in_scope u d"
    and "\<not> has_permission u ''governance.read'' None Global"
    and "\<not> has_permission u ''article.publish'' None Global"
  shows "d_company d = u_company u"
  using assms by (simp add: draft_in_scope_def)

section \<open>Properties\<close>


definition queue_db :: db where
  "queue_db = empty_db\<lparr>draft_table := [blank_draft\<lparr>assigned_approver_id := Some 1\<rparr>],
     fingerprint_table := [\<lparr>fp_company = ''acme'', fp_hash = ''hash'', fp_status = Fp_pending,
       fp_article = None, fp_created_by = None\<rparr>]\<rparr>"

definition storage_off :: storage_settings where
  "storage_off = \<lparr>st_bucket = ''kb'', st_prefix = ''sources'', st_up = False\<rparr>"

lemma staff_no_global [simp]:
  "\<not> has_permission blank_user key None Global"
  by (simp add: has_permission_def scope_allows_def DEFAULT_ROLE_PERMISSIONS_def blank_user_def
      split: option.splits)

definition rejected_draft :: pending_draft where
  "rejected_draft = blank_draft\<lparr>assigned_approver_id := Some 1, d_status := Rejected,
     reviewed_by := Some 1, reviewed_at := Some 5, review_note := Some ''no''\<rparr>"

lemma reject_sample:
  "\<exists>s'. reject_draft storage_off 5 blank_user 1 ''no'' queue_db = (Inr rejected_draft, s')"
proof -
  have [simp]: "has_permission blank_user key None Global = False" for key by simp
  have "get_draft_for_user queue_db 1 blank_user = Some (blank_draft\<lparr>assigned_approver_id := Some 1\<rparr>)"
    unfolding get_draft_for_user_def draft_in_scope_def
    by (simp add: queue_db_def blank_draft_def blank_user_def)
  then show ?thesis
    by (simp add: reject_draft_def ensure_preparation_complete_def preparing_def outside_company_def
        can_approve_draft_def transition_draft_def Let_def rejected_draft_def)
       (simp add: blank_draft_def blank_user_def strip_def lstrip_def rstrip_def isspace_def)
qed


text \<open>
  Who may reject and what rejecting does. Only the assigned approver or an Admin/CEO
  rejects, and only a pending draft whose preparation is finished; the draft becomes rejected
  with the reviewer, time and trimmed note recorded, its source fingerprint is released so the
  document can be submitted again, no article changes, and every other draft stays as it was.
\<close>

theorem reject_draft_correct:
  assumes "reject_draft cfg now u i memo s = (Inr d', s')"
  shows "(\<exists>d. get_draft_for_user s i u = Some d \<and> d_status d = Pending \<and> \<not> preparing d
        \<and> (assigned_approver_id d = Some (user_id u) \<or> may_self_approve u)
        \<and> d' = d\<lparr>d_status := Rejected, reviewed_by := Some (user_id u), reviewed_at := Some now,
                review_note := Some (strip memo)\<rparr>)
    \<and> (\<forall>f \<in> set (fingerprint_table s'). \<not> (fp_company f = d_company d' \<and> fp_hash f = d_source_hash d'))
    \<and> (\<forall>f \<in> set (fingerprint_table s) - set (fingerprint_table s').
         fp_company f = d_company d' \<and> fp_hash f = d_source_hash d')
    \<and> article_table s' = article_table s
    \<and> (\<forall>j. j \<noteq> draft_id d' \<longrightarrow>
         get_row draft_id j (draft_table s') = get_row draft_id j (draft_table s))"
proof (rule reject_draft_Inr [OF assms])
  fix d
  assume d: "get_draft_for_user s i u = Some d" "d_status d = Pending" "\<not> preparing d"
    "can_approve_draft u d"
    and d': "d' = d\<lparr>d_status := Rejected, reviewed_by := Some (user_id u), reviewed_at := Some now,
           review_note := Some (strip memo)\<rparr>"
    and fp: "fingerprint_table s' =
      filter (\<lambda>f. \<not> (fp_company f = d_company d \<and> fp_hash f = d_source_hash d)) (fingerprint_table s)"
    and art: "article_table s' = article_table s"
  have "\<forall>j. j \<noteq> draft_id d' \<longrightarrow>
      get_row draft_id j (draft_table s') = get_row draft_id j (draft_table s)"
    using reject.other_drafts [OF assms] by blast
  then show ?thesis using d d' fp art by (auto simp: can_approve_draft_def)
qed

theorem reject_draft_correct_witness:
  "d_status rejected_draft = Rejected \<and> reviewed_by rejected_draft = Some 1"
proof -
  obtain s' where run: "reject_draft storage_off 5 blank_user 1 ''no'' queue_db
      = (Inr rejected_draft, s')"
    using reject_sample by blast
  from reject_draft_correct [OF run] obtain d where
    eq: "rejected_draft = d\<lparr>d_status := Rejected, reviewed_by := Some (user_id blank_user),
      reviewed_at := Some 5, review_note := Some (strip ''no'')\<rparr>" by blast
  show ?thesis unfolding eq by (simp add: blank_user_def)
qed

text \<open>
  Separation of duties. Whoever assigns an approver, the one assigned is an active user of
  the draft's company who may review it, is a change from the previous assignment, and is not
  the draft's author unless an Admin or CEO; the assignment moves no draft along the state
  machine.
\<close>

theorem assign_approver_sound:
  assumes "assign_approver now u i a use_rule s = (Inr d', s')"
  shows "\<exists>approver \<in> set (user_table s).
      assigned_approver_id d' = Some (user_id approver)
      \<and> u_active approver \<and> u_company approver = d_company d' \<and> can_review_draft approver d'
      \<and> (created_by d' = Some (user_id approver) \<longrightarrow> may_self_approve approver)
      \<and> assigned_by d' = Some (user_id u) \<and> d_status d' = Pending
      \<and> transition_table s' = transition_table s"
proof (rule assign_approver_Inr [OF assms])
  fix d approver
  assume *: "d_status d = Pending" "get_user_by_id s (user_id approver) (Some u) = Some approver"
    "u_active approver" "u_company approver = d_company d" "can_review_draft approver d"
    "created_by d \<noteq> Some (user_id approver) \<or> may_self_approve approver"
    "d' = assign_to now u approver d" "transition_table s' = transition_table s"
  have "can_review_draft approver d'"
    using *(5) by (simp add: *(7) can_review_draft_def has_draft_permission_def draft_resource_def
        assign_to_def)
  moreover have "approver \<in> set (user_table s)"
    using *(2) by (auto simp: get_user_by_id_def find_Some_iff)
  ultimately show ?thesis
    using * by (intro bexI [of _ approver]) (auto simp: assign_to_def)
qed

definition hr_ceo :: user where
  "hr_ceo = blank_user\<lparr>user_id := 7, u_role := ''CEO''\<rparr>"

lemma hr_ceo_simps [simp]:
  "user_id hr_ceo = 7" "u_company hr_ceo = ''acme''" "u_active hr_ceo" "u_role hr_ceo = ''CEO''"
  "has_permission hr_ceo key None Global = False"
  "has_permission hr_ceo ''user.read'' None Company"
  "d_company d = ''acme'' \<Longrightarrow> can_review_draft hr_ceo d"
  by (simp_all add: has_permission_def scope_allows_def DEFAULT_ROLE_PERMISSIONS_def hr_ceo_def
      blank_user_def draft_resource_def same_tenant_def can_review_draft_def
      draft_permission_any_scope split: option.splits)

definition assigning_db :: db where
  "assigning_db = empty_db\<lparr>draft_table := [blank_draft\<lparr>created_by := Some 3\<rparr>], user_table := [hr_ceo]\<rparr>"

definition assigned_draft :: pending_draft where
  "assigned_draft = blank_draft\<lparr>created_by := Some 3, assigned_approver_id := Some 7,
     assigned_by := Some 7, assigned_at := Some 5\<rparr>"

theorem assign_approver_sound_witness:
  "\<exists>approver \<in> set (user_table assigning_db).
     assigned_approver_id assigned_draft = Some (user_id approver) \<and> can_review_draft approver assigned_draft"
proof -
  have "get_draft_for_user assigning_db 1 hr_ceo = Some (blank_draft\<lparr>created_by := Some 3\<rparr>)"
    unfolding get_draft_for_user_def draft_in_scope_def by (simp add: assigning_db_def blank_draft_def)
  moreover have "get_user_by_id assigning_db 7 (Some hr_ceo) = Some hr_ceo"
    unfolding get_user_by_id_def identity_scope_def by (simp add: assigning_db_def)
  ultimately have "\<exists>s'. assign_approver 5 hr_ceo 1 (Some 7) False assigning_db = (Inr assigned_draft, s')"
    by (simp add: assign_approver_def outside_company_def can_assign_approver_def Let_def
        assign_to_def assigned_draft_def blank_draft_def)
  then obtain s' where run: "assign_approver 5 hr_ceo 1 (Some 7) False assigning_db
      = (Inr assigned_draft, s')" by blast
  from assign_approver_sound [OF run] show ?thesis by blast
qed

text \<open>
  An approver rule only takes effect when the submitter may read identities. A submitter
  without a company-wide \<open>user.read\<close> or \<open>user.manage\<close> grant, such as every author with the
  default Staff or Reviewer role, leaves the draft unassigned whatever the rule says, because
  the approver is looked up with the submitter's own identity scope.
\<close>

theorem submit_ignores_rule_without_identity_grant:
  assumes "submit_draft now u i reason s = (Inr d', s')"
    and "\<not> has_permission u ''user.read'' None Company"
    and "\<not> has_permission u ''user.manage'' None Company"
  shows "\<exists>d. get_draft_for_user s i u = Some d
    \<and> assigned_approver_id d' = assigned_approver_id d \<and> assigned_by d' = assigned_by d"
proof (rule submit_draft_Inr [OF assms(1)])
  fix d
  assume d: "get_draft_for_user s i u = Some d"
    and d': "d' = (case rule_approver s u (d\<lparr>d_status := Pending\<rparr>) of
             None \<Rightarrow> d\<lparr>d_status := Pending\<rparr>
           | Some a \<Rightarrow> assign_to now u a (d\<lparr>d_status := Pending\<rparr>))"
  have "\<not> has_permission u ''user.read'' None Global" "\<not> has_permission u ''user.manage'' None Global"
    using assms(2,3) rbac.bypass by blast+
  then have "identity_scope (Some u) row = False" for row
    using assms(2,3) by (simp add: identity_scope_def)
  then have "get_user_by_id s j (Some u) = None" for j
    by (simp add: get_user_by_id_def find_None_iff)
  then have "rule_approver s u (d\<lparr>d_status := Pending\<rparr>) = None"
    by (simp add: rule_approver_def split: option.splits)
  with d d' show ?thesis by auto
qed

definition authored_db :: db where
  "authored_db = empty_db\<lparr>draft_table := [blank_draft\<lparr>d_status := Draft, created_by := Some 1\<rparr>],
     user_table := [hr_ceo, blank_user],
     approver_rule_table := [\<lparr>ar_company = ''acme'', ar_dept = ''HR'', ar_approver = 7, ar_active = True\<rparr>]\<rparr>"

theorem submit_ignores_rule_without_identity_grant_witness:
  "get_approver_rule authored_db ''acme'' (Some ''HR'') \<noteq> None
   \<and> (\<exists>d' s'. submit_draft 5 blank_user 1 None authored_db = (Inr d', s')
        \<and> assigned_approver_id d' = None)"
proof -
  have id: "\<not> has_permission blank_user ''user.read'' None Company"
    "\<not> has_permission blank_user ''user.manage'' None Company"
    by (simp_all add: has_permission_def DEFAULT_ROLE_PERMISSIONS_def blank_user_def)
  have d: "get_draft_for_user authored_db 1 blank_user
      = Some (blank_draft\<lparr>d_status := Draft, created_by := Some 1\<rparr>)"
    unfolding get_draft_for_user_def draft_in_scope_def
    by (simp add: authored_db_def blank_draft_def) (simp add: blank_user_def)
  have "user_id blank_user = 1" by (simp add: blank_user_def)
  with d have "\<exists>d' s'. submit_draft 5 blank_user 1 None authored_db = (Inr d', s')"
    by (simp add: submit_draft_def transition_draft_def Let_def split_beta)
  then obtain d' s' where run: "submit_draft 5 blank_user 1 None authored_db = (Inr d', s')"
    by blast
  from submit_ignores_rule_without_identity_grant [OF run id] d run show ?thesis
    by (auto simp: get_approver_rule_def authored_db_def) (simp_all add: blank_draft_def)
qed

text \<open>
  A company reviewer who belongs to no department and has no legacy department label is
  not limited to any department in the review queue: the empty department list drops the
  department filter, and every unassigned draft of the company is listed and counted, although
  the single-draft lookup refuses each of them.
\<close>

theorem queue_of_reviewer_without_department:
  assumes "\<not> is_global_publisher u" "\<not> has_permission u ''governance.read'' None Global"
    and "has_permission u ''article.review'' None Company"
    and "reviewer_departments u = {}" "\<not> may_self_approve u" "u_company u \<noteq> []"
    and "d \<in> set (draft_table s)" "d_company d = u_company u" "assigned_approver_id d = None"
    and "created_by d \<noteq> Some (user_id u)" "u_roles u = []"
  shows "(\<exists>sc. draft_queue_scope u = Inr sc \<and> draft_scope_filters unaccent None sc None d)
    \<and> \<not> draft_in_scope u d"
proof -
  have "draft_queue_scope u = Inr \<lparr>qs_company = Some (u_company u), qs_dept = None,
      qs_depts = Some [], qs_assigned = Some (user_id u)\<rparr>"
    using assms by (simp add: draft_queue_scope_def is_company_governance_lead_def)
  moreover have "u_role u \<notin> {''Admin'', ''CEO''}"
    using assms(5) by (auto simp: may_self_approve_def)
  ultimately show ?thesis
    using assms by (simp add: draft_scope_filters_def draft_in_scope_def dept_in_def
        is_global_publisher_def split: option.splits)
qed

definition lone_reviewer :: user where
  "lone_reviewer = blank_user\<lparr>user_id := 8, u_role := ''Reviewer''\<rparr>"

theorem queue_of_reviewer_without_department_witness:
  "(\<exists>sc. draft_queue_scope lone_reviewer = Inr sc
      \<and> draft_scope_filters (\<lambda>t. t) None sc None blank_draft)
   \<and> \<not> draft_in_scope lone_reviewer blank_draft"
  by (rule queue_of_reviewer_without_department [where s = two_drafts])
     (simp_all add: lone_reviewer_def is_global_publisher_def has_permission_def scope_allows_def
        DEFAULT_ROLE_PERMISSIONS_def blank_user_def reviewer_departments_def
        member_department_names_def may_self_approve_def two_drafts_def blank_draft_def)

end
