(* ===== verification/Candidates.thy ===== *)
theory Candidates
  imports Governance
begin

text \<open>
  \<open>src/domain/governance.py\<close>, batch review: the candidates a document was split into, the
  reviewer's operations on them (\<open>review_candidate\<close>) and their commit as independent drafts
  (\<open>commit_candidates\<close>). The database refuses a commit in which two candidates of one draft
  share a position (\<open>uq_draft_candidate_position\<close>); that surfaces as an internal error.
\<close>

section \<open>Listing\<close>

definition list_candidates :: "db \<Rightarrow> user \<Rightarrow> uuid \<Rightarrow> candidate list result" where
  "list_candidates s u i =
     (case get_draft_for_user s i u of
        None \<Rightarrow> raise 404 ''Draft not found''
      | Some d \<Rightarrow>
          if \<not> can_review_draft u d \<and> created_by d \<noteq> Some (user_id u)
          then raise 403 ''Not authorized to review this document''
          else Inr (list_candidates_of s i u))"

section \<open>Operations on candidates\<close>

record candidate_request =
  rq_operation :: string
  rq_candidate :: uuid
  rq_other :: "uuid option"
  rq_title :: "string option"
  rq_split_at :: "int option"
  rq_departments :: "uuid list option"
  rq_note :: "string option"

definition put_candidate :: "candidate \<Rightarrow> candidate list \<Rightarrow> candidate list" where
  "put_candidate c cs = put_row cand_id c cs"

definition rename_candidate :: "string option \<Rightarrow> candidate \<Rightarrow> candidate result" where
  "rename_candidate title c =
     (if strip (or_else title []) = [] then raise 422 ''A candidate title is required''
      else Inr (c\<lparr>cand_title := take 255 (strip (or_else title []))\<rparr>))"

definition discard_candidate :: "string option \<Rightarrow> candidate \<Rightarrow> candidate" where
  "discard_candidate memo c =
     c\<lparr>cand_status := Discarded,
       cand_note := Some (take 2000 (or_else memo ''Discarded during batch review''))\<rparr>"

text \<open>The two candidates of a merge in order of position; a tie keeps the selected one first.\<close>

definition in_order :: "candidate \<Rightarrow> candidate \<Rightarrow> candidate \<times> candidate" where
  "in_order c other = (if position other < position c then (other, c) else (c, other))"

definition merge_pair ::
  "string option \<Rightarrow> string option \<Rightarrow> candidate \<Rightarrow> candidate \<Rightarrow> candidate \<times> candidate" where
  "merge_pair title memo first second =
     (first\<lparr>cand_body := rstrip (cand_body first) @ [newline, newline] @ lstrip (cand_body second),
            source_end := max (source_end first) (source_end second),
            cand_title := take 255 (or_else title (cand_title first))\<rparr>,
      second\<lparr>cand_status := Discarded,
             cand_note := Some (take 2000
               (or_else memo (''Merged into candidate '' @ show_int (position first))))\<rparr>)"

definition merge_candidates ::
  "candidate_request \<Rightarrow> candidate \<Rightarrow> candidate list \<Rightarrow> candidate list result" where
  "merge_candidates rq c cs =
     (case (case rq_other rq of None \<Rightarrow> None | Some oi \<Rightarrow> get_row cand_id oi cs) of
        None \<Rightarrow> raise 422 ''Choose another active candidate to merge''
      | Some other \<Rightarrow>
          if cand_status other \<noteq> Candidate \<or> cand_id other = cand_id c
          then raise 422 ''Choose another active candidate to merge''
          else case in_order c other of (first, second) \<Rightarrow>
            (case merge_pair (rq_title rq) (rq_note rq) first second of (f, g) \<Rightarrow>
               Inr (put_candidate g (put_candidate f cs))))"

definition split_boundary :: "int option \<Rightarrow> candidate \<Rightarrow> int" where
  "split_boundary split_at c =
     (case split_at of
        None \<Rightarrow> int (length (cand_body c)) div 2
      | Some b \<Rightarrow> if b = 0 then int (length (cand_body c)) div 2 else b)"

text \<open>The em dash U+2014 is outside the range of \<open>char\<close>; the control code 0x97 stands for it.\<close>

definition continued :: "string \<Rightarrow> string" where
  "continued title = title @ '' '' @ [CHR 0x97] @ '' continued''"

definition split_pair ::
  "uuid \<Rightarrow> uuid \<Rightarrow> string option \<Rightarrow> nat \<Rightarrow> candidate \<Rightarrow> candidate \<times> candidate" where
  "split_pair new_id draft title boundary c =
     (let left = rstrip (take boundary (cand_body c));
          right = lstrip (drop boundary (cand_body c));
          c' = c\<lparr>cand_body := left, source_end := source_start c + int (length left)\<rparr>
      in (c',
          \<lparr>cand_id = new_id, cand_draft = draft, position = position c + 1,
           cand_title = take 255 (or_else title (continued (cand_title c))), cand_body = right,
           source_start = source_end c', source_end = source_end c,
           cand_source_position = None, heading = heading c,
           cand_department_ids = cand_department_ids c,
           cand_suggestions = cand_suggestions c, cand_proposed = cand_proposed c,
           cand_status = Candidate, cand_note = None\<rparr>))"

definition shift_after :: "candidate \<Rightarrow> candidate list \<Rightarrow> candidate list" where
  "shift_after c cs =
     map (\<lambda>x. if cand_status x = Candidate \<and> position x > position c
              then x\<lparr>position := position x + 1\<rparr> else x) cs"

definition split_candidate ::
  "uuid \<Rightarrow> uuid \<Rightarrow> candidate_request \<Rightarrow> candidate \<Rightarrow> candidate list \<Rightarrow> candidate list result" where
  "split_candidate new_id draft rq c cs =
     (let boundary = split_boundary (rq_split_at rq) c in
      if boundary < 1 \<or> boundary \<ge> int (length (cand_body c))
      then raise 422 ''The split position must be inside the candidate text''
      else case split_pair new_id draft (rq_title rq) (nat boundary) c of (c', right) \<Rightarrow>
        Inr (put_candidate c' (shift_after c cs) @ [right]))"

text \<open>The branch of \<open>review_candidate\<close> that the operation name selects.\<close>

definition apply_operation ::
  "db \<Rightarrow> pending_draft \<Rightarrow> candidate_request \<Rightarrow> candidate \<Rightarrow> candidate list \<Rightarrow> candidate list result"
where
  "apply_operation s d rq c cs =
     (if rq_operation rq = ''rename'' then
        (case rename_candidate (rq_title rq) c of
           Inl e \<Rightarrow> Inl e | Inr c' \<Rightarrow> Inr (put_candidate c' cs))
      else if rq_operation rq = ''set_departments'' then
        (case resolve_active_departments (department_table s) (d_company d)
                (case rq_departments rq of None \<Rightarrow> [] | Some ids \<Rightarrow> ids) False of
           Inl e \<Rightarrow> Inl e
         | Inr ds \<Rightarrow> Inr (put_candidate (c\<lparr>cand_department_ids := Some (map dept_id ds)\<rparr>) cs))
      else if rq_operation rq = ''discard'' then
        Inr (put_candidate (discard_candidate (rq_note rq) c) cs)
      else if rq_operation rq = ''merge'' then merge_candidates rq c cs
      else if rq_operation rq = ''split'' then split_candidate (fresh_id s) (draft_id d) rq c cs
      else raise 422 ''Unsupported candidate operation'')"

definition positions_unique :: "candidate list \<Rightarrow> bool" where
  "positions_unique cs = distinct (map position cs)"

definition review_candidate ::
  "user \<Rightarrow> uuid \<Rightarrow> candidate_request \<Rightarrow> db \<Rightarrow> candidate list outcome" where
  "review_candidate u i rq s =
     (case get_draft_for_user s i u of
        None \<Rightarrow> (raise 404 ''Draft not found'', s)
      | Some d \<Rightarrow>
          if d_status d \<noteq> Pending
          then (raise 409 ''Only pending documents can be batch reviewed'', s)
          else if preparing d
          then (raise 409 ''AI formatting is still in progress; candidates will be ready after it finishes'', s)
          else if \<not> can_review_draft u d
          then (raise 403 ''Not authorized to batch review this document'', s)
          else case list_candidates s u i of
            Inl e \<Rightarrow> (Inl e, s)
          | Inr cs \<Rightarrow>
              (case get_row cand_id (rq_candidate rq) cs of
                 None \<Rightarrow> (raise 404 ''Candidate not found'', s)
               | Some c \<Rightarrow>
                   if cand_status c \<noteq> Candidate then (raise 404 ''Candidate not found'', s)
                   else case apply_operation s d rq c cs of
                     Inl e \<Rightarrow> (Inl e, s)
                   | Inr cs' \<Rightarrow>
                       if \<not> positions_unique cs' then (raise 500 ''IntegrityError'', s)
                       else
                         let s1 = (update_draft (d\<lparr>candidates := cs'\<rparr>) s)
                                    \<lparr>fresh_id := (if rq_operation rq = ''split''
                                                  then Suc (fresh_id s) else fresh_id s)\<rparr>;
                             s2 = log_audit (Some (user_id u)) (''candidate_'' @ rq_operation rq)
                                    ''draft_candidate'' (Some (cand_id c)) s1
                         in (list_candidates s2 u i, s2)))"

section \<open>Committing candidates\<close>

datatype commit_status = Created uuid | Commit_failed string

record commit_result =
  cr_candidate :: uuid
  cr_position :: int
  cr_status :: commit_status

text \<open>
  \<open>sha256_hex\<close> stands for the hash and \<open>position_json\<close> for the rendering of the JSON object
  with the source offsets, the heading and the candidate's own source position.
\<close>

definition child_metadata ::
  "(int \<Rightarrow> int \<Rightarrow> string option \<Rightarrow> string option \<Rightarrow> string) \<Rightarrow> content_metadata
     \<Rightarrow> department list \<Rightarrow> candidate \<Rightarrow> content_metadata" where
  "child_metadata position_json base selected c =
     base\<lparr>md_submission_kind := Some ''split_candidate'',
          md_source_position := Some (position_json (source_start c) (source_end c) (heading c)
                                        (cand_source_position c)),
          md_department_ids :=
            (if selected \<noteq> [] then Ids (map (UuidText \<circ> dept_id) selected)
             else case md_department_ids base of Ids ids \<Rightarrow> Ids ids | _ \<Rightarrow> Ids [])\<rparr>"

definition child_draft ::
  "(string \<Rightarrow> string) \<Rightarrow> (int \<Rightarrow> int \<Rightarrow> string option \<Rightarrow> string option \<Rightarrow> string) \<Rightarrow> instant
     \<Rightarrow> pending_draft \<Rightarrow> department list \<Rightarrow> candidate \<Rightarrow> uuid \<Rightarrow> pending_draft" where
  "child_draft sha256_hex position_json now parent selected c new_id =
     \<lparr>draft_id = new_id, d_title = cand_title c, d_company = d_company parent,
      d_dept = (case selected of [] \<Rightarrow> d_dept parent | x # _ \<Rightarrow> Some (dept_name x)),
      d_source_ref = d_source_ref parent @ ''#candidate-'' @ show_int (position c),
      d_source_hash = sha256_hex (d_source_hash parent @ '':'' @ show_int (position c)
                                  @ '':'' @ cand_body c),
      summary = Some (cand_body c), restructured_body_md = Some (cand_body c),
      restructure_candidate_md = None, restructure_decision = ''not_reviewed'',
      restructure_status = ''lossless_ready'', restructure_model = Some ''structure-aware-splitter'',
      restructure_error = None, d_storage_key = d_storage_key parent,
      d_original_filename = d_original_filename parent, d_mime_type = d_mime_type parent,
      d_page_texts = d_page_texts parent, similarity_matches = None,
      requires_update_confirmation = False, update_target_article_id = None, d_related = None,
      d_tags = d_tags parent,
      d_metadata = Some (child_metadata position_json (metadata parent) selected c),
      d_status = Draft, created_by = created_by parent, assigned_approver_id = None,
      assigned_by = None, assigned_at = None, reviewed_by = None, reviewed_at = None,
      review_note = None, external_document_id = None, d_created_at = now, candidates = []\<rparr>"

definition selected_departments :: "department list \<Rightarrow> candidate \<Rightarrow> department list" where
  "selected_departments available c =
     List.map_filter (\<lambda>i. get_row dept_id i available)
       (case cand_department_ids c of None \<Rightarrow> [] | Some ids \<Rightarrow> ids)"

definition routing_failed :: "department list \<Rightarrow> candidate \<Rightarrow> bool" where
  "routing_failed available c =
     (selected_departments available c = [] \<and> cand_department_ids c \<noteq> None
      \<and> cand_department_ids c \<noteq> Some [])"

text \<open>
  The loop over the candidates: the drafts it creates, its report, the candidates it marks
  committed and the next fresh id.
\<close>

fun commit_items ::
  "(candidate \<Rightarrow> uuid \<Rightarrow> pending_draft) \<Rightarrow> (candidate \<Rightarrow> bool) \<Rightarrow> uuid \<Rightarrow> candidate list
     \<Rightarrow> pending_draft list \<times> commit_result list \<times> uuid list \<times> uuid" where
  "commit_items build failed fresh [] = ([], [], [], fresh)"
| "commit_items build failed fresh (c # cs) =
     (if failed c then
        (case commit_items build failed fresh cs of (ds, rs, done_ids, n) \<Rightarrow>
           (ds, \<lparr>cr_candidate = cand_id c, cr_position = position c,
                 cr_status = Commit_failed ''Choose at least one active department''\<rparr> # rs,
            done_ids, n))
      else
        (case commit_items build failed (Suc fresh) cs of (ds, rs, done_ids, n) \<Rightarrow>
           (build c fresh # ds,
            \<lparr>cr_candidate = cand_id c, cr_position = position c, cr_status = Created fresh\<rparr> # rs,
            cand_id c # done_ids, n)))"

definition creation_transition :: "user \<Rightarrow> pending_draft \<Rightarrow> draft_transition" where
  "creation_transition u child =
     \<lparr>tr_draft = draft_id child, from_status = None, to_status = Draft,
      actor_id = Some (user_id u), tr_reason = Some ''Created from batch-reviewed candidate''\<rparr>"

text \<open>\<open>for child in children: await self.submit_draft(...)\<close>, which stops at the first raise.\<close>

fun submit_children :: "instant \<Rightarrow> user \<Rightarrow> pending_draft list \<Rightarrow> db \<Rightarrow> unit outcome" where
  "submit_children now u [] s = (Inr (), s)"
| "submit_children now u (c # cs) s =
     (case submit_draft now u (draft_id c) (Some ''Committed from batch review'') s of
        (Inl e, s') \<Rightarrow> (Inl e, s')
      | (Inr _, s') \<Rightarrow> submit_children now u cs s')"

definition split_note :: string where
  "split_note = ''Split candidates committed as independent drafts''"

text \<open>What is durable before the children are submitted.\<close>

definition commit_rows ::
  "user \<Rightarrow> pending_draft \<Rightarrow> pending_draft list \<Rightarrow> uuid list \<Rightarrow> uuid \<Rightarrow> db
     \<Rightarrow> (pending_draft \<times> db) result" where
  "commit_rows u parent kids done_ids fresh s =
     (case transition_draft parent (Some u) Rejected (Some split_note) of
        Inl e \<Rightarrow> Inl e
      | Inr (p1, t) \<Rightarrow>
          let p2 = p1\<lparr>review_note := Some split_note,
                      candidates := map (\<lambda>c. if cand_id c \<in> set done_ids
                                             then c\<lparr>cand_status := Committed\<rparr> else c)
                                      (candidates p1)\<rparr>
          in Inr (p2,
               s\<lparr>draft_table := put_row draft_id p2 (draft_table s) @ kids,
                 transition_table := transition_table s @ map (creation_transition u) kids @ [t],
                 fresh_id := fresh\<rparr>))"

definition commit_candidates ::
  "(string \<Rightarrow> string) \<Rightarrow> (int \<Rightarrow> int \<Rightarrow> string option \<Rightarrow> string option \<Rightarrow> string) \<Rightarrow> instant
     \<Rightarrow> user \<Rightarrow> uuid \<Rightarrow> db \<Rightarrow> (commit_result list \<times> pending_draft list) outcome" where
  "commit_candidates sha256_hex position_json now u i s =
     (case get_draft_for_user s i u of
        None \<Rightarrow> (raise 404 ''Draft not found'', s)
      | Some parent \<Rightarrow>
          if d_status parent \<noteq> Pending
          then (raise 409 ''Only pending documents can be committed'', s)
          else if preparing parent
          then (raise 409 ''AI formatting is still in progress; candidates cannot be committed yet'', s)
          else if \<not> can_review_draft u parent
          then (raise 403 ''Not authorized to commit batch candidates'', s)
          else case list_candidates s u i of
            Inl e \<Rightarrow> (Inl e, s)
          | Inr all_candidates \<Rightarrow>
              let active = filter (\<lambda>c. cand_status c = Candidate) all_candidates;
                  available = filter (\<lambda>x. dept_company x = d_company parent \<and> dept_active x)
                                (department_table s);
                  build = (\<lambda>c. child_draft sha256_hex position_json now parent
                                (selected_departments available c) c)
              in if active = []
                 then (raise 422 ''Keep at least one candidate before committing'', s)
                 else case commit_items build (routing_failed available) (fresh_id s)
                             (sort_key position active) of
                   (kids, results, done_ids, fresh) \<Rightarrow>
                     if kids = []
                     then (raise 422 ''No valid candidates could be committed'', s)
                     else case commit_rows u parent kids done_ids fresh s of
                       Inl e \<Rightarrow> (Inl e, s)
                     | Inr (parent', s1) \<Rightarrow>
                         (case submit_children now u kids s1 of
                            (Inl e, s2) \<Rightarrow> (Inl e, s2)
                          | (Inr _, s2) \<Rightarrow>
                              (Inr (results, kids),
                               log_audit (Some (user_id u)) ''batch_commit'' ''draft''
                                 (Some (draft_id parent)) s2)))"

section \<open>Splitting\<close>

abbreviation active_positions :: "candidate list \<Rightarrow> int list" where
  "active_positions cs \<equiv> map position (filter (\<lambda>c. cand_status c = Candidate) cs)"

definition shift_position :: "int \<Rightarrow> int \<Rightarrow> int" where
  "shift_position p q = (if q > p then q + 1 else q)"

lemma inj_shift_position: "inj (shift_position p)"
  by (auto simp: inj_def shift_position_def split: if_splits)

lemma shift_position_gap: "shift_position p q \<noteq> p + 1"
  by (auto simp: shift_position_def)

lemma active_positions_shift:
  "active_positions (shift_after c cs) = map (shift_position (position c)) (active_positions cs)"
  by (induction cs) (auto simp: shift_after_def shift_position_def)

lemma shift_after_self:
  "get_row cand_id (cand_id c) cs = Some c \<Longrightarrow>
     get_row cand_id (cand_id c) (shift_after c cs) = Some c"
  unfolding shift_after_def by (subst get_row_map) auto

text \<open>Writing back a candidate with the same position and status keeps the active positions.\<close>

lemma active_positions_put:
  assumes "get_row cand_id (cand_id c) cs = Some q" "unique_key cand_id cs"
    "position c = position q" "cand_status c = cand_status q"
  shows "active_positions (put_candidate c cs) = active_positions cs"
  using assms unfolding put_candidate_def
proof (induction cs)
  case (Cons a cs)
  show ?case
  proof (cases "cand_id a = cand_id c")
    case True
    then have "cand_id c \<notin> cand_id ` set cs" using Cons.prems(2) by (auto simp: unique_key_def)
    then have "put_row cand_id c cs = cs" by (rule put_row_absent)
    with True Cons.prems show ?thesis by auto
  next
    case False
    with Cons show ?thesis by (auto simp: unique_key_def)
  qed
qed simp

lemma unique_key_shift_after [simp]: "unique_key cand_id (shift_after c cs) = unique_key cand_id cs"
  by (auto simp: unique_key_def shift_after_def comp_def intro!: arg_cong [of _ _ distinct])

lemma split_pair_facts:
  assumes "split_pair n draft title b c = (l, r)"
  shows "cand_id l = cand_id c" "cand_id r = n" "position l = position c"
    "position r = position c + 1" "cand_status l = cand_status c" "cand_status r = Candidate"
    "ns (cand_body l) @ ns (cand_body r) = ns (cand_body c)"
    "source_start l = source_start c" "source_end l = source_start r" "source_end r = source_end c"
    "cand_department_ids r = cand_department_ids c"
proof -
  have "ns (take b (cand_body c)) @ ns (drop b (cand_body c)) = ns (cand_body c)"
    by (metis append_take_drop_id ns_simps(2))
  then show "cand_id l = cand_id c" "cand_id r = n" "position l = position c"
    "position r = position c + 1" "cand_status l = cand_status c" "cand_status r = Candidate"
    "ns (cand_body l) @ ns (cand_body r) = ns (cand_body c)"
    "source_start l = source_start c" "source_end l = source_start r" "source_end r = source_end c"
    "cand_department_ids r = cand_department_ids c"
    using assms by (auto simp: split_pair_def Let_def)
qed

section \<open>Committing\<close>

lemma commit_items_shape:
  assumes "\<And>c n. draft_id (build c n) = n"
    and "commit_items build failed fresh cs = (kids, rs, ids, n)"
  shows "map draft_id kids = [fresh..<n] \<and> fresh \<le> n
    \<and> list_all2 (\<lambda>k c. \<exists>m. k = build c m) kids (filter (\<lambda>c. \<not> failed c) cs)
    \<and> length rs = length cs \<and> ids = map cand_id (filter (\<lambda>c. \<not> failed c) cs)"
  using assms(2)
proof (induction cs arbitrary: fresh kids rs ids n)
  case (Cons c cs)
  show ?case
  proof (cases "failed c")
    case True
    with Cons show ?thesis by (fastforce split: prod.splits)
  next
    case False
    then obtain kids' rs' ids' where rest:
      "commit_items build failed (Suc fresh) cs = (kids', rs', ids', n)"
      "kids = build c fresh # kids'" "length rs = Suc (length rs')" "ids = cand_id c # ids'"
      using Cons.prems by (auto split: prod.splits)
    from Cons.IH [OF rest(1)] rest False show ?thesis
      using assms(1) by (auto simp: upt_rec [of fresh n])
  qed
qed simp

lemma submit_sets_pending:
  assumes "submit_draft now u i reason s = (Inr d', s')"
  shows "\<exists>d. get_row draft_id i (draft_table s') = Some d \<and> d_status d = Pending"
proof (rule submit_draft_Inr [OF assms])
  fix d
  assume d: "get_draft_for_user s i u = Some d"
    and d': "d' = (case rule_approver s u (d\<lparr>d_status := Pending\<rparr>) of
             None \<Rightarrow> d\<lparr>d_status := Pending\<rparr>
           | Some a \<Rightarrow> assign_to now u a (d\<lparr>d_status := Pending\<rparr>))"
    and t: "draft_table s' = put_row draft_id d' (draft_table s)"
  note in_d = get_draft_for_user_SomeD [OF d]
  have "draft_id d' = i" "d_status d' = Pending"
    unfolding d' using in_d(2) by (simp_all add: assign_to_def split: option.splits)
  moreover have "get_row draft_id i (draft_table s) \<noteq> None"
    using in_d(1,2) by (auto simp: get_row_None_iff)
  ultimately show ?thesis using get_put_same [of draft_id d' "draft_table s"] t by auto
qed

lemma submit_other:
  assumes "submit_draft now u i reason s = (Inr d', s')" "j \<noteq> i"
  shows "get_row draft_id j (draft_table s') = get_row draft_id j (draft_table s)"
proof -
  have "draft_id d' = i"
    by (rule submit_draft_Inr [OF assms(1)])
       (use get_draft_for_user_SomeD(2) in \<open>auto simp: assign_to_def split: option.splits\<close>)
  then show ?thesis using submit.other_drafts [OF assms(1)] assms(2) by simp
qed

lemma submit_children_other:
  "submit_children now u cs s = (Inr (), s') \<Longrightarrow> j \<notin> draft_id ` set cs \<Longrightarrow>
     get_row draft_id j (draft_table s') = get_row draft_id j (draft_table s)"
  by (induction cs arbitrary: s) (auto simp: submit_other split: prod.splits sum.splits)

lemma submit_children_pending:
  "submit_children now u cs s = (Inr (), s') \<Longrightarrow> c \<in> set cs \<Longrightarrow>
     \<exists>d. get_row draft_id (draft_id c) (draft_table s') = Some d \<and> d_status d = Pending"
proof (induction cs arbitrary: s c)
  case (Cons a cs)
  then obtain d' s1 where a: "submit_draft now u (draft_id a) (Some ''Committed from batch review'') s = (Inr d', s1)"
    and rest: "submit_children now u cs s1 = (Inr (), s')"
    by (auto split: prod.splits sum.splits)
  show ?case
  proof (cases "draft_id c \<in> draft_id ` set cs")
    case True
    then obtain c' where "c' \<in> set cs" "draft_id c' = draft_id c" by auto
    with Cons.IH [OF rest, of c'] show ?thesis by simp
  next
    case False
    then have "c = a" using Cons.prems(2) by auto
    with submit_sets_pending [OF a] submit_children_other [OF rest False] show ?thesis by simp
  qed
qed simp

lemma child_draft_facts [simp]:
  "draft_id (child_draft h j now p ds c n) = n"
  "summary (child_draft h j now p ds c n) = Some (cand_body c)"
  "d_company (child_draft h j now p ds c n) = d_company p"
  "created_by (child_draft h j now p ds c n) = created_by p"
  "d_status (child_draft h j now p ds c n) = Draft"
  by (simp_all add: child_draft_def)

text \<open>The successful run of \<open>commit_candidates\<close>, stage by stage.\<close>

lemma commit_candidates_Inr:
  assumes "commit_candidates h j now u i s = (Inr (results, kids), s')"
  obtains parent ids fresh parent' s1 s2 where
    "get_draft_for_user s i u = Some parent" "d_status parent = Pending"
    "can_review_draft u parent" "kids \<noteq> []"
    "commit_items (\<lambda>c. child_draft h j now parent (selected_departments
        (filter (\<lambda>x. dept_company x = d_company parent \<and> dept_active x) (department_table s)) c) c)
       (routing_failed (filter (\<lambda>x. dept_company x = d_company parent \<and> dept_active x)
          (department_table s))) (fresh_id s)
       (sort_key position (filter (\<lambda>c. cand_status c = Candidate) (list_candidates_of s i u)))
     = (kids, results, ids, fresh)"
    "commit_rows u parent kids ids fresh s = Inr (parent', s1)"
    "submit_children now u kids s1 = (Inr (), s2)"
    "draft_table s' = draft_table s2"
  using assms unfolding commit_candidates_def Let_def
  by (auto simp: list_candidates_def split: option.splits if_splits sum.splits prod.splits)

section \<open>Properties\<close>

text \<open>
  C33: splitting a candidate loses no visible text and no source range. The two halves hold
  the original's visible characters in order, their source ranges are adjacent and cover the
  original range, the new half comes right after the old one, and the active candidates still
  have distinct positions.
\<close>

theorem split_candidate_correct:
  assumes "split_candidate n draft rq c cs = Inr cs'"
    and "get_row cand_id (cand_id c) cs = Some c" "cand_status c = Candidate"
    and "unique_key cand_id cs" "distinct (active_positions cs)"
  shows "distinct (active_positions cs')
    \<and> (\<exists>l \<in> set cs'. \<exists>r \<in> set cs'. cand_id l = cand_id c \<and> cand_id r = n
        \<and> ns (cand_body l) @ ns (cand_body r) = ns (cand_body c)
        \<and> source_start l = source_start c \<and> source_end l = source_start r
        \<and> source_end r = source_end c
        \<and> position l = position c \<and> position r = position l + 1)"
proof -
  obtain l r where pair: "split_pair n draft (rq_title rq) (nat (split_boundary (rq_split_at rq) c)) c = (l, r)"
    and cs': "cs' = put_candidate l (shift_after c cs) @ [r]"
    using assms(1) by (auto simp: split_candidate_def Let_def split: if_splits prod.splits)
  note facts = split_pair_facts [OF pair]
  have row: "get_row cand_id (cand_id l) (shift_after c cs) = Some c"
    using shift_after_self [OF assms(2)] facts(1) by simp
  have "active_positions (put_candidate l (shift_after c cs)) = active_positions (shift_after c cs)"
    by (rule active_positions_put [OF row]) (use assms(4) facts in simp_all)
  then have pos: "active_positions cs' = map (shift_position (position c)) (active_positions cs) @ [position c + 1]"
    using facts(4,6) by (simp add: cs' active_positions_shift)
  have "distinct (map (shift_position (position c)) (active_positions cs))"
    unfolding distinct_map [of "shift_position (position c)"]
    using assms(5) inj_on_subset [OF inj_shift_position subset_UNIV] by blast
  moreover have "position c + 1 \<notin> set (map (shift_position (position c)) (active_positions cs))"
    using shift_position_gap [of "position c"] unfolding set_map by (metis imageE)
  ultimately have "distinct (active_positions cs')" unfolding pos by simp
  moreover have "l \<in> set cs'"
    using row get_put_same [of cand_id l "shift_after c cs"] get_row_SomeD(1)
    unfolding cs' put_candidate_def by fastforce
  moreover have "r \<in> set cs'" by (simp add: cs')
  ultimately show ?thesis
    by (intro conjI bexI [of _ l] bexI [of _ r]) (use facts in simp_all)
qed

definition first_part :: candidate where
  "first_part = \<lparr>cand_id = 11, cand_draft = 1, position = 1, cand_title = ''One'',
     cand_body = ''alpha beta'', source_start = 0, source_end = 10, cand_source_position = None,
     heading = None, cand_department_ids = None, cand_suggestions = None, cand_proposed = None,
     cand_status = Candidate, cand_note = None\<rparr>"

definition second_part :: candidate where
  "second_part = first_part\<lparr>cand_id := 12, position := 2, cand_title := ''Two'',
     cand_body := ''gamma'', source_start := 10, source_end := 15\<rparr>"

definition request :: "string \<Rightarrow> candidate_request" where
  "request operation = \<lparr>rq_operation = operation, rq_candidate = 11, rq_other = Some 12,
     rq_title = None, rq_split_at = None, rq_departments = None, rq_note = None\<rparr>"

theorem split_candidate_correct_witness:
  "\<exists>cs'. split_candidate 50 1 (request ''split'') first_part [first_part, second_part] = Inr cs'
     \<and> distinct (active_positions cs')"
proof -
  have "\<exists>cs'. split_candidate 50 1 (request ''split'') first_part [first_part, second_part] = Inr cs'"
    by (simp add: split_candidate_def split_boundary_def request_def first_part_def split_pair_def
        Let_def)
  then obtain cs' where run:
    "split_candidate 50 1 (request ''split'') first_part [first_part, second_part] = Inr cs'" by blast
  have "distinct (active_positions cs')"
    using split_candidate_correct [OF run]
    by (simp add: first_part_def second_part_def unique_key_def)
  with run show ?thesis by blast
qed

definition batch_db :: db where
  "batch_db = empty_db\<lparr>
     draft_table := [blank_draft\<lparr>created_by := Some 3, d_storage_key := Some ''s3://kb/sources/doc'',
                      candidates := [first_part, second_part]\<rparr>],
     stored_objects := [''s3://kb/sources/doc''],
     department_table := [blank_department, blank_department\<lparr>dept_id := 2, dept_name := ''IT''\<rparr>]\<rparr>"

text \<open>
  Merging a candidate with the next one makes the merged candidate unsplittable: the
  discarded neighbour keeps its position, only active candidates are shifted, and the new half
  collides with it, so the split ends in a database error and changes nothing.
\<close>

theorem split_after_merge_fails:
  "case review_candidate hr_ceo 1 (request ''merge'') batch_db of
     (r, s) \<Rightarrow> status_of r = None \<and>
       review_candidate hr_ceo 1 (request ''split'') s = (raise 500 ''IntegrityError'', s)"
  by code_simp

text \<open>
  A successful batch commit. The parent was pending and reviewable and is now rejected;
  the drafts created hold the bodies of the active candidates with a valid routing, in order of
  position; each belongs to the parent's company and author, has a fresh id and is pending in
  the review queue; and the report has one entry per active candidate.
\<close>

theorem commit_candidates_correct:
  assumes "commit_candidates h j now u i s = (Inr (results, kids), s')"
    and "\<forall>d \<in> set (draft_table s). draft_id d < fresh_id s"
  shows "\<exists>parent available. get_draft_for_user s i u = Some parent \<and> d_status parent = Pending
    \<and> can_review_draft u parent
    \<and> map summary kids = map (\<lambda>c. Some (cand_body c))
        (filter (\<lambda>c. \<not> routing_failed available c)
          (sort_key position (filter (\<lambda>c. cand_status c = Candidate) (list_candidates_of s i u))))
    \<and> length results = length (filter (\<lambda>c. cand_status c = Candidate) (list_candidates_of s i u))
    \<and> kids \<noteq> [] \<and> distinct (map draft_id kids)
    \<and> (\<forall>k \<in> set kids. d_company k = d_company parent \<and> created_by k = created_by parent
         \<and> fresh_id s \<le> draft_id k
         \<and> (\<exists>d. get_row draft_id (draft_id k) (draft_table s') = Some d \<and> d_status d = Pending))
    \<and> (\<exists>p. get_row draft_id i (draft_table s') = Some p \<and> d_status p = Rejected)"
proof (rule commit_candidates_Inr [OF assms(1)])
  fix parent :: pending_draft and ids fresh parent' s1 s2
  let ?available = "filter (\<lambda>x. dept_company x = d_company parent \<and> dept_active x) (department_table s)"
  let ?cs = "sort_key position (filter (\<lambda>c. cand_status c = Candidate) (list_candidates_of s i u))"
  assume parent: "get_draft_for_user s i u = Some parent" "d_status parent = Pending"
    "can_review_draft u parent" and kids: "kids \<noteq> []"
    and items: "commit_items (\<lambda>c. child_draft h j now parent (selected_departments ?available c) c)
       (routing_failed ?available) (fresh_id s) ?cs = (kids, results, ids, fresh)"
    and rows: "commit_rows u parent kids ids fresh s = Inr (parent', s1)"
    and subs: "submit_children now u kids s1 = (Inr (), s2)"
    and s': "draft_table s' = draft_table s2"
  have shape: "map draft_id kids = [fresh_id s..<fresh]"
    "list_all2 (\<lambda>k c. \<exists>m. k = child_draft h j now parent (selected_departments ?available c) c m)
       kids (filter (\<lambda>c. \<not> routing_failed ?available c) ?cs)"
    "length results = length ?cs"
    using commit_items_shape [OF _ items] by simp_all
  have bodies: "map summary kids = map (\<lambda>c. Some (cand_body c))
      (filter (\<lambda>c. \<not> routing_failed ?available c) ?cs)"
    using shape(2) by (induction rule: list_all2_induct) auto
  have owner: "d_company k = d_company parent \<and> created_by k = created_by parent" if "k \<in> set kids" for k
    using shape(2) that by (induction rule: list_all2_induct) auto
  have fresh: "fresh_id s \<le> draft_id k" if "k \<in> set kids" for k
    using arg_cong [OF shape(1), of set] that by (auto simp: set_eq_iff image_iff)
  note in_p = get_draft_for_user_SomeD [OF parent(1)]
  have p: "draft_id parent' = i" "d_status parent' = Rejected"
    "draft_table s1 = put_row draft_id parent' (draft_table s) @ kids"
    using rows in_p(2) parent(2) by (auto simp: commit_rows_def transition_draft_def Let_def)
  have "get_row draft_id i (draft_table s) \<noteq> None"
    using in_p(1,2) by (auto simp: get_row_None_iff)
  then have "get_row draft_id i (draft_table s1) = Some parent'"
    using p get_put_same [of draft_id parent' "draft_table s"] by (simp add: get_row_append)
  moreover have "i \<notin> draft_id ` set kids"
    using fresh in_p(1,2) assms(2) by (auto simp: image_iff) (metis leD)
  ultimately have "get_row draft_id i (draft_table s') = Some parent'"
    using submit_children_other [OF subs] s' by simp
  moreover have "distinct (map draft_id kids)" by (simp add: shape(1))
  ultimately show ?thesis
    using parent kids bodies owner fresh shape(3) p(2) submit_children_pending [OF subs] s'
    by (intro exI [of _ parent] exI [of _ ?available]) auto
qed

abbreviation commit_sample :: "user \<Rightarrow> db \<Rightarrow> (commit_result list \<times> pending_draft list) outcome" where
  "commit_sample u s \<equiv> commit_candidates (\<lambda>t. t) (\<lambda>_ _ _ _. []) 5 u 1 s"

theorem commit_candidates_correct_witness:
  "status_of (fst (commit_sample hr_ceo batch_db)) = None
   \<and> (\<exists>p. get_row draft_id 1 (draft_table (snd (commit_sample hr_ceo batch_db))) = Some p
          \<and> d_status p = Rejected)"
proof -
  have ok: "status_of (fst (commit_sample hr_ceo batch_db)) = None" by code_simp
  then obtain results kids where
    run: "commit_sample hr_ceo batch_db = (Inr (results, kids), snd (commit_sample hr_ceo batch_db))"
    by (cases "commit_sample hr_ceo batch_db"; cases "fst (commit_sample hr_ceo batch_db)") auto
  have "\<forall>d \<in> set (draft_table batch_db). draft_id d < fresh_id batch_db"
    by (simp add: batch_db_def empty_db_def blank_draft_def)
  from commit_candidates_correct [OF run this] ok show ?thesis by blast
qed

definition hr_reviewer :: user where
  "hr_reviewer = blank_user\<lparr>user_id := 8, u_role := ''Reviewer'', u_departments := [blank_department]\<rparr>"

definition routed_db :: db where
  "routed_db = batch_db\<lparr>draft_table := map (\<lambda>d. d\<lparr>candidates :=
     [first_part\<lparr>cand_department_ids := Some [2]\<rparr>]\<rparr>) (draft_table batch_db)\<rparr>"

text \<open>
  A batch commit can fail half way. A reviewer of one department who commits a candidate
  routed to another department gets a 404 although the parent is already rejected and the new
  draft already stored: the submission of the new draft looks it up in the reviewer's own
  department scope. The stored draft is left in the status draft, out of the reviewer's reach.
\<close>

theorem commit_candidates_strands_draft:
  "case commit_sample hr_reviewer routed_db of
     (r, s) \<Rightarrow> status_of r = Some 404
       \<and> map_option d_status (get_row draft_id 1 (draft_table s)) = Some Rejected
       \<and> map_option d_status (get_row draft_id 100 (draft_table s)) = Some Draft
       \<and> get_draft_for_user s 100 hr_reviewer = None"
  by code_simp

definition storage_on :: storage_settings where
  "storage_on = \<lparr>st_bucket = ''kb'', st_prefix = ''sources'', st_up = True\<rparr>"

text \<open>
  Rejecting one draft of a batch removes the source file of all of them. The drafts made
  from one document share its storage key, and a rejection deletes the stored object without
  looking for other references, while a sibling draft is still pending with that key.
\<close>

theorem reject_deletes_shared_source:
  "case commit_sample hr_ceo batch_db of
     (_, s) \<Rightarrow> (case reject_draft storage_on 6 hr_ceo 100 ''no'' s of
       (r, s') \<Rightarrow> status_of r = None \<and> stored_objects s' = []
         \<and> map_option (\<lambda>d. (d_status d, d_storage_key d)) (get_row draft_id 101 (draft_table s'))
             = Some (Pending, Some ''s3://kb/sources/doc''))"
  by code_simp

end
