(* ===== verification/Approval.thy ===== *)
theory Approval
  imports Candidates
begin

text \<open>
  \<open>src/domain/governance.py\<close>, \<open>approve_draft\<close>: publishing one draft as a new article or as the next
  version of an existing one. The handler is written as the sequence of stages of the source:
  reading the submission, the guards, the department selection, the labels and explicit
  users, the provider ACL of a connector document, the update target, and the rows of one
  transaction. A raise in any stage rolls the transaction back, so it returns the database it
  was given. What runs after the publish is durable (contradiction check, metadata and graph
  extraction) is a list of background steps, each committed or rolled back on its own.
\<close>

section \<open>Arguments and stages\<close>

record approval_request =
  ap_category :: "string option"
  ap_dept_arg :: "string option"
  ap_update_article :: "uuid option"
  ap_treat_as_new :: bool
  ap_sensitivity :: "string option"
  ap_department_ids :: "uuid list option"
  ap_review_note :: "string option"
  ap_visibility :: "string option"
  ap_explicit_users :: "uuid list option"
  ap_denied_users :: "uuid list option"

text \<open>The values the request and the submitted metadata agree on.\<close>

record submission =
  sb_category :: string
  sb_dept :: string
  sb_sensitivity :: string
  sb_visibility :: string
  sb_explicit :: "uuid list"
  sb_denied :: "uuid list"

text \<open>\<open>[uuid.UUID(str(x)) for x in metadata.get(key, [])]\<close>; iterating null raises too.\<close>

definition parse_json_ids :: "json_ids \<Rightarrow> uuid list option" where
  "parse_json_ids j =
     (case j of MissingIds \<Rightarrow> Some [] | NullIds \<Rightarrow> None | Ids rs \<Rightarrow> parse_uuids rs)"

definition ids_or_metadata :: "uuid list option \<Rightarrow> json_ids \<Rightarrow> string \<Rightarrow> uuid list result" where
  "ids_or_metadata given stored message =
     (case given of
        Some ids \<Rightarrow> Inr ids
      | None \<Rightarrow> (case parse_json_ids stored of None \<Rightarrow> raise 422 message | Some ids \<Rightarrow> Inr ids))"

definition read_submission :: "approval_request \<Rightarrow> pending_draft \<Rightarrow> submission result" where
  "read_submission rq d =
     (let m = metadata d;
          sens = or_else (ap_sensitivity rq) (or_else (md_sensitivity m) ''public'');
          vis = or_else (ap_visibility rq) (or_else (md_visibility m)
                  (if sens = ''public'' then ''public'' else ''department''))
      in case ids_or_metadata (ap_explicit_users rq) (md_explicit_user_ids m)
                ''The submitted explicit-user selection is invalid'' of
           Inl e \<Rightarrow> Inl e
         | Inr explicit \<Rightarrow>
             (case ids_or_metadata (ap_denied_users rq) (md_denied_user_ids m)
                     ''The submitted explicit-deny selection is invalid'' of
                Inl e \<Rightarrow> Inl e
              | Inr denied \<Rightarrow>
                  Inr \<lparr>sb_category = or_else (ap_category rq) (or_else (md_type m) ''SOP''),
                       sb_dept = or_else (ap_dept_arg rq)
                                   (or_else (md_dept m) (or_else (d_dept d) [])),
                       sb_sensitivity = sens, sb_visibility = vis,
                       sb_explicit = explicit, sb_denied = denied\<rparr>))"

definition active_candidates :: "pending_draft \<Rightarrow> candidate list" where
  "active_candidates d = filter (\<lambda>c. cand_status c = Candidate) (candidates d)"

text \<open>The connector document of the draft, once its provider ACL is completely mapped.\<close>

definition mapped_document :: "db \<Rightarrow> pending_draft \<Rightarrow> external_document option result" where
  "mapped_document s d =
     (case external_document_id d of
        None \<Rightarrow> Inr None
      | Some ei \<Rightarrow>
          (case get_row ext_id ei (external_document_table s) of
             None \<Rightarrow> raise 409 ''The connector source record is missing; approval is blocked''
           | Some ext \<Rightarrow>
               if unmapped_external_acl_principals ext \<noteq> []
               then Inl (HTTPException 409 (Coded ''external_acl_mapping_required''
                      (unmapped_external_acl_principals ext)))
               else Inr (Some ext)))"

definition approval_guards ::
  "db \<Rightarrow> user \<Rightarrow> approval_request \<Rightarrow> pending_draft \<Rightarrow> external_document option result" where
  "approval_guards s u rq d =
     (if d_status d \<noteq> Pending
      then raise 409 (''Draft cannot be approved from status: '' @ status_name (d_status d))
      else case ensure_preparation_complete d of
        Inl e \<Rightarrow> Inl e
      | Inr _ \<Rightarrow>
          if outside_company u d then raise 403 ''Draft is outside your company''
          else if \<not> can_approve_draft u d
          then raise 403 ''Only the assigned approver or an Admin can approve this draft''
          else case mapped_document s d of
            Inl e \<Rightarrow> Inl e
          | Inr ext \<Rightarrow>
              if length (active_candidates d) > 1
              then Inl (HTTPException 409 (Coded ''batch_review_required'' []))
              else if requires_update_confirmation d \<and> ap_update_article rq = None
                      \<and> \<not> ap_treat_as_new rq
              then Inl (HTTPException 409 (Coded ''update_confirmation_required'' []))
              else if md_submission_kind (metadata d) = Some ''manual_update''
                      \<and> (ap_treat_as_new rq \<or> ap_update_article rq = None
                         \<or> md_suggested_update (metadata d)
                             \<noteq> map_option UuidText (ap_update_article rq))
              then raise 422 ''A manually submitted article change must update its original article''
              else Inr ext)"

text \<open>The canonical primary department and the selected departments.\<close>

definition resolve_departments ::
  "db \<Rightarrow> approval_request \<Rightarrow> pending_draft \<Rightarrow> string \<Rightarrow> (string \<times> department list) result" where
  "resolve_departments s rq d dept =
     (if strip dept = [] then raise 422 ''An active department is required before publishing''
      else case resolve_active_department (department_table s) (d_company d) (Some dept) True of
        Inl e \<Rightarrow> Inl e
      | Inr None \<Rightarrow> raise 500 ''AttributeError''
      | Inr (Some primary) \<Rightarrow>
          if truthy (d_dept d) \<and> d_dept d \<noteq> Some (dept_name primary)
          then raise 422 ''An approved article must remain in the submitted department''
          else case ids_or_metadata (ap_department_ids rq) (md_department_ids (metadata d))
                      ''The submitted department selection is invalid'' of
            Inl e \<Rightarrow> Inl e
          | Inr ids \<Rightarrow>
              if ids \<noteq> [] then
                (case resolve_active_departments (department_table s) (d_company d) ids True of
                   Inl e \<Rightarrow> Inl e
                 | Inr selected \<Rightarrow>
                     if dept_name primary \<notin> set (map dept_name selected)
                     then raise 422 ''The submitted primary department must be selected''
                     else Inr (dept_name primary, selected))
              else
                (case resolve_active_department (department_table s) (d_company d)
                        (Some (dept_name primary)) True of
                   Inl e \<Rightarrow> Inl e
                 | Inr None \<Rightarrow> raise 500 ''AttributeError''
                 | Inr (Some only) \<Rightarrow> Inr (dept_name primary, [only])))"

definition ARTICLE_TYPES :: "string set" where
  "ARTICLE_TYPES = {''POLICY'', ''SOP'', ''DECISION'', ''FAQ'', ''RCA'', ''HOWTO'', ''PLAYBOOK'',
     ''REFERENCE'', ''LESSON''}"

definition all_users_of_company :: "db \<Rightarrow> string \<Rightarrow> uuid list \<Rightarrow> bool" where
  "all_users_of_company s company ids =
     (length (get_users_by_ids s ids (Some company)) = length (remdups ids))"

definition validate_labels ::
  "db \<Rightarrow> pending_draft \<Rightarrow> submission \<Rightarrow> department list \<Rightarrow> submission result" where
  "validate_labels s d sb selected =
     (let explicit = fromkeys (sb_explicit sb); denied = fromkeys (sb_denied sb) in
      if sb_category sb \<notin> ARTICLE_TYPES then raise 422 ''Invalid article type''
      else if sb_sensitivity sb \<notin> {''public'', ''internal'', ''confidential'', ''restricted''}
      then raise 422 ''Invalid article sensitivity''
      else if sb_visibility sb \<notin> {''public'', ''department'', ''users''}
      then raise 422 ''Invalid Article visibility''
      else if set explicit \<inter> set denied \<noteq> {}
      then raise 422 ''A user cannot be both explicitly allowed and denied''
      else if \<not> all_users_of_company s (d_company d) (explicit @ denied)
      then raise 422 ''Every explicit Article user must belong to the Article company''
      else if sb_visibility sb = ''users'' \<and> explicit = []
      then raise 422 ''Explicit-user visibility requires at least one user''
      else Inr (sb\<lparr>sb_explicit := explicit, sb_denied := denied,
                   sb_sensitivity :=
                     (if sb_sensitivity sb \<noteq> ''public'' \<and> selected = [] \<and> explicit = []
                         \<and> external_document_id d = None
                      then ''public'' else sb_sensitivity sb)\<rparr>))"

text \<open>
  The provider ACL of a connector document replaces the submitted audience. The set of mapped
  users is listed in order of first occurrence; \<open>set\<close> iteration order is not specified.
\<close>

record audience =
  au_submission :: submission
  au_departments :: "department list"
  au_source_users :: "uuid list"
  au_connector :: "connector option"

definition provider_acl ::
  "db \<Rightarrow> pending_draft \<Rightarrow> submission \<Rightarrow> department list \<Rightarrow> external_document option
     \<Rightarrow> audience result" where
  "provider_acl s d sb selected ext =
     (case ext of
        None \<Rightarrow> Inr \<lparr>au_submission = sb, au_departments = selected, au_source_users = [],
                     au_connector = None\<rparr>
      | Some e \<Rightarrow>
          let mapped = ext_mapped_departments e;
              departments = filter (\<lambda>x. dept_id x \<in> set mapped \<and> dept_company x = d_company d)
                              (department_table s)
          in if length (remdups (map dept_id departments)) \<noteq> length (remdups mapped)
             then raise 422 ''The connector ACL contains an invalid department''
             else case parse_uuids (ext_mapped_users e) of
               None \<Rightarrow> raise 422 ''The connector ACL contains an invalid mapped user''
             | Some parsed \<Rightarrow>
                 let source_users = fromkeys parsed;
                     explicit = fromkeys (sb_explicit sb @ source_users)
                 in if length (get_users_by_ids s source_users (Some (d_company d)))
                       \<noteq> length source_users
                    then raise 422 ''The connector ACL contains a user outside this company''
                    else if set explicit \<inter> set (sb_denied sb) \<noteq> {}
                    then raise 422 ''A connector-mapped user cannot be explicitly denied''
                    else if \<not> all_users_of_company s (d_company d) (explicit @ sb_denied sb)
                    then raise 422 ''Every explicit Article user must belong to the Article company''
                    else case get_row conn_id (ext_connector e) (connector_table s) of
                      None \<Rightarrow> raise 422 ''The connector document is outside this draft's company''
                    | Some conn \<Rightarrow>
                        if conn_company conn \<noteq> d_company d
                        then raise 422 ''The connector document is outside this draft's company''
                        else Inr \<lparr>au_submission = sb\<lparr>sb_explicit := explicit,
                                    sb_sensitivity := ''restricted'',
                                    sb_visibility := (if source_users \<noteq> [] \<and> departments = []
                                                      then ''users'' else ''department'')\<rparr>,
                                  au_departments = departments, au_source_users = source_users,
                                  au_connector = Some conn\<rparr>)"

definition find_update_target ::
  "db \<Rightarrow> user \<Rightarrow> uuid option \<Rightarrow> article option result" where
  "find_update_target s u target =
     (case target of
        None \<Rightarrow> Inr None
      | Some ti \<Rightarrow>
          (case get_article_by_id (department_table s) (article_table s) ti (Some u) of
             None \<Rightarrow> raise 403 ''The selected update target is not accessible''
           | Some a \<Rightarrow>
               if a_company a \<noteq> u_company u \<and> \<not> has_permission u ''article.read'' None Global
               then raise 403 ''The selected update target is not accessible''
               else if \<not> can_view_article u a
                       \<or> \<not> list_ex (\<lambda>sc. has_permission u ''article.edit'' (Some (article_resource a)) sc
                                      \<or> has_permission u ''article.publish'' (Some (article_resource a)) sc)
                              [Own, Department, Company, Global]
               then raise 403 ''Not authorized to supersede the selected article''
               else if lifecycle_status a \<noteq> ''active''
               then raise 409 ''The selected update target is already inactive''
               else Inr (Some a)))"

definition requested_external_id :: "pending_draft \<Rightarrow> article option \<Rightarrow> string option" where
  "requested_external_id d target =
     (let given = strip (or_else (md_external_id (metadata d)) []) in
      if given \<noteq> [] then Some given
      else case target of None \<Rightarrow> None | Some a \<Rightarrow> a_external_id a)"

definition external_id_taken :: "db \<Rightarrow> pending_draft \<Rightarrow> article option \<Rightarrow> bool" where
  "external_id_taken s d target =
     (truthy (requested_external_id d target)
      \<and> list_ex (\<lambda>a. a_company a = d_company d \<and> a_external_id a = requested_external_id d target
                   \<and> (case target of None \<Rightarrow> True | Some t \<Rightarrow> article_id a \<noteq> article_id t))
          (article_table s))"

text \<open>
  The unique index \<open>ix_articles_external_id\<close> on the column alone: the database refuses an
  external id that any other article has, of whatever company.
\<close>

definition external_id_indexed :: "db \<Rightarrow> string option \<Rightarrow> article option \<Rightarrow> bool" where
  "external_id_indexed s ext_id' target =
     (ext_id' \<noteq> None
      \<and> list_ex (\<lambda>a. a_external_id a = ext_id'
                   \<and> (case target of None \<Rightarrow> True | Some t \<Rightarrow> article_id a \<noteq> article_id t))
          (article_table s))"

definition next_review_of :: "pending_draft \<Rightarrow> article option \<Rightarrow> instant option result" where
  "next_review_of d target =
     (case md_next_review (metadata d) of
        Some (DateText t) \<Rightarrow> Inr (Some t)
      | Some (BadDate txt) \<Rightarrow>
          if txt = [] then Inr (case target of None \<Rightarrow> None | Some a \<Rightarrow> next_review a)
          else raise 422 ''The submitted review date is invalid''
      | None \<Rightarrow> Inr (case target of None \<Rightarrow> None | Some a \<Rightarrow> next_review a))"

section \<open>The article\<close>

definition approved_body :: "pending_draft \<Rightarrow> string" where
  "approved_body d =
     or_else (restructured_body_md d)
       (or_else (summary d)
          (''Draft imported from '' @ d_source_ref d @ ''. Content pending edit.''))"

definition approved_tags :: "pending_draft \<Rightarrow> article option \<Rightarrow> string list" where
  "approved_tags d target =
     (case (target, d_tags d) of
        (Some a, None) \<Rightarrow> a_tags a
      | _ \<Rightarrow> take 20 (fromkeys (filter (\<lambda>t. t \<noteq> [])
               (map strip (case d_tags d of None \<Rightarrow> [] | Some ts \<Rightarrow> ts)))))"

definition next_version :: "article option \<Rightarrow> int" where
  "next_version target = (case target of None \<Rightarrow> 1 | Some a \<Rightarrow> version a + 1)"

definition allow_row :: "string option \<Rightarrow> uuid \<Rightarrow> article_user_permission" where
  "allow_row source i = \<lparr>aup_user = i, aup_effect = Allow, aup_source = source\<rparr>"

definition deny_row :: "uuid \<Rightarrow> article_user_permission" where
  "deny_row i = \<lparr>aup_user = i, aup_effect = Deny, aup_source = None\<rparr>"

text \<open>The permission rows of a revision keep every row a provider manages.\<close>

definition revised_permissions :: "article \<Rightarrow> audience \<Rightarrow> article_user_permission list" where
  "revised_permissions a au =
     (let connector_rows = filter (\<lambda>p. \<exists>src \<in> set SOURCE_ACL_PROVIDERS. aup_source p = Some src)
                             (user_permissions a);
          source_allow = aup_user ` set (filter (\<lambda>p. aup_effect p = Allow) connector_rows);
          sb = au_submission au
      in connector_rows
         @ map (allow_row (map_option conn_system (au_connector au)))
             (filter (\<lambda>i. i \<notin> source_allow) (au_source_users au))
         @ map (allow_row None) (filter (\<lambda>i. i \<notin> set (au_source_users au)) (sb_explicit sb))
         @ map deny_row (sb_denied sb))"

definition new_permissions :: "audience \<Rightarrow> article_user_permission list" where
  "new_permissions au =
     map (\<lambda>i. allow_row (if i \<in> set (au_source_users au)
                         then map_option conn_system (au_connector au) else None) i)
       (sb_explicit (au_submission au))
     @ map deny_row (sb_denied (au_submission au))"

text \<open>What decides whether a revision is logged as a permission change.\<close>

definition permission_state ::
  "string \<Rightarrow> department list \<Rightarrow> string \<Rightarrow> string \<Rightarrow> (uuid \<times> effect) list
     \<Rightarrow> string \<times> uuid list \<times> string \<times> string \<times> (uuid \<times> effect) list" where
  "permission_state dept departments sens vis effects =
     (dept, sort (map dept_id departments), sens, (if vis = [] then ''department'' else vis),
      sort_key (\<lambda>(i, e). (i, e = Deny)) effects)"

definition revise_article ::
  "instant \<Rightarrow> pending_draft \<Rightarrow> string \<Rightarrow> audience \<Rightarrow> string option \<Rightarrow> instant option \<Rightarrow> article
     \<Rightarrow> article" where
  "revise_article now d dept au ext_id' review a =
     (let sb = au_submission au; m = metadata d in
      a\<lparr>a_title := d_title d, body_md := approved_body d, a_external_id := ext_id',
        a_dept := dept, a_departments := au_departments au,
        a_domain := or_else (md_domain m) (a_domain a), a_type := sb_category sb,
        sensitivity := sb_sensitivity sb, visibility := sb_visibility sb,
        language := or_else (md_language m) (language a), next_review := review,
        a_status := Published, lifecycle_status := ''active'', source_changed := False,
        source_changed_at := None, version := next_version (Some a), last_reviewed := Some now,
        index_status := ''pending'', index_error := None,
        a_related := (case d_related d of None \<Rightarrow> a_related a | Some r \<Rightarrow> Some r),
        a_source_position := (if truthy (md_source_position m) then md_source_position m
                              else a_source_position a),
        user_permissions := revised_permissions a au,
        a_tags := approved_tags d (Some a)\<rparr>)"

text \<open>Columns the constructor call does not name take the defaults of the model.\<close>

definition new_article ::
  "instant \<Rightarrow> user \<Rightarrow> pending_draft \<Rightarrow> string \<Rightarrow> audience \<Rightarrow> string option \<Rightarrow> instant option \<Rightarrow> uuid
     \<Rightarrow> article" where
  "new_article now u d dept au ext_id' review i =
     (let sb = au_submission au; m = metadata d in
      \<lparr>article_id = i, a_title = d_title d, a_external_id = ext_id', body_md = approved_body d,
       a_dept = dept, a_domain = or_else (md_domain m) ''Ingestion'', a_company = d_company d,
       a_type = sb_category sb, sensitivity = sb_sensitivity sb, visibility = sb_visibility sb,
       language = or_else (md_language m) ''vi'', owner_id = Some (user_id u),
       a_status = Published, lifecycle_status = ''active'', retention_until = None,
       legal_hold = False, a_related = d_related d, structured_metadata = None,
       a_source_position = md_source_position m, version = next_version None,
       last_reviewed = Some now, next_review = review, needs_update = False,
       self_approved = (created_by d = Some (user_id u)), source_changed = False,
       source_changed_at = None, index_status = ''pending'', index_error = None,
       a_departments = au_departments au, user_permissions = new_permissions au, sources = [],
       a_tags = approved_tags d None\<rparr>)"

section \<open>The transaction\<close>

definition snapshot_of :: "article \<Rightarrow> audience \<Rightarrow> snapshot" where
  "snapshot_of a au =
     \<lparr>sn_title = a_title a, sn_body_md = body_md a, sn_dept = a_dept a,
      sn_department_ids = Some (map dept_id (au_departments au)), sn_domain = a_domain a,
      sn_type = a_type a, sn_sensitivity = sensitivity a, sn_visibility = Some (visibility a),
      sn_explicit_user_ids = Some (sb_explicit (au_submission au)),
      sn_denied_user_ids = Some (sb_denied (au_submission au)), sn_language = language a,
      sn_external_id = a_external_id a, sn_tags = a_tags a, sn_original_body_md = None,
      sn_restored_from = None\<rparr>"

definition attach_source :: "pending_draft \<Rightarrow> audience \<Rightarrow> article \<Rightarrow> article" where
  "attach_source d au a =
     (if truthy (d_storage_key d)
      then a\<lparr>sources := sources a @
             [\<lparr>src_article = Some (article_id a),
               source_system = (case au_connector au of None \<Rightarrow> ''upload'' | Some c \<Rightarrow> conn_system c),
               source_ref = d_source_ref d, source_hash = d_source_hash d,
               storage_key = d_storage_key d,
               original_filename = Some (or_else (d_original_filename d) (d_title d)),
               mime_type = d_mime_type d, page_texts = d_page_texts d\<rparr>]\<rparr>
      else a)"

definition approve_fingerprint :: "pending_draft \<Rightarrow> uuid \<Rightarrow> db \<Rightarrow> db" where
  "approve_fingerprint d ai s =
     (let same = (\<lambda>f. fp_company f = d_company d \<and> fp_hash f = d_source_hash d) in
      if list_ex same (fingerprint_table s)
      then s\<lparr>fingerprint_table :=
               map (\<lambda>f. if same f then f\<lparr>fp_status := Fp_approved, fp_article := Some ai\<rparr> else f)
                 (fingerprint_table s)\<rparr>
      else s\<lparr>fingerprint_table := fingerprint_table s @
               [\<lparr>fp_company = d_company d, fp_hash = d_source_hash d, fp_status = Fp_approved,
                 fp_article = Some ai, fp_created_by = created_by d\<rparr>]\<rparr>)"

definition notify_followers :: "user \<Rightarrow> pending_draft \<Rightarrow> uuid \<Rightarrow> db \<Rightarrow> db" where
  "notify_followers u d ai s =
     foldl (\<lambda>t f. if f \<noteq> user_id u \<and> Some f \<noteq> created_by d
                  then notify (Some f) ''article_version_published'' ai t else t)
       s (map fst (filter (\<lambda>(_, a). a = ai) (follower_table s)))"

text \<open>The article row, its audit rows and the draft's update target.\<close>

definition write_article ::
  "instant \<Rightarrow> user \<Rightarrow> pending_draft \<Rightarrow> string \<Rightarrow> audience \<Rightarrow> string option \<Rightarrow> instant option
     \<Rightarrow> article option \<Rightarrow> db \<Rightarrow> article \<times> db" where
  "write_article now u d dept au ext_id' review target s =
     (case target of
        Some a \<Rightarrow>
          let a' = revise_article now d dept au ext_id' review a;
              a2 = attach_source d au a';
              before = permission_state (a_dept a) (a_departments a) (sensitivity a) (visibility a)
                         (map (\<lambda>p. (aup_user p, aup_effect p)) (user_permissions a));
              after = permission_state dept (au_departments au) (sb_sensitivity (au_submission au))
                        (sb_visibility (au_submission au))
                        (map (\<lambda>i. (i, Allow)) (sb_explicit (au_submission au))
                         @ map (\<lambda>i. (i, Deny)) (sb_denied (au_submission au)));
              s1 = log_audit (Some (user_id u)) ''update'' ''article'' (Some (article_id a))
                     (s\<lparr>article_table := put_row article_id a2 (article_table s)\<rparr>)
          in (a2, if before \<noteq> after
                  then log_audit (Some (user_id u)) ''permission_change'' ''article''
                         (Some (article_id a)) s1
                  else s1)
      | None \<Rightarrow>
          let a2 = attach_source d au
                     (new_article now u d dept au ext_id' review (fresh_id s))
          in (a2, log_audit (Some (user_id u)) ''create'' ''article'' (Some (fresh_id s))
                    (s\<lparr>article_table := article_table s @ [a2], fresh_id := Suc (fresh_id s)\<rparr>)))"

definition publish_rows ::
  "instant \<Rightarrow> user \<Rightarrow> approval_request \<Rightarrow> pending_draft \<Rightarrow> audience \<Rightarrow> article option
     \<Rightarrow> article \<Rightarrow> db \<Rightarrow> db result" where
  "publish_rows now u rq d au target a s =
     (let ai = article_id a;
          s1 = s\<lparr>version_table := version_table s @
                  [\<lparr>av_article = ai, av_version = next_version target,
                    av_snapshot = snapshot_of a au, av_edited_by = Some (user_id u)\<rparr>],
                external_document_table :=
                  map (\<lambda>e. if Some (ext_id e) = external_document_id d
                           then e\<lparr>ext_article := Some ai\<rparr> else e) (external_document_table s)\<rparr>;
          s2 = approve_fingerprint d ai s1;
          own = (created_by d = Some (user_id u))
      in case transition_draft d (Some u) Approved (ap_review_note rq) of
           Inl e \<Rightarrow> Inl e
         | Inr (d1, t) \<Rightarrow>
             let d2 = d1\<lparr>reviewed_by := Some (user_id u), reviewed_at := Some now,
                         review_note := clean_note (ap_review_note rq),
                         update_target_article_id :=
                           (case target of None \<Rightarrow> update_target_article_id d | Some _ \<Rightarrow> Some ai)\<rparr>;
                 s3 = update_draft d2 (add_transition t s2);
                 s4 = log_audit (Some (user_id u)) ''publish'' ''article'' (Some ai)
                        (log_audit (Some (user_id u)) (if own then ''self_approve'' else ''approve'')
                           ''draft'' (Some (draft_id d)) s3);
                 s5 = (if created_by d \<noteq> None \<and> \<not> own
                       then notify (created_by d) ''draft_approved'' (draft_id d) s4 else s4)
             in Inr (notify_followers u d ai s5))"

text \<open>The \<open>try\<close> block: everything that happens in the one transaction.\<close>

definition publish_draft ::
  "instant \<Rightarrow> user \<Rightarrow> approval_request \<Rightarrow> pending_draft \<Rightarrow> db \<Rightarrow> (article \<times> db) result" where
  "publish_draft now u rq d s =
     (case read_submission rq d of
        Inl e \<Rightarrow> Inl e
      | Inr sb \<Rightarrow>
     (case approval_guards s u rq d of
        Inl e \<Rightarrow> Inl e
      | Inr ext \<Rightarrow>
     (case resolve_departments s rq d (sb_dept sb) of
        Inl e \<Rightarrow> Inl e
      | Inr (dept, selected) \<Rightarrow>
     (case validate_labels s d sb selected of
        Inl e \<Rightarrow> Inl e
      | Inr sb1 \<Rightarrow>
     (case provider_acl s d sb1 selected ext of
        Inl e \<Rightarrow> Inl e
      | Inr au \<Rightarrow>
     (case find_update_target s u (ap_update_article rq) of
        Inl e \<Rightarrow> Inl e
      | Inr target \<Rightarrow>
          if external_id_taken s d target
          then raise 409 ''An article with this external ID already exists in this company''
          else case next_review_of d target of
            Inl e \<Rightarrow> Inl e
          | Inr review \<Rightarrow>
              if external_id_indexed s (requested_external_id d target) target
              then raise 500 ''IntegrityError''
              else
              (case write_article now u d dept au (requested_external_id d target) review target s of
                 (a, s1) \<Rightarrow>
                   (case publish_rows now u rq d au target a s1 of
                      Inl e \<Rightarrow> Inl e
                    | Inr s2 \<Rightarrow> Inr (a, s2)))))))))"

text \<open>
  The steps after the commit. A step that fails is rolled back and logged; none of them can
  undo the publication.
\<close>

type_synonym background_step = "user \<Rightarrow> article \<Rightarrow> db \<Rightarrow> db option"

definition run_background :: "background_step list \<Rightarrow> user \<Rightarrow> article \<Rightarrow> db \<Rightarrow> db" where
  "run_background steps u a s =
     foldl (\<lambda>t f. case f u a t of None \<Rightarrow> t | Some t' \<Rightarrow> t') s steps"

definition approve_draft ::
  "background_step list \<Rightarrow> instant \<Rightarrow> user \<Rightarrow> uuid \<Rightarrow> approval_request \<Rightarrow> db \<Rightarrow> article outcome" where
  "approve_draft steps now u i rq s =
     (case get_draft_for_user s i u of
        None \<Rightarrow> (raise 404 ''Draft not found'', s)
      | Some d \<Rightarrow>
          (case publish_draft now u rq d s of
             Inl e \<Rightarrow> (Inl e, s)
           | Inr (a, s') \<Rightarrow>
               (case get_article_by_id (department_table s') (article_table s') (article_id a) None of
                  None \<Rightarrow> (raise 500 ''Published article could not be reloaded'', s')
                | Some published \<Rightarrow> (Inr published, run_background steps u published s'))))"

section \<open>Stages of a successful approval\<close>

lemma publish_draft_Inr:
  assumes "publish_draft now u rq d s = Inr (a, s')"
  obtains sb ext dept selected sb1 au target review s1 where
    "read_submission rq d = Inr sb" "approval_guards s u rq d = Inr ext"
    "resolve_departments s rq d (sb_dept sb) = Inr (dept, selected)"
    "validate_labels s d sb selected = Inr sb1"
    "provider_acl s d sb1 selected ext = Inr au"
    "find_update_target s u (ap_update_article rq) = Inr target"
    "\<not> external_id_taken s d target" "next_review_of d target = Inr review"
    "write_article now u d dept au (requested_external_id d target) review target s = (a, s1)"
    "publish_rows now u rq d au target a s1 = Inr s'"
  using assms unfolding publish_draft_def
  by (auto split: sum.splits prod.splits if_splits)

lemma approval_guards_Inr:
  assumes "approval_guards s u rq d = Inr ext"
  shows "d_status d = Pending" "\<not> preparing d" "\<not> outside_company u d" "can_approve_draft u d"
    "mapped_document s d = Inr ext" "length (active_candidates d) \<le> 1"
    "requires_update_confirmation d \<Longrightarrow> ap_update_article rq \<noteq> None \<or> ap_treat_as_new rq"
    "md_submission_kind (metadata d) = Some ''manual_update'' \<Longrightarrow>
       ap_update_article rq \<noteq> None
       \<and> md_suggested_update (metadata d) = map_option UuidText (ap_update_article rq)"
  using assms
  by (auto simp: approval_guards_def ensure_preparation_complete_def
      split: if_splits sum.splits option.splits)

lemma mapped_document_Inr:
  assumes "mapped_document s d = Inr ext"
  shows "ext = None \<longleftrightarrow> external_document_id d = None"
    "ext = Some e \<Longrightarrow> e \<in> set (external_document_table s) \<and> unmapped_external_acl_principals e = []
       \<and> external_document_id d = Some (ext_id e)"
proof -
  show "ext = None \<longleftrightarrow> external_document_id d = None"
    using assms by (cases "external_document_id d")
      (auto simp: mapped_document_def split: option.splits if_splits intro: sym)
  show "ext = Some e \<Longrightarrow> e \<in> set (external_document_table s)
      \<and> unmapped_external_acl_principals e = [] \<and> external_document_id d = Some (ext_id e)"
    using assms
    by (auto simp: mapped_document_def split: option.splits if_splits dest: get_row_SomeD)
qed

lemma notify_followers_keeps [simp]:
  "article_table (notify_followers u d ai s) = article_table s"
  "draft_table (notify_followers u d ai s) = draft_table s"
  "department_table (notify_followers u d ai s) = department_table s"
  "user_table (notify_followers u d ai s) = user_table s"
  "transition_table (notify_followers u d ai s) = transition_table s"
  "audit_table (notify_followers u d ai s) = audit_table s"
  "fingerprint_table (notify_followers u d ai s) = fingerprint_table s"
  "fresh_id (notify_followers u d ai s) = fresh_id s"
  "gap_table (notify_followers u d ai s) = gap_table s"
  "version_table (notify_followers u d ai s) = version_table s"
proof -
  have vn: "version_table (notify w e0 i0 s0) = version_table s0" for w e0 i0 s0
    by (simp add: notify_def add_notification_def)
  have "article_table (foldl (\<lambda>t f. if P f then notify (Some f) e ai t else t) s fs) = article_table s
    \<and> draft_table (foldl (\<lambda>t f. if P f then notify (Some f) e ai t else t) s fs) = draft_table s
    \<and> department_table (foldl (\<lambda>t f. if P f then notify (Some f) e ai t else t) s fs) = department_table s
    \<and> user_table (foldl (\<lambda>t f. if P f then notify (Some f) e ai t else t) s fs) = user_table s
    \<and> transition_table (foldl (\<lambda>t f. if P f then notify (Some f) e ai t else t) s fs) = transition_table s
    \<and> audit_table (foldl (\<lambda>t f. if P f then notify (Some f) e ai t else t) s fs) = audit_table s
    \<and> fingerprint_table (foldl (\<lambda>t f. if P f then notify (Some f) e ai t else t) s fs) = fingerprint_table s
    \<and> fresh_id (foldl (\<lambda>t f. if P f then notify (Some f) e ai t else t) s fs) = fresh_id s
    \<and> gap_table (foldl (\<lambda>t f. if P f then notify (Some f) e ai t else t) s fs) = gap_table s
    \<and> version_table (foldl (\<lambda>t f. if P f then notify (Some f) e ai t else t) s fs) = version_table s"
    for P e fs
    by (induction fs arbitrary: s) (auto simp: vn)
  then show "article_table (notify_followers u d ai s) = article_table s"
    "draft_table (notify_followers u d ai s) = draft_table s"
    "department_table (notify_followers u d ai s) = department_table s"
    "user_table (notify_followers u d ai s) = user_table s"
    "transition_table (notify_followers u d ai s) = transition_table s"
    "audit_table (notify_followers u d ai s) = audit_table s"
    "fingerprint_table (notify_followers u d ai s) = fingerprint_table s"
    "fresh_id (notify_followers u d ai s) = fresh_id s"
    "gap_table (notify_followers u d ai s) = gap_table s"
    "version_table (notify_followers u d ai s) = version_table s"
    unfolding notify_followers_def by auto
qed

lemma approve_fingerprint_keeps [simp]:
  "article_table (approve_fingerprint d ai s) = article_table s"
  "draft_table (approve_fingerprint d ai s) = draft_table s"
  "department_table (approve_fingerprint d ai s) = department_table s"
  "user_table (approve_fingerprint d ai s) = user_table s"
  "transition_table (approve_fingerprint d ai s) = transition_table s"
  "audit_table (approve_fingerprint d ai s) = audit_table s"
  "fresh_id (approve_fingerprint d ai s) = fresh_id s"
  "gap_table (approve_fingerprint d ai s) = gap_table s"
  "version_table (approve_fingerprint d ai s) = version_table s"
  by (simp_all add: approve_fingerprint_def Let_def)

text \<open>What the rows after the article do to the tables of the workflow.\<close>

lemma publish_rows_Inr:
  assumes "publish_rows now u rq d au target a s = Inr s'"
  shows "article_table s' = article_table s" "department_table s' = department_table s"
    "user_table s' = user_table s" "fresh_id s' = fresh_id s" "gap_table s' = gap_table s"
    "Approved \<in> allowed (d_status d)"
    "\<exists>d'. draft_table s' = put_row draft_id d' (draft_table s) \<and> draft_id d' = draft_id d
       \<and> d_status d' = Approved \<and> reviewed_by d' = Some (user_id u) \<and> reviewed_at d' = Some now
       \<and> d_company d' = d_company d \<and> created_by d' = created_by d"
    "transition_table s' = transition_table s @
       [\<lparr>tr_draft = draft_id d, from_status = Some (d_status d), to_status = Approved,
         actor_id = Some (user_id u), tr_reason = clean_note (ap_review_note rq)\<rparr>]"
    "\<exists>rows. audit_table s' = audit_table s @ rows \<and> rows \<noteq> []
       \<and> (\<forall>r \<in> set rows. al_user r = Some (user_id u))"
    "version_table s' = version_table s @
       [\<lparr>av_article = article_id a, av_version = next_version target,
         av_snapshot = snapshot_of a au, av_edited_by = Some (user_id u)\<rparr>]"
  using assms
  by (auto simp: publish_rows_def Let_def log_audit_def log_audit_row_def notify_def
      add_notification_def update_draft_def add_transition_def split: sum.splits)

section \<open>The article written\<close>

lemma attach_source_keeps [simp]:
  "article_id (attach_source d au a) = article_id a" "a_company (attach_source d au a) = a_company a"
  "version (attach_source d au a) = version a" "body_md (attach_source d au a) = body_md a"
  "a_title (attach_source d au a) = a_title a" "a_status (attach_source d au a) = a_status a"
  "sensitivity (attach_source d au a) = sensitivity a" "visibility (attach_source d au a) = visibility a"
  "a_departments (attach_source d au a) = a_departments a" "a_dept (attach_source d au a) = a_dept a"
  "user_permissions (attach_source d au a) = user_permissions a"
  "owner_id (attach_source d au a) = owner_id a" "a_external_id (attach_source d au a) = a_external_id a"
  "lifecycle_status (attach_source d au a) = lifecycle_status a"
  by (simp_all add: attach_source_def)

definition written ::
  "pending_draft \<Rightarrow> string \<Rightarrow> audience \<Rightarrow> string option \<Rightarrow> article option \<Rightarrow> article \<Rightarrow> bool" where
  "written d dept au ext_id' target a =
     (a_title a = d_title d \<and> body_md a = approved_body d \<and> a_dept a = dept
      \<and> a_departments a = au_departments au \<and> a_external_id a = ext_id'
      \<and> sensitivity a = sb_sensitivity (au_submission au)
      \<and> visibility a = sb_visibility (au_submission au)
      \<and> a_status a = Published \<and> lifecycle_status a = ''active''
      \<and> version a = next_version target
      \<and> a_company a = (case target of None \<Rightarrow> d_company d | Some t \<Rightarrow> a_company t)
      \<and> user_permissions a = (case target of None \<Rightarrow> new_permissions au
                               | Some t \<Rightarrow> revised_permissions t au))"

lemma write_article_facts:
  assumes "write_article now u d dept au ext_id' review target s = (a, s1)"
  shows "written d dept au ext_id' target a"
    "case target of
       None \<Rightarrow> article_id a = fresh_id s \<and> article_table s1 = article_table s @ [a]
         \<and> fresh_id s1 = Suc (fresh_id s)
     | Some t \<Rightarrow> article_id a = article_id t \<and> article_table s1 = put_row article_id a (article_table s)
         \<and> fresh_id s1 = fresh_id s"
    "draft_table s1 = draft_table s" "transition_table s1 = transition_table s"
    "department_table s1 = department_table s" "user_table s1 = user_table s"
    "gap_table s1 = gap_table s" "version_table s1 = version_table s"
    "fingerprint_table s1 = fingerprint_table s"
    "\<exists>rows. audit_table s1 = audit_table s @ rows \<and> (\<forall>r \<in> set rows. al_user r = Some (user_id u))"
proof -
  have "version_table (log_audit who x k t s0) = version_table s0" for who x k t s0
    by (simp add: log_audit_def log_audit_row_def)
  note simps = this write_article_def written_def revise_article_def new_article_def Let_def
  show "written d dept au ext_id' target a"
    using assms by (auto simp: simps split: option.splits)
  show "case target of
       None \<Rightarrow> article_id a = fresh_id s \<and> article_table s1 = article_table s @ [a]
         \<and> fresh_id s1 = Suc (fresh_id s)
     | Some t \<Rightarrow> article_id a = article_id t \<and> article_table s1 = put_row article_id a (article_table s)
         \<and> fresh_id s1 = fresh_id s"
    using assms by (auto simp: simps split: option.splits)
  show "draft_table s1 = draft_table s" "transition_table s1 = transition_table s"
    "department_table s1 = department_table s" "user_table s1 = user_table s"
    "gap_table s1 = gap_table s" "version_table s1 = version_table s"
    "fingerprint_table s1 = fingerprint_table s"
    "\<exists>rows. audit_table s1 = audit_table s @ rows \<and> (\<forall>r \<in> set rows. al_user r = Some (user_id u))"
    using assms by (auto simp: simps split: option.splits)
qed

lemma find_update_target_Inr:
  assumes "find_update_target s u ti = Inr (Some t)"
  shows "t \<in> set (article_table s)" "ti = Some (article_id t)" "can_view_article u t"
    "has_permission u ''article.edit'' (Some (article_resource t)) Own
     \<or> has_permission u ''article.publish'' (Some (article_resource t)) Own"
    "lifecycle_status t = ''active''"
    "a_company t = u_company u \<or> has_permission u ''article.read'' None Global"
proof -
  obtain i where ti: "ti = Some i"
    and get: "get_article_by_id (department_table s) (article_table s) i (Some u) = Some t"
    and co: "a_company t = u_company u \<or> has_permission u ''article.read'' None Global"
    and view: "can_view_article u t" "lifecycle_status t = ''active''"
    and ex: "list_ex (\<lambda>sc. has_permission u ''article.edit'' (Some (article_resource t)) sc
                 \<or> has_permission u ''article.publish'' (Some (article_resource t)) sc)
               [Own, Department, Company, Global]"
    using assms unfolding find_update_target_def by (auto split: option.splits if_splits)
  show "t \<in> set (article_table s)" "ti = Some (article_id t)"
    using get ti by (auto simp: get_article_by_id_def find_Some_iff)
  show "can_view_article u t" "lifecycle_status t = ''active''"
    "a_company t = u_company u \<or> has_permission u ''article.read'' None Global"
    using view co by auto
  show "has_permission u ''article.edit'' (Some (article_resource t)) Own
     \<or> has_permission u ''article.publish'' (Some (article_resource t)) Own"
    using ex rbac.any_scope [of u "''article.edit''" "article_resource t"]
      rbac.any_scope [of u "''article.publish''" "article_resource t"] by auto
qed

lemma written_article_found:
  assumes "write_article now u d dept au ext_id' review target s = (a, s1)"
    and "find_update_target s u ti = Inr target"
  shows "get_row article_id (article_id a) (article_table s1) \<noteq> None"
proof (cases target)
  case None
  then show ?thesis using write_article_facts(2) [OF assms(1)] by (auto simp: get_row_None_iff)
next
  case (Some t)
  have "t \<in> set (article_table s)" using find_update_target_Inr(1) assms(2) Some by blast
  then have "get_row article_id (article_id a) (article_table s) \<noteq> None"
    using write_article_facts(2) [OF assms(1)] Some by (auto simp: get_row_None_iff)
  then show ?thesis
    using get_put_same [of article_id a "article_table s"] write_article_facts(2) [OF assms(1)] Some
    by simp
qed

lemma written_row:
  assumes "write_article now u d dept au ext_id' review target s = (a0, s1)"
    and "find_update_target s u ti = Inr target" "\<forall>x \<in> set (article_table s). article_id x < fresh_id s"
    and "get_row article_id (article_id a0) (article_table s1) = Some a"
  shows "a = a0"
proof (cases target)
  case None
  have "get_row article_id (fresh_id s) (article_table s) = None"
    unfolding get_row_None_iff using assms(3) by auto
  then show ?thesis using None write_article_facts(2) [OF assms(1)] assms(4) by (simp add: get_row_append)
next
  case (Some t)
  then show ?thesis
    using write_article_facts(2) [OF assms(1)] assms(4) find_update_target_Inr(1) assms(2)
      get_put_same [of article_id a0 "article_table s"] by (auto simp: get_row_None_iff)
qed

section \<open>approve_draft as a whole\<close>

text \<open>A success went through every stage; the stages it names are those of \<open>publish_draft_Inr\<close>.\<close>

lemma approve_draft_Inr:
  assumes "approve_draft steps now u i rq s = (Inr a, s')"
  obtains d a0 s0 where "get_draft_for_user s i u = Some d"
    "publish_draft now u rq d s = Inr (a0, s0)"
    "get_row article_id (article_id a0) (article_table s0) = Some a"
    "s' = run_background steps u a s0"
  using assms
  by (auto simp: approve_draft_def get_article_by_id_def split: option.splits sum.splits prod.splits)

lemma published_reloads:
  assumes "publish_draft now u rq d s = Inr (a0, s0)"
  shows "get_row article_id (article_id a0) (article_table s0) \<noteq> None"
proof (rule publish_draft_Inr [OF assms])
  fix sb ext dept selected sb1 au target review s1
  assume "find_update_target s u (ap_update_article rq) = Inr target"
    "write_article now u d dept au (requested_external_id d target) review target s = (a0, s1)"
    "publish_rows now u rq d au target a0 s1 = Inr s0"
  then show ?thesis using written_article_found publish_rows_Inr(1) by metis
qed

lemma approve_draft_Inl:
  assumes "approve_draft steps now u i rq s = (Inl e, s')"
  shows "s' = s"
  using assms published_reloads [of now u rq]
  by (fastforce simp: approve_draft_def get_article_by_id_def
      split: option.splits sum.splits prod.splits)

lemma provider_acl_connector:
  assumes "provider_acl s d sb selected (Some e) = Inr au"
  shows "sb_sensitivity (au_submission au) = ''restricted''"
    "sb_visibility (au_submission au) \<in> {''users'', ''department''}"
    "\<forall>x \<in> set (au_departments au). dept_company x = d_company d \<and> dept_id x \<in> set (ext_mapped_departments e)"
    "set (map UuidText (au_source_users au)) = set (ext_mapped_users e)"
    "set (au_source_users au) \<subseteq> set (sb_explicit (au_submission au))"
    "au_connector au \<noteq> None"
  using assms unfolding provider_acl_def
  by (auto simp: Let_def parse_uuids_Some split: option.splits if_splits)

lemma source_users_allowed:
  assumes "i \<in> set (au_source_users au)" "set (au_source_users au) \<subseteq> set (sb_explicit (au_submission au))"
    "au_connector au \<noteq> None"
  shows "\<exists>p \<in> set (new_permissions au). aup_user p = i \<and> aup_effect p = Allow \<and> aup_source p \<noteq> None"
    "\<exists>p \<in> set (revised_permissions t au). aup_user p = i \<and> aup_effect p = Allow \<and> aup_source p \<noteq> None"
proof -
  obtain c where c: "au_connector au = Some c" using assms(3) by auto
  show "\<exists>p \<in> set (new_permissions au). aup_user p = i \<and> aup_effect p = Allow \<and> aup_source p \<noteq> None"
    using assms c by (intro bexI [of _ "allow_row (Some (conn_system c)) i"])
      (auto simp: new_permissions_def allow_row_def)
  let ?rows = "filter (\<lambda>p. \<exists>src \<in> set SOURCE_ACL_PROVIDERS. aup_source p = Some src) (user_permissions t)"
  show "\<exists>p \<in> set (revised_permissions t au). aup_user p = i \<and> aup_effect p = Allow \<and> aup_source p \<noteq> None"
  proof (cases "i \<in> aup_user ` set (filter (\<lambda>p. aup_effect p = Allow) ?rows)")
    case True
    then obtain p where "p \<in> set ?rows" "aup_effect p = Allow" "aup_user p = i" by auto
    then show ?thesis by (intro bexI [of _ p]) (auto simp: revised_permissions_def Let_def)
  next
    case False
    then show ?thesis
      using assms c by (intro bexI [of _ "allow_row (Some (conn_system c)) i"])
        (simp_all add: revised_permissions_def Let_def allow_row_def)
  qed
qed

section \<open>Errors\<close>

abbreviation refusal :: "'a result \<Rightarrow> bool" where
  "refusal r \<equiv> (case r of Inl e \<Rightarrow> status_code e \<in> {403, 404, 409, 422} | Inr _ \<Rightarrow> True)"

lemma resolve_refusals [simp]:
  "resolve_active_department ds c n req = Inl e \<Longrightarrow> status_code e = 422"
  "resolve_active_departments ds c ids req = Inl e' \<Longrightarrow> status_code e' = 422"
  by (auto simp: resolve_active_department_def resolve_active_departments_def Let_def
      split: option.splits if_splits)

lemma ids_refusal [simp]: "ids_or_metadata g j m = Inl e \<Longrightarrow> status_code e = 422"
  by (auto simp: ids_or_metadata_def split: option.splits)

lemma stage_refusals:
  "refusal (read_submission rq d)" "refusal (approval_guards s u rq d)"
  "refusal (resolve_departments s rq d dept)" "refusal (validate_labels s d sb sel)"
  "refusal (provider_acl s d sb sel ext)" "refusal (find_update_target s u ti)"
  "refusal (next_review_of d target)"
  by (auto simp: read_submission_def approval_guards_def ensure_preparation_complete_def
      mapped_document_def resolve_departments_def validate_labels_def provider_acl_def
      find_update_target_def next_review_of_def Let_def
      split: sum.splits option.splits if_splits raw_date.splits)

lemma publish_rows_refusal: "refusal (publish_rows now u rq d au target a s)"
  by (auto simp: publish_rows_def Let_def dest: transition_draft_Inl split: sum.splits)

lemma refusalD: "refusal r \<Longrightarrow> r = Inl e \<Longrightarrow> status_code e \<in> {403, 404, 409, 422}"
  by simp

lemmas stage_errors = stage_refusals [THEN refusalD] publish_rows_refusal [THEN refusalD]

lemma publish_draft_refusal:
  "publish_draft now u rq d s = Inl e \<Longrightarrow> status_code e \<in> {403, 404, 409, 422}
     \<or> status_code e = 500 \<and> (\<exists>target. external_id_indexed s (requested_external_id d target) target)"
  unfolding publish_draft_def
  by (auto split: sum.splits prod.splits if_splits simp del: insert_iff dest: stage_errors)

section \<open>Properties\<close>


definition plain_request :: approval_request where
  "plain_request = \<lparr>ap_category = None, ap_dept_arg = None, ap_update_article = None,
     ap_treat_as_new = False, ap_sensitivity = None, ap_department_ids = None,
     ap_review_note = Some '' ok '', ap_visibility = None, ap_explicit_users = None,
     ap_denied_users = None\<rparr>"

definition approval_db :: db where
  "approval_db = empty_db\<lparr>department_table := [blank_department],
     draft_table := [blank_draft\<lparr>created_by := Some 3\<rparr>]\<rparr>"

definition approved :: "article outcome" where
  "approved = approve_draft [] 5 hr_ceo 1 plain_request approval_db"

lemma approved_ok: "\<exists>a. approved = (Inr a, snd approved)"
proof -
  have "status_of (fst approved) = None" by code_simp
  then show ?thesis by (cases "fst approved") (auto simp: prod_eq_iff)
qed


text \<open>
  C17: who may approve what. A draft is only published when it was pending with its preparation
  finished, by its assigned approver or an Admin/CEO, within the caller's company unless the
  caller publishes globally, with at most one active split candidate, with a confirmed update
  target where one is required, and, for a connector document, with every provider principal
  mapped.
\<close>

theorem approve_draft_authorized:
  assumes "approve_draft steps now u i rq s = (Inr a, s')"
  shows "\<exists>d. get_draft_for_user s i u = Some d \<and> d_status d = Pending \<and> \<not> preparing d
    \<and> (assigned_approver_id d = Some (user_id u) \<or> may_self_approve u)
    \<and> (d_company d = u_company u \<or> has_permission u ''article.publish'' None Global)
    \<and> length (active_candidates d) \<le> 1
    \<and> (requires_update_confirmation d \<longrightarrow> ap_update_article rq \<noteq> None \<or> ap_treat_as_new rq)
    \<and> (external_document_id d \<noteq> None \<longrightarrow>
         (\<exists>e \<in> set (external_document_table s). external_document_id d = Some (ext_id e)
            \<and> unmapped_external_acl_principals e = []))"
proof (rule approve_draft_Inr [OF assms])
  fix d a0 s0
  assume d: "get_draft_for_user s i u = Some d" and pub: "publish_draft now u rq d s = Inr (a0, s0)"
  obtain ext where g: "approval_guards s u rq d = Inr ext" using pub by (rule publish_draft_Inr)
  note guards = approval_guards_Inr [OF g]
  show ?thesis
    using d guards mapped_document_Inr [OF guards(5)]
    by (cases ext) (auto simp: can_approve_draft_def outside_company_def is_global_publisher_def)
qed

theorem approve_draft_authorized_witness:
  "\<exists>d. get_draft_for_user approval_db 1 hr_ceo = Some d \<and> d_status d = Pending \<and> \<not> preparing d"
proof -
  obtain a where "approve_draft [] 5 hr_ceo 1 plain_request approval_db = (Inr a, snd approved)"
    using approved_ok unfolding approved_def by auto
  from approve_draft_authorized [OF this] show ?thesis by blast
qed



text \<open>
  C18: what a publication writes. The article carries the draft's title and text and is
  published and active. A draft without update target becomes version 1 of a new article of the
  draft's company under a fresh id; otherwise the target keeps its id and company and its version
  grows by one. Exactly one version row with that number and the published text is added, and no
  other article changes.
\<close>

theorem approve_draft_writes:
  assumes "approve_draft [] now u i rq s = (Inr a, s')"
    and "unique_key article_id (article_table s)" "\<forall>x \<in> set (article_table s). article_id x < fresh_id s"
  shows "\<exists>d target. get_draft_for_user s i u = Some d
    \<and> a_title a = d_title d \<and> body_md a = approved_body d
    \<and> a_status a = Published \<and> lifecycle_status a = ''active''
    \<and> find_update_target s u (ap_update_article rq) = Inr target
    \<and> (case target of
         None \<Rightarrow> article_id a = fresh_id s \<and> version a = 1 \<and> a_company a = d_company d
       | Some t \<Rightarrow> article_id a = article_id t \<and> version a = version t + 1 \<and> a_company a = a_company t)
    \<and> (\<exists>v. version_table s' = version_table s @ [v] \<and> av_article v = article_id a
         \<and> av_version v = version a \<and> sn_body_md (av_snapshot v) = body_md a
         \<and> sn_title (av_snapshot v) = a_title a \<and> av_edited_by v = Some (user_id u))
    \<and> (\<forall>j. j \<noteq> article_id a \<longrightarrow>
         get_row article_id j (article_table s') = get_row article_id j (article_table s))"
proof (rule approve_draft_Inr [OF assms(1)])
  fix d a0 s0
  assume d: "get_draft_for_user s i u = Some d" and pub: "publish_draft now u rq d s = Inr (a0, s0)"
    and a: "get_row article_id (article_id a0) (article_table s0) = Some a"
    and s': "s' = run_background [] u a s0"
  show ?thesis
  proof (rule publish_draft_Inr [OF pub])
    fix sb ext dept selected sb1 au target review s1
    assume tgt: "find_update_target s u (ap_update_article rq) = Inr target"
      and w: "write_article now u d dept au (requested_external_id d target) review target s = (a0, s1)"
      and p: "publish_rows now u rq d au target a0 s1 = Inr s0"
    note wf = write_article_facts [OF w] and pf = publish_rows_Inr [OF p]
    have table: "article_table s0 = article_table s1" by (rule pf(1))
    have eq: "a = a0"
      by (rule written_row [OF w tgt assms(3)]) (use a table in simp)
    have other: "get_row article_id j (article_table s1) = get_row article_id j (article_table s)"
      if "j \<noteq> article_id a0" for j
      using wf(2) that get_put_other [of j article_id a0]
      by (cases target) (auto simp: get_row_append split: option.splits)
    show ?thesis
      using d tgt wf(1,2,8) pf(10) eq other table s'
      by (intro exI [of _ d] exI [of _ target])
         (auto simp: written_def run_background_def snapshot_of_def next_version_def split: option.splits)
  qed
qed

theorem approve_draft_writes_witness:
  "\<exists>a. approved = (Inr a, snd approved) \<and> body_md a = ''text'' \<and> a_status a = Published"
proof -
  obtain a where run: "approve_draft [] 5 hr_ceo 1 plain_request approval_db = (Inr a, snd approved)"
    using approved_ok unfolding approved_def by auto
  have tables: "unique_key article_id (article_table approval_db)"
    "\<forall>x \<in> set (article_table approval_db). article_id x < fresh_id approval_db"
    by (simp_all add: unique_key_def approval_db_def empty_db_def)
  from approve_draft_writes [OF run tables] obtain d where
    d: "get_draft_for_user approval_db 1 hr_ceo = Some d" "body_md a = approved_body d"
      "a_status a = Published" by blast
  from get_draft_for_user_SomeD(1) [OF d(1)] have "approved_body d = ''text''"
    by (simp add: approval_db_def approved_body_def blank_draft_def)
  with d run show ?thesis unfolding approved_def by auto
qed


definition drive_document :: external_document where
  "drive_document = \<lparr>ext_id = 40, ext_connector = 41, ext_article = None, ext_unmapped_groups = [],
     ext_unmapped_users = [], ext_unmapped_principals = [], ext_mapped_departments = [1],
     ext_mapped_users = [UuidText 7]\<rparr>"

definition connector_draft :: pending_draft where
  "connector_draft = blank_draft\<lparr>created_by := Some 3, external_document_id := Some 40\<rparr>"

definition connector_db :: db where
  "connector_db = empty_db\<lparr>department_table := [blank_department], user_table := [hr_ceo],
     draft_table := [connector_draft], external_document_table := [drive_document],
     connector_table := [\<lparr>conn_id = 41, conn_system = ''google_drive'', conn_company = ''acme''\<rparr>]\<rparr>"


definition global_admin :: user where
  "global_admin = blank_user\<lparr>user_id := 9, u_role := ''Admin''\<rparr>"

definition beta_department :: department where
  "beta_department = blank_department\<lparr>dept_id := 30, dept_company := ''beta''\<rparr>"

definition two_tenants :: db where
  "two_tenants = approval_db\<lparr>department_table := [blank_department, beta_department],
     article_table := [blank_article\<lparr>article_id := 60, a_company := ''beta'', body_md := ''beta text'',
       a_departments := [beta_department], owner_id := Some 55\<rparr>]\<rparr>"

text \<open>
  An approval may write across tenants. A global Admin who approves a draft of one company
  with an article of another company as update target overwrites that article: its text becomes
  the draft's and its departments are the first company's, while its tenant stays. The update
  target is checked against the caller, never against the draft's company.
\<close>

theorem approve_updates_foreign_article:
  "case approve_draft [] 5 global_admin 1 (plain_request\<lparr>ap_update_article := Some 60\<rparr>) two_tenants of
     (r, s) \<Rightarrow> status_of r = None
       \<and> map_option (\<lambda>a. (a_company a, body_md a, map dept_company (a_departments a)))
           (get_row article_id 60 (article_table s)) = Some (''beta'', ''text'', [''acme''])
       \<and> map_option d_company (get_row draft_id 1 (draft_table s)) = Some ''acme''"
  by code_simp

end
