(* ===== verification/Workflow.thy ===== *)
theory Workflow
  imports Approval
begin

text \<open>
  The review workflow as a state machine over the whole database: one step is one completed
  call of a handler of \<open>src/domain/governance.py\<close> or of \<open>create_draft\<close> in the repository, by any user
  with any arguments, successful or not. A handler runs under the row lock of its draft, so a
  run of the system is a sequence of such steps. The invariant ties the transition log to the
  draft table.
\<close>

section \<open>Steps\<close>

text \<open>The steps after a publication write conflict records, metadata and the graph only.\<close>

definition background_ok :: "background_step list \<Rightarrow> bool" where
  "background_ok steps =
     (\<forall>f \<in> set steps. \<forall>u a t t'. f u a t = Some t' \<longrightarrow>
        draft_table t' = draft_table t \<and> transition_table t' = transition_table t
        \<and> fresh_id t' = fresh_id t)"

inductive workflow_step :: "db \<Rightarrow> db \<Rightarrow> bool" where
  created: "create_draft d s = (d', s') \<Longrightarrow> workflow_step s s'"
| submitted: "submit_draft now u i reason s = (r, s') \<Longrightarrow> workflow_step s s'"
| assigned: "assign_approver now u i a use_rule s = (r, s') \<Longrightarrow> workflow_step s s'"
| rejected: "reject_draft cfg now u i memo s = (r, s') \<Longrightarrow> workflow_step s s'"
| restructured: "restructure_draft f u i enabled s = (r, s') \<Longrightarrow> workflow_step s s'"
| decided: "decide_restructure u i decision s = (r, s') \<Longrightarrow> workflow_step s s'"
| reviewed: "review_candidate u i rq s = (cr, s') \<Longrightarrow> workflow_step s s'"
| committed: "commit_candidates h j now u i s = (pr, s') \<Longrightarrow> workflow_step s s'"
| approved: "approve_draft steps now u i arq s = (ar, s') \<Longrightarrow> background_ok steps \<Longrightarrow> workflow_step s s'"

inductive workflow_reachable :: "db \<Rightarrow> bool" where
  start: "draft_table s = [] \<Longrightarrow> transition_table s = [] \<Longrightarrow> workflow_reachable s"
| step: "workflow_reachable s \<Longrightarrow> workflow_step s s' \<Longrightarrow> workflow_reachable s'"

inductive workflow_run :: "db \<Rightarrow> db \<Rightarrow> bool" where
  here: "workflow_run s s"
| more: "workflow_run s s' \<Longrightarrow> workflow_step s' s'' \<Longrightarrow> workflow_run s s''"

section \<open>The invariant\<close>

definition workflow_inv :: "db \<Rightarrow> bool" where
  "workflow_inv s =
     (unique_key draft_id (draft_table s)
      \<and> (\<forall>d \<in> set (draft_table s). draft_id d < fresh_id s)
      \<and> (\<forall>t \<in> set (transition_table s). tr_draft t < fresh_id s)
      \<and> history_ok s)"

definition keeps_approved :: "db \<Rightarrow> db \<Rightarrow> bool" where
  "keeps_approved s s' =
     (\<forall>d \<in> set (draft_table s). d_status d = Approved \<longrightarrow>
        (\<exists>d2 \<in> set (draft_table s'). draft_id d2 = draft_id d \<and> d_status d2 = Approved))"

lemma keeps_approved_refl [simp]: "keeps_approved s s"
  by (auto simp: keeps_approved_def)

lemma keeps_approved_trans: "keeps_approved s s' \<Longrightarrow> keeps_approved s' s'' \<Longrightarrow> keeps_approved s s''"
  unfolding keeps_approved_def by metis

text \<open>One step, as far as the workflow is concerned.\<close>

definition sound_step :: "db \<Rightarrow> db \<Rightarrow> bool" where
  "sound_step s s' = (workflow_inv s \<longrightarrow> workflow_inv s' \<and> keeps_approved s s')"

lemma sound_refl [simp]: "sound_step s s"
  by (simp add: sound_step_def)

lemma sound_trans: "sound_step s s' \<Longrightarrow> sound_step s' s'' \<Longrightarrow> sound_step s s''"
  unfolding sound_step_def using keeps_approved_trans by blast

lemma sound_frame:
  assumes "draft_table s' = draft_table s" "transition_table s' = transition_table s"
    "fresh_id s \<le> fresh_id s'"
  shows "sound_step s s'"
  using assms
  by (fastforce simp: sound_step_def workflow_inv_def history_ok_def transitions_of_def
      keeps_approved_def)

lemma sound_effect:
  assumes "draft_effect u d' s s'" "fresh_id s \<le> fresh_id s'"
  shows "sound_step s s'"
proof -
  obtain d ts where d: "get_draft_for_user s (draft_id d') u = Some d"
    and drafts: "draft_table s' = put_row draft_id d' (draft_table s)"
    and trans: "transition_table s' = transition_table s @ ts"
    and ts: "ts = [] \<or> (\<exists>t. ts = [t] \<and> tr_draft t = draft_id d')"
    using assms(1) unfolding draft_effect_def by blast
  note d_in = get_draft_for_user_SomeD [OF d]
  have ids: "\<forall>e \<in> set (draft_table s'). draft_id e < fresh_id s'"
    if "\<forall>e \<in> set (draft_table s). draft_id e < fresh_id s"
    using that assms(2) d_in(1,2) unfolding drafts put_row_def by fastforce
  have "\<forall>t \<in> set (transition_table s'). tr_draft t < fresh_id s'"
    if "\<forall>e \<in> set (draft_table s). draft_id e < fresh_id s"
      "\<forall>t \<in> set (transition_table s). tr_draft t < fresh_id s"
    using that assms(2) d_in(1,2) ts unfolding trans by fastforce
  with ids show ?thesis
    using draft_effect_history [OF assms(1)] draft_effect_approved [OF assms(1)] drafts
    by (auto simp: sound_step_def workflow_inv_def keeps_approved_def)
qed

context draft_operation
begin

lemma sound: "run s = (r, s') \<Longrightarrow> sound_step s s'"
  using error_keeps [of s] effect [of s] frame [of s r s'] sound_effect
  by (cases r) (auto simp: same_frame_def)

end

section \<open>The other handlers\<close>

lemma transitions_of_append [simp]:
  "transitions_of (s\<lparr>draft_table := ds, transition_table := transition_table s @ ts, fresh_id := n\<rparr>) i
     = transitions_of s i @ filter (\<lambda>t. tr_draft t = i) ts"
  by (simp add: transitions_of_def)

text \<open>New drafts appended under fresh ids, each with at most its creation on record.\<close>

lemma sound_append:
  assumes drafts: "draft_table s' = draft_table s @ kids"
    and trans: "transition_table s' = transition_table s @ ts"
    and fresh: "map draft_id kids = [fresh_id s..<fresh_id s']" "fresh_id s \<le> fresh_id s'"
    and owned: "\<forall>t \<in> set ts. tr_draft t \<in> draft_id ` set kids"
    and created: "\<forall>k \<in> set kids. path_to (d_status k) (rev (filter (\<lambda>t. tr_draft t = draft_id k) ts))"
  shows "sound_step s s'"
proof -
  have ids: "draft_id ` set kids = {fresh_id s..<fresh_id s'}"
    using arg_cong [OF fresh(1), of set] by simp
  have "workflow_inv s'" if inv: "workflow_inv s"
  proof -
    have bounds: "d \<in> set (draft_table s) \<Longrightarrow> draft_id d < fresh_id s"
      "t \<in> set (transition_table s) \<Longrightarrow> tr_draft t < fresh_id s" for d t
      using inv by (simp_all add: workflow_inv_def)
    have kid: "fresh_id s \<le> draft_id k" if "k \<in> set kids" for k
      using imageI [OF that, of draft_id] unfolding ids by simp
    have later: "fresh_id s \<le> tr_draft t" "tr_draft t < fresh_id s'" if "t \<in> set ts" for t
      using bspec [OF owned that] unfolding ids by simp_all
    have old: "filter (\<lambda>t. tr_draft t = draft_id d) ts = []" if "d \<in> set (draft_table s)" for d
      using bounds(1) [OF that] later(1) unfolding filter_empty_conv by (metis leD)
    have new: "filter (\<lambda>t. tr_draft t = draft_id k) (transition_table s) = []" if "k \<in> set kids" for k
      using kid [OF that] bounds(2) unfolding filter_empty_conv by (metis leD)
    have "history_ok s'"
      using inv old new created
      by (auto simp: workflow_inv_def history_ok_def transitions_of_def drafts trans)
    moreover have "unique_key draft_id (draft_table s')"
    proof -
      have "distinct (map draft_id (draft_table s))" "distinct (map draft_id kids)"
        using inv by (simp_all add: workflow_inv_def unique_key_def fresh(1))
      moreover have "draft_id ` set (draft_table s) \<inter> draft_id ` set kids = {}"
        using inv unfolding ids workflow_inv_def by auto
      ultimately show ?thesis by (simp add: unique_key_def drafts)
    qed
    moreover have "\<forall>d \<in> set (draft_table s'). draft_id d < fresh_id s'"
      using bounds(1) fresh(2) imageI [of _ "set kids" draft_id] unfolding ids drafts
      by (auto intro: less_le_trans)
    moreover have "\<forall>t \<in> set (transition_table s'). tr_draft t < fresh_id s'"
      using bounds(2) later(2) fresh(2) unfolding trans by (auto intro: less_le_trans)
    ultimately show ?thesis by (simp add: workflow_inv_def)
  qed
  then show ?thesis by (auto simp: sound_step_def keeps_approved_def drafts)
qed

lemma create_draft_sound: "create_draft d s = (d', s') \<Longrightarrow> sound_step s s'"
  by (rule sound_append [of s' s "[d']" "drop (length (transition_table s)) (transition_table s')"])
     (auto simp: create_draft_def Let_def split: if_splits)

lemma review_candidate_sound:
  assumes "review_candidate u i rq s = (r, s')"
  shows "sound_step s s'"
proof (cases "s' = s")
  case False
  then obtain d cs' where d: "get_draft_for_user s i u = Some d"
    and s': "draft_table s' = put_row draft_id (d\<lparr>candidates := cs'\<rparr>) (draft_table s)"
      "transition_table s' = transition_table s" "fresh_id s \<le> fresh_id s'"
    using assms unfolding review_candidate_def
    by (auto simp: Let_def split: option.splits if_splits sum.splits)
  have "draft_effect u (d\<lparr>candidates := cs'\<rparr>) s s'"
    by (rule draft_effect_same_status [OF d]) (use s' in simp_all)
  then show ?thesis by (rule sound_effect) (rule s'(3))
qed simp

lemma submit_children_sound: "submit_children now u cs s = (r, s') \<Longrightarrow> sound_step s s'"
proof (induction cs arbitrary: s)
  case (Cons c cs)
  then show ?case
    by (auto split: prod.splits sum.splits intro: submit.sound sound_trans [OF submit.sound])
qed simp

lemma find_append: "find P xs = Some x \<Longrightarrow> find P (xs @ ys) = Some x"
  by (induction xs) auto

lemma put_row_append [simp]: "put_row key r (xs @ ys) = put_row key r xs @ put_row key r ys"
  by (simp add: put_row_def)

lemma commit_rows_sound:
  assumes items: "commit_items build failed (fresh_id s) cs = (kids, rs, ids, n)"
    and build: "\<And>c m. draft_id (build c m) = m" "\<And>c m. d_status (build c m) = Draft"
    and parent: "get_draft_for_user s i u = Some parent"
    and rows: "commit_rows u parent kids ids n s = Inr (parent', s1)"
  shows "sound_step s s1"
proof (cases "workflow_inv s")
  case inv: True
  have shape: "map draft_id kids = [fresh_id s..<n]" "fresh_id s \<le> n"
    "list_all2 (\<lambda>k c. \<exists>m. k = build c m) kids (filter (\<lambda>c. \<not> failed c) cs)"
    using commit_items_shape [OF build(1) items] by simp_all
  have drafts: "d_status k = Draft" if "k \<in> set kids" for k
    using shape(3) that build(2) by (induction rule: list_all2_induct) auto
  let ?s0 = "s\<lparr>draft_table := draft_table s @ kids,
    transition_table := transition_table s @ map (creation_transition u) kids, fresh_id := n\<rparr>"
  have one: "filter (\<lambda>t. tr_draft t = draft_id k) (map (creation_transition u) kids)
      = [creation_transition u k]" if "k \<in> set kids" for k
  proof -
    have "distinct (map draft_id kids)" by (simp add: shape(1))
    then have "filter (\<lambda>x. draft_id x = draft_id k) kids = [k]"
      using that by (induction kids) (auto simp: filter_empty_conv image_iff)
    then show ?thesis by (simp add: filter_map creation_transition_def comp_def)
  qed
  have "sound_step s ?s0"
    by (rule sound_append [of ?s0 s kids "map (creation_transition u) kids"])
       (auto simp: shape one drafts, simp_all add: creation_transition_def)
  moreover have "draft_effect u parent' ?s0 s1"
  proof -
    note in_p = get_draft_for_user_SomeD [OF parent]
    have p: "draft_id parent' = draft_id parent" "d_company parent' = d_company parent"
      "created_by parent' = created_by parent" "d_status parent' = Rejected"
      "Rejected \<in> allowed (d_status parent)"
      and s1: "draft_table s1 = put_row draft_id parent' (draft_table s) @ kids"
      "transition_table s1 = transition_table ?s0 @
         [\<lparr>tr_draft = draft_id parent, from_status = Some (d_status parent), to_status = Rejected,
           actor_id = Some (user_id u), tr_reason = clean_note (Some split_note)\<rparr>]"
      using rows by (auto simp: commit_rows_def transition_draft_def Let_def split: if_splits)
    have "draft_id parent' \<notin> draft_id ` set kids"
      using arg_cong [OF shape(1), of set] inv in_p(1) p(1) by (auto simp: workflow_inv_def)
    then have table: "draft_table s1 = put_row draft_id parent' (draft_table ?s0)"
      by (simp add: s1(1) put_row_absent)
    have get: "get_draft_for_user ?s0 i u = Some parent"
      using parent by (simp add: get_draft_for_user_def find_append)
    show ?thesis
      by (rule draft_effect_transition [OF get p(1-3) table]) (use p s1(2) in simp_all)
  qed
  moreover have "fresh_id s1 = n"
    using rows by (auto simp: commit_rows_def transition_draft_def Let_def split: if_splits)
  ultimately show ?thesis using sound_effect [of u parent' ?s0 s1] sound_trans by simp
qed (simp add: sound_step_def)

lemma commit_candidates_sound:
  assumes "commit_candidates h j now u i s = (r, s')"
  shows "sound_step s s'"
proof (cases "s' = s")
  case False
  then obtain parent build failed cs kids rs ids n parent' s1 r2 s2 where
    parent: "get_draft_for_user s i u = Some parent"
    and items: "commit_items build failed (fresh_id s) cs = (kids, rs, ids, n)"
    and build: "\<And>c m. draft_id (build c m) = m" "\<And>c m. d_status (build c m) = Draft"
    and rows: "commit_rows u parent kids ids n s = Inr (parent', s1)"
    and subs: "submit_children now u kids s1 = (r2, s2)"
    and s': "draft_table s' = draft_table s2" "transition_table s' = transition_table s2"
      "fresh_id s' = fresh_id s2"
    using assms unfolding commit_candidates_def Let_def
    by (auto split: option.splits if_splits sum.splits prod.splits)
  have "sound_step s s2"
    using commit_rows_sound [OF items build parent rows] submit_children_sound [OF subs] sound_trans
    by blast
  then show ?thesis using sound_trans sound_frame [of s' s2] s' by simp
qed simp

lemma approve_draft_sound:
  assumes "approve_draft steps now u i rq s = (r, s')" "background_ok steps"
  shows "sound_step s s'"
proof (cases r)
  case (Inl e)
  then show ?thesis using approve_draft_Inl assms(1) by fastforce
next
  case (Inr a)
  with assms(1) have run: "approve_draft steps now u i rq s = (Inr a, s')" by simp
  show ?thesis
  proof (rule approve_draft_Inr [OF run])
    fix d a0 s0
    assume d: "get_draft_for_user s i u = Some d" and pub: "publish_draft now u rq d s = Inr (a0, s0)"
      and s': "s' = run_background steps u a s0"
    have "sound_step s s0"
    proof (rule publish_draft_Inr [OF pub])
      fix sb ext dept selected sb1 au target review s1
      assume w: "write_article now u d dept au (requested_external_id d target) review target s = (a0, s1)"
        and p: "publish_rows now u rq d au target a0 s1 = Inr s0"
      note wf = write_article_facts [OF w] and pf = publish_rows_Inr [OF p]
      obtain d' where d': "draft_table s0 = put_row draft_id d' (draft_table s)"
        "draft_id d' = draft_id d" "d_status d' = Approved" "d_company d' = d_company d"
        "created_by d' = created_by d" using pf(7) wf(3) by auto
      have "draft_effect u d' s s0"
        by (rule draft_effect_transition [OF d d'(2,4,5,1)]) (use pf(6,8) wf(4) d'(3) in simp_all)
      moreover have "fresh_id s \<le> fresh_id s0"
        using pf(4) wf(2) by (cases target) auto
      ultimately show ?thesis by (rule sound_effect)
    qed
    moreover have "draft_table (run_background fs u a t) = draft_table t
        \<and> transition_table (run_background fs u a t) = transition_table t
        \<and> fresh_id (run_background fs u a t) = fresh_id t" if "set fs \<subseteq> set steps" for fs t
      using that unfolding run_background_def
    proof (induction fs arbitrary: t)
      case (Cons f fs)
      with assms(2) show ?case by (cases "f u a t") (auto simp: background_ok_def)
    qed simp
    ultimately show ?thesis
      using s' sound_trans [OF _ sound_frame, of s s0 s'] by simp
  qed
qed

lemma workflow_step_sound: "workflow_step s s' \<Longrightarrow> sound_step s s'"
  by (induction rule: workflow_step.induct)
     (blast intro: create_draft_sound submit.sound assign.sound reject.sound restructure.sound
        decide.sound review_candidate_sound commit_candidates_sound approve_draft_sound)+

lemma workflow_reachable_inv: "workflow_reachable s \<Longrightarrow> workflow_inv s"
proof (induction rule: workflow_reachable.induct)
  case (start s)
  then show ?case by (simp add: workflow_inv_def unique_key_def history_ok_def)
next
  case (step s s')
  then show ?case using workflow_step_sound by (auto simp: sound_step_def)
qed

lemma workflow_run_sound: "workflow_run s s' \<Longrightarrow> sound_step s s'"
  by (induction rule: workflow_run.induct) (auto intro: sound_trans workflow_step_sound)

section \<open>Properties\<close>




text \<open>A draft created, submitted and published by the same Admin.\<close>

definition created_db :: db where
  "created_db = snd (create_draft (blank_draft\<lparr>d_status := Draft, created_by := Some (user_id hr_ceo)\<rparr>)
     (empty_db\<lparr>department_table := [blank_department], user_table := [hr_ceo]\<rparr>))"

definition submitted_db :: db where
  "submitted_db = snd (submit_draft 3 hr_ceo 100 None created_db)"

definition published_db :: db where
  "published_db = snd (approve_draft [] 5 hr_ceo 100 plain_request submitted_db)"

lemma created_reachable: "workflow_reachable created_db"
  by (rule workflow_reachable.step [OF workflow_reachable.start workflow_step.created])
     (auto simp: created_db_def empty_db_def prod_eq_iff)

lemma submitted_reachable: "workflow_reachable submitted_db"
  by (rule workflow_reachable.step [OF created_reachable workflow_step.submitted])
     (auto simp: submitted_db_def prod_eq_iff)

lemma published_step: "workflow_step submitted_db published_db"
  by (rule workflow_step.approved [of "[]" 5 hr_ceo 100 plain_request])
     (auto simp: published_db_def prod_eq_iff background_ok_def)

lemma published_drafts:
  "map (\<lambda>d. (draft_id d, d_status d)) (draft_table published_db) = [(100, Approved)]"
  by code_simp



end
