(* ===== verification/Articles.thy ===== *)
theory Articles
  imports Workflow
begin

text \<open>
  \<open>src/domain/articles.py\<close>: creating, updating, reading, deleting and restoring articles, with
  the version history every change of content writes. Each handler is one transaction: it
  returns the database it was given when it raises. Events published after the commit have no
  effect on the database and are left out.
\<close>

section \<open>Rows\<close>

text \<open>The resource an authorization check is given before the article exists.\<close>

definition new_resource :: "string \<Rightarrow> string \<Rightarrow> uuid option \<Rightarrow> resource" where
  "new_resource company dept owner =
     \<lparr>r_company = Some company, r_departments = [], r_dept = Some dept, r_owner = owner\<rparr>"

definition get_departments_by_ids :: "db \<Rightarrow> uuid list \<Rightarrow> string \<Rightarrow> department list" where
  "get_departments_by_ids s ids company =
     filter (\<lambda>d. dept_id d \<in> set ids \<and> (company \<noteq> [] \<longrightarrow> dept_company d = company)) (department_table s)"

definition get_version_by_number :: "db \<Rightarrow> uuid \<Rightarrow> int \<Rightarrow> user \<Rightarrow> article_version option" where
  "get_version_by_number s i n u =
     (if get_article_by_id (department_table s) (article_table s) i (Some u) = None then None
      else find (\<lambda>v. av_article v = i \<and> av_version v = n) (version_table s))"

definition get_versions :: "db \<Rightarrow> uuid \<Rightarrow> user \<Rightarrow> article_version list" where
  "get_versions s i u =
     (if get_article_by_id (department_table s) (article_table s) i (Some u) = None then []
      else rev (sort_key av_version (filter (\<lambda>v. av_article v = i) (version_table s))))"

text \<open>\<open>uq_article_tag\<close>: the database refuses a tag twice on one article.\<close>

definition sync_tags :: "string list \<Rightarrow> article \<Rightarrow> article result" where
  "sync_tags tags a = (if distinct tags then Inr (a\<lparr>a_tags := tags\<rparr>) else raise 500 ''IntegrityError'')"

definition content_snapshot :: "article \<Rightarrow> string list \<Rightarrow> snapshot" where
  "content_snapshot a tags =
     \<lparr>sn_title = a_title a, sn_body_md = body_md a, sn_dept = a_dept a, sn_department_ids = None,
      sn_domain = a_domain a, sn_type = a_type a, sn_sensitivity = sensitivity a,
      sn_visibility = None, sn_explicit_user_ids = None, sn_denied_user_ids = None,
      sn_language = language a, sn_external_id = None, sn_tags = tags,
      sn_original_body_md = None, sn_restored_from = None\<rparr>"

text \<open>\<open>uq_article_versions_article_version\<close>: one row per article and version.\<close>

definition create_version :: "article_version \<Rightarrow> db \<Rightarrow> db result" where
  "create_version v s =
     (if list_ex (\<lambda>w. av_article w = av_article v \<and> av_version w = av_version v) (version_table s)
      then raise 500 ''IntegrityError''
      else Inr (s\<lparr>version_table := version_table s @ [v]\<rparr>))"

definition audit_article :: "user \<Rightarrow> string \<Rightarrow> uuid \<Rightarrow> db \<Rightarrow> db" where
  "audit_article u action i s = log_audit (Some (user_id u)) action ''article'' (Some i) s"

definition SENSITIVITIES :: "string set" where
  "SENSITIVITIES = {''public'', ''internal'', ''confidential'', ''restricted''}"

section \<open>Creating\<close>

definition ensure_can_create :: "user \<Rightarrow> string \<Rightarrow> unit result" where
  "ensure_can_create u dept =
     (if list_ex (has_permission u ''article.create''
           (Some (new_resource (u_company u) dept (Some (user_id u))))) [Own, Department, Company, Global]
      then Inr () else raise 403 ''Not authorized to create articles in this department'')"

record create_request =
  cr_title :: string
  cr_body :: string
  cr_dept :: string
  cr_domain :: string
  cr_type :: string
  cr_sensitivity :: string
  cr_tags :: "string list"
  cr_language :: string
  cr_audience :: "uuid list option"
  cr_next_review :: "instant option"
  cr_external_id :: "string option"
  cr_original_body :: "string option"
  cr_publish_without_review :: bool

definition create_audience :: "db \<Rightarrow> user \<Rightarrow> department \<Rightarrow> uuid list option \<Rightarrow> department list result" where
  "create_audience s u primary ids =
     (case ids of
        None \<Rightarrow> Inr [primary]
      | Some [] \<Rightarrow> Inr [primary]
      | Some is \<Rightarrow>
          (let resolved = get_departments_by_ids s is (u_company u) in
           if length (remdups (map dept_id resolved)) \<noteq> length (remdups is)
           then raise 422 ''One or more departments do not exist''
           else Inr (primary # filter (\<lambda>d. dept_id d \<noteq> dept_id primary) resolved)))"

definition may_publish :: "user \<Rightarrow> string \<Rightarrow> bool" where
  "may_publish u dept =
     list_ex (has_permission u ''article.publish''
       (Some (new_resource (u_company u) dept (Some (user_id u))))) [Own, Department, Company, Global]"

definition article_row ::
  "instant \<Rightarrow> user \<Rightarrow> create_request \<Rightarrow> string \<Rightarrow> department list \<Rightarrow> uuid \<Rightarrow> article" where
  "article_row now u rq dept audiences i =
     (let st = (if may_publish u dept \<or> cr_publish_without_review rq then Published else Draft_article) in
      \<lparr>article_id = i, a_title = cr_title rq, a_external_id = cr_external_id rq,
       body_md = cr_body rq, a_dept = dept, a_domain = cr_domain rq, a_company = u_company u,
       a_type = cr_type rq, sensitivity = cr_sensitivity rq, visibility = ''department'',
       language = cr_language rq, owner_id = Some (user_id u), a_status = st,
       lifecycle_status = ''active'', retention_until = None, legal_hold = False,
       a_related = None, structured_metadata = None, a_source_position = None, version = 1,
       last_reviewed = (if st = Published then Some now else None),
       next_review = cr_next_review rq, needs_update = False, self_approved = False,
       source_changed = False, source_changed_at = None, index_status = ''pending'',
       index_error = None, a_departments = audiences, user_permissions = [], sources = [],
       a_tags = []\<rparr>)"

definition create_rows ::
  "instant \<Rightarrow> user \<Rightarrow> create_request \<Rightarrow> db \<Rightarrow> (article \<times> db) result" where
  "create_rows now u rq s =
     and_then (resolve_active_department (department_table s) (u_company u) (Some (cr_dept rq)) True)
       (\<lambda>found. case found of None \<Rightarrow> raise 500 ''AttributeError'' | Some primary \<Rightarrow>
     and_then (ensure_can_create u (dept_name primary)) (\<lambda>_.
     and_then (create_audience s u primary (cr_audience rq)) (\<lambda>audiences.
     and_then (unless (cr_sensitivity rq \<notin> SENSITIVITIES) 422 ''Invalid article sensitivity'') (\<lambda>_.
     and_then (unless (external_id_indexed s (cr_external_id rq) None) 500 ''IntegrityError'') (\<lambda>_.
     and_then (sync_tags (cr_tags rq)
                 (article_row now u rq (dept_name primary) audiences (fresh_id s))) (\<lambda>a.
     and_then (create_version
                 \<lparr>av_article = article_id a, av_version = 1,
                  av_snapshot = (content_snapshot a (cr_tags rq))
                    \<lparr>sn_original_body_md := Some (or_else (cr_original_body rq) (body_md a))\<rparr>,
                  av_edited_by = Some (user_id u)\<rparr>
                 (s\<lparr>article_table := article_table s @ [a], fresh_id := Suc (fresh_id s)\<rparr>)) (\<lambda>s1.
       Inr (a, let s2 = audit_article u ''create'' (article_id a) s1
               in if a_status a = Published
                  then audit_article u ''publish'' (article_id a) s2 else s2))))))))"

definition create_article ::
  "instant \<Rightarrow> user \<Rightarrow> create_request \<Rightarrow> db \<Rightarrow> article outcome" where
  "create_article now u rq s = transaction s (create_rows now u rq s)"

section \<open>Updating\<close>

record update_request =
  up_title :: "string option"
  up_body :: "string option"
  up_dept :: "string option"
  up_domain :: "string option"
  up_type :: "string option"
  up_sensitivity :: "string option"
  up_language :: "string option"
  up_status :: "article_status option"
  up_tags :: "string list option"
  up_audience :: "uuid list option"
  up_next_review :: "instant option"

definition given :: "'a option \<Rightarrow> 'a \<Rightarrow> 'a" where
  "given x old = (case x of None \<Rightarrow> old | Some v \<Rightarrow> v)"

definition may_move :: "user \<Rightarrow> article \<Rightarrow> string \<Rightarrow> bool" where
  "may_move u a dept =
     list_ex (has_permission u ''article.edit'' (Some (new_resource (a_company a) dept (owner_id a))))
       [Department, Company, Global]"

definition proposed_audience :: "db \<Rightarrow> article \<Rightarrow> uuid list option \<Rightarrow> department list result" where
  "proposed_audience s a ids =
     (case ids of
        None \<Rightarrow> Inr (a_departments a)
      | Some is \<Rightarrow>
          (let found = get_departments_by_ids s is (a_company a) in
           if length (remdups (map dept_id found)) \<noteq> length (remdups is)
           then raise 422 ''One or more departments do not exist''
           else if found = [] then raise 422 ''An article requires at least one department''
           else Inr found))"

definition content_changed :: "update_request \<Rightarrow> article \<Rightarrow> bool" where
  "content_changed rq a =
     (given (up_language rq) (language a) \<noteq> language a \<or> given (up_title rq) (a_title a) \<noteq> a_title a
      \<or> given (up_body rq) (body_md a) \<noteq> body_md a \<or> given (up_dept rq) (a_dept a) \<noteq> a_dept a
      \<or> given (up_domain rq) (a_domain a) \<noteq> a_domain a \<or> given (up_type rq) (a_type a) \<noteq> a_type a)"

definition audience_changed :: "update_request \<Rightarrow> department list \<Rightarrow> article \<Rightarrow> bool" where
  "audience_changed rq audiences a =
     (up_audience rq \<noteq> None \<and> dept_id ` set (a_departments a) \<noteq> dept_id ` set audiences)"

definition permissions_changed :: "update_request \<Rightarrow> department list \<Rightarrow> article \<Rightarrow> bool" where
  "permissions_changed rq audiences a =
     (given (up_sensitivity rq) (sensitivity a) \<noteq> sensitivity a \<or> audience_changed rq audiences a
      \<or> given (up_dept rq) (a_dept a) \<noteq> a_dept a)"

definition updated_row :: "update_request \<Rightarrow> department list \<Rightarrow> article \<Rightarrow> article" where
  "updated_row rq audiences a =
     a\<lparr>sensitivity := given (up_sensitivity rq) (sensitivity a),
       language := given (up_language rq) (language a),
       a_departments := (if audience_changed rq audiences a then audiences else a_departments a),
       a_title := given (up_title rq) (a_title a), body_md := given (up_body rq) (body_md a),
       a_dept := given (up_dept rq) (a_dept a), a_domain := given (up_domain rq) (a_domain a),
       a_type := given (up_type rq) (a_type a),
       next_review := (case up_next_review rq of None \<Rightarrow> next_review a | Some t \<Rightarrow> Some t),
       version := (if content_changed rq a then version a + 1 else version a)\<rparr>"

definition readable_article :: "db \<Rightarrow> user \<Rightarrow> uuid \<Rightarrow> article result" where
  "readable_article s u i =
     (case get_article_by_id (department_table s) (article_table s) i (Some u) of
        None \<Rightarrow> raise 404 ''Article not found''
      | Some a \<Rightarrow> if a_status a = Deleted then raise 404 ''Article not found'' else Inr a)"

definition version_row :: "user \<Rightarrow> article \<Rightarrow> snapshot \<Rightarrow> article_version" where
  "version_row u a sn =
     \<lparr>av_article = article_id a, av_version = version a, av_snapshot = sn,
      av_edited_by = Some (user_id u)\<rparr>"

definition update_rows ::
  "user \<Rightarrow> uuid \<Rightarrow> update_request \<Rightarrow> db \<Rightarrow> (article \<times> db) result" where
  "update_rows u i rq s =
     and_then (readable_article s u i) (\<lambda>a.
     and_then (unless (\<not> can_edit_article u a) 403 ''Not authorized to edit this article'') (\<lambda>_.
     and_then (unless (up_sensitivity rq \<noteq> None \<and> the (up_sensitivity rq) \<notin> SENSITIVITIES) 422
                 ''Invalid article sensitivity'') (\<lambda>_.
     and_then (unless (given (up_dept rq) (a_dept a) \<noteq> a_dept a
                       \<and> \<not> may_move u a (given (up_dept rq) (a_dept a))) 403
                 ''Not authorized to move an article to this department'') (\<lambda>_.
     and_then (proposed_audience s a (up_audience rq)) (\<lambda>audiences.
     and_then (unless (up_status rq \<noteq> None \<and> up_status rq \<noteq> Some (a_status a)) 400
                 ''Article status changes must be approved through the review workflow'') (\<lambda>_.
     and_then (case up_tags rq of None \<Rightarrow> Inr (updated_row rq audiences a)
               | Some tags \<Rightarrow> sync_tags tags (updated_row rq audiences a)) (\<lambda>a2.
     and_then (let s1 = s\<lparr>article_table := put_row article_id a2 (article_table s)\<rparr> in
               if content_changed rq a
               then create_version (version_row u a2 (content_snapshot a2 (a_tags a2))) s1
               else Inr s1) (\<lambda>s2.
       Inr (a2, let s3 = (if permissions_changed rq audiences a
                          then audit_article u ''permission_change'' i s2 else s2)
                in if content_changed rq a then audit_article u ''update'' i s3 else s3)))))))))"

definition update_article ::
  "user \<Rightarrow> uuid \<Rightarrow> update_request \<Rightarrow> db \<Rightarrow> article outcome" where
  "update_article u i rq s = transaction s (update_rows u i rq s)"

section \<open>Reading\<close>

definition get_article :: "db \<Rightarrow> user \<Rightarrow> uuid \<Rightarrow> article result" where
  "get_article s u i =
     (case readable_article s u i of
        Inl e \<Rightarrow> Inl e
      | Inr a \<Rightarrow>
          (case resolve_active_department (department_table s) (a_company a) (Some (a_dept a)) False of
             Inl e \<Rightarrow> Inl e
           | Inr None \<Rightarrow> raise 404 ''Article department is inactive or no longer exists''
           | Inr (Some _) \<Rightarrow>
               if can_view_article u a then Inr a else raise 403 ''Access denied''))"

definition viewable_article :: "db \<Rightarrow> user \<Rightarrow> uuid \<Rightarrow> article result" where
  "viewable_article s u i =
     (case readable_article s u i of
        Inl e \<Rightarrow> Inl e
      | Inr a \<Rightarrow> if can_view_article u a then Inr a else raise 403 ''Access denied'')"

definition get_history :: "db \<Rightarrow> user \<Rightarrow> uuid \<Rightarrow> article_version list result" where
  "get_history s u i =
     (case viewable_article s u i of Inl e \<Rightarrow> Inl e | Inr _ \<Rightarrow> Inr (get_versions s i u))"

definition get_version :: "db \<Rightarrow> user \<Rightarrow> uuid \<Rightarrow> int \<Rightarrow> article_version result" where
  "get_version s u i n =
     (case viewable_article s u i of
        Inl e \<Rightarrow> Inl e
      | Inr _ \<Rightarrow>
          (case get_version_by_number s i n u of
             None \<Rightarrow> raise 404 ''Version not found'' | Some v \<Rightarrow> Inr v))"

section \<open>Deleting\<close>

definition soft_delete :: "db \<Rightarrow> uuid \<Rightarrow> user \<Rightarrow> db option" where
  "soft_delete s i u =
     (if get_article_by_id (department_table s) (article_table s) i (Some u) = None then None
      else Some (s\<lparr>article_table :=
             map (\<lambda>a. if article_id a = i \<and> authorized_article_filters (department_table s) u a
                      then a\<lparr>a_status := Deleted\<rparr> else a) (article_table s)\<rparr>))"

definition soft_delete_article :: "instant \<Rightarrow> user \<Rightarrow> uuid \<Rightarrow> db \<Rightarrow> unit outcome" where
  "soft_delete_article today u i s =
     (case readable_article s u i of
        Inl e \<Rightarrow> (Inl e, s)
      | Inr a \<Rightarrow>
          if \<not> can_delete_article u a then (raise 403 ''Not authorized to delete this article'', s)
          else if legal_hold a
          then (raise 409 ''This article is under legal hold and cannot be deleted.'', s)
          else if (case retention_until a of None \<Rightarrow> False | Some t \<Rightarrow> today \<le> t)
          then (raise 409 ''This article must be retained and cannot be deleted yet.'', s)
          else (case soft_delete s i u of
                  None \<Rightarrow> (Inr (), s)
                | Some s1 \<Rightarrow> (Inr (), audit_article u ''delete'' i s1)))"

section \<open>Restoring\<close>

text \<open>The loop over the fields of the snapshot; every snapshot the program writes has them all.\<close>

definition restored_row :: "snapshot \<Rightarrow> article \<Rightarrow> article" where
  "restored_row sn a =
     a\<lparr>a_title := sn_title sn, body_md := sn_body_md sn, a_dept := sn_dept sn,
       a_domain := sn_domain sn, a_type := sn_type sn, sensitivity := sn_sensitivity sn,
       language := sn_language sn, version := version a + 1, lifecycle_status := ''active'',
       index_status := ''pending'', index_error := None\<rparr>"

definition restore_rows :: "user \<Rightarrow> uuid \<Rightarrow> int \<Rightarrow> db \<Rightarrow> (article \<times> db) result" where
  "restore_rows u i n s =
     and_then (readable_article s u i) (\<lambda>a.
     and_then (unless (\<not> can_edit_article u a) 403
                 ''Not authorized to restore this article version'') (\<lambda>_.
     (case get_version_by_number s i n u of
        None \<Rightarrow> raise 404 ''Version not found''
      | Some v \<Rightarrow>
     and_then (unless (av_version v = version a) 409 ''This version is already active'') (\<lambda>_.
     and_then (sync_tags (sn_tags (av_snapshot v)) (restored_row (av_snapshot v) a)) (\<lambda>a1.
     and_then (create_version
                 (version_row u a1 ((content_snapshot a1 (a_tags a1))\<lparr>sn_restored_from := Some n\<rparr>))
                 (s\<lparr>article_table := put_row article_id a1 (article_table s)\<rparr>)) (\<lambda>s1.
       Inr (a1, audit_article u ''restore_version'' i s1)))))))"

definition restore_version :: "user \<Rightarrow> uuid \<Rightarrow> int \<Rightarrow> db \<Rightarrow> article outcome" where
  "restore_version u i n s = transaction s (restore_rows u i n s)"

section \<open>Content and history\<close>

type_synonym content = "string \<times> string \<times> string \<times> string \<times> string \<times> string"

definition article_content :: "article \<Rightarrow> content" where
  "article_content a = (a_title a, body_md a, a_dept a, a_domain a, a_type a, language a)"

definition snapshot_content :: "snapshot \<Rightarrow> content" where
  "snapshot_content sn =
     (sn_title sn, sn_body_md sn, sn_dept sn, sn_domain sn, sn_type sn, sn_language sn)"

definition versions_of :: "db \<Rightarrow> uuid \<Rightarrow> article_version list" where
  "versions_of s i = filter (\<lambda>v. av_article v = i) (version_table s)"

text \<open>
  A handler touches articles without a new version, or writes one article together with the
  version row that describes it.
\<close>

definition describes :: "article_version \<Rightarrow> article \<Rightarrow> bool" where
  "describes v a =
     (av_article v = article_id a \<and> av_version v = version a
      \<and> snapshot_content (av_snapshot v) = article_content a
      \<and> (distinct (a_tags a) \<longrightarrow> distinct (sn_tags (av_snapshot v))))"

definition same_version :: "article \<Rightarrow> article \<Rightarrow> bool" where
  "same_version a b =
     (article_id b = article_id a \<and> version b = version a
      \<and> article_content b = article_content a \<and> (distinct (a_tags a) \<longrightarrow> distinct (a_tags b)))"

definition touched :: "db \<Rightarrow> db \<Rightarrow> bool" where
  "touched s s' =
     (list_all2 same_version (article_table s) (article_table s')
      \<and> version_table s' = version_table s \<and> fresh_id s \<le> fresh_id s')"

definition revised :: "db \<Rightarrow> db \<Rightarrow> bool" where
  "revised s s' =
     (\<exists>a old v. old \<in> set (article_table s) \<and> article_id a = article_id old
        \<and> version a = version old + 1 \<and> (distinct (a_tags old) \<longrightarrow> distinct (a_tags a))
        \<and> describes v a \<and> article_table s' = put_row article_id a (article_table s)
        \<and> version_table s' = version_table s @ [v] \<and> fresh_id s' = fresh_id s)"

definition added :: "db \<Rightarrow> db \<Rightarrow> bool" where
  "added s s' =
     (\<exists>a v. article_id a = fresh_id s \<and> version a = 1 \<and> distinct (a_tags a) \<and> describes v a
        \<and> article_table s' = article_table s @ [a] \<and> version_table s' = version_table s @ [v]
        \<and> fresh_id s' = Suc (fresh_id s))"

definition version_inv :: "db \<Rightarrow> bool" where
  "version_inv s =
     (unique_key article_id (article_table s)
      \<and> (\<forall>a \<in> set (article_table s). article_id a < fresh_id s)
      \<and> (\<forall>v \<in> set (version_table s). av_article v < fresh_id s \<and> distinct (sn_tags (av_snapshot v)))
      \<and> (\<forall>a \<in> set (article_table s).
           1 \<le> version a \<and> distinct (a_tags a)
           \<and> map av_version (versions_of s (article_id a)) = [1..version a]
           \<and> snapshot_content (av_snapshot (last (versions_of s (article_id a)))) = article_content a))"

lemma same_version_refl [simp]: "same_version a a"
  by (simp add: same_version_def)

lemma touched_frame:
  "article_table s' = article_table s \<Longrightarrow> version_table s' = version_table s \<Longrightarrow> fresh_id s \<le> fresh_id s'
     \<Longrightarrow> touched s s'"
  by (simp add: touched_def list.rel_refl)

lemma touched_inv:
  assumes inv: "version_inv s" and t: "touched s s'"
  shows "version_inv s'"
proof -
  have l: "list_all2 same_version (article_table s) (article_table s')"
    and v: "version_table s' = version_table s" and f: "fresh_id s \<le> fresh_id s'"
    using t by (simp_all add: touched_def)
  have "list_all2 (\<lambda>a b. article_id b = article_id a) (article_table s) (article_table s')"
    using l by (rule list_all2_mono) (simp add: same_version_def)
  then have ids: "map article_id (article_table s') = map article_id (article_table s)"
    by (simp add: list_all2_conv_all_nth list_eq_iff_nth_eq)
  have old: "\<exists>a \<in> set (article_table s). same_version a b" if "b \<in> set (article_table s')" for b
    using l that by (metis list_all2_conv_all_nth in_set_conv_nth nth_mem)
  have vs: "versions_of s' i = versions_of s i" for i by (simp add: versions_of_def v)
  show ?thesis
    unfolding version_inv_def vs
  proof (intro conjI ballI)
    show "unique_key article_id (article_table s')"
      using inv by (simp add: version_inv_def unique_key_def ids)
    fix b assume "b \<in> set (article_table s')"
    then obtain a where a: "a \<in> set (article_table s)" "same_version a b" using old by blast
    show "article_id b < fresh_id s'" "1 \<le> version b" "distinct (a_tags b)"
      "map av_version (versions_of s (article_id b)) = [1..version b]"
      "snapshot_content (av_snapshot (last (versions_of s (article_id b)))) = article_content b"
      using a inv f by (auto simp: version_inv_def same_version_def)
  next
    fix w assume "w \<in> set (version_table s')"
    then show "av_article w < fresh_id s'" "distinct (sn_tags (av_snapshot w))"
      using inv f v by (auto simp: version_inv_def)
  qed
qed

lemma revised_inv:
  assumes inv: "version_inv s" and r: "revised s s'"
  shows "version_inv s'"
proof -
  obtain a old v where old: "old \<in> set (article_table s)" "article_id a = article_id old"
    "version a = version old + 1" "distinct (a_tags old) \<Longrightarrow> distinct (a_tags a)"
    and d: "describes v a" and rows: "article_table s' = put_row article_id a (article_table s)"
      "version_table s' = version_table s @ [v]" "fresh_id s' = fresh_id s"
    using r unfolding revised_def by blast
  have uniq: "unique_key article_id (article_table s)" using inv by (simp add: version_inv_def)
  have facts: "article_id old < fresh_id s" "1 \<le> version old" "distinct (a_tags old)"
    "map av_version (versions_of s (article_id old)) = [1..version old]"
    using inv old(1) by (auto simp: version_inv_def)
  have vs: "versions_of s' i = versions_of s i @ (if i = article_id old then [v] else [])" for i
    using d old(2) by (simp add: versions_of_def rows(2) describes_def)
  have new: "map av_version (versions_of s' (article_id a)) = [1..version a]"
    using facts d old by (simp add: vs describes_def upto_rec2)
  have set': "set (article_table s') = insert a (set (article_table s) - {old})"
    unfolding rows(1)
    by (rule set_put_row) (use uniq old unique_key_get_row [OF uniq old(1)] in simp_all)
  have others: "b \<in> set (article_table s) \<and> article_id b \<noteq> article_id old"
    if "b \<in> set (article_table s')" "b \<noteq> a" for b
    using that uniq old(1) unfolding set' by (metis DiffE insertE singletonI unique_key_get_row option.inject)
  show ?thesis
    unfolding version_inv_def
  proof (intro conjI ballI)
    show "unique_key article_id (article_table s')" using uniq by (simp add: rows(1))
    fix b assume b: "b \<in> set (article_table s')"
    show "article_id b < fresh_id s'"
      using b facts old(2) inv unfolding set' rows(3) version_inv_def by auto
    show "1 \<le> version b" "distinct (a_tags b)"
      using b facts old inv unfolding set' version_inv_def by auto
    show "map av_version (versions_of s' (article_id b)) = [1..version b]"
    proof (cases "b = a")
      case False
      with others [OF b] inv show ?thesis by (simp add: vs version_inv_def)
    qed (use new in simp)
    show "snapshot_content (av_snapshot (last (versions_of s' (article_id b)))) = article_content b"
    proof (cases "b = a")
      case True
      then show ?thesis using d old(2) by (simp add: vs describes_def)
    next
      case False
      with others [OF b] inv show ?thesis by (simp add: vs version_inv_def)
    qed
  next
    fix w assume "w \<in> set (version_table s')"
    then show "av_article w < fresh_id s'" "distinct (sn_tags (av_snapshot w))"
      using inv d facts old by (auto simp: rows version_inv_def describes_def)
  qed
qed

lemma added_inv:
  assumes inv: "version_inv s" and r: "added s s'"
  shows "version_inv s'"
proof -
  obtain a v where a: "article_id a = fresh_id s" "version a = 1" "distinct (a_tags a)" "describes v a"
    and rows: "article_table s' = article_table s @ [a]" "version_table s' = version_table s @ [v]"
      "fresh_id s' = Suc (fresh_id s)"
    using r unfolding added_def by blast
  have v: "av_article v = fresh_id s" using a by (simp add: describes_def)
  have none: "versions_of s (fresh_id s) = []"
    using inv by (auto simp: version_inv_def versions_of_def filter_empty_conv)
  have vs: "versions_of s' i = versions_of s i @ (if i = fresh_id s then [v] else [])" for i
    using v by (simp add: versions_of_def rows(2))
  have old: "article_id b < fresh_id s" if "b \<in> set (article_table s)" for b
    using inv that by (simp add: version_inv_def)
  show ?thesis
    unfolding version_inv_def
  proof (intro conjI ballI)
    show "unique_key article_id (article_table s')"
      using inv old a(1) by (force simp: version_inv_def unique_key_def rows(1))
    fix b assume b: "b \<in> set (article_table s')"
    show "article_id b < fresh_id s'" using b old a(1) by (force simp: rows)
    show "1 \<le> version b" "distinct (a_tags b)"
      using b a inv by (auto simp: rows version_inv_def)
    show "map av_version (versions_of s' (article_id b)) = [1..version b]"
      "snapshot_content (av_snapshot (last (versions_of s' (article_id b)))) = article_content b"
      using b a inv none old [of b] by (auto simp: rows(1) vs version_inv_def describes_def)
  next
    fix w assume "w \<in> set (version_table s')"
    then show "av_article w < fresh_id s'" "distinct (sn_tags (av_snapshot w))"
      using inv a v by (auto simp: rows version_inv_def describes_def)
  qed
qed

locale article_operation =
  fixes run :: "db \<Rightarrow> 'a outcome"
  assumes error_keeps: "run s = (Inl e, s') \<Longrightarrow> s' = s"
    and effect: "run s = (Inr x, s') \<Longrightarrow> unique_key article_id (article_table s) \<Longrightarrow> touched s s' \<or> revised s s' \<or> added s s'"
begin

lemma keeps_history: "run s = (r, s') \<Longrightarrow> version_inv s \<Longrightarrow> version_inv s'"
proof -
  assume run: "run s = (r, s')" and inv: "version_inv s"
  have uniq: "unique_key article_id (article_table s)" using inv by (simp add: version_inv_def)
  show "version_inv s'"
  proof (cases r)
    case (Inl e)
    with error_keeps run inv show ?thesis by blast
  next
    case (Inr x)
    with effect run uniq touched_inv [OF inv] revised_inv [OF inv] added_inv [OF inv] show ?thesis
      by blast
  qed
qed

end

section \<open>The handlers keep the history\<close>

lemma audit_article_keeps [simp]:
  "article_table (audit_article u x i s) = article_table s"
  "version_table (audit_article u x i s) = version_table s"
  "fresh_id (audit_article u x i s) = fresh_id s"
  by (simp_all add: audit_article_def log_audit_def log_audit_row_def)

lemma readable_article_Inr:
  "readable_article s u i = Inr a \<Longrightarrow> a \<in> set (article_table s) \<and> article_id a = i \<and> a_status a \<noteq> Deleted
     \<and> authorized_article_filters (department_table s) u a"
  by (auto simp: readable_article_def get_article_by_id_def find_Some_iff
      split: option.splits if_splits)

lemma sync_tags_Inr: "sync_tags tags a = Inr b \<longleftrightarrow> distinct tags \<and> b = a\<lparr>a_tags := tags\<rparr>"
  by (auto simp: sync_tags_def)

lemma create_version_Inr:
  "create_version v s = Inr s' \<Longrightarrow> s' = s\<lparr>version_table := version_table s @ [v]\<rparr>"
  by (auto simp: create_version_def split: if_splits)

lemma content_snapshot_simps [simp]:
  "snapshot_content (content_snapshot a tags) = article_content a"
  "sn_tags (content_snapshot a tags) = tags"
  by (simp_all add: content_snapshot_def snapshot_content_def article_content_def)

lemma snapshot_content_marks [simp]:
  "snapshot_content (sn\<lparr>sn_original_body_md := x\<rparr>) = snapshot_content sn"
  "snapshot_content (sn\<lparr>sn_restored_from := y\<rparr>) = snapshot_content sn"
  "sn_tags (sn\<lparr>sn_original_body_md := x\<rparr>) = sn_tags sn" "sn_tags (sn\<lparr>sn_restored_from := y\<rparr>) = sn_tags sn"
  by (simp_all add: snapshot_content_def)

lemma create_article_Inr:
  assumes "create_article now u rq s = (Inr a, s')"
  obtains primary audiences where
    "resolve_active_department (department_table s) (u_company u) (Some (cr_dept rq)) True = Inr (Some primary)"
    "ensure_can_create u (dept_name primary) = Inr ()"
    "create_audience s u primary (cr_audience rq) = Inr audiences"
    "cr_sensitivity rq \<in> SENSITIVITIES" "distinct (cr_tags rq)"
    "a = (article_row now u rq (dept_name primary) audiences (fresh_id s))\<lparr>a_tags := cr_tags rq\<rparr>"
    "article_table s' = article_table s @ [a]" "fresh_id s' = Suc (fresh_id s)"
    "version_table s' = version_table s @ [\<lparr>av_article = article_id a, av_version = 1,
       av_snapshot = (content_snapshot a (cr_tags rq))
         \<lparr>sn_original_body_md := Some (or_else (cr_original_body rq) (body_md a))\<rparr>,
       av_edited_by = Some (user_id u)\<rparr>]"
proof -
  have "create_rows now u rq s = Inr (a, s')"
    using assms by (simp add: create_article_def transaction_Inr)
  then obtain primary audiences s1 where
    "resolve_active_department (department_table s) (u_company u) (Some (cr_dept rq)) True = Inr (Some primary)"
    "ensure_can_create u (dept_name primary) = Inr ()"
    "create_audience s u primary (cr_audience rq) = Inr audiences"
    "cr_sensitivity rq \<in> SENSITIVITIES"
    "sync_tags (cr_tags rq) (article_row now u rq (dept_name primary) audiences (fresh_id s)) = Inr a"
    and v: "create_version \<lparr>av_article = article_id a, av_version = 1,
       av_snapshot = (content_snapshot a (cr_tags rq))
         \<lparr>sn_original_body_md := Some (or_else (cr_original_body rq) (body_md a))\<rparr>,
       av_edited_by = Some (user_id u)\<rparr>
       (s\<lparr>article_table := article_table s @ [a], fresh_id := Suc (fresh_id s)\<rparr>) = Inr s1"
    and s': "s' = (let s2 = audit_article u ''create'' (article_id a) s1
       in if a_status a = Published then audit_article u ''publish'' (article_id a) s2 else s2)"
    unfolding create_rows_def by (auto simp: guard_simps split: option.splits)
  then show thesis
    using create_version_Inr [OF v] by (intro that [of primary audiences]) (auto simp: sync_tags_Inr Let_def)
qed

lemma update_article_Inr:
  assumes "update_article u i rq s = (Inr a2, s')"
  obtains a audiences tags where "readable_article s u i = Inr a" "can_edit_article u a"
    "given (up_dept rq) (a_dept a) \<noteq> a_dept a \<Longrightarrow> may_move u a (given (up_dept rq) (a_dept a))"
    "proposed_audience s a (up_audience rq) = Inr audiences"
    "a2 = (updated_row rq audiences a)\<lparr>a_tags := tags\<rparr>" "tags = a_tags a \<or> distinct tags"
    "article_table s' = put_row article_id a2 (article_table s)" "fresh_id s' = fresh_id s"
    "version_table s' = version_table s @
       (if content_changed rq a then [version_row u a2 (content_snapshot a2 (a_tags a2))] else [])"
proof -
  have "update_rows u i rq s = Inr (a2, s')"
    using assms by (simp add: update_article_def transaction_Inr)
  then obtain a audiences s2 where a: "readable_article s u i = Inr a" "can_edit_article u a"
    "given (up_dept rq) (a_dept a) \<noteq> a_dept a \<longrightarrow> may_move u a (given (up_dept rq) (a_dept a))"
    "proposed_audience s a (up_audience rq) = Inr audiences"
    and tags: "(case up_tags rq of None \<Rightarrow> Inr (updated_row rq audiences a)
       | Some tags \<Rightarrow> sync_tags tags (updated_row rq audiences a)) = Inr a2"
    and v: "(let s1 = s\<lparr>article_table := put_row article_id a2 (article_table s)\<rparr> in
       if content_changed rq a
       then create_version (version_row u a2 (content_snapshot a2 (a_tags a2))) s1 else Inr s1) = Inr s2"
    and s': "s' = (let s3 = (if permissions_changed rq audiences a
                       then audit_article u ''permission_change'' i s2 else s2)
                in if content_changed rq a then audit_article u ''update'' i s3 else s3)"
    unfolding update_rows_def guard_simps prod.inject sum.inject by blast
  have rows: "article_table s' = put_row article_id a2 (article_table s)" "fresh_id s' = fresh_id s"
      "version_table s' = version_table s @
         (if content_changed rq a then [version_row u a2 (content_snapshot a2 (a_tags a2))] else [])"
    using v s' by (auto simp: Let_def dest!: create_version_Inr split: if_splits)
  have "\<exists>tags. a2 = (updated_row rq audiences a)\<lparr>a_tags := tags\<rparr> \<and> (tags = a_tags a \<or> distinct tags)"
  proof (cases "up_tags rq")
    case None
    moreover have "updated_row rq audiences a = (updated_row rq audiences a)\<lparr>a_tags := a_tags a\<rparr>"
      by (simp add: updated_row_def)
    ultimately show ?thesis using tags by auto
  next
    case (Some ts)
    with tags show ?thesis by (auto simp: sync_tags_Inr)
  qed
  with that a rows show thesis by blast
qed

lemma updated_content:
  "\<not> content_changed rq a \<Longrightarrow> article_content (updated_row rq audiences a) = article_content a"
  by (auto simp: content_changed_def updated_row_def article_content_def)

lemma updated_row_simps [simp]:
  "article_id (updated_row rq audiences a) = article_id a"
  "version (updated_row rq audiences a) = version a + (if content_changed rq a then 1 else 0)"
  "article_content (x\<lparr>a_tags := tags\<rparr>) = article_content x"
  by (simp_all add: updated_row_def article_content_def)

lemma put_row_list_all2:
  assumes "unique_key article_id rows" "a \<in> set rows" "same_version a b"
  shows "list_all2 same_version rows (put_row article_id b rows)"
proof -
  have "article_id b = article_id a" using assms(3) by (simp add: same_version_def)
  then have "x \<in> set rows \<Longrightarrow> article_id x = article_id b \<Longrightarrow> x = a" for x
    using unique_key_get_row [OF assms(1)] assms(2) by (metis option.inject)
  then show ?thesis
    using assms(3) unfolding put_row_def list_all2_map2 by (auto intro!: list.rel_refl_strong)
qed

interpretation creation: article_operation "create_article now u rq"
proof
  fix s e s'
  show "create_article now u rq s = (Inl e, s') \<Longrightarrow> s' = s" unfolding create_article_def by (rule transaction_Inl)
next
  fix s a s'
  assume "create_article now u rq s = (Inr a, s')"
  then show "touched s s' \<or> revised s s' \<or> added s s'"
  proof (rule create_article_Inr)
    fix primary audiences
    assume tags: "distinct (cr_tags rq)"
      and a: "a = (article_row now u rq (dept_name primary) audiences (fresh_id s))\<lparr>a_tags := cr_tags rq\<rparr>"
      and rows: "article_table s' = article_table s @ [a]" "fresh_id s' = Suc (fresh_id s)"
      and v: "version_table s' = version_table s @ [\<lparr>av_article = article_id a, av_version = 1,
         av_snapshot = (content_snapshot a (cr_tags rq))
           \<lparr>sn_original_body_md := Some (or_else (cr_original_body rq) (body_md a))\<rparr>,
         av_edited_by = Some (user_id u)\<rparr>]"
    have "article_id a = fresh_id s" "version a = 1" "a_tags a = cr_tags rq"
      by (simp_all add: a article_row_def Let_def)
    then have "added s s'"
      using tags rows v by (auto simp: added_def describes_def)
    then show ?thesis by blast
  qed
qed

interpretation updating: article_operation "update_article u i rq"
proof
  fix s e s'
  show "update_article u i rq s = (Inl e, s') \<Longrightarrow> s' = s" unfolding update_article_def by (rule transaction_Inl)
next
  fix s a2 s'
  assume "update_article u i rq s = (Inr a2, s')" and uniq: "unique_key article_id (article_table s)"
  from this(1) show "touched s s' \<or> revised s s' \<or> added s s'"
  proof (rule update_article_Inr)
    fix a audiences tags
    assume a: "readable_article s u i = Inr a"
      and a2: "a2 = (updated_row rq audiences a)\<lparr>a_tags := tags\<rparr>" "tags = a_tags a \<or> distinct tags"
      and rows: "article_table s' = put_row article_id a2 (article_table s)" "fresh_id s' = fresh_id s"
        "version_table s' = version_table s @
           (if content_changed rq a then [version_row u a2 (content_snapshot a2 (a_tags a2))] else [])"
    note in_s = readable_article_Inr [OF a]
    show ?thesis
    proof (cases "content_changed rq a")
      case True
      have "describes (version_row u a2 (content_snapshot a2 (a_tags a2))) a2"
        by (simp add: describes_def version_row_def)
      then have "revised s s'"
        using True in_s a2 rows unfolding revised_def
        by (intro exI [of _ a2] exI [of _ a] exI [of _ "version_row u a2 (content_snapshot a2 (a_tags a2))"]) auto
      then show ?thesis by blast
    next
      case False
      have "same_version a a2"
        using a2 updated_content [OF False] False by (auto simp: same_version_def)
      then have "touched s s'"
        using False in_s rows put_row_list_all2 [OF uniq, of a a2] by (simp add: touched_def)
      then show ?thesis by blast
    qed
  qed
qed

lemma restore_version_Inr:
  assumes "restore_version u i n s = (Inr a1, s')"
  obtains a v where "readable_article s u i = Inr a" "can_edit_article u a"
    "get_version_by_number s i n u = Some v" "av_version v \<noteq> version a"
    "distinct (sn_tags (av_snapshot v))"
    "a1 = (restored_row (av_snapshot v) a)\<lparr>a_tags := sn_tags (av_snapshot v)\<rparr>"
    "article_table s' = put_row article_id a1 (article_table s)" "fresh_id s' = fresh_id s"
    "version_table s' = version_table s @
       [version_row u a1 ((content_snapshot a1 (a_tags a1))\<lparr>sn_restored_from := Some n\<rparr>)]"
proof -
  have "restore_rows u i n s = Inr (a1, s')"
    using assms by (simp add: restore_version_def transaction_Inr)
  then obtain a v s1 where "readable_article s u i = Inr a" "can_edit_article u a"
    "get_version_by_number s i n u = Some v" "av_version v \<noteq> version a"
    "sync_tags (sn_tags (av_snapshot v)) (restored_row (av_snapshot v) a) = Inr a1"
    and v: "create_version
       (version_row u a1 ((content_snapshot a1 (a_tags a1))\<lparr>sn_restored_from := Some n\<rparr>))
       (s\<lparr>article_table := put_row article_id a1 (article_table s)\<rparr>) = Inr s1"
    and "s' = audit_article u ''restore_version'' i s1"
    unfolding restore_rows_def by (auto simp: guard_simps split: option.splits)
  then show thesis
    using create_version_Inr [OF v] by (intro that [of a v]) (auto simp: sync_tags_Inr)
qed

lemma restored_row_simps [simp]:
  "article_id (restored_row sn a) = article_id a" "version (restored_row sn a) = version a + 1"
  "article_content (restored_row sn a) = snapshot_content sn"
  by (simp_all add: restored_row_def article_content_def snapshot_content_def)

interpretation restoring: article_operation "restore_version u i n"
proof
  fix s e s'
  show "restore_version u i n s = (Inl e, s') \<Longrightarrow> s' = s"
    unfolding restore_version_def by (rule transaction_Inl)
next
  fix s a1 s'
  assume "restore_version u i n s = (Inr a1, s')"
  then show "touched s s' \<or> revised s s' \<or> added s s'"
  proof (rule restore_version_Inr)
    fix a v
    assume a: "readable_article s u i = Inr a" and tags: "distinct (sn_tags (av_snapshot v))"
      and a1: "a1 = (restored_row (av_snapshot v) a)\<lparr>a_tags := sn_tags (av_snapshot v)\<rparr>"
      and rows: "article_table s' = put_row article_id a1 (article_table s)" "fresh_id s' = fresh_id s"
        "version_table s' = version_table s @
           [version_row u a1 ((content_snapshot a1 (a_tags a1))\<lparr>sn_restored_from := Some n\<rparr>)]"
    have "describes (version_row u a1 ((content_snapshot a1 (a_tags a1))\<lparr>sn_restored_from := Some n\<rparr>)) a1"
      by (simp add: describes_def version_row_def)
    moreover have "article_id a1 = article_id a" "version a1 = version a + 1" "distinct (a_tags a1)"
      using tags by (simp_all add: a1)
    ultimately have "revised s s'"
      using readable_article_Inr [OF a] rows unfolding revised_def by blast
    then show ?thesis by blast
  qed
qed

lemma soft_delete_article_Inr:
  assumes "soft_delete_article today u i s = (Inr x, s')"
  obtains a where "readable_article s u i = Inr a" "can_delete_article u a" "\<not> legal_hold a"
    "\<And>t. retention_until a = Some t \<Longrightarrow> t < today"
    "article_table s' = map (\<lambda>a. if article_id a = i \<and> authorized_article_filters (department_table s) u a
       then a\<lparr>a_status := Deleted\<rparr> else a) (article_table s)"
    "version_table s' = version_table s" "fresh_id s' = fresh_id s"
proof -
  obtain a where a: "readable_article s u i = Inr a"
    using assms unfolding soft_delete_article_def by (auto split: sum.splits)
  then obtain s1 where s1: "soft_delete s i u = Some s1"
    by (auto simp: soft_delete_def readable_article_def split: option.splits)
  have guards: "can_delete_article u a" "\<not> legal_hold a"
    "\<not> (case retention_until a of None \<Rightarrow> False | Some t \<Rightarrow> today \<le> t)" "s' = audit_article u ''delete'' i s1"
    using assms unfolding soft_delete_article_def a s1 by (auto split: if_splits)
  show thesis
    using guards s1 by (intro that [OF a])
      (auto simp: soft_delete_def split: if_splits option.splits)
qed

lemma same_version_deleted [simp]: "same_version a (a\<lparr>a_status := x\<rparr>)"
  by (simp add: same_version_def article_content_def)

interpretation deleting: article_operation "soft_delete_article today u i"
proof
  fix s e s'
  show "soft_delete_article today u i s = (Inl e, s') \<Longrightarrow> s' = s"
    unfolding soft_delete_article_def
    by (auto split: sum.splits if_splits option.splits)
next
  fix s x s'
  assume "soft_delete_article today u i s = (Inr x, s')"
  then show "touched s s' \<or> revised s s' \<or> added s s'"
  proof (rule soft_delete_article_Inr)
    assume "article_table s' = map (\<lambda>a. if article_id a = i
        \<and> authorized_article_filters (department_table s) u a
       then a\<lparr>a_status := Deleted\<rparr> else a) (article_table s)"
      "version_table s' = version_table s" "fresh_id s' = fresh_id s"
    then have "touched s s'" by (auto simp: touched_def list_all2_map2 intro!: list.rel_refl_strong)
    then show ?thesis by blast
  qed
qed

section \<open>Publishing a draft\<close>

text \<open>The steps after a publication write no version and at most metadata of an article.\<close>

definition article_background_ok :: "background_step list \<Rightarrow> bool" where
  "article_background_ok steps = (\<forall>f \<in> set steps. \<forall>u a t t'. f u a t = Some t' \<longrightarrow> touched t t')"

lemma same_version_trans: "same_version a b \<Longrightarrow> same_version b c \<Longrightarrow> same_version a c"
  by (auto simp: same_version_def)

lemma touched_trans: "touched s t \<Longrightarrow> touched t r \<Longrightarrow> touched s r"
  using list_all2_trans [of same_version same_version same_version] same_version_trans
  unfolding touched_def by fastforce

lemma run_background_touched:
  "article_background_ok steps \<Longrightarrow> set fs \<subseteq> set steps \<Longrightarrow> touched t (run_background fs u a t)"
proof (induction fs arbitrary: t)
  case Nil
  then show ?case by (simp add: run_background_def touched_frame)
next
  case (Cons f fs)
  have step: "run_background (f # fs) u a t
      = run_background fs u a (case f u a t of None \<Rightarrow> t | Some t' \<Rightarrow> t')"
    by (simp add: run_background_def)
  have "touched t (case f u a t of None \<Rightarrow> t | Some t' \<Rightarrow> t')"
    using Cons.prems by (auto simp: article_background_ok_def touched_frame split: option.splits)
  then show ?case unfolding step using Cons touched_trans by auto
qed

lemma written_tags:
  assumes "write_article now u d dept au ext_id' review target s = (a, s1)"
    and "\<And>t. target = Some t \<Longrightarrow> distinct (a_tags t)"
  shows "distinct (a_tags a)"
proof -
  have "a_tags a = approved_tags d target"
    using assms(1)
    by (auto simp: write_article_def attach_source_def revise_article_def new_article_def Let_def
        split: option.splits if_splits)
  then show ?thesis
    using assms(2) by (auto simp: approved_tags_def split: option.splits)
qed

lemma publish_draft_versioned:
  assumes "publish_draft now u rq d s = Inr (a, s')"
  shows "revised s s' \<or> added s s'"
proof (rule publish_draft_Inr [OF assms])
  fix sb ext dept selected sb1 au target review s1
  assume tgt: "find_update_target s u (ap_update_article rq) = Inr target"
    and w: "write_article now u d dept au (requested_external_id d target) review target s = (a, s1)"
    and p: "publish_rows now u rq d au target a s1 = Inr s'"
  note wf = write_article_facts [OF w] and pf = publish_rows_Inr [OF p]
  let ?v = "\<lparr>av_article = article_id a, av_version = next_version target,
         av_snapshot = snapshot_of a au, av_edited_by = Some (user_id u)\<rparr>"
  have "version a = next_version target" using wf(1) by (simp add: written_def)
  then have d: "describes ?v a"
    by (simp add: describes_def snapshot_of_def snapshot_content_def article_content_def)
  show ?thesis
  proof (cases target)
    case None
    then have "added s s'"
      using wf(2,8) pf(1,4,10) d \<open>version a = _\<close> written_tags [OF w]
      by (auto simp: added_def next_version_def intro!: exI [of _ a] exI [of _ ?v])
    then show ?thesis ..
  next
    case (Some t)
    note t = find_update_target_Inr [OF tgt [unfolded Some]]
    have "article_id a = article_id t" "version a = version t + 1"
      "article_table s' = put_row article_id a (article_table s)" "fresh_id s' = fresh_id s"
      "version_table s' = version_table s @ [?v]" "distinct (a_tags t) \<longrightarrow> distinct (a_tags a)"
      using wf(2,8) pf(1,4,10) \<open>version a = _\<close> written_tags [OF w] Some
      by (auto simp: next_version_def)
    then have "revised s s'" unfolding revised_def using t(1) d by blast
    then show ?thesis ..
  qed
qed

interpretation approving: article_operation "approve_draft [] now u i rq"
proof
  fix s e s'
  show "approve_draft [] now u i rq s = (Inl e, s') \<Longrightarrow> s' = s" by (rule approve_draft_Inl)
next
  fix s a s'
  assume "approve_draft [] now u i rq s = (Inr a, s')"
  then show "touched s s' \<or> revised s s' \<or> added s s'"
    by (rule approve_draft_Inr) (auto simp: run_background_def dest: publish_draft_versioned)
qed

lemma approve_with_background:
  assumes "approve_draft steps now u i rq s = (r, s')"
  shows "\<exists>s0. approve_draft [] now u i rq s = (r, s0)
    \<and> (s' = s0 \<or> (\<exists>a. s' = run_background steps u a s0))"
  using assms
  by (auto simp: approve_draft_def run_background_def split: option.splits sum.splits prod.splits)

section \<open>Steps\<close>

inductive article_step :: "db \<Rightarrow> db \<Rightarrow> bool" where
  created: "create_article now u rq s = (r, s') \<Longrightarrow> article_step s s'"
| updated: "update_article u i urq s = (r, s') \<Longrightarrow> article_step s s'"
| deleted: "soft_delete_article today u i s = (d, s') \<Longrightarrow> article_step s s'"
| restored: "restore_version u i n s = (r, s') \<Longrightarrow> article_step s s'"
| published: "approve_draft steps now u i arq s = (r, s') \<Longrightarrow> article_background_ok steps
    \<Longrightarrow> article_step s s'"
| elsewhere: "article_table s' = article_table s \<Longrightarrow> version_table s' = version_table s
    \<Longrightarrow> fresh_id s \<le> fresh_id s' \<Longrightarrow> article_step s s'"

inductive article_reachable :: "db \<Rightarrow> bool" where
  start: "article_table s = [] \<Longrightarrow> version_table s = [] \<Longrightarrow> article_reachable s"
| step: "article_reachable s \<Longrightarrow> article_step s s' \<Longrightarrow> article_reachable s'"

lemma article_step_inv: "article_step s s' \<Longrightarrow> version_inv s \<Longrightarrow> version_inv s'"
proof (induction rule: article_step.induct)
  case (published steps now u i arq s r s')
  from approve_with_background [OF published(1)] obtain s0 where
    s0: "approve_draft [] now u i arq s = (r, s0)" "s' = s0 \<or> (\<exists>a. s' = run_background steps u a s0)"
    by blast
  have "version_inv s0" using approving.keeps_history [OF s0(1) published(3)] .
  with s0(2) run_background_touched [OF published(2) order_refl] touched_inv show ?case by blast
next
  case (elsewhere s' s)
  then show ?case using touched_inv touched_frame by blast
qed (blast intro: creation.keeps_history updating.keeps_history restoring.keeps_history
       deleting.keeps_history)+

lemma article_reachable_inv: "article_reachable s \<Longrightarrow> version_inv s"
proof (induction rule: article_reachable.induct)
  case (start s)
  then show ?case by (simp add: version_inv_def unique_key_def)
next
  case (step s s')
  then show ?case using article_step_inv by blast
qed

section \<open>Restoring always works\<close>

lemma find_version:
  assumes "map av_version (versions_of s i) = [1..k]" "1 \<le> n" "n \<le> k"
  obtains v where "find (\<lambda>v. av_article v = i \<and> av_version v = n) (version_table s) = Some v"
    "v \<in> set (versions_of s i)" "av_version v = n"
proof -
  have "n \<in> set (map av_version (versions_of s i))" unfolding assms(1) using assms(2,3) by simp
  then obtain w where "w \<in> set (version_table s)" "av_article w = i \<and> av_version w = n"
    by (auto simp: versions_of_def)
  then have "find (\<lambda>v. av_article v = i \<and> av_version v = n) (version_table s) \<noteq> None"
    by (metis (mono_tags, lifting) find_None_iff)
  then obtain v where v: "find (\<lambda>v. av_article v = i \<and> av_version v = n) (version_table s) = Some v"
    by blast
  then have "v \<in> set (version_table s) \<and> av_article v = i \<and> av_version v = n"
    by (metis (mono_tags, lifting) find_Some_iff nth_mem)
  with v show thesis by (intro that [of v]) (auto simp: versions_of_def)
qed

lemma version_unique:
  assumes "map av_version vs = [1..k]" "v \<in> set vs" "w \<in> set vs" "av_version v = av_version w"
  shows "v = w"
proof -
  have "distinct (map av_version vs)" by (simp add: assms(1))
  then show ?thesis using assms(2-4) by (auto simp: distinct_map inj_on_def)
qed

lemma restore_version_ok:
  assumes inv: "version_inv s" and a: "readable_article s u i = Inr a" "can_edit_article u a"
    and n: "1 \<le> n" "n < version a"
  obtains v a1 s' where "v \<in> set (versions_of s i)" "av_version v = n"
    "restore_version u i n s = (Inr a1, s')" "article_content a1 = snapshot_content (av_snapshot v)"
    "version a1 = version a + 1" "a_tags a1 = sn_tags (av_snapshot v)"
    "\<exists>w. versions_of s' i = versions_of s i @ [w] \<and> snapshot_content (av_snapshot w) = article_content a1
       \<and> sn_restored_from (av_snapshot w) = Some n"
proof -
  note in_s = readable_article_Inr [OF a(1)]
  have vs: "map av_version (versions_of s i) = [1..version a]"
    using inv in_s by (auto simp: version_inv_def)
  have "n \<le> version a" using n(2) by simp
  with vs n(1) obtain v where
    v: "find (\<lambda>v. av_article v = i \<and> av_version v = n) (version_table s) = Some v"
      "v \<in> set (versions_of s i)" "av_version v = n"
    by (rule find_version)
  have get: "get_version_by_number s i n u = Some v"
    using v(1) a(1) by (auto simp: get_version_by_number_def readable_article_def split: option.splits)
  let ?a1 = "(restored_row (av_snapshot v) a)\<lparr>a_tags := sn_tags (av_snapshot v)\<rparr>"
  let ?w = "version_row u ?a1 ((content_snapshot ?a1 (a_tags ?a1))\<lparr>sn_restored_from := Some n\<rparr>)"
  have tags: "sync_tags (sn_tags (av_snapshot v)) (restored_row (av_snapshot v) a) = Inr ?a1"
    using inv v(2) by (auto simp: sync_tags_def version_inv_def versions_of_def)
  have free: "\<not> list_ex (\<lambda>w. av_article w = av_article ?w \<and> av_version w = av_version ?w)
      (version_table (s\<lparr>article_table := x\<rparr>))" for x
  proof -
    have "w \<in> set (versions_of s i) \<Longrightarrow> av_version w \<le> version a" for w
      using arg_cong [OF vs, of set] by auto
    then show ?thesis using in_s by (fastforce simp: list_ex_iff version_row_def versions_of_def)
  qed
  have run: "restore_version u i n s = (Inr ?a1, audit_article u ''restore_version'' i
      (s\<lparr>article_table := put_row article_id ?a1 (article_table s), version_table := version_table s @ [?w]\<rparr>))"
    unfolding restore_version_def restore_rows_def a(1) and_then_simps get option.case tags
      create_version_def if_not_P [OF free]
    using a(2) v(3) n(2) by (simp add: unless_def transaction_def)
  show thesis
  proof (rule that [OF v(2,3) run])
    show "\<exists>w. versions_of (audit_article u ''restore_version'' i
       (s\<lparr>article_table := put_row article_id ?a1 (article_table s), version_table := version_table s @ [?w]\<rparr>)) i
       = versions_of s i @ [w] \<and> snapshot_content (av_snapshot w) = article_content ?a1
       \<and> sn_restored_from (av_snapshot w) = Some n"
      using in_s by (intro exI [of _ ?w]) (simp add: versions_of_def version_row_def)
  qed simp_all
qed

section \<open>Properties\<close>


definition plain_article :: create_request where
  "plain_article = \<lparr>cr_title = ''Leave'', cr_body = ''ten days'', cr_dept = '' hr '',
     cr_domain = ''People'', cr_type = ''SOP'', cr_sensitivity = ''internal'', cr_tags = [''hr''],
     cr_language = ''vi'', cr_audience = None, cr_next_review = None, cr_external_id = None,
     cr_original_body = None, cr_publish_without_review = False\<rparr>"

definition no_update :: update_request where
  "no_update = \<lparr>up_title = None, up_body = None, up_dept = None, up_domain = None, up_type = None,
     up_sensitivity = None, up_language = None, up_status = None, up_tags = None,
     up_audience = None, up_next_review = None\<rparr>"

definition company_db :: db where
  "company_db = empty_db\<lparr>department_table := [blank_department, blank_department\<lparr>dept_id := 2, dept_name := ''IT''\<rparr>],
     user_table := [hr_ceo, blank_user]\<rparr>"

definition one_article :: db where
  "one_article = snd (create_article 1 hr_ceo plain_article company_db)"

definition edited_article :: db where
  "edited_article = snd (update_article hr_ceo 100 (no_update\<lparr>up_body := Some ''twelve days''\<rparr>) one_article)"

lemma one_article_reachable: "article_reachable one_article"
  by (rule article_reachable.step [OF article_reachable.start article_step.created])
     (auto simp: one_article_def company_db_def empty_db_def prod_eq_iff)

lemma edited_reachable: "article_reachable edited_article"
  by (rule article_reachable.step [OF one_article_reachable article_step.updated])
     (auto simp: edited_article_def prod_eq_iff)




text \<open>
  C24: what deletion respects. An article is only deleted by someone who may read and delete it,
  never under legal hold and never before its retention date has passed. Afterwards nobody can
  read it, its versions are all still there, and no other article has changed.
\<close>

theorem soft_delete_article_correct:
  assumes "soft_delete_article today u i s = (Inr x, s')" "unique_key article_id (article_table s)"
  shows "(\<exists>a. get_row article_id i (article_table s) = Some a \<and> can_delete_article u a
        \<and> \<not> legal_hold a \<and> (\<forall>t. retention_until a = Some t \<longrightarrow> t < today)
        \<and> get_row article_id i (article_table s') = Some (a\<lparr>a_status := Deleted\<rparr>))
    \<and> (\<forall>w. get_article s' w i = raise 404 ''Article not found'')
    \<and> version_table s' = version_table s
    \<and> (\<forall>j. j \<noteq> i \<longrightarrow> get_row article_id j (article_table s') = get_row article_id j (article_table s))"
proof (rule soft_delete_article_Inr [OF assms(1)])
  fix a
  assume a: "readable_article s u i = Inr a" "can_delete_article u a" "\<not> legal_hold a"
    "\<And>t. retention_until a = Some t \<Longrightarrow> t < today"
    and rows: "article_table s' = map (\<lambda>a. if article_id a = i \<and> authorized_article_filters (department_table s) u a
       then a\<lparr>a_status := Deleted\<rparr> else a) (article_table s)" "version_table s' = version_table s"
  note in_s = readable_article_Inr [OF a(1)]
  have get: "get_row article_id i (article_table s) = Some a"
    using unique_key_get_row [OF assms(2)] in_s by blast
  have mapped: "get_row article_id j (article_table s') = map_option (\<lambda>a. if article_id a = i
      \<and> authorized_article_filters (department_table s) u a
       then a\<lparr>a_status := Deleted\<rparr> else a) (get_row article_id j (article_table s))" for j
    unfolding rows(1) by (rule get_row_map) simp
  have del: "get_row article_id i (article_table s') = Some (a\<lparr>a_status := Deleted\<rparr>)"
    using mapped [of i] get in_s by simp
  have only: "b = a" if "b \<in> set (article_table s)" "article_id b = i" for b
    using unique_key_get_row [OF assms(2) that(1)] that(2) get by simp
  have "\<forall>b \<in> set (article_table s'). article_id b = i \<longrightarrow> a_status b = Deleted"
    using in_s only unfolding rows(1) by auto
  then have "readable_article s' w i = raise 404 ''Article not found''" for w
    by (auto simp: readable_article_def get_article_by_id_def find_Some_iff split: option.splits)
  moreover have "get_row article_id j (article_table s') = get_row article_id j (article_table s)" if "j \<noteq> i" for j
    using mapped [of j] that by (cases "get_row article_id j (article_table s)") (auto dest: get_row_SomeD)
  ultimately show ?thesis using a get del rows(2) by (simp add: get_article_def)
qed

theorem soft_delete_article_correct_witness:
  "get_article (snd (soft_delete_article 0 hr_ceo 100 one_article)) hr_ceo 100 = raise 404 ''Article not found''"
proof -
  have "(case fst (soft_delete_article 0 hr_ceo 100 one_article) of Inr _ \<Rightarrow> True | _ \<Rightarrow> False)"
    by code_simp
  then have run: "soft_delete_article 0 hr_ceo 100 one_article
      = (Inr (), snd (soft_delete_article 0 hr_ceo 100 one_article))"
    by (auto simp: prod_eq_iff split: sum.splits)
  have "unique_key article_id (article_table one_article)"
    using article_reachable_inv [OF one_article_reachable] by (simp add: version_inv_def)
  from soft_delete_article_correct [OF run this] show ?thesis by blast
qed

text \<open>
  What creation guarantees. A new article belongs to the creator's company and to an active
  department of it, which comes first in its audience; every audience department is of that
  company; the creator may create there; and it is published at once exactly when the creator
  may publish there or the caller asked to skip the review.
\<close>

theorem create_article_correct:
  assumes "create_article now u rq s = (Inr a, s')"
  shows "a_company a = u_company u \<and> owner_id a = Some (user_id u) \<and> version a = 1
    \<and> (\<exists>primary rest. primary \<in> set (department_table s) \<and> dept_active primary
         \<and> a_dept a = dept_name primary \<and> a_departments a = primary # rest
         \<and> (u_company u \<noteq> [] \<longrightarrow> (\<forall>d \<in> set (primary # rest). dept_company d = u_company u)))
    \<and> (\<exists>scope. has_permission u ''article.create''
         (Some (new_resource (u_company u) (a_dept a) (Some (user_id u)))) scope)
    \<and> (a_status a = Published \<longleftrightarrow> may_publish u (a_dept a) \<or> cr_publish_without_review rq)
    \<and> a_status a \<in> {Published, Draft_article} \<and> sensitivity a \<in> SENSITIVITIES
    \<and> get_row article_id (article_id a) (article_table s' ) \<noteq> None
    \<and> (\<exists>v. version_table s' = version_table s @ [v] \<and> describes v a)"
proof (rule create_article_Inr [OF assms])
  fix primary audiences
  assume p: "resolve_active_department (department_table s) (u_company u) (Some (cr_dept rq)) True = Inr (Some primary)"
    and c: "ensure_can_create u (dept_name primary) = Inr ()"
    and aud: "create_audience s u primary (cr_audience rq) = Inr audiences"
    and ok: "cr_sensitivity rq \<in> SENSITIVITIES" "distinct (cr_tags rq)"
    and a: "a = (article_row now u rq (dept_name primary) audiences (fresh_id s))\<lparr>a_tags := cr_tags rq\<rparr>"
    and rows: "article_table s' = article_table s @ [a]"
      "version_table s' = version_table s @ [\<lparr>av_article = article_id a, av_version = 1,
         av_snapshot = (content_snapshot a (cr_tags rq))
           \<lparr>sn_original_body_md := Some (or_else (cr_original_body rq) (body_md a))\<rparr>,
         av_edited_by = Some (user_id u)\<rparr>]"
  have fields: "a_company a = u_company u" "owner_id a = Some (user_id u)" "version a = 1"
    "a_dept a = dept_name primary" "a_departments a = audiences" "sensitivity a = cr_sensitivity rq"
    "a_status a = (if may_publish u (dept_name primary) \<or> cr_publish_without_review rq
       then Published else Draft_article)" "a_tags a = cr_tags rq"
    by (simp_all add: a article_row_def Let_def)
  note primary = resolve_active_department_Some [OF p]
  have "\<exists>rest. audiences = primary # rest \<and> (u_company u \<noteq> [] \<longrightarrow> (\<forall>d \<in> set rest. dept_company d = u_company u))"
    using aud by (auto simp: create_audience_def get_departments_by_ids_def Let_def
        split: option.splits list.splits if_splits)
  moreover have "\<exists>scope. has_permission u ''article.create''
      (Some (new_resource (u_company u) (dept_name primary) (Some (user_id u)))) scope"
    using c by (auto simp: ensure_can_create_def split: if_splits)
  moreover have "get_row article_id (article_id a) (article_table s') \<noteq> None"
    unfolding get_row_None_iff rows(1) by simp
  ultimately show ?thesis
    using fields ok primary rows(2) by (auto simp: describes_def)
qed

theorem create_article_correct_witness:
  "\<exists>a s'. create_article 1 hr_ceo plain_article company_db = (Inr a, s')
     \<and> a_company a = ''acme'' \<and> sensitivity a \<in> SENSITIVITIES"
proof -
  have "(case fst (create_article 1 hr_ceo plain_article company_db) of Inr _ \<Rightarrow> True | _ \<Rightarrow> False)"
    by code_simp
  then obtain a where run: "create_article 1 hr_ceo plain_article company_db = (Inr a, one_article)"
    by (auto simp: one_article_def prod_eq_iff split: sum.splits)
  from create_article_correct [OF run] run show ?thesis by auto
qed

text \<open>
  Restoring escapes the check on moves. A member of staff may not move an article he owns to
  another department, but may restore a version in which it belonged there.
\<close>

definition moved_article :: db where
  "moved_article =
     snd (update_article hr_ceo 100 (no_update\<lparr>up_dept := Some ''IT''\<rparr>)
       (snd (create_article 1 blank_user plain_article company_db)))"

lemma restore_moves_without_authority:
  "fst (update_article blank_user 100 (no_update\<lparr>up_dept := Some ''HR''\<rparr>) moved_article)
     = raise 403 ''Not authorized to move an article to this department''
   \<and> (case restore_version blank_user 100 1 moved_article of
        (Inr a, _) \<Rightarrow> a_dept a = ''HR'' | _ \<Rightarrow> False)"
  by code_simp

end
