(* ===== verification/Agents.thy ===== *)
theory Agents
  imports Workflow
begin

text \<open>
  \<open>src/domain/approval_agent.py\<close> and \<open>src/domain/department_auto_publish.py\<close>: the two sweeps
  that decide pending drafts without a person at the keyboard, through \<open>approve_draft\<close> and
  \<open>reject_draft\<close>. The language model is an argument: \<open>ask\<close> gives its reply to a rule and a draft,
  or \<open>None\<close> when the call fails; \<open>loads\<close> gives what \<open>json.loads\<close> finds in the reply.

  Both sweeps hold database rows loaded before the loop. A refused approval rolls the session
  back, which expires those rows, and reading an expired row in asynchronous code raises
  \<open>MissingGreenlet\<close>, as the comment on \<open>_reload_actor\<close> in \<open>src/api/routers/governance.py\<close>
  records. The model raises there too.
\<close>

section \<open>Rules\<close>

record approval_rule =
  pr_id :: uuid
  pr_company :: string
  pr_name :: string
  pr_active :: bool
  pr_priority :: int
  pr_connector :: "uuid option"
  pr_dept :: "string option"
  pr_extensions :: "string list option"
  pr_max_similarity :: "rat option"
  pr_risk_tiers :: "string list option"
  pr_instruction :: string
  pr_can_approve :: bool
  pr_can_reject :: bool
  pr_created_by :: "uuid option"

definition extension :: "string option \<Rightarrow> string option" where
  "extension filename =
     (case filename of
        None \<Rightarrow> None
      | Some f \<Rightarrow> if CHR ''.'' \<notin> set f then None
                  else Some (''.'' @ lower (rev (takeWhile (\<lambda>c. c \<noteq> CHR ''.'') (rev f)))))"

definition STANDARD_RISK :: string where "STANDARD_RISK = ''standard''"

definition HIGH_RISK :: string where "HIGH_RISK = ''high''"

definition compute_draft_risk_tier :: "string list \<Rightarrow> pending_draft \<Rightarrow> string" where
  "compute_draft_risk_tier high_risk_departments d =
     (if lower (strip (or_else (md_sensitivity (metadata d)) [])) \<in> {''restricted'', ''confidential''}
      then HIGH_RISK
      else let dept = lower (strip (or_else (d_dept d) [])) in
           if dept \<noteq> [] \<and> dept \<in> set high_risk_departments then HIGH_RISK else STANDARD_RISK)"

definition top_similarity :: "pending_draft \<Rightarrow> rat option" where
  "top_similarity d =
     (case List.map_filter id (case similarity_matches d of None \<Rightarrow> [] | Some ms \<Rightarrow> ms) of
        [] \<Rightarrow> None | m # ms \<Rightarrow> Some (fold max ms m))"

definition rule_applies :: "string list \<Rightarrow> approval_rule \<Rightarrow> pending_draft \<Rightarrow> uuid option \<Rightarrow> bool" where
  "rule_applies high_risk r d conn =
     (if \<not> pr_active r then False
      else if pr_company r \<noteq> d_company d then False
      else if pr_connector r \<noteq> None \<and> pr_connector r \<noteq> conn then False
      else if (case pr_dept r of None \<Rightarrow> False
               | Some dept \<Rightarrow> lower (strip (or_else (d_dept d) [])) \<noteq> lower (strip dept)) then False
      else if (case pr_extensions r of None \<Rightarrow> False
               | Some exts \<Rightarrow> exts \<noteq> []
                   \<and> extension (d_original_filename d) \<notin> Some ` set (map (\<lambda>x. lower (strip x)) exts))
      then False
      else if (case pr_max_similarity r of None \<Rightarrow> False
               | Some bound \<Rightarrow> (case top_similarity d of None \<Rightarrow> True | Some score \<Rightarrow> score > bound))
      then False
      else if (case pr_risk_tiers r of None \<Rightarrow> False
               | Some tiers \<Rightarrow> tiers \<noteq> [] \<and> compute_draft_risk_tier high_risk d \<notin> set tiers)
      then False
      else True)"

definition select_rule ::
  "string list \<Rightarrow> approval_rule list \<Rightarrow> pending_draft \<Rightarrow> uuid option \<Rightarrow> approval_rule option" where
  "select_rule high_risk rules d conn =
     (case sort_key (\<lambda>r. (pr_priority r, pr_id r)) (filter (\<lambda>r. rule_applies high_risk r d conn) rules) of
        [] \<Rightarrow> None | r # _ \<Rightarrow> Some r)"

section \<open>The verdict\<close>

datatype action = Approve | Reject | Abstain

record verdict =
  v_action :: action
  v_reason :: string
  v_rule :: "approval_rule option"

definition quoted :: "string \<Rightarrow> string" where
  "quoted s = CHR 0x27 # s @ [CHR 0x27]"

definition abstain :: "string \<Rightarrow> approval_rule option \<Rightarrow> verdict" where
  "abstain reason r = \<lparr>v_action = Abstain, v_reason = reason, v_rule = r\<rparr>"

text \<open>
  The object in the reply: the decision where it is text, the \<open>repr\<close> of whatever it is, and the
  text of the reason.
\<close>

record payload =
  pl_decision :: "string option"
  pl_repr :: string
  pl_reason :: string

definition strip_fence :: "string \<Rightarrow> string" where
  "strip_fence s =
     (if take 3 s \<noteq> ''```'' then s
      else let t = dropWhile isspace (dropWhile (\<lambda>c. is_upper c \<or> is_lower_az c) (drop 3 s)) in
           if drop (length t - 3) t = ''```'' then rstrip (take (length t - 3) t) else t)"

text \<open>\<open>text[text.find("{") : text.rfind("}") + 1]\<close>, when the braces are in that order.\<close>

definition braced :: "string \<Rightarrow> string option" where
  "braced s =
     (let t = dropWhile (\<lambda>c. c \<noteq> CHR ''{'') s;
          body = rev (dropWhile (\<lambda>c. c \<noteq> CHR ''}'') (rev t))
      in if t = [] \<or> body = [] then None else Some body)"

definition parse_decision ::
  "(string \<Rightarrow> payload option) \<Rightarrow> string \<Rightarrow> (string \<times> string) option" where
  "parse_decision loads reply =
     (case braced (strip_fence (strip reply)) of
        None \<Rightarrow> Some (''unsure'', ''The model did not return a decision.'')
      | Some body \<Rightarrow>
          (case loads body of
             None \<Rightarrow> None
           | Some p \<Rightarrow>
               let reason = take 500 (strip (pl_reason p)) in
               (case pl_decision p of
                  Some decision \<Rightarrow>
                    if decision \<in> {''approve'', ''reject'', ''unsure''}
                    then Some (decision, or_else (Some reason) ''No reason given.'')
                    else Some (''unsure'', or_else (Some reason) (''Unrecognised decision: '' @ pl_repr p))
                | None \<Rightarrow>
                    Some (''unsure'', or_else (Some reason) (''Unrecognised decision: '' @ pl_repr p)))))"

record agent_settings =
  ag_enabled :: bool
  ag_provider :: bool
  ag_high_risk :: "string list"
  ag_batch_limit :: nat
  ag_ask :: "approval_rule \<Rightarrow> pending_draft \<Rightarrow> string option"
  ag_loads :: "string \<Rightarrow> payload option"

definition decide ::
  "agent_settings \<Rightarrow> approval_rule list \<Rightarrow> pending_draft \<Rightarrow> uuid option \<Rightarrow> verdict" where
  "decide cfg rules d conn =
     (if preparing d then abstain ''Document preparation is still in progress.'' None
      else case select_rule (ag_high_risk cfg) rules d conn of
        None \<Rightarrow> abstain ''No rule covers this document.'' None
      | Some r \<Rightarrow>
          if \<not> (pr_can_approve r \<or> pr_can_reject r)
          then abstain (''Rule '' @ quoted (pr_name r) @ '' is not allowed to act.'') (Some r)
          else if \<not> ag_provider cfg then abstain ''No LLM provider is configured.'' (Some r)
          else case ag_ask cfg r d of
            None \<Rightarrow> abstain ''The model could not be reached; left for a human.'' (Some r)
          | Some reply \<Rightarrow>
              (case parse_decision (ag_loads cfg) reply of
                 None \<Rightarrow> abstain ''The model's answer could not be read; left for a human.'' (Some r)
               | Some (decision, reason) \<Rightarrow>
                   if decision = ''approve'' \<and> \<not> pr_can_approve r
                   then abstain (''Rule '' @ quoted (pr_name r) @ '' may not approve. Model said: '' @ reason) (Some r)
                   else if decision = ''reject'' \<and> \<not> pr_can_reject r
                   then abstain (''Rule '' @ quoted (pr_name r) @ '' may not reject. Model said: '' @ reason) (Some r)
                   else if decision = ''unsure'' then abstain reason (Some r)
                   else \<lparr>v_action = (if decision = ''approve'' then Approve else Reject),
                         v_reason = reason, v_rule = Some r\<rparr>))"

section \<open>The approval agent\<close>

definition connector_for_draft :: "db \<Rightarrow> pending_draft \<Rightarrow> uuid option" where
  "connector_for_draft s d =
     (case external_document_id d of
        None \<Rightarrow> None
      | Some i \<Rightarrow> map_option ext_connector (get_row ext_id i (external_document_table s)))"

definition bare_request :: "string option \<Rightarrow> approval_request" where
  "bare_request note' =
     \<lparr>ap_category = None, ap_dept_arg = None, ap_update_article = None, ap_treat_as_new = False,
      ap_sensitivity = None, ap_department_ids = None, ap_review_note = note', ap_visibility = None,
      ap_explicit_users = None, ap_denied_users = None\<rparr>"

definition apply_verdict ::
  "background_step list \<Rightarrow> storage_settings \<Rightarrow> instant \<Rightarrow> pending_draft \<Rightarrow> approval_rule \<Rightarrow> verdict
     \<Rightarrow> db \<Rightarrow> (bool \<times> string) outcome" where
  "apply_verdict steps cfg now d r v s =
     (if d_status d \<noteq> Pending \<or> preparing d
      then (Inr (False, ''Document preparation is still in progress or the draft was already decided.''), s)
      else case pr_created_by r of
        None \<Rightarrow> (Inr (False, ''The rule has no author to act as.''), s)
      | Some ai \<Rightarrow>
          (case get_user_by_id s ai None of
             None \<Rightarrow> (Inr (False, ''The rule's author no longer has an active account.''), s)
           | Some author \<Rightarrow>
               if \<not> u_active author
               then (Inr (False, ''The rule's author no longer has an active account.''), s)
               else
                 let memo = ''Approval agent, rule '' @ quoted (pr_name r) @ '': '' @ v_reason v in
                 if v_action v = Approve
                 then (case approve_draft steps now author (draft_id d) (bare_request None) s of
                         (Inl e, s') \<Rightarrow> (Inl e, s') | (Inr _, s') \<Rightarrow> (Inr (True, memo), s'))
                 else (case reject_draft cfg now author (draft_id d) memo s of
                         (Inl e, s') \<Rightarrow> (Inl e, s') | (Inr _, s') \<Rightarrow> (Inr (True, memo), s'))))"

record agent_summary =
  sm_evaluated :: nat
  sm_approved :: nat
  sm_rejected :: nat
  sm_left :: nat

definition agent_row :: "pending_draft \<Rightarrow> bool \<Rightarrow> audit_log" where
  "agent_row d applied =
     \<lparr>al_user = None, al_action = ''approval_agent_decision'', al_target_type = ''draft'',
      al_target = Some (draft_id d), al_outcome = (if applied then ''success'' else ''skipped'')\<rparr>"

definition count_verdict :: "verdict \<Rightarrow> bool \<Rightarrow> agent_summary \<Rightarrow> agent_summary" where
  "count_verdict v applied m =
     (let m1 = m\<lparr>sm_evaluated := sm_evaluated m + 1\<rparr> in
      if applied \<and> v_action v = Approve then m1\<lparr>sm_approved := sm_approved m + 1\<rparr>
      else if applied \<and> v_action v = Reject then m1\<lparr>sm_rejected := sm_rejected m + 1\<rparr>
      else m1\<lparr>sm_left := sm_left m + 1\<rparr>)"

text \<open>
  The loop. \<open>unsaved\<close> holds the audit rows added since the last commit: an approval or a
  rejection commits them with its own rows, a rollback loses them.
\<close>

fun agent_loop ::
  "background_step list \<Rightarrow> storage_settings \<Rightarrow> agent_settings \<Rightarrow> instant \<Rightarrow> bool \<Rightarrow> approval_rule list
     \<Rightarrow> pending_draft list \<Rightarrow> audit_log list \<Rightarrow> agent_summary \<Rightarrow> db \<Rightarrow> agent_summary outcome" where
  "agent_loop steps st cfg now dry_run rules [] unsaved m s =
     (Inr m, s\<lparr>audit_table := audit_table s @ unsaved\<rparr>)"
| "agent_loop steps st cfg now dry_run rules (d # ds) unsaved m s =
     (let v = decide cfg rules d (connector_for_draft s d) in
      case v_rule v of
        Some r \<Rightarrow>
          if v_action v \<noteq> Abstain \<and> \<not> dry_run
          then (case apply_verdict steps st now d r v (s\<lparr>audit_table := audit_table s @ unsaved\<rparr>) of
                  (Inl e, _) \<Rightarrow> (raise 500 ''MissingGreenlet'', s)
                | (Inr (applied, _), s') \<Rightarrow>
                    if applied
                    then agent_loop steps st cfg now dry_run rules ds [agent_row d True]
                           (count_verdict v True m) s'
                    else agent_loop steps st cfg now dry_run rules ds (unsaved @ [agent_row d False])
                           (count_verdict v False m) s)
          else agent_loop steps st cfg now dry_run rules ds (unsaved @ [agent_row d False])
                 (count_verdict v False m) s
      | None \<Rightarrow> agent_loop steps st cfg now dry_run rules ds (unsaved @ [agent_row d False])
                 (count_verdict v False m) s)"

definition empty_summary :: agent_summary where
  "empty_summary = \<lparr>sm_evaluated = 0, sm_approved = 0, sm_rejected = 0, sm_left = 0\<rparr>"

definition sweep_limit :: "nat option \<Rightarrow> nat \<Rightarrow> nat" where
  "sweep_limit limit default_limit =
     (case limit of None \<Rightarrow> default_limit | Some n \<Rightarrow> if n = 0 then default_limit else n)"

definition agent_queue :: "db \<Rightarrow> string \<Rightarrow> nat \<Rightarrow> pending_draft list" where
  "agent_queue s company limit =
     take limit (sort_key d_created_at
       (filter (\<lambda>d. d_company d = company \<and> d_status d = Pending \<and> \<not> preparing d) (draft_table s)))"

definition agent_run ::
  "background_step list \<Rightarrow> storage_settings \<Rightarrow> agent_settings \<Rightarrow> instant \<Rightarrow> approval_rule list
     \<Rightarrow> string \<Rightarrow> nat option \<Rightarrow> bool \<Rightarrow> db \<Rightarrow> agent_summary outcome" where
  "agent_run steps st cfg now all_rules company limit dry_run s =
     (if \<not> ag_enabled cfg then (Inr empty_summary, s)
      else let rules = filter (\<lambda>r. pr_company r = company \<and> pr_active r) all_rules in
           if rules = [] then (Inr empty_summary, s)
           else agent_loop steps st cfg now dry_run rules
                  (agent_queue s company (sweep_limit limit (ag_batch_limit cfg))) [] empty_summary s)"

section \<open>Departments without review\<close>

record publish_summary =
  pm_approved :: nat
  pm_left :: nat
  pm_skipped :: nat

definition open_departments :: "db \<Rightarrow> string \<Rightarrow> (string \<times> uuid) list" where
  "open_departments s company =
     rev (List.map_filter (\<lambda>d. if dept_company d = company \<and> dept_active d \<and> \<not> review_required d
                               then map_option (\<lambda>a. (dept_name d, a)) (auto_publish_by d) else None)
            (department_table s))"

definition auto_note :: "string \<Rightarrow> string" where
  "auto_note name = ''Auto-published: department '' @ name @ '' does not require review.''"

text \<open>\<open>expired\<close>: whether the rows of the sweep were expired by a rollback.\<close>

fun publish_loop ::
  "background_step list \<Rightarrow> string list \<Rightarrow> instant \<Rightarrow> (string \<times> uuid) list \<Rightarrow> pending_draft list
     \<Rightarrow> bool \<Rightarrow> publish_summary \<Rightarrow> db \<Rightarrow> publish_summary outcome" where
  "publish_loop steps high_risk now departments [] expired m s = (Inr m, s)"
| "publish_loop steps high_risk now departments (d # ds) expired m s =
     (if expired then (raise 500 ''MissingGreenlet'', s)
      else if compute_draft_risk_tier high_risk d = HIGH_RISK
      then publish_loop steps high_risk now departments ds False (m\<lparr>pm_skipped := pm_skipped m + 1\<rparr>) s
      else
        let name = or_else (d_dept d) [];
            actor = (case map_of departments name of
                       None \<Rightarrow> None | Some a \<Rightarrow> get_user_by_id s a None)
        in case actor of
          None \<Rightarrow> publish_loop steps high_risk now departments ds False (m\<lparr>pm_left := pm_left m + 1\<rparr>) s
        | Some u \<Rightarrow>
            if \<not> u_active u
            then publish_loop steps high_risk now departments ds False (m\<lparr>pm_left := pm_left m + 1\<rparr>) s
            else (case approve_draft steps now u (draft_id d) (bare_request (Some (auto_note name))) s of
                    (Inl e, s') \<Rightarrow>
                      publish_loop steps high_risk now departments ds True (m\<lparr>pm_left := pm_left m + 1\<rparr>) s
                  | (Inr _, s') \<Rightarrow>
                      publish_loop steps high_risk now departments ds False
                        (m\<lparr>pm_approved := pm_approved m + 1\<rparr>)
                        (log_audit (Some (user_id u)) ''department_auto_publish'' ''draft''
                           (Some (draft_id d)) s')))"

definition auto_publish_queue :: "db \<Rightarrow> string \<Rightarrow> string list \<Rightarrow> nat \<Rightarrow> pending_draft list" where
  "auto_publish_queue s company names limit =
     take limit (sort_key d_created_at
       (filter (\<lambda>d. d_company d = company \<and> d_status d = Pending \<and> d_dept d \<in> Some ` set names
                  \<and> \<not> preparing d) (draft_table s)))"

definition auto_publish_run ::
  "background_step list \<Rightarrow> string list \<Rightarrow> nat \<Rightarrow> instant \<Rightarrow> string \<Rightarrow> nat option \<Rightarrow> db
     \<Rightarrow> publish_summary outcome" where
  "auto_publish_run steps high_risk batch_limit now company limit s =
     (let departments = open_departments s company;
          m = \<lparr>pm_approved = 0, pm_left = 0, pm_skipped = 0\<rparr>
      in if departments = [] then (Inr m, s)
         else publish_loop steps high_risk now departments
                (auto_publish_queue s company (map fst departments) (sweep_limit limit batch_limit))
                False m s)"

section \<open>Choosing a rule\<close>

lemma select_rule_Some:
  assumes "select_rule high_risk rules d conn = Some r"
  shows "r \<in> set rules" "rule_applies high_risk r d conn"
    "\<And>q. q \<in> set rules \<Longrightarrow> rule_applies high_risk q d conn
       \<Longrightarrow> (pr_priority r, pr_id r) \<le> (pr_priority q, pr_id q)"
proof -
  let ?m = "filter (\<lambda>r. rule_applies high_risk r d conn) rules"
  obtain rs where rs: "sort_key (\<lambda>r. (pr_priority r, pr_id r)) ?m = r # rs"
    using assms unfolding select_rule_def by (auto split: list.splits)
  have "set (r # rs) = set ?m" unfolding rs [symmetric] by simp
  then show "r \<in> set rules" "rule_applies high_risk r d conn" by auto
  have "sorted (map (\<lambda>r. (pr_priority r, pr_id r)) (r # rs))"
    unfolding rs [symmetric] by (rule sorted_sort_key)
  then show "(pr_priority r, pr_id r) \<le> (pr_priority q, pr_id q)"
    if "q \<in> set rules" "rule_applies high_risk q d conn" for q
    using that \<open>set (r # rs) = set ?m\<close> by (cases "q = r") auto
qed

lemma select_rule_None:
  "select_rule high_risk rules d conn = None \<longleftrightarrow> (\<forall>q \<in> set rules. \<not> rule_applies high_risk q d conn)"
proof -
  have "select_rule high_risk rules d conn = None
      \<longleftrightarrow> sort_key (\<lambda>r. (pr_priority r, pr_id r)) (filter (\<lambda>r. rule_applies high_risk r d conn) rules) = []"
    by (simp add: select_rule_def split: list.splits)
  also have "\<dots> \<longleftrightarrow> filter (\<lambda>r. rule_applies high_risk r d conn) rules = []"
    by (simp only: length_0_conv [symmetric] length_sort)
  finally show ?thesis by (simp add: filter_empty_conv)
qed

lemma decide_acts:
  assumes "v_action (decide cfg rules d conn) \<noteq> Abstain"
  obtains r where "v_rule (decide cfg rules d conn) = Some r"
    "select_rule (ag_high_risk cfg) rules d conn = Some r" "\<not> preparing d"
    "v_action (decide cfg rules d conn) = Approve \<Longrightarrow> pr_can_approve r"
    "v_action (decide cfg rules d conn) = Reject \<Longrightarrow> pr_can_reject r"
proof -
  obtain r reply decision reason where
    r: "select_rule (ag_high_risk cfg) rules d conn = Some r" "\<not> preparing d"
    and p: "ag_ask cfg r d = Some reply" "parse_decision (ag_loads cfg) reply = Some (decision, reason)"
    and v: "decide cfg rules d conn = \<lparr>v_action = (if decision = ''approve'' then Approve else Reject),
        v_reason = reason, v_rule = Some r\<rparr>"
      "decision = ''approve'' \<longrightarrow> pr_can_approve r" "decision = ''reject'' \<longrightarrow> pr_can_reject r"
      "decision \<noteq> ''unsure''"
  proof -
    have act: "v_action (abstain m x) = Abstain" for m x by (simp add: abstain_def)
    have prep: "\<not> preparing d" using assms by (cases "preparing d") (simp_all add: decide_def act)
    obtain r where r: "select_rule (ag_high_risk cfg) rules d conn = Some r"
      using assms prep by (cases "select_rule (ag_high_risk cfg) rules d conn") (simp_all add: decide_def act)
    have may: "pr_can_approve r \<or> pr_can_reject r" "ag_provider cfg"
      using assms prep r by (auto simp: decide_def act split: if_splits)
    obtain reply where reply: "ag_ask cfg r d = Some reply"
      using assms prep r may by (cases "ag_ask cfg r d") (auto simp: decide_def act)
    obtain decision reason where p: "parse_decision (ag_loads cfg) reply = Some (decision, reason)"
      using assms prep r may reply
      by (cases "parse_decision (ag_loads cfg) reply") (auto simp: decide_def act)
    show thesis
      using assms prep r may reply p
      by (intro that [OF r prep reply p]) (auto simp: decide_def act split: if_splits)
  qed
  have "decision \<in> {''approve'', ''reject'', ''unsure''}"
    using p(2) unfolding parse_decision_def Let_def by (auto split: option.splits if_splits)
  with r v show thesis by (intro that [of r]) (auto split: if_splits)
qed

section \<open>One decision\<close>

text \<open>
  What a sweep relies on: the steps after a publication leave drafts, users and connector
  documents alone.
\<close>

definition quiet_steps :: "background_step list \<Rightarrow> bool" where
  "quiet_steps steps =
     (\<forall>f \<in> set steps. \<forall>u a t t'. f u a t = Some t' \<longrightarrow>
        draft_table t' = draft_table t \<and> user_table t' = user_table t
        \<and> department_table t' = department_table t
        \<and> external_document_table t' = external_document_table t)"

definition same_surroundings :: "db \<Rightarrow> db \<Rightarrow> bool" where
  "same_surroundings s s' =
     (user_table s' = user_table s \<and> department_table s' = department_table s
      \<and> connector_for_draft s' = connector_for_draft s)"

definition decides :: "user \<Rightarrow> uuid \<Rightarrow> draft_status \<Rightarrow> db \<Rightarrow> db \<Rightarrow> bool" where
  "decides u i st s s' =
     ((\<forall>j. j \<noteq> i \<longrightarrow> get_row draft_id j (draft_table s') = get_row draft_id j (draft_table s))
      \<and> (\<exists>d d'. get_row draft_id i (draft_table s) = Some d \<and> get_row draft_id i (draft_table s') = Some d'
           \<and> d_status d = Pending \<and> \<not> outside_company u d \<and> can_approve_draft u d
           \<and> d_status d' = st \<and> reviewed_by d' = Some (user_id u)))"

lemma same_surroundings_refl [simp]: "same_surroundings s s"
  by (simp add: same_surroundings_def)

lemma same_surroundings_trans:
  "same_surroundings s t \<Longrightarrow> same_surroundings t r \<Longrightarrow> same_surroundings s r"
  by (simp add: same_surroundings_def)

lemma decides_other:
  "decides u i st s s' \<Longrightarrow> j \<noteq> i \<Longrightarrow> get_row draft_id j (draft_table s') = get_row draft_id j (draft_table s)"
  by (simp add: decides_def)

lemma put_decides:
  assumes "unique_key draft_id (draft_table s)" "get_draft_for_user s i u = Some d"
    and "draft_table s' = put_row draft_id d' (draft_table s)" "draft_id d' = i"
    and "d_status d = Pending" "\<not> outside_company u d" "can_approve_draft u d"
    and "reviewed_by d' = Some (user_id u)"
  shows "decides u i (d_status d') s s' \<and> unique_key draft_id (draft_table s')"
proof -
  note d = get_draft_for_user_SomeD [OF assms(2)]
  have row: "get_row draft_id i (draft_table s) = Some d"
    using unique_key_get_row [OF assms(1) d(1)] d(2) by simp
  then have "get_row draft_id i (draft_table s') = Some d'"
    using get_put_same [of draft_id d' "draft_table s"] assms(3,4) by simp
  with row assms show ?thesis by (auto simp: decides_def get_put_other)
qed

lemma run_background_quiet:
  assumes "quiet_steps steps" "set fs \<subseteq> set steps"
  shows "draft_table (run_background fs u a t) = draft_table t
    \<and> user_table (run_background fs u a t) = user_table t
    \<and> department_table (run_background fs u a t) = department_table t
    \<and> external_document_table (run_background fs u a t) = external_document_table t"
  using assms(2)
proof (induction fs arbitrary: t)
  case (Cons f fs)
  have step: "run_background (f # fs) u a t
      = run_background fs u a (case f u a t of None \<Rightarrow> t | Some t' \<Rightarrow> t')"
    by (simp add: run_background_def)
  have "f \<in> set steps" using Cons.prems by simp
  with assms(1) Cons.IH [of "case f u a t of None \<Rightarrow> t | Some t' \<Rightarrow> t'"] Cons.prems show ?case
    unfolding step quiet_steps_def by (cases "f u a t") auto
qed (simp add: run_background_def)

lemma connector_cong:
  "external_document_table s' = external_document_table s \<Longrightarrow> connector_for_draft s' = connector_for_draft s"
  by (simp add: connector_for_draft_def fun_eq_iff cong: option.case_cong)

lemma connector_after_publish:
  assumes "external_document_table s' = map (\<lambda>e. if P e then e\<lparr>ext_article := x\<rparr> else e) (external_document_table s)"
  shows "connector_for_draft s' = connector_for_draft s"
proof
  fix d
  have "map_option ext_connector (get_row ext_id i (external_document_table s'))
      = map_option ext_connector (get_row ext_id i (external_document_table s))" for i
    unfolding assms
    by (subst get_row_map) (auto simp: option.map_comp intro!: option.map_cong)
  then show "connector_for_draft s' d = connector_for_draft s d"
    by (simp add: connector_for_draft_def split: option.splits)
qed

lemma publish_documents:
  assumes "write_article now u d dept au ext_id' review target s = (a, s1)"
    "publish_rows now u rq d au target a s1 = Inr s'"
  shows "connector_for_draft s' = connector_for_draft s"
proof (rule connector_after_publish)
  have keep: "external_document_table (log_audit x1 x2 x3 x4 t) = external_document_table t"
    "external_document_table (notify y1 y2 y3 t) = external_document_table t"
    "external_document_table (add_transition tr t) = external_document_table t"
    "external_document_table (update_draft dd t) = external_document_table t"
    "external_document_table (approve_fingerprint d ai t) = external_document_table t"
    for x1 x2 x3 x4 y1 y2 y3 tr dd ai t
    by (simp_all add: log_audit_def log_audit_row_def notify_def add_notification_def
        add_transition_def update_draft_def approve_fingerprint_def Let_def)
  have foldk: "external_document_table (foldl (\<lambda>t f. if P f then notify (Some f) e ai t else t) s0 fs)
      = external_document_table s0" for P e ai fs s0
    by (induction fs arbitrary: s0) (auto simp: keep)
  have "external_document_table (notify_followers u d ai t) = external_document_table t" for ai t
    unfolding notify_followers_def by (rule foldk)
  note keep = keep this
  have "external_document_table s1 = external_document_table s"
    using assms(1) by (auto simp: write_article_def Let_def keep split: option.splits)
  then show "external_document_table s' = map (\<lambda>e. if Some (ext_id e) = external_document_id d
      then e\<lparr>ext_article := Some (article_id a)\<rparr> else e) (external_document_table s)"
    using assms(2) by (auto simp: publish_rows_def Let_def keep split: sum.splits)
qed

lemma approve_decides:
  assumes run: "approve_draft steps now u i rq s = (Inr a, s')"
    and uniq: "unique_key draft_id (draft_table s)" and quiet: "quiet_steps steps"
  shows "decides u i Approved s s' \<and> unique_key draft_id (draft_table s') \<and> same_surroundings s s'"
proof (rule approve_draft_Inr [OF run])
  fix d a0 s0
  assume d: "get_draft_for_user s i u = Some d" and pub: "publish_draft now u rq d s = Inr (a0, s0)"
    and s': "s' = run_background steps u a s0"
  note bg = run_background_quiet [OF quiet order_refl, of u a s0]
  show ?thesis
  proof (rule publish_draft_Inr [OF pub])
    fix sb ext dept selected sb1 au target review s1
    assume g: "approval_guards s u rq d = Inr ext"
      and w: "write_article now u d dept au (requested_external_id d target) review target s = (a0, s1)"
      and p: "publish_rows now u rq d au target a0 s1 = Inr s0"
    note pf = publish_rows_Inr [OF p] and wf = write_article_facts [OF w] and gf = approval_guards_Inr [OF g]
    obtain d' where d': "draft_table s0 = put_row draft_id d' (draft_table s)" "draft_id d' = i"
        "d_status d' = Approved" "reviewed_by d' = Some (user_id u)"
      using pf(7) wf(3) get_draft_for_user_SomeD(2) [OF d] by auto
    have "decides u i (d_status d') s s0 \<and> unique_key draft_id (draft_table s0)"
      by (rule put_decides [OF uniq d d'(1,2) gf(1,3,4) d'(4)])
    moreover have "same_surroundings s s'"
      using bg s' pf(2,3) wf(5,6) publish_documents [OF w p] connector_cong [of s' s0]
      by (simp add: same_surroundings_def)
    ultimately show ?thesis using bg s' d'(3) by (simp add: decides_def)
  qed
qed

lemma reject_decides:
  assumes run: "reject_draft cfg now u i memo s = (Inr d', s')"
    and uniq: "unique_key draft_id (draft_table s)"
  shows "decides u i Rejected s s' \<and> unique_key draft_id (draft_table s') \<and> same_surroundings s s'"
proof (rule reject_draft_Inr [OF run])
  fix d
  assume d: "get_draft_for_user s i u = Some d" "d_status d = Pending" "\<not> outside_company u d" "can_approve_draft u d"
    and d': "d' = d\<lparr>d_status := Rejected, reviewed_by := Some (user_id u), reviewed_at := Some now,
           review_note := Some (strip memo)\<rparr>" "draft_table s' = put_row draft_id d' (draft_table s)"
    and f: "same_frame s s'"
  have "external_document_table s' = external_document_table s"
    using run d(1) unfolding reject_draft_def
    by (auto simp: Let_def log_audit_def log_audit_row_def update_draft_def notify_def
        add_notification_def drop_fingerprints_def add_transition_def
        split: if_splits sum.splits prod.splits option.splits)
  then have "same_surroundings s s'"
    using f connector_cong [of s' s] by (simp add: same_surroundings_def same_frame_def)
  moreover have "decides u i (d_status d') s s' \<and> unique_key draft_id (draft_table s')"
    by (rule put_decides [OF uniq d(1) d'(2) _ d(2,3,4)])
       (use d' get_draft_for_user_SomeD(2) [OF d(1)] in simp_all)
  ultimately show ?thesis using d' by simp
qed

text \<open>An exception leaves the drafts as they are.\<close>

lemma same_rows_frame:
  assumes "draft_table s' = draft_table s" "user_table s' = user_table s"
    "department_table s' = department_table s" "external_document_table s' = external_document_table s"
  shows "same_surroundings s s'" "decides u i st s t \<longleftrightarrow> decides u i st s' t"
  using assms connector_cong [of s' s] by (simp_all add: same_surroundings_def decides_def)

section \<open>The sweeps\<close>

text \<open>One draft decided by a rule, between the state before and the state after a sweep.\<close>

definition rule_decided ::
  "agent_settings \<Rightarrow> approval_rule list \<Rightarrow> pending_draft \<Rightarrow> db \<Rightarrow> db \<Rightarrow> bool" where
  "rule_decided cfg rules d s s' =
     (\<exists>r ai author st. select_rule (ag_high_risk cfg) rules d (connector_for_draft s d) = Some r
        \<and> pr_created_by r = Some ai \<and> get_user_by_id s ai None = Some author \<and> u_active author
        \<and> decides author (draft_id d) st s s'
        \<and> (st = Approved \<and> pr_can_approve r \<or> st = Rejected \<and> pr_can_reject r))"

lemma get_user_by_id_cong: "user_table s' = user_table s \<Longrightarrow> get_user_by_id s' = get_user_by_id s"
  by (simp add: get_user_by_id_def fun_eq_iff)

lemma apply_verdict_acts:
  assumes "apply_verdict steps st now d r v s = (Inr (True, memo), s')"
    and "unique_key draft_id (draft_table s)" "quiet_steps steps"
  obtains ai author where "pr_created_by r = Some ai" "get_user_by_id s ai None = Some author"
    "u_active author"
    "decides author (draft_id d) (if v_action v = Approve then Approved else Rejected) s s'"
    "unique_key draft_id (draft_table s')" "same_surroundings s s'"
proof -
  obtain ai author where a: "pr_created_by r = Some ai" "get_user_by_id s ai None = Some author"
      "u_active author" "\<not> (d_status d \<noteq> Pending \<or> preparing d)"
    using assms(1) unfolding apply_verdict_def by (auto split: if_splits option.splits)
  let ?m = "''Approval agent, rule '' @ quoted (pr_name r) @ '': '' @ v_reason v"
  have "decides author (draft_id d) (if v_action v = Approve then Approved else Rejected) s s'
      \<and> unique_key draft_id (draft_table s') \<and> same_surroundings s s'"
  proof (cases "v_action v = Approve")
    case True
    obtain x where "approve_draft steps now author (draft_id d) (bare_request None) s = (Inr x, s')"
      using assms(1) a True unfolding apply_verdict_def
      by (auto simp: Let_def split: prod.splits sum.splits)
    from approve_decides [OF this assms(2,3)] True show ?thesis by simp
  next
    case False
    obtain x where "reject_draft st now author (draft_id d) ?m s = (Inr x, s')"
      using assms(1) a False unfolding apply_verdict_def
      by (auto simp: Let_def split: prod.splits sum.splits)
    from reject_decides [OF this assms(2)] False show ?thesis by simp
  qed
  with a that show thesis by blast
qed

lemma agent_loop_rows:
  assumes "agent_loop steps st cfg now dry_run rules ds unsaved m s = (res, s')"
    and "unique_key draft_id (draft_table s)" "quiet_steps steps" "distinct (map draft_id ds)"
    and "get_row draft_id i (draft_table s') \<noteq> get_row draft_id i (draft_table s)"
  shows "\<not> dry_run \<and> (\<exists>d \<in> set ds. draft_id d = i \<and> (\<exists>s0 s1. same_surroundings s s0
    \<and> get_row draft_id i (draft_table s0) = get_row draft_id i (draft_table s)
    \<and> get_row draft_id i (draft_table s1) = get_row draft_id i (draft_table s')
    \<and> rule_decided cfg rules d s0 s1))"
  using assms(1,2,4,5)
proof (induction ds arbitrary: unsaved m s)
  case (Cons d ds)
  let ?v = "decide cfg rules d (connector_for_draft s d)"
  let ?s = "s\<lparr>audit_table := audit_table s @ unsaved\<rparr>"
  have frame: "same_surroundings s ?s" "draft_table ?s = draft_table s"
    using same_rows_frame(1) [of ?s s] by simp_all
  show ?case
  proof (cases "\<exists>r memo t. v_rule ?v = Some r \<and> v_action ?v \<noteq> Abstain \<and> \<not> dry_run
      \<and> apply_verdict steps st now d r ?v ?s = (Inr (True, memo), t)")
    case True
    then obtain r memo t where r: "v_rule ?v = Some r" "v_action ?v \<noteq> Abstain" "\<not> dry_run"
      and app: "apply_verdict steps st now d r ?v ?s = (Inr (True, memo), t)" by blast
    have rest: "agent_loop steps st cfg now dry_run rules ds [agent_row d True] (count_verdict ?v True m) t = (res, s')"
      using Cons.prems(1) r app by (simp add: Let_def)
    obtain ai author where a: "pr_created_by r = Some ai" "get_user_by_id ?s ai None = Some author"
      "u_active author"
      "decides author (draft_id d) (if v_action ?v = Approve then Approved else Rejected) ?s t"
      "unique_key draft_id (draft_table t)" "same_surroundings ?s t"
      using apply_verdict_acts [OF app _ assms(3)] Cons.prems(2) frame(2) by auto
    show ?thesis
    proof (cases "get_row draft_id i (draft_table s') = get_row draft_id i (draft_table t)")
      case same: True
      have id: "draft_id d = i"
        using a(4) same Cons.prems(4) frame(2) by (metis decides_def)
      obtain r' where r': "v_rule ?v = Some r'" "select_rule (ag_high_risk cfg) rules d (connector_for_draft s d) = Some r'"
        "v_action ?v = Approve \<Longrightarrow> pr_can_approve r'" "v_action ?v = Reject \<Longrightarrow> pr_can_reject r'"
        using decide_acts [OF r(2)] by metis
      have "connector_for_draft ?s = connector_for_draft s" by (rule connector_cong) simp
      moreover have "v_action ?v = Approve \<or> v_action ?v = Reject" using r(2) by (cases "v_action ?v") auto
      ultimately have "rule_decided cfg rules d ?s t"
        using a r' r(1) unfolding rule_decided_def by (intro exI [of _ r] exI [of _ ai] exI [of _ author]) auto
      then show ?thesis using id same frame r(3) by auto
    next
      case False
      have "\<not> dry_run \<and> (\<exists>q \<in> set ds. draft_id q = i \<and> (\<exists>s0 s1. same_surroundings t s0
        \<and> get_row draft_id i (draft_table s0) = get_row draft_id i (draft_table t)
        \<and> get_row draft_id i (draft_table s1) = get_row draft_id i (draft_table s')
        \<and> rule_decided cfg rules q s0 s1))"
        by (rule Cons.IH [OF rest a(5)]) (use Cons.prems(3) False in auto)
      moreover from this have "draft_id d \<noteq> i" using Cons.prems(3) by auto
      then have "get_row draft_id i (draft_table t) = get_row draft_id i (draft_table s)"
        using a(4) frame(2) by (metis decides_def)
      ultimately show ?thesis
        using same_surroundings_trans [OF frame(1) a(6)] same_surroundings_trans by (metis list.set_intros(2))
    qed
  next
    case False
    then have "(\<exists>e. (res, s') = (Inl e, s)) \<or> (\<exists>u' m'. agent_loop steps st cfg now dry_run rules ds u' m' s = (res, s'))"
      using Cons.prems(1)
      by (auto simp: Let_def split: option.splits if_splits prod.splits sum.splits)
    with Cons.prems(4) obtain u' m' where "agent_loop steps st cfg now dry_run rules ds u' m' s = (res, s')"
      by auto
    from Cons.IH [OF this Cons.prems(2) _ Cons.prems(4)] Cons.prems(3) show ?thesis by auto
  qed
qed auto

text \<open>The queue of a sweep lists each draft once.\<close>

lemma distinct_queue:
  assumes "unique_key draft_id rows"
  shows "distinct (map draft_id (take n (sort_key f (filter P rows))))"
proof -
  have "distinct (map draft_id (filter P rows))"
    using assms by (simp add: unique_key_def distinct_map_filter)
  then have "distinct (map draft_id (sort_key f (filter P rows)))"
    by (simp add: distinct_map)
  then show ?thesis by (metis distinct_take take_map)
qed

definition publishable ::
  "string list \<Rightarrow> (string \<times> uuid) list \<Rightarrow> db \<Rightarrow> pending_draft \<Rightarrow> user \<Rightarrow> bool" where
  "publishable high_risk departments s d u =
     (compute_draft_risk_tier high_risk d \<noteq> HIGH_RISK \<and> u_active u
      \<and> (\<exists>a. map_of departments (or_else (d_dept d) []) = Some a \<and> get_user_by_id s a None = Some u))"

text \<open>One round of the loop that is neither the end nor an exception.\<close>

lemma publish_loop_Cons:
  assumes "publish_loop steps high_risk now departments (d # ds) False m s = (res, s')"
  obtains
    (left) m' where "publish_loop steps high_risk now departments ds False m' s = (res, s')"
      "\<And>u. \<not> publishable high_risk departments s d u"
  | (refused) m' e t u where "publish_loop steps high_risk now departments ds True m' s = (res, s')"
      "publishable high_risk departments s d u"
      "approve_draft steps now u (draft_id d) (bare_request (Some (auto_note (or_else (d_dept d) [])))) s = (Inl e, t)"
  | (approved) m' a t u where "publish_loop steps high_risk now departments ds False m'
        (log_audit (Some (user_id u)) ''department_auto_publish'' ''draft'' (Some (draft_id d)) t) = (res, s')"
      "publishable high_risk departments s d u"
      "approve_draft steps now u (draft_id d) (bare_request (Some (auto_note (or_else (d_dept d) [])))) s = (Inr a, t)"
proof (cases "\<exists>u. publishable high_risk departments s d u")
  case True
  then obtain u where p: "publishable high_risk departments s d u" by blast
  obtain r t where run: "approve_draft steps now u (draft_id d)
      (bare_request (Some (auto_note (or_else (d_dept d) [])))) s = (r, t)" by fastforce
  show thesis
  proof (cases r)
    case (Inl e)
    with assms p run show thesis by (intro refused [where u = u and e = e and t = t]) (auto simp: publishable_def Let_def)
  next
    case (Inr a)
    with assms p run show thesis by (intro approved [where u = u and a = a and t = t]) (auto simp: publishable_def Let_def)
  qed
next
  case False
  then have "\<exists>m'. publish_loop steps high_risk now departments ds False m' s = (res, s')"
    using assms by (auto simp: publishable_def Let_def split: if_splits option.splits)
  with False left show thesis by blast
qed

lemma publish_loop_expired:
  "publish_loop steps high_risk now departments ds True m s = (res, s') \<Longrightarrow>
     s' = s \<and> (ds \<noteq> [] \<longrightarrow> res = raise 500 ''MissingGreenlet'')"
  by (cases ds) auto

lemma publishable_cong:
  "same_surroundings s s' \<Longrightarrow> publishable high_risk departments s' = publishable high_risk departments s"
  using get_user_by_id_cong [of s' s] by (simp add: publishable_def same_surroundings_def fun_eq_iff)

lemma approved_round:
  assumes "approve_draft steps now u (draft_id d) rq s = (Inr a, t)"
    and "unique_key draft_id (draft_table s)" "quiet_steps steps"
  defines "t' \<equiv> log_audit (Some (user_id u)) ''department_auto_publish'' ''draft'' (Some (draft_id d)) t"
  shows "decides u (draft_id d) Approved s t'" "unique_key draft_id (draft_table t')" "same_surroundings s t'"
proof -
  have "draft_table t' = draft_table t" "user_table t' = user_table t"
    "department_table t' = department_table t" "external_document_table t' = external_document_table t"
    by (simp_all add: t'_def log_audit_def log_audit_row_def)
  with approve_decides [OF assms(1-3)] same_rows_frame(1) [of t' t] same_surroundings_trans
  show "decides u (draft_id d) Approved s t'" "unique_key draft_id (draft_table t')" "same_surroundings s t'"
    by (auto simp: decides_def)
qed

lemma publish_loop_rows:
  assumes "publish_loop steps high_risk now departments ds False m s = (res, s')"
    and "unique_key draft_id (draft_table s)" "quiet_steps steps" "distinct (map draft_id ds)"
    and "get_row draft_id i (draft_table s') \<noteq> get_row draft_id i (draft_table s)"
  shows "\<exists>d \<in> set ds. draft_id d = i \<and> (\<exists>u s0 s1. publishable high_risk departments s d u
    \<and> get_row draft_id i (draft_table s0) = get_row draft_id i (draft_table s)
    \<and> get_row draft_id i (draft_table s1) = get_row draft_id i (draft_table s')
    \<and> decides u i Approved s0 s1)"
  using assms(1,2,4,5)
proof (induction ds arbitrary: m s)
  case (Cons d ds)
  from Cons.prems(1) show ?case
  proof (cases rule: publish_loop_Cons)
    case (left m')
    from Cons.IH [OF left(1) Cons.prems(2) _ Cons.prems(4)] Cons.prems(3) show ?thesis by auto
  next
    case (refused m' e t u)
    with publish_loop_expired Cons.prems(4) show ?thesis by blast
  next
    case (approved m' a t u)
    let ?t = "log_audit (Some (user_id u)) ''department_auto_publish'' ''draft'' (Some (draft_id d)) t"
    note round = approved_round [OF approved(3) Cons.prems(2) assms(3)]
    show ?thesis
    proof (cases "get_row draft_id i (draft_table s') = get_row draft_id i (draft_table ?t)")
      case True
      then have "draft_id d = i" using decides_other [OF round(1), of i] Cons.prems(4) by fastforce
      with True round(1) approved(2) show ?thesis by auto
    next
      case False
      have IH: "\<exists>q \<in> set ds. draft_id q = i \<and> (\<exists>w s0 s1. publishable high_risk departments ?t q w
          \<and> get_row draft_id i (draft_table s0) = get_row draft_id i (draft_table ?t)
          \<and> get_row draft_id i (draft_table s1) = get_row draft_id i (draft_table s')
          \<and> decides w i Approved s0 s1)"
        by (rule Cons.IH [OF approved(1) round(2)]) (use Cons.prems(3) False in auto)
      then have "draft_id d \<noteq> i" using Cons.prems(3) by auto
      then have "get_row draft_id i (draft_table ?t) = get_row draft_id i (draft_table s)"
        using decides_other [OF round(1), of i] by simp
      with IH show ?thesis unfolding publishable_cong [OF round(3)] by auto
    qed
  qed
qed simp

lemma publish_loop_all:
  assumes "publish_loop steps high_risk now departments ds False m s = (Inr m', s')"
    and "unique_key draft_id (draft_table s)" "quiet_steps steps" "distinct (map draft_id ds)"
    and "d \<in> set (butlast ds)" "publishable high_risk departments s d u"
  shows "\<exists>d'. get_row draft_id (draft_id d) (draft_table s') = Some d' \<and> d_status d' = Approved"
  using assms(1,2,4,5,6)
proof (induction ds arbitrary: m s)
  case (Cons q ds)
  have ne: "ds \<noteq> []" using Cons.prems(4) by (auto split: if_splits)
  from Cons.prems(1) show ?case
  proof (cases rule: publish_loop_Cons)
    case (left k)
    then have "d \<noteq> q" using Cons.prems(5) by blast
    with Cons.IH [OF left(1) Cons.prems(2) _ _ Cons.prems(5)] Cons.prems(3,4) ne show ?thesis by auto
  next
    case (refused k e t w)
    with publish_loop_expired ne show ?thesis by blast
  next
    case (approved k a t w)
    let ?t = "log_audit (Some (user_id w)) ''department_auto_publish'' ''draft'' (Some (draft_id q)) t"
    note round = approved_round [OF approved(3) Cons.prems(2) assms(3)]
    show ?thesis
    proof (cases "d = q")
      case True
      have "draft_id q \<notin> draft_id ` set ds" using Cons.prems(3) by simp
      have "get_row draft_id (draft_id q) (draft_table s') = get_row draft_id (draft_id q) (draft_table ?t)"
      proof (rule ccontr)
        assume "\<not> ?thesis"
        from publish_loop_rows [OF approved(1) round(2) assms(3) _ this] Cons.prems(3)
        obtain x where "x \<in> set ds" "draft_id x = draft_id q" by auto
        then have "draft_id q \<in> draft_id ` set ds" by (metis imageI)
        with \<open>draft_id q \<notin> draft_id ` set ds\<close> show False by contradiction
      qed
      with True round(1) show ?thesis by (auto simp: decides_def)
    next
      case False
      with Cons.IH [OF approved(1) round(2)] Cons.prems(3-5) ne show ?thesis
        unfolding publishable_cong [OF round(3)] by auto
    qed
  qed
qed simp

section \<open>Properties\<close>

text \<open>
  The rule that governs a draft. Among the active rules of the draft's company whose filters
  all match, the one with the lowest priority number decides, the id breaking ties; the order
  in which the rules are listed does not matter, and there is none exactly when no rule matches.
\<close>

theorem select_rule_correct:
  assumes "unique_key pr_id rules"
  shows "(case select_rule high_risk rules d conn of
      None \<Rightarrow> \<forall>q \<in> set rules. \<not> rule_applies high_risk q d conn
    | Some r \<Rightarrow> r \<in> set rules \<and> rule_applies high_risk r d conn \<and> pr_active r
        \<and> pr_company r = d_company d
        \<and> (\<forall>q \<in> set rules. rule_applies high_risk q d conn \<longrightarrow> q \<noteq> r \<longrightarrow>
             pr_priority r < pr_priority q \<or> pr_priority r = pr_priority q \<and> pr_id r < pr_id q))
    \<and> (set rules' = set rules \<longrightarrow> select_rule high_risk rules' d conn = select_rule high_risk rules d conn)"
proof -
  have inj: "q = r" if "q \<in> set rules" "r \<in> set rules" "pr_id q = pr_id r" for q r
    using unique_key_get_row [OF assms] that by (metis option.inject)
  have less: "pr_priority r < pr_priority q \<or> pr_priority r = pr_priority q \<and> pr_id r < pr_id q"
    if "select_rule high_risk rules d conn = Some r" "q \<in> set rules" "rule_applies high_risk q d conn" "q \<noteq> r" for r q
    using select_rule_Some [OF that(1)] that(2-4) inj [of q r] by (force simp: less_eq_prod_def)
  have perm: "select_rule high_risk rules' d conn = select_rule high_risk rules d conn" if "set rules' = set rules"
  proof (cases "select_rule high_risk rules d conn")
    case None
    then have "select_rule high_risk rules' d conn = None" using that by (simp add: select_rule_None)
    with None show ?thesis by simp
  next
    case (Some r)
    then have "select_rule high_risk rules' d conn \<noteq> None"
      using select_rule_Some(1,2) [OF Some] that unfolding select_rule_None by blast
    then obtain r' where r': "select_rule high_risk rules' d conn = Some r'" by blast
    note a = select_rule_Some [OF Some] and b = select_rule_Some [OF r']
    have "(pr_priority r, pr_id r) = (pr_priority r', pr_id r')"
      using a(3) [of r'] b(3) [of r] a(1,2) b(1,2) that by (intro antisym) auto
    then show ?thesis using inj [of r r'] a(1) b(1) that Some r' by simp
  qed
  have applies: "rule_applies high_risk q d conn \<Longrightarrow> pr_active q \<and> pr_company q = d_company d" for q
    by (auto simp: rule_applies_def split: if_splits)
  have "case select_rule high_risk rules d conn of
      None \<Rightarrow> \<forall>q \<in> set rules. \<not> rule_applies high_risk q d conn
    | Some r \<Rightarrow> r \<in> set rules \<and> rule_applies high_risk r d conn \<and> pr_active r
        \<and> pr_company r = d_company d
        \<and> (\<forall>q \<in> set rules. rule_applies high_risk q d conn \<longrightarrow> q \<noteq> r \<longrightarrow>
             pr_priority r < pr_priority q \<or> pr_priority r = pr_priority q \<and> pr_id r < pr_id q)"
  proof (cases "select_rule high_risk rules d conn")
    case None
    with None [unfolded select_rule_None] show ?thesis by simp
  next
    case (Some r)
    note r = select_rule_Some(1,2) [OF Some]
    show ?thesis using Some r applies [OF r(2)] less [OF Some] by simp
  qed
  with perm show ?thesis by blast
qed

definition lead_rule :: approval_rule where
  "lead_rule = \<lparr>pr_id = 1, pr_company = ''acme'', pr_name = ''lectures'', pr_active = True,
     pr_priority = 10, pr_connector = None, pr_dept = Some '' hr '', pr_extensions = None,
     pr_max_similarity = None, pr_risk_tiers = Some [''standard''], pr_instruction = ''approve'',
     pr_can_approve = True, pr_can_reject = False, pr_created_by = Some 7\<rparr>"

theorem select_rule_correct_witness:
  "select_rule [] [lead_rule\<lparr>pr_id := 2\<rparr>, lead_rule] blank_draft None = Some lead_rule"
proof -
  have one: "unique_key pr_id [lead_rule, lead_rule\<lparr>pr_id := 2\<rparr>]"
    by (simp add: unique_key_def lead_rule_def)
  have "select_rule [] [lead_rule, lead_rule\<lparr>pr_id := 2\<rparr>] blank_draft None = Some lead_rule"
    by code_simp
  then show ?thesis
    using select_rule_correct [OF one, of "[]" blank_draft None "[lead_rule\<lparr>pr_id := 2\<rparr>, lead_rule]"]
    by (simp add: insert_commute)
qed


definition agent_sample :: agent_settings where
  "agent_sample = \<lparr>ag_enabled = True, ag_provider = True, ag_high_risk = [], ag_batch_limit = 5,
     ag_ask = (\<lambda>_ _. Some ''```json {x} ```''),
     ag_loads = (\<lambda>_. Some \<lparr>pl_decision = Some ''approve'', pl_repr = ''approve'', pl_reason = ''fits''\<rparr>)\<rparr>"

definition agent_db :: db where
  "agent_db = approval_db\<lparr>user_table := [hr_ceo]\<rparr>"


text \<open>
  C32: what a department without review publishes. A draft the sweep changed was pending and
  prepared, in an active department of the company that requires no review, not of high risk,
  and it was approved as the person named on the department, who is active and may approve it.
\<close>

theorem auto_publish_authorized:
  assumes "auto_publish_run steps high_risk batch now company limit s = (res, s')"
    and "unique_key draft_id (draft_table s)" "quiet_steps steps"
    and "get_row draft_id i (draft_table s') \<noteq> get_row draft_id i (draft_table s)"
  shows "\<exists>d d' dep a u. get_row draft_id i (draft_table s) = Some d
    \<and> get_row draft_id i (draft_table s') = Some d' \<and> d_status d' = Approved
    \<and> d_company d = company \<and> d_status d = Pending \<and> \<not> preparing d
    \<and> compute_draft_risk_tier high_risk d \<noteq> HIGH_RISK
    \<and> dep \<in> set (department_table s) \<and> dept_company dep = company \<and> dept_active dep
    \<and> \<not> review_required dep \<and> d_dept d = Some (dept_name dep) \<and> auto_publish_by dep = Some a
    \<and> get_user_by_id s a None = Some u \<and> u_active u \<and> can_approve_draft u d
    \<and> \<not> outside_company u d \<and> reviewed_by d' = Some (user_id u)"
proof -
  let ?deps = "open_departments s company"
  let ?q = "auto_publish_queue s company (map fst ?deps) (sweep_limit limit batch)"
  obtain m where loop: "publish_loop steps high_risk now ?deps ?q False m s = (res, s')"
    using assms(1,4) unfolding auto_publish_run_def by (auto simp: Let_def split: if_splits)
  have "distinct (map draft_id ?q)" unfolding auto_publish_queue_def by (rule distinct_queue [OF assms(2)])
  from publish_loop_rows [OF loop assms(2,3) this assms(4)] obtain d u s0 s1 where
    d: "d \<in> set ?q" "draft_id d = i" and p: "publishable high_risk ?deps s d u"
    and rows: "get_row draft_id i (draft_table s0) = get_row draft_id i (draft_table s)"
      "get_row draft_id i (draft_table s1) = get_row draft_id i (draft_table s')"
    and dec: "decides u i Approved s0 s1" by blast
  have q: "d \<in> set (draft_table s)" "d_company d = company" "d_status d = Pending" "\<not> preparing d"
      "d_dept d \<in> Some ` set (map fst ?deps)"
    using d(1) unfolding auto_publish_queue_def by (auto dest!: in_set_takeD)
  have row: "get_row draft_id i (draft_table s) = Some d"
    using unique_key_get_row [OF assms(2) q(1)] d(2) by simp
  obtain a where a: "map_of ?deps (or_else (d_dept d) []) = Some a" "get_user_by_id s a None = Some u"
      "u_active u" "compute_draft_risk_tier high_risk d \<noteq> HIGH_RISK"
    using p unfolding publishable_def by blast
  have "d_dept d = Some (or_else (d_dept d) [])" using q(5) by (auto simp: or_else_def)
  moreover have "(or_else (d_dept d) [], a) \<in> set ?deps" using a(1) by (rule map_of_SomeD)
  then obtain dep where "dep \<in> set (department_table s)" "dept_company dep = company" "dept_active dep"
      "\<not> review_required dep" "auto_publish_by dep = Some a" "dept_name dep = or_else (d_dept d) []"
    by (auto simp: open_departments_def List.map_filter_def split: if_splits)
  moreover obtain d' where "get_row draft_id i (draft_table s') = Some d'" "d_status d' = Approved"
      "reviewed_by d' = Some (user_id u)" "can_approve_draft u d" "\<not> outside_company u d"
    using dec rows row by (auto simp: decides_def)
  ultimately show ?thesis using row q a by metis
qed

definition open_department :: department where
  "open_department = blank_department\<lparr>review_required := False, auto_publish_by := Some 7\<rparr>"

definition open_db :: db where
  "open_db = agent_db\<lparr>department_table := [open_department]\<rparr>"

theorem auto_publish_authorized_witness:
  "\<exists>d'. get_row draft_id 1 (draft_table (snd (auto_publish_run [] [] 5 9 ''acme'' None open_db))) = Some d'
     \<and> d_status d' = Approved"
proof -
  let ?run = "auto_publish_run [] [] 5 9 ''acme'' None open_db"
  have st: "map_option d_status (get_row draft_id 1 (draft_table (snd ?run))) = Some Approved"
    "map_option d_status (get_row draft_id 1 (draft_table open_db)) = Some Pending"
    by code_simp+
  then have ne: "get_row draft_id 1 (draft_table (snd ?run)) \<noteq> get_row draft_id 1 (draft_table open_db)"
    by auto
  have uniq: "unique_key draft_id (draft_table open_db)"
    by (simp add: open_db_def agent_db_def approval_db_def unique_key_def)
  have run: "?run = (fst ?run, snd ?run)" by simp
  from auto_publish_authorized [OF run uniq _ ne] show ?thesis
    by (auto simp: quiet_steps_def)
qed

text \<open>
  One refused draft stops the sweep. When a draft that is not the last of the queue, of
  ordinary risk and with an active person to act as, is not approved by the end, the run has
  failed with \<open>MissingGreenlet\<close>: the drafts after it were not looked at, although the loop means
  to leave a refused draft for review and go on.
\<close>

theorem auto_publish_stops_at_refusal:
  assumes "auto_publish_run steps high_risk batch now company limit s = (res, s')"
    and "unique_key draft_id (draft_table s)" "quiet_steps steps"
    and "d \<in> set (butlast (auto_publish_queue s company (map fst (open_departments s company))
           (sweep_limit limit batch)))"
    and "publishable high_risk (open_departments s company) s d u"
    and "map_option d_status (get_row draft_id (draft_id d) (draft_table s')) \<noteq> Some Approved"
  shows "res = raise 500 ''MissingGreenlet''"
proof (cases res)
  case (Inl e)
  let ?deps = "open_departments s company"
  have "\<exists>m. publish_loop steps high_risk now ?deps
      (auto_publish_queue s company (map fst ?deps) (sweep_limit limit batch)) False m s = (res, s')"
    using assms(1) Inl unfolding auto_publish_run_def by (auto simp: Let_def split: if_splits)
  then obtain m where loop: "publish_loop steps high_risk now ?deps
      (auto_publish_queue s company (map fst ?deps) (sweep_limit limit batch)) False m s = (Inl e, s')"
    using Inl by auto
  have "publish_loop steps high_risk now ds ps x k t = (Inl e, t') \<Longrightarrow> e = HTTPException 500 (Text ''MissingGreenlet'')"
    for ds ps x k t t'
  proof (induction ps arbitrary: x k t)
    case (Cons p ps)
    show ?case
    proof (cases x)
      case True
      with Cons.prems show ?thesis by simp
    next
      case False
      with Cons.prems have "publish_loop steps high_risk now ds (p # ps) False k t = (Inl e, t')" by simp
      then show ?thesis by (cases rule: publish_loop_Cons) (blast intro: Cons.IH)+
    qed
  qed simp
  with loop Inl show ?thesis by blast
next
  case (Inr m')
  let ?deps = "open_departments s company"
  let ?q = "auto_publish_queue s company (map fst ?deps) (sweep_limit limit batch)"
  have "?deps \<noteq> []" using assms(5) by (auto simp: publishable_def)
  then obtain m where loop: "publish_loop steps high_risk now ?deps ?q False m s = (Inr m', s')"
    using assms(1) Inr unfolding auto_publish_run_def by (auto simp: Let_def)
  have "distinct (map draft_id ?q)" unfolding auto_publish_queue_def by (rule distinct_queue [OF assms(2)])
  from publish_loop_all [OF loop assms(2,3) this assms(4,5)] assms(6) show ?thesis by auto
qed

definition two_open_drafts :: db where
  "two_open_drafts = open_db\<lparr>draft_table := [blank_draft\<lparr>created_by := Some 3, requires_update_confirmation := True\<rparr>,
     blank_draft\<lparr>draft_id := 2, created_by := Some 3, d_created_at := 1\<rparr>]\<rparr>"

theorem auto_publish_stops_at_refusal_witness:
  "fst (auto_publish_run [] [] 5 9 ''acme'' None two_open_drafts) = raise 500 ''MissingGreenlet''"
proof -
  let ?run = "auto_publish_run [] [] 5 9 ''acme'' None two_open_drafts"
  let ?d = "blank_draft\<lparr>created_by := Some 3, requires_update_confirmation := True\<rparr>"
  let ?q = "auto_publish_queue two_open_drafts ''acme'' (map fst (open_departments two_open_drafts ''acme'')) (sweep_limit None 5)"
  have "butlast ?q = [?d]" by code_simp
  then have d: "?d \<in> set (butlast ?q)" by simp
  have deps: "open_departments two_open_drafts ''acme'' = [(''HR'', 7)]" by code_simp
  have risk: "compute_draft_risk_tier [] ?d \<noteq> HIGH_RISK" by code_simp
  have u: "publishable [] (open_departments two_open_drafts ''acme'') two_open_drafts ?d hr_ceo"
    unfolding publishable_def deps using risk
    by (simp add: get_user_by_id_def two_open_drafts_def open_db_def agent_db_def blank_draft_def identity_scope_def)
  have uniq: "unique_key draft_id (draft_table two_open_drafts)"
    by (simp add: two_open_drafts_def unique_key_def blank_draft_def)
  have st: "map_option d_status (get_row draft_id 1 (draft_table (snd ?run))) = Some Pending" by code_simp
  have run: "?run = (fst ?run, snd ?run)" by simp
  have "map_option d_status (get_row draft_id (draft_id ?d) (draft_table (snd ?run))) \<noteq> Some Approved"
    using st by (simp add: blank_draft_def del: map_option_eq_Some)
  from auto_publish_stops_at_refusal [OF run uniq _ d u this] show ?thesis
    by (simp add: quiet_steps_def)
qed

text \<open>
  The agent fails the same way, and loses its record too: here it left a first draft to a
  reviewer, was refused on a second one, and nothing of either is on the audit log.
\<close>

definition two_rules :: "approval_rule list" where
  "two_rules = [lead_rule, lead_rule\<lparr>pr_id := 2, pr_dept := Some ''IT'', pr_can_approve := False\<rparr>]"

lemma agent_loses_its_record:
  "case agent_run [] storage_off agent_sample 9 two_rules ''acme'' None False
       (agent_db\<lparr>draft_table := [blank_draft\<lparr>created_by := Some 3, d_dept := Some ''IT''\<rparr>,
          blank_draft\<lparr>draft_id := 2, created_by := Some 3, requires_update_confirmation := True,
            d_created_at := 1\<rparr>]\<rparr>) of
     (r, s) \<Rightarrow> status_of r = Some 500 \<and> audit_table s = []"
  by code_simp

end
