(* ===== verification/Splitter.thy ===== *)
theory Splitter
  imports Chunker
begin

text \<open>
  \<open>src/domain/document_splitter.py\<close>: the review candidates a document is cut into. A document
  of at most 48,000 characters is one candidate; a longer one is cut near paragraph boundaries
  when automatic splitting is on. Offsets count characters of the stripped text.
\<close>

section \<open>Model\<close>

definition MAX_REVIEW_CANDIDATE_CHARS :: nat where
  "MAX_REVIEW_CANDIDATE_CHARS = 48000"

text \<open>\<open>^#{1,6}\s+\S\<close> on a stripped line.\<close>

definition is_markdown_heading :: "string \<Rightarrow> bool" where
  "is_markdown_heading clean =
     (let hashes = takeWhile (\<lambda>c. c = CHR ''#'') clean;
          rest = dropWhile (\<lambda>c. c = CHR ''#'') clean
      in 1 \<le> length hashes \<and> length hashes \<le> 6 \<and> rest \<noteq> [] \<and> isspace (hd rest)
         \<and> dropWhile isspace rest \<noteq> [])"

definition heading_text :: "string \<Rightarrow> string" where
  "heading_text clean = strip (dropWhile (\<lambda>c. c = CHR ''#'') clean)"

text \<open>The em dash of the fallback title is outside the range of \<open>char\<close>; 0x97 stands for it.\<close>

definition part_title :: "string \<Rightarrow> nat \<Rightarrow> string" where
  "part_title fallback index = fallback @ '' '' @ [CHR 0x97] @ '' part '' @ show_nat index"

fun title_of_lines :: "string list \<Rightarrow> nat \<Rightarrow> string \<Rightarrow> string \<times> string option" where
  "title_of_lines [] index fallback = (take 255 (part_title fallback index), None)"
| "title_of_lines (line # lines) index fallback =
     (let clean = strip line in
      if is_markdown_heading clean
      then (or_else (Some (take 255 (heading_text clean))) (part_title fallback index),
            Some (take 255 (heading_text clean)))
      else title_of_lines lines index fallback)"

definition candidate_title :: "string \<Rightarrow> nat \<Rightarrow> string \<Rightarrow> string \<times> string option" where
  "candidate_title body index fallback = title_of_lines (splitlines body) index fallback"

record split_part =
  sp_position :: nat
  sp_title :: string
  sp_body :: string
  sp_start :: nat
  sp_end :: nat
  sp_heading :: "string option"

text \<open>\<open>text[a:b]\<close> and \<open>text.rfind(pattern, a, b)\<close>.\<close>

definition slice :: "'a list \<Rightarrow> nat \<Rightarrow> nat \<Rightarrow> 'a list" where
  "slice xs a b = take (b - a) (drop a xs)"

definition rfind :: "string \<Rightarrow> string \<Rightarrow> nat \<Rightarrow> nat \<Rightarrow> int" where
  "rfind pat s a b =
     (let hits = filter (\<lambda>i. i + length pat \<le> b \<and> slice s i (i + length pat) = pat) [a..<Suc b]
      in if hits = [] then -1 else int (last hits))"

definition part_end :: "string \<Rightarrow> nat \<Rightarrow> nat" where
  "part_end s start =
     (let stop = min (start + MAX_REVIEW_CANDIDATE_CHARS) (length s);
          boundary = max (rfind [newline, newline] s start stop) (rfind [newline] s start stop)
      in if stop < length s \<and> boundary > int start + int (MAX_REVIEW_CANDIDATE_CHARS div 2)
         then nat boundary else stop)"

definition part_span :: "string \<Rightarrow> nat \<Rightarrow> nat \<times> string" where
  "part_span s start =
     (let stop = part_end s start; body = strip (slice s start stop) in
      if body = []
      then (let full = min (start + MAX_REVIEW_CANDIDATE_CHARS) (length s)
            in (full, strip (slice s start full)))
      else (stop, body))"

definition skip_space :: "string \<Rightarrow> nat \<Rightarrow> nat" where
  "skip_space s i = i + length (takeWhile isspace (drop i s))"

lemma rfind_less: "rfind pat s a b \<le> int b"
proof -
  let ?hits = "filter (\<lambda>i. i + length pat \<le> b \<and> slice s i (i + length pat) = pat) [a..<Suc b]"
  have "?hits \<noteq> [] \<Longrightarrow> last ?hits \<in> set ?hits" by (rule last_in_set)
  then show ?thesis by (auto simp: rfind_def Let_def)
qed

lemma part_end_bounds:
  assumes "start < length s"
  shows "start < part_end s start" "part_end s start \<le> length s"
    "part_end s start \<le> start + MAX_REVIEW_CANDIDATE_CHARS"
    "part_end s start < length s \<Longrightarrow> start + MAX_REVIEW_CANDIDATE_CHARS div 2 < part_end s start"
proof -
  define stop where "stop = min (start + MAX_REVIEW_CANDIDATE_CHARS) (length s)"
  define boundary where
    "boundary = max (rfind [newline, newline] s start stop) (rfind [newline] s start stop)"
  have "boundary \<le> int stop" unfolding boundary_def by (simp add: rfind_less)
  moreover have "part_end s start = (if stop < length s
      \<and> boundary > int start + int (MAX_REVIEW_CANDIDATE_CHARS div 2) then nat boundary else stop)"
    unfolding part_end_def Let_def stop_def boundary_def by (rule refl)
  ultimately have "start < part_end s start \<and> part_end s start \<le> length s
      \<and> part_end s start \<le> start + MAX_REVIEW_CANDIDATE_CHARS
      \<and> (part_end s start < length s \<longrightarrow> start + MAX_REVIEW_CANDIDATE_CHARS div 2 < part_end s start)"
    using assms unfolding stop_def MAX_REVIEW_CANDIDATE_CHARS_def by (auto split: if_splits)
  then show "start < part_end s start" "part_end s start \<le> length s"
    "part_end s start \<le> start + MAX_REVIEW_CANDIDATE_CHARS"
    "part_end s start < length s \<Longrightarrow> start + MAX_REVIEW_CANDIDATE_CHARS div 2 < part_end s start"
    by blast+
qed

lemma part_span_after: "start < length s \<Longrightarrow> start < fst (part_span s start)"
  using part_end_bounds(1) [of start s]
  by (auto simp: part_span_def Let_def MAX_REVIEW_CANDIDATE_CHARS_def)

text \<open>The loop: every round moves the start forward.\<close>

function parts_from :: "string \<Rightarrow> string \<Rightarrow> nat \<Rightarrow> nat \<Rightarrow> split_part list" where
  "parts_from title s start index =
     (if start < length s
      then (case part_span s start of (stop, body) \<Rightarrow>
              (case candidate_title body index title of (t, h) \<Rightarrow>
                 \<lparr>sp_position = index, sp_title = t, sp_body = body, sp_start = start,
                  sp_end = stop, sp_heading = h\<rparr>
                 # parts_from title s (skip_space s (fst (part_span s start))) (Suc index)))
      else [])"
  by pat_completeness auto
termination
  by (relation "measure (\<lambda>(_, s, start, _). length s - start)")
     (auto simp: skip_space_def dest: part_span_after intro!: diff_less_mono2 trans_less_add1)

declare parts_from.simps [simp del]

definition large_document_candidates :: "string \<Rightarrow> string \<Rightarrow> split_part list" where
  "large_document_candidates title s = parts_from title s 0 1"

section \<open>Pages\<close>

record page =
  page_number :: "int option"
  page_text :: "string option"

record source_range =
  offset_start :: nat
  offset_end :: nat
  section_name :: "string option"
  page_range :: "(int option \<times> int option) option"

fun page_scan ::
  "page list \<Rightarrow> nat \<Rightarrow> nat \<Rightarrow> nat \<Rightarrow> int option \<Rightarrow> int option \<Rightarrow> int option \<times> int option" where
  "page_scan [] start stop cursor first final = (first, final)"
| "page_scan (p # ps) start stop cursor first final =
     (let page_end = cursor + length (or_else (page_text p) []) in
      page_scan ps start stop page_end
        (if first = None \<and> stop > cursor then page_number p else first)
        (if start < page_end then page_number p else final))"

definition position_in :: "page list \<Rightarrow> nat \<Rightarrow> nat \<Rightarrow> string option \<Rightarrow> source_range" where
  "position_in pages start stop h =
     \<lparr>offset_start = start, offset_end = stop, section_name = h,
      page_range =
        (if pages = [] then None
         else case page_scan pages start stop 0 None None of (first, final) \<Rightarrow>
                Some (first, if final = None \<or> final = Some 0 then first else final))\<rparr>"

definition split_document_candidates ::
  "bool \<Rightarrow> string \<Rightarrow> string \<Rightarrow> page list \<Rightarrow> (split_part \<times> source_range) list" where
  "split_document_candidates auto_split title s pages =
     (let clean = strip s in
      if clean = [] then []
      else if length clean \<le> MAX_REVIEW_CANDIDATE_CHARS \<or> \<not> auto_split
      then (case candidate_title clean 1 title of (t, h) \<Rightarrow>
              [(\<lparr>sp_position = 1, sp_title = t, sp_body = clean, sp_start = 0,
                 sp_end = length clean, sp_heading = h\<rparr>,
                position_in pages 0 (length clean) h)])
      else map (\<lambda>p. (p, position_in pages (sp_start p) (sp_end p) (sp_heading p)))
             (large_document_candidates title clean))"

section \<open>What a cut looks like\<close>

text \<open>
  The parts from offset \<open>a\<close> on: each begins where the whitespace after the previous one ends, is
  the stripped text of its range, not empty and within the limit, and only the last one may be
  shorter than half the limit.
\<close>

fun covers :: "string \<Rightarrow> nat \<Rightarrow> split_part list \<Rightarrow> bool" where
  "covers s a [] = (a = length s)"
| "covers s a (p # ps) =
     (sp_start p = a \<and> a < sp_end p \<and> sp_end p \<le> length s
      \<and> sp_end p \<le> a + MAX_REVIEW_CANDIDATE_CHARS
      \<and> sp_body p = strip (slice s a (sp_end p)) \<and> sp_body p \<noteq> []
      \<and> (ps \<noteq> [] \<longrightarrow> a + MAX_REVIEW_CANDIDATE_CHARS div 2 < sp_end p)
      \<and> covers s (skip_space s (sp_end p)) ps)"

lemma slice_Cons: "a < b \<Longrightarrow> a < length s \<Longrightarrow> slice s a b = s ! a # slice s (Suc a) b"
  by (simp add: slice_def Cons_nth_drop_Suc [symmetric] Suc_diff_Suc take_Cons')

lemma strip_slice_nonempty:
  assumes "a < b" "a < length s" "\<not> isspace (s ! a)"
  shows "strip (slice s a b) \<noteq> []"
  using assms by (auto simp: slice_Cons ns_Cons dest: strip_empty_ns)

lemma skip_space_slice: "slice s i (skip_space s i) = takeWhile isspace (drop i s)"
  by (simp add: slice_def skip_space_def takeWhile_eq_take [symmetric])

lemma skip_space_bounds:
  assumes "i \<le> length s"
  shows "i \<le> skip_space s i" "skip_space s i \<le> length s"
  using assms length_takeWhile_le [of isspace "drop i s"] by (auto simp: skip_space_def)

lemma skip_space_stop:
  assumes "skip_space s i < length s"
  shows "\<not> isspace (s ! skip_space s i)"
  using assms nth_length_takeWhile [of isspace "drop i s"] by (simp add: skip_space_def)

lemma part_span_nonspace:
  assumes "start < length s" "\<not> isspace (s ! start)"
  shows "part_span s start = (part_end s start, strip (slice s start (part_end s start)))"
  using strip_slice_nonempty [OF part_end_bounds(1) [OF assms(1)] assms]
  by (simp add: part_span_def Let_def)

lemma parts_from_covers:
  assumes "start \<le> length s" "start < length s \<Longrightarrow> \<not> isspace (s ! start)"
  shows "covers s start (parts_from title s start index)
    \<and> map sp_position (parts_from title s start index)
        = [index..<index + length (parts_from title s start index)]"
  using assms
proof (induction title s start index rule: parts_from.induct)
  case (1 title s start index)
  show ?case
  proof (cases "start < length s")
    case True
    let ?stop = "part_end s start" and ?body = "strip (slice s start (part_end s start))"
    note span = part_span_nonspace [OF True 1(3) [OF True]]
    note bounds = part_end_bounds [OF True]
    obtain t h where th: "candidate_title ?body index title = (t, h)" by fastforce
    let ?rest = "parts_from title s (skip_space s ?stop) (Suc index)"
    have IH: "covers s (skip_space s ?stop) ?rest"
      "map sp_position ?rest = [Suc index..<Suc index + length ?rest]"
      using 1(1) [OF True span [symmetric] th [symmetric]] span skip_space_bounds [OF bounds(2)]
        skip_space_stop by simp_all
    have "?rest \<noteq> [] \<Longrightarrow> ?stop < length s"
      using bounds(2) skip_space_bounds(1) [OF bounds(2)] by (subst (asm) parts_from.simps) (auto split: if_splits)
    moreover have "?body \<noteq> []"
      by (rule strip_slice_nonempty [OF bounds(1) True 1(3) [OF True]])
    moreover have "parts_from title s start index =
        \<lparr>sp_position = index, sp_title = t, sp_body = ?body, sp_start = start,
         sp_end = ?stop, sp_heading = h\<rparr> # ?rest"
      by (subst parts_from.simps) (simp add: True span th)
    moreover have "[index..<index + Suc n] = index # [Suc index..<Suc index + n]" for n
      by (simp add: upt_conv_Cons del: upt_Suc)
    ultimately show ?thesis using IH bounds by (simp del: upt_Suc)
  next
    case False
    with 1(2) show ?thesis by (subst (1 2 3) parts_from.simps) simp
  qed
qed

lemma drop_slice: "a \<le> b \<Longrightarrow> drop a s = slice s a b @ drop b s"
  using append_take_drop_id [of "b - a" "drop a s"] by (simp add: slice_def)

lemma covers_text:
  assumes "covers s a ps"
  shows "concat (map (\<lambda>p. ns (sp_body p)) ps) = ns (drop a s)"
  using assms
proof (induction ps arbitrary: a)
  case (Cons p ps)
  let ?e = "sp_end p"
  have e: "a < ?e" "?e \<le> length s" "covers s (skip_space s ?e) ps" "ns (sp_body p) = ns (slice s a ?e)"
    using Cons.prems by auto
  have "drop a s = slice s a ?e @ drop ?e s"
    by (rule drop_slice) (use e(1) in simp)
  moreover have "drop ?e s = slice s ?e (skip_space s ?e) @ drop (skip_space s ?e) s"
    by (rule drop_slice) (use skip_space_bounds [OF e(2)] in simp)
  moreover have "ns (slice s ?e (skip_space s ?e)) = []"
    unfolding skip_space_slice
    by (rule ns_all_space) (auto simp: list_all_iff dest: set_takeWhileD)
  ultimately show ?case using Cons.IH [OF e(3)] e(4) by simp
qed simp

lemma covers_count:
  assumes "covers s a ps"
  shows "length ps * (MAX_REVIEW_CANDIDATE_CHARS div 2) \<le> length s - a + MAX_REVIEW_CANDIDATE_CHARS div 2"
  using assms
proof (induction ps arbitrary: a)
  case (Cons p ps)
  have e: "a < sp_end p" "sp_end p \<le> length s" "covers s (skip_space s (sp_end p)) ps"
    "ps \<noteq> [] \<Longrightarrow> a + MAX_REVIEW_CANDIDATE_CHARS div 2 < sp_end p"
    using Cons.prems by auto
  show ?case
  proof (cases "ps = []")
    case False
    from Cons.IH [OF e(3)] e(2) e(4) [OF False] skip_space_bounds(1) [OF e(2)] show ?thesis by simp
  qed simp
qed simp

lemma page_scan_numbered:
  assumes "first \<noteq> None"
  shows "fst (page_scan pages start stop cursor first final) = first"
  using assms by (induction pages arbitrary: cursor final) (auto simp: Let_def)

lemma page_scan_last:
  assumes "start < cursor + sum_list (map (\<lambda>p. length (or_else (page_text p) [])) pages)" "pages \<noteq> []"
  shows "snd (page_scan pages start stop cursor first final) = page_number (last pages)"
  using assms
proof (induction pages arbitrary: cursor first final)
  case (Cons p ps)
  then show ?case by (cases "ps = []") (auto simp: Let_def add.assoc)
qed simp

section \<open>Properties\<close>

lemma strip_ends: "strip s \<noteq> [] \<Longrightarrow> \<not> isspace (strip s ! 0)"
proof -
  assume ne: "strip s \<noteq> []"
  obtain t where "lstrip s = strip s @ t"
    using rstrip_prefix [of "lstrip s"] unfolding strip_def by blast
  then have "lstrip s \<noteq> []" "hd (lstrip s) = strip s ! 0"
    using ne by (auto simp: hd_append hd_conv_nth)
  then show ?thesis unfolding lstrip_def using hd_dropWhile by metis
qed

lemma split_parts_cover:
  assumes "strip s \<noteq> []" "\<not> length (strip s) \<le> MAX_REVIEW_CANDIDATE_CHARS" "auto_split"
  shows "covers (strip s) 0 (map fst (split_document_candidates auto_split title s pages))"
    "map (sp_position \<circ> fst) (split_document_candidates auto_split title s pages)
       = [1..<Suc (length (split_document_candidates auto_split title s pages))]"
  using parts_from_covers [of 0 "strip s" title 1] strip_ends [OF assms(1)] assms
  by (simp_all add: split_document_candidates_def Let_def large_document_candidates_def comp_def del: upt_Suc)

text \<open>
  C40: splitting a document keeps its text. For every document, with or without automatic
  splitting, the candidates carry every visible character once and in order, they are numbered
  from 1, none is empty, and there is none exactly when the document is blank.
\<close>

theorem split_document_lossless:
  "concat (map (\<lambda>(p, _). ns (sp_body p)) (split_document_candidates auto_split title s pages)) = ns s
   \<and> map (sp_position \<circ> fst) (split_document_candidates auto_split title s pages)
       = [1..<Suc (length (split_document_candidates auto_split title s pages))]
   \<and> (split_document_candidates auto_split title s pages = [] \<longleftrightarrow> strip s = [])
   \<and> list_all (\<lambda>(p, _). sp_body p \<noteq> []) (split_document_candidates auto_split title s pages)"
proof (cases "strip s = [] \<or> length (strip s) \<le> MAX_REVIEW_CANDIDATE_CHARS \<or> \<not> auto_split")
  case True
  then show ?thesis
    using ns_strip [of s] strip_empty_ns [of s]
    by (auto simp: split_document_candidates_def Let_def split: prod.splits)
next
  case False
  let ?ps = "split_document_candidates auto_split title s pages"
  have cover: "covers (strip s) 0 (map fst ?ps)" and pos: "map (sp_position \<circ> fst) ?ps = [1..<Suc (length ?ps)]"
    using split_parts_cover [of s auto_split title pages] False by auto
  have "covers t a qs \<Longrightarrow> list_all (\<lambda>p. sp_body p \<noteq> []) qs" for t a qs
    by (induction qs arbitrary: a) auto
  from this [OF cover] have "list_all (\<lambda>(p, _). sp_body p \<noteq> []) ?ps"
    by (auto simp: list_all_iff)
  moreover have "?ps \<noteq> []" using cover False by auto
  moreover have "concat (map (\<lambda>(p, _). ns (sp_body p)) ?ps) = ns s"
    using covers_text [OF cover] by (simp add: comp_def case_prod_beta')
  ultimately show ?thesis using pos False by simp
qed

text \<open>
  The cut ends and is coarse. A document of \<open>n\<close> characters is cut into at most
  \<open>n / 24000 + 1\<close> candidates, each of at most 48,000 characters when automatic splitting is on,
  each the stripped text of its own range of offsets, the ranges in order with only whitespace
  between them, and every candidate but the last covers more than 24,000 characters.
\<close>

theorem large_document_cut:
  assumes "strip s = s" "48000 < length s"
  shows "covers s 0 (map fst (split_document_candidates True title s pages))
    \<and> length (split_document_candidates True title s pages) \<le> length s div 24000 + 1
    \<and> list_all (\<lambda>(p, _). length (sp_body p) \<le> 48000) (split_document_candidates True title s pages)"
proof -
  let ?ps = "split_document_candidates True title s pages"
  have cover: "covers s 0 (map fst ?ps)"
    using split_parts_cover(1) [of s True title pages] assms
    by (cases s) (simp_all add: MAX_REVIEW_CANDIDATE_CHARS_def)
  have "length ?ps * 24000 \<le> length s + 24000"
    using covers_count [OF cover] by (simp add: MAX_REVIEW_CANDIDATE_CHARS_def)
  then have "length ?ps \<le> length s div 24000 + 1" by simp
  moreover have "covers t a qs \<Longrightarrow> list_all (\<lambda>p. length (sp_body p) \<le> 48000) qs" for t a qs
  proof (induction qs arbitrary: a)
    case (Cons q qs)
    then show ?case
      using length_strip [of "slice t a (sp_end q)"]
      by (auto simp: MAX_REVIEW_CANDIDATE_CHARS_def slice_def)
  qed simp
  from this [OF cover] have "list_all (\<lambda>(p, _). length (sp_body p) \<le> 48000) ?ps"
    by (auto simp: list_all_iff)
  ultimately show ?thesis using cover by simp
qed

definition long_line :: string where
  "long_line = replicate 50000 (CHR ''x'')"

lemma strip_replicate: "\<not> isspace c \<Longrightarrow> strip (replicate n c) = replicate n c"
proof -
  assume "\<not> isspace c"
  then have "dropWhile isspace (replicate n c) = replicate n c" for n by (cases n) auto
  then show ?thesis by (simp add: strip_def lstrip_def rstrip_def)
qed

theorem large_document_cut_witness:
  "length (split_document_candidates True ''t'' long_line []) \<le> 3"
proof -
  have "strip long_line = long_line" unfolding long_line_def
    by (rule strip_replicate) (simp add: isspace_def)
  moreover have "length long_line = 50000" by (simp add: long_line_def)
  ultimately show ?thesis using large_document_cut [of long_line "''t''" "[]"] by simp
qed

text \<open>
  The page range of a candidate is always the whole document. Whatever part of a paged
  text a candidate covers, its first page is the first page of the document and its last page
  the last one: the two comparisons of the scan are the wrong way round.
\<close>

theorem page_range_is_whole_document:
  assumes "pages \<noteq> []" "\<forall>p \<in> set pages. \<exists>n > 0. page_number p = Some n"
    and "start < stop" "stop \<le> sum_list (map (\<lambda>p. length (or_else (page_text p) [])) pages)"
  shows "page_range (position_in pages start stop h)
    = Some (page_number (hd pages), page_number (last pages))"
proof -
  obtain p ps n where p: "pages = p # ps" "page_number p = Some n"
    using assms(1,2) by (cases pages) auto
  have "fst (page_scan pages start stop 0 None None) = Some n"
    using page_scan_numbered [of "Some n" ps] assms(3) p by (auto simp: Let_def)
  moreover have "snd (page_scan pages start stop 0 None None) = page_number (last pages)"
    by (rule page_scan_last) (use assms in simp_all)
  moreover obtain m where "page_number (last pages) = Some m" "m > 0"
    using assms(1,2) last_in_set by blast
  ultimately show ?thesis using assms(1) p by (simp add: position_in_def case_prod_beta)
qed

theorem page_range_is_whole_document_witness:
  "page_range (position_in (map (\<lambda>n. \<lparr>page_number = Some n, page_text = Some ''abcde''\<rparr>) [1, 2, 3]) 5 10 None)
   = Some (Some 1, Some 3)"
  using page_range_is_whole_document
    [of "map (\<lambda>n. \<lparr>page_number = Some n, page_text = Some ''abcde''\<rparr>) [1, 2, 3]" 5 10 None]
  by simp

end
