(* ===== verification/RateLimit.thy ===== *)
theory RateLimit
  imports Prelude
begin

text \<open>
  \<open>src/core/rate_limit.py\<close> and \<open>src/core/retry.py\<close>: the sliding-window limiter kept in one
  process, the fixed-window limiter shared through Redis, and the retry loop around calls that
  may fail. The Redis client is an argument: a record of the three commands the limiter sends,
  each of which may raise. SHA-256 is an argument too.
\<close>

section \<open>The address a limiter is keyed by\<close>

record request =
  cf_connecting_ip :: "string option"
  client_host :: "string option"

definition client_ip_from_request :: "request \<Rightarrow> string" where
  "client_ip_from_request r =
     (let cf_ip = strip (or_else (cf_connecting_ip r) []) in
      if cf_ip \<noteq> [] then cf_ip
      else case client_host r of Some h \<Rightarrow> h | None \<Rightarrow> ''unknown'')"

section \<open>The limiter of one process\<close>

record memory_limiter =
  ml_limit :: int
  ml_window :: int
  ml_events :: "string \<Rightarrow> instant list"

definition memory_limiter_init :: "int \<Rightarrow> int \<Rightarrow> memory_limiter" where
  "memory_limiter_init limit window_seconds =
     \<lparr>ml_limit = limit, ml_window = seconds window_seconds, ml_events = (\<lambda>_. [])\<rparr>"

fun popleft_until :: "instant \<Rightarrow> instant list \<Rightarrow> instant list" where
  "popleft_until cutoff [] = []"
| "popleft_until cutoff (e # es) = (if e \<le> cutoff then popleft_until cutoff es else e # es)"

text \<open>
  The answer is whether the request passes and after how many seconds to retry. \<open>None\<close> is the
  \<open>IndexError\<close> of reading the oldest event of an empty deque, which a limit of zero causes.
\<close>

type_synonym answer = "(bool \<times> int) option"

definition allow :: "string \<Rightarrow> instant \<Rightarrow> memory_limiter \<Rightarrow> answer \<times> memory_limiter" where
  "allow key now l =
     (let events = popleft_until (now - ml_window l) (ml_events l key);
          pruned = l\<lparr>ml_events := (ml_events l)(key := events)\<rparr>
      in if int (length events) \<ge> ml_limit l
         then (case events of
                 [] \<Rightarrow> (None, pruned)
               | oldest # _ \<Rightarrow>
                   (Some (False, max 1 ((oldest + ml_window l - now) div seconds 1)), pruned))
         else (Some (True, 0), l\<lparr>ml_events := (ml_events l)(key := events @ [now])\<rparr>))"

text \<open>A sequence of requests, each with its key and arrival time.\<close>

fun allow_all :: "(string \<times> instant) list \<Rightarrow> memory_limiter \<Rightarrow> answer list \<times> memory_limiter" where
  "allow_all [] l = ([], l)"
| "allow_all ((key, now) # rs) l =
     (case allow key now l of (a, l1) \<Rightarrow>
        (case allow_all rs l1 of (as, l2) \<Rightarrow> (a # as, l2)))"

section \<open>The limiter shared through Redis\<close>

text \<open>A command returns \<open>None\<close> when it raises; the store may have changed all the same.\<close>

record 's redis =
  incr :: "string \<Rightarrow> 's \<Rightarrow> int option \<times> 's"
  expire :: "string \<Rightarrow> int \<Rightarrow> 's \<Rightarrow> unit option \<times> 's"
  ttl :: "string \<Rightarrow> 's \<Rightarrow> int option \<times> 's"

record redis_limiter =
  rl_namespace :: string
  rl_limit :: int
  rl_window_seconds :: int
  rl_fail_closed :: bool
  rl_fallback :: memory_limiter

definition redis_limiter_init :: "string \<Rightarrow> int \<Rightarrow> int \<Rightarrow> bool \<Rightarrow> redis_limiter" where
  "redis_limiter_init namespace limit window_seconds fail_closed =
     \<lparr>rl_namespace = namespace, rl_limit = limit, rl_window_seconds = window_seconds,
      rl_fail_closed = fail_closed, rl_fallback = memory_limiter_init limit window_seconds\<rparr>"

definition auth_rate_limiter :: redis_limiter where
  "auth_rate_limiter = redis_limiter_init ''auth'' 10 60 True"

definition source_upload_rate_limiter :: redis_limiter where
  "source_upload_rate_limiter = redis_limiter_init ''source_upload'' 10 60 False"

definition is_development_environment :: "string \<Rightarrow> bool" where
  "is_development_environment environment =
     (lower environment \<in> {''development'', ''dev'', ''local''})"

definition redis_key :: "(string \<Rightarrow> string) \<Rightarrow> redis_limiter \<Rightarrow> string \<Rightarrow> instant \<Rightarrow> string" where
  "redis_key sha256 l key now =
     ''qnsc:rate:'' @ rl_namespace l @ '':'' @
     show_int ((now div seconds 1) div rl_window_seconds l) @ '':'' @ sha256 key"

text \<open>The body of the \<open>try\<close>; \<open>None\<close> when one of its commands raised.\<close>

definition redis_decide ::
  "'s redis \<Rightarrow> redis_limiter \<Rightarrow> string \<Rightarrow> 's \<Rightarrow> (bool \<times> int) option \<times> 's" where
  "redis_decide client l rkey s =
     (case incr client rkey s of
        (None, s1) \<Rightarrow> (None, s1)
      | (Some count, s1) \<Rightarrow>
          (case (if count = 1 then expire client rkey (rl_window_seconds l + 1) s1
                 else (Some (), s1)) of
             (None, s2) \<Rightarrow> (None, s2)
           | (Some _, s2) \<Rightarrow>
               if count > rl_limit l
               then (case ttl client rkey s2 of
                       (None, s3) \<Rightarrow> (None, s3)
                     | (Some t, s3) \<Rightarrow> (Some (False, max 1 t), s3))
               else (Some (True, 0), s2)))"

definition redis_allow ::
  "(string \<Rightarrow> string) \<Rightarrow> string \<Rightarrow> 's redis \<Rightarrow> string \<Rightarrow> instant \<Rightarrow> redis_limiter \<Rightarrow> 's
     \<Rightarrow> answer \<times> redis_limiter \<times> 's" where
  "redis_allow sha256 environment client key now l s =
     (case redis_decide client l (redis_key sha256 l key now) s of
        (Some answer, s') \<Rightarrow> (Some answer, l, s')
      | (None, s') \<Rightarrow>
          if rl_fail_closed l \<and> \<not> is_development_environment environment
          then (Some (False, rl_window_seconds l), l, s')
          else (case allow key now (rl_fallback l) of
                  (a, f) \<Rightarrow> (a, l\<lparr>rl_fallback := f\<rparr>, s')))"

fun redis_allow_all ::
  "(string \<Rightarrow> string) \<Rightarrow> string \<Rightarrow> 's redis \<Rightarrow> (string \<times> instant) list \<Rightarrow> redis_limiter \<Rightarrow> 's
     \<Rightarrow> answer list \<times> redis_limiter \<times> 's" where
  "redis_allow_all sha256 environment client [] l s = ([], l, s)"
| "redis_allow_all sha256 environment client ((key, now) # rs) l s =
     (case redis_allow sha256 environment client key now l s of (a, l1, s1) \<Rightarrow>
        (case redis_allow_all sha256 environment client rs l1 s1 of (as, l2, s2) \<Rightarrow>
           (a # as, l2, s2)))"

section \<open>Retrying\<close>

datatype 'e retry_error = Raised 'e | RuntimeError

text \<open>
  The \<open>k\<close>-th call of the operation has outcome \<open>operation k\<close>. The result comes with the delays
  slept. The statement after the loop is reached only without any attempt, where no error was
  seen.
\<close>

function retry_from ::
  "nat \<Rightarrow> nat \<Rightarrow> rat \<Rightarrow> ('e \<Rightarrow> bool) \<Rightarrow> (nat \<Rightarrow> 'e + 'a) \<Rightarrow> ('e retry_error + 'a) \<times> rat list" where
  "retry_from attempt attempts base_delay give_up_on operation =
     (if attempt \<ge> attempts then (Inl RuntimeError, [])
      else case operation attempt of
        Inr x \<Rightarrow> (Inr x, [])
      | Inl e \<Rightarrow>
          if give_up_on e \<or> attempt = attempts - 1 then (Inl (Raised e), [])
          else (case retry_from (Suc attempt) attempts base_delay give_up_on operation of
                  (r, ds) \<Rightarrow> (r, base_delay * 2 ^ attempt # ds)))"
  by pat_completeness auto
termination by (relation "measure (\<lambda>(attempt, attempts, _). attempts - attempt)") auto

declare retry_from.simps [simp del]

definition with_exponential_retry ::
  "(nat \<Rightarrow> 'e + 'a) \<Rightarrow> int \<Rightarrow> rat \<Rightarrow> ('e \<Rightarrow> bool) \<Rightarrow> ('e retry_error + 'a) \<times> rat list" where
  "with_exponential_retry operation attempts base_delay give_up_on =
     retry_from 0 (nat attempts) base_delay give_up_on operation"

section \<open>The window over the whole history\<close>

text \<open>
  The reference limiter keeps every accepted request for ever and counts, at each request,
  those of the same key in the window that ends now.
\<close>

definition in_window :: "int \<Rightarrow> string \<Rightarrow> instant \<Rightarrow> (string \<times> instant) list \<Rightarrow> instant list" where
  "in_window window key now history =
     filter (\<lambda>t. now - window < t) (map snd (filter (\<lambda>e. fst e = key) history))"

fun window_allow_all ::
  "int \<Rightarrow> int \<Rightarrow> (string \<times> instant) list \<Rightarrow> (string \<times> instant) list \<Rightarrow> bool list" where
  "window_allow_all limit window history [] = []"
| "window_allow_all limit window history ((key, now) # rs) =
     (if int (length (in_window window key now history)) < limit
      then True # window_allow_all limit window (history @ [(key, now)]) rs
      else False # window_allow_all limit window history rs)"

definition granted :: "answer \<Rightarrow> bool" where
  "granted a = (case a of Some (ok, _) \<Rightarrow> ok | None \<Rightarrow> False)"

lemma granted_simps [simp]: "\<not> granted None" "granted (Some (ok, r)) = ok"
  by (simp_all add: granted_def)

definition clock :: "(string \<times> instant) list \<Rightarrow> bool" where
  "clock rs = sorted (map snd rs)"

lemma popleft_until_sorted: "sorted es \<Longrightarrow> popleft_until c es = filter (\<lambda>t. c < t) es"
proof (induction es)
  case (Cons e es)
  then show ?case by (cases "e \<le> c") (auto intro!: filter_True [symmetric])
qed simp

text \<open>The deques hold the accepted requests after some cutoff in the past.\<close>

definition represents ::
  "memory_limiter \<Rightarrow> (string \<times> instant) list \<Rightarrow> instant \<Rightarrow> bool" where
  "represents l history now =
     (0 < ml_window l \<and> sorted (map snd history) \<and> (\<forall>t \<in> snd ` set history. t \<le> now)
      \<and> (\<forall>key. \<exists>c \<le> now - ml_window l.
           ml_events l key = filter (\<lambda>t. c < t) (map snd (filter (\<lambda>e. fst e = key) history))))"

lemma sorted_filter_history:
  "sorted (map snd history) \<Longrightarrow> sorted (map snd (filter P history))"
  by (induction history) auto

lemma represents_pruned:
  assumes "represents l history t0" "t0 \<le> now"
  shows "popleft_until (now - ml_window l) (ml_events l key)
    = in_window (ml_window l) key now history"
proof -
  obtain c where c: "c \<le> t0 - ml_window l"
    "ml_events l key = filter (\<lambda>t. c < t) (map snd (filter (\<lambda>e. fst e = key) history))"
    using assms(1) unfolding represents_def by blast
  have "sorted (map snd (filter (\<lambda>e. fst e = key) history))"
    using assms(1) sorted_filter_history unfolding represents_def by blast
  then have "sorted (ml_events l key)" unfolding c(2) by (rule sorted_filter [of id, simplified])
  then show ?thesis
    using c(1) assms(2) unfolding popleft_until_sorted [OF \<open>sorted (ml_events l key)\<close>]
    by (auto simp: c(2) in_window_def intro!: filter_cong)
qed

lemma allow_represents:
  assumes rep: "represents l history t0" and now: "t0 \<le> now"
    and run: "allow key now l = (a, l')"
  shows "granted a \<longleftrightarrow> int (length (in_window (ml_window l) key now history)) < ml_limit l"
    "represents l' (if granted a then history @ [(key, now)] else history) now"
    "ml_limit l' = ml_limit l" "ml_window l' = ml_window l"
proof -
  note pruned = represents_pruned [OF rep now, of key]
  show ga: "granted a \<longleftrightarrow> int (length (in_window (ml_window l) key now history)) < ml_limit l"
    and "ml_limit l' = ml_limit l" "ml_window l' = ml_window l"
    using run unfolding allow_def Let_def pruned
    by (auto split: if_splits list.splits)
  have old: "\<exists>c \<le> now - ml_window l. ml_events l k
      = filter (\<lambda>t. c < t) (map snd (filter (\<lambda>e. fst e = k) history))" for k
    using rep now unfolding represents_def by (meson diff_right_mono order_trans)
  have "ml_events l' = (ml_events l)(key := in_window (ml_window l) key now history
      @ (if granted a then [now] else []))"
    using run unfolding allow_def Let_def pruned by (auto split: if_splits list.splits)
  then have key: "ml_events l' key = filter (\<lambda>t. now - ml_window l < t)
      (map snd (filter (\<lambda>e. fst e = key) (if granted a then history @ [(key, now)] else history)))"
    and others: "k \<noteq> key \<Longrightarrow> ml_events l' k = ml_events l k" for k
    using rep by (auto simp: in_window_def represents_def)
  have deques: "\<exists>c \<le> now - ml_window l. ml_events l' k = filter (\<lambda>t. c < t)
      (map snd (filter (\<lambda>e. fst e = k) (if granted a then history @ [(key, now)] else history)))" for k
  proof (cases "k = key")
    case True
    with key show ?thesis by blast
  next
    case False
    with old [of k] others [of k] show ?thesis by (cases "granted a") simp_all
  qed
  have "\<forall>t \<in> snd ` set history. t \<le> now"
    using rep now unfolding represents_def by (meson order_trans)
  then show "represents l' (if granted a then history @ [(key, now)] else history) now"
    using rep deques \<open>ml_window l' = ml_window l\<close> unfolding represents_def
    by (simp add: sorted_append)
qed

lemma allow_all_represents:
  assumes "represents l history t0" "sorted (t0 # map snd rs)"
  shows "map granted (fst (allow_all rs l)) = window_allow_all (ml_limit l) (ml_window l) history rs"
  using assms
proof (induction rs arbitrary: l history t0)
  case (Cons r rs)
  obtain key now a l1 as l2 where r: "r = (key, now)" and a: "allow key now l = (a, l1)"
    and rest: "allow_all rs l1 = (as, l2)" by (metis prod.exhaust)
  have now: "t0 \<le> now" using Cons.prems(2) r by simp
  note step = allow_represents [OF Cons.prems(1) now a]
  have "sorted (now # map snd rs)" using Cons.prems(2) r by simp
  from Cons.IH [OF step(2) this] show ?case using r a rest step by simp
qed simp

lemma represents_init: "0 < window \<Longrightarrow> represents (memory_limiter_init limit window) [] t0"
  by (auto simp: represents_def memory_limiter_init_def seconds_def)

lemma memory_answers:
  assumes "0 < window" "sorted (map snd rs)"
  shows "map granted (fst (allow_all rs (memory_limiter_init limit window)))
    = window_allow_all limit (seconds window) [] rs"
proof (cases rs)
  case (Cons r rest)
  have "sorted (snd r # map snd rs)" using assms(2) Cons by simp
  from allow_all_represents [OF represents_init [OF assms(1)] this] show ?thesis
    by (simp add: memory_limiter_init_def)
qed simp

text \<open>Which requests were accepted, in order.\<close>

abbreviation accepted :: "'a list \<Rightarrow> bool list \<Rightarrow> 'a list" where
  "accepted rs oks \<equiv> map fst (filter snd (zip rs oks))"

definition requests_between ::
  "string \<Rightarrow> instant \<Rightarrow> instant \<Rightarrow> (string \<times> instant) list \<Rightarrow> (string \<times> instant) list" where
  "requests_between key start stop rs = filter (\<lambda>(k, t). k = key \<and> start < t \<and> t \<le> stop) rs"

definition bounded :: "int \<Rightarrow> int \<Rightarrow> (string \<times> instant) list \<Rightarrow> bool" where
  "bounded limit window history =
     (\<forall>key start. int (length (requests_between key start (start + window) history)) \<le> max 0 limit)"

lemma length_between_le:
  assumes "now \<le> start + window"
  shows "length (requests_between key start stop history) \<le> length (in_window window key now history)"
proof -
  have "length (in_window window key now history)
      = length (filter (\<lambda>(k, t). k = key \<and> now - window < t) history)"
    unfolding in_window_def by (induction history) auto
  moreover have "length (requests_between key start stop history)
      \<le> length (filter (\<lambda>(k, t). k = key \<and> now - window < t) history)"
    using assms unfolding requests_between_def by (induction history) auto
  ultimately show ?thesis by simp
qed

lemma bounded_snoc:
  assumes "bounded limit window history"
    and "int (length (in_window window key now history)) < limit"
  shows "bounded limit window (history @ [(key, now)])"
  unfolding bounded_def
proof (intro allI)
  fix k start
  show "int (length (requests_between k start (start + window) (history @ [(key, now)]))) \<le> max 0 limit"
  proof (cases "k = key \<and> start < now \<and> now \<le> start + window")
    case True
    then have "length (requests_between k start (start + window) (history @ [(key, now)]))
        = Suc (length (requests_between key start (start + window) history))"
      by (auto simp: requests_between_def)
    with length_between_le [of now start window key "start + window" history] True assms(2)
    show ?thesis by linarith
  next
    case False
    then have "requests_between k start (start + window) (history @ [(key, now)])
        = requests_between k start (start + window) history"
      by (auto simp: requests_between_def)
    with assms(1) show ?thesis by (simp add: bounded_def)
  qed
qed

lemma window_allow_all_bounded:
  "bounded limit window history \<Longrightarrow>
     bounded limit window (history @ accepted rs (window_allow_all limit window history rs))"
proof (induction rs arbitrary: history)
  case (Cons r rs)
  obtain key now where r: "r = (key, now)" by fastforce
  show ?case
  proof (cases "int (length (in_window window key now history)) < limit")
    case True
    with Cons.IH [OF bounded_snoc [OF Cons.prems True]] r show ?thesis by simp
  next
    case False
    with Cons.IH [OF Cons.prems] r show ?thesis by simp
  qed
qed simp

text \<open>The state after a run represents what the run accepted.\<close>

lemma allow_all_state:
  assumes "represents l history t0" "sorted (t0 # map snd rs)"
  shows "represents (snd (allow_all rs l))
      (history @ accepted rs (window_allow_all (ml_limit l) (ml_window l) history rs))
      (fold max (map snd rs) t0)
    \<and> ml_limit (snd (allow_all rs l)) = ml_limit l \<and> ml_window (snd (allow_all rs l)) = ml_window l"
  using assms
proof (induction rs arbitrary: l history t0)
  case (Cons r rs)
  obtain key now a l1 as l2 where r: "r = (key, now)" and a: "allow key now l = (a, l1)"
    and rest: "allow_all rs l1 = (as, l2)" by (metis prod.exhaust)
  have now: "t0 \<le> now" using Cons.prems(2) r by simp
  note step = allow_represents [OF Cons.prems(1) now a]
  have "sorted (now # map snd rs)" using Cons.prems(2) r by simp
  from Cons.IH [OF step(2) this] show ?case
    using r a rest step now by (cases "granted a") (simp_all add: max_absorb1)
qed simp

text \<open>At the limit, the oldest counted request decides when there is room again.\<close>

lemma refused_then_allowed:
  assumes rep: "represents l history t0" "bounded (ml_limit l) (ml_window l) history" "t0 \<le> now"
    and refused: "allow key now l = (Some (False, r), l')"
    and later: "now + seconds (r + 1) \<le> now'"
  shows "fst (allow key now' l') = Some (True, 0)"
proof -
  let ?es = "in_window (ml_window l) key now history"
  note pruned = represents_pruned [OF rep(1,3), of key]
  obtain oldest es where es: "?es = oldest # es" and r: "r = max 1 ((oldest + ml_window l - now) div seconds 1)"
    and l': "ml_events l' key = ?es" "ml_limit l' = ml_limit l" "ml_window l' = ml_window l"
    and full: "ml_limit l \<le> int (length ?es)"
    using refused unfolding allow_def Let_def pruned by (auto split: if_splits list.splits)
  have "\<forall>t \<in> snd ` set history. t \<le> now"
    using rep(1,3) unfolding represents_def by (meson order_trans)
  then have "?es = map snd (requests_between key (now - ml_window l) now history)"
    unfolding in_window_def requests_between_def by (induction history) auto
  then have "int (length ?es) \<le> max 0 (ml_limit l)"
    using rep(2) unfolding bounded_def by (metis diff_add_cancel length_map)
  then have len: "int (length es) < ml_limit l" using es by simp
  have "x < seconds (x div seconds 1 + 1)" for x :: int
    unfolding seconds_def by presburger
  then have "oldest + ml_window l - now < seconds (r + 1)"
    unfolding r by (rule less_le_trans) simp
  then have "oldest \<le> now' - ml_window l" using later by simp
  moreover have "length (popleft_until c es) \<le> length es" for c
    by (induction es) auto
  then have "int (length (popleft_until (now' - ml_window l) es)) < ml_limit l"
    using len by (meson le_less_trans of_nat_le_iff)
  ultimately have "int (length (popleft_until (now' - ml_window l) (oldest # es))) < ml_limit l"
    by simp
  then show ?thesis using l' es by (simp add: allow_def Let_def)
qed

section \<open>Counting in Redis\<close>

text \<open>
  What the limiter relies on while a bucket lasts: \<open>INCR\<close> returns the new value of a counter,
  which is larger than the old one, and no command, also one that raises, lowers a counter.
  The keys of a bucket live longer than the bucket (\<open>EXPIRE\<close> window + 1).
\<close>

definition counts_up :: "'s redis \<Rightarrow> ('s \<Rightarrow> string \<Rightarrow> int) \<Rightarrow> bool" where
  "counts_up client count =
     (\<forall>s k. (\<forall>j. count s j \<le> count (snd (incr client k s)) j)
        \<and> (\<forall>n. fst (incr client k s) = Some n \<longrightarrow> count s k < n \<and> n = count (snd (incr client k s)) k)
        \<and> (\<forall>d j. count s j \<le> count (snd (expire client k d s)) j)
        \<and> (\<forall>j. count s j \<le> count (snd (ttl client k s)) j))"

lemma counts_upD:
  assumes "counts_up client count"
  shows "incr client k s = (r, s') \<Longrightarrow> count s j \<le> count s' j"
    "incr client k s = (Some n, s') \<Longrightarrow> count s k < n \<and> n = count s' k"
    "expire client k d s = (e, s') \<Longrightarrow> count s j \<le> count s' j"
    "ttl client k s = (t, s') \<Longrightarrow> count s j \<le> count s' j"
  using assms unfolding counts_up_def by (metis fst_conv snd_conv)+

lemma redis_decide_counts:
  assumes up: "counts_up client count" and run: "redis_decide client l k s = (a, s')"
  shows "count s j \<le> count s' j"
    "granted a \<Longrightarrow> count s k + 1 \<le> count s' k \<and> count s k + 1 \<le> rl_limit l"
proof -
  obtain c s1 where c: "incr client k s = (c, s1)" by fastforce
  note up1 = counts_upD(1) [OF up c]
  show "count s j \<le> count s' j"
    using run up1 [of j] counts_upD(3,4) [OF up, of k] unfolding redis_decide_def c
    by (fastforce split: option.splits prod.splits if_splits intro: order_trans)
  assume "granted a"
  then obtain n where n: "c = Some n" "n \<le> rl_limit l" and s': "count s1 k \<le> count s' k"
    using run counts_upD(3) [OF up] unfolding redis_decide_def c
    by (auto split: option.splits prod.splits if_splits)
  have "count s k < n \<and> n = count s1 k" by (rule counts_upD(2) [OF up c [unfolded n(1)]])
  with n(2) s' show "count s k + 1 \<le> count s' k \<and> count s k + 1 \<le> rl_limit l" by simp
qed

definition refuses_on_failure :: "string \<Rightarrow> redis_limiter \<Rightarrow> bool" where
  "refuses_on_failure environment l = (rl_fail_closed l \<and> \<not> is_development_environment environment)"

lemma redis_allow_closed:
  assumes "counts_up client count" "refuses_on_failure environment l"
    and "redis_allow sha256 environment client key now l s = (a, l', s')"
  shows "l' = l" "count s j \<le> count s' j"
    "granted a \<Longrightarrow> count s (redis_key sha256 l key now) + 1 \<le> count s' (redis_key sha256 l key now)
       \<and> count s (redis_key sha256 l key now) + 1 \<le> rl_limit l"
proof -
  obtain b s1 where b: "redis_decide client l (redis_key sha256 l key now) s = (b, s1)" by fastforce
  note decide = redis_decide_counts [OF assms(1) b]
  have "l' = l \<and> s' = s1 \<and> (granted a \<longrightarrow> granted b)"
    using assms(2,3) unfolding redis_allow_def b refuses_on_failure_def
    by (auto split: option.splits)
  with decide show "l' = l" "count s j \<le> count s' j"
    "granted a \<Longrightarrow> count s (redis_key sha256 l key now) + 1 \<le> count s' (redis_key sha256 l key now)
       \<and> count s (redis_key sha256 l key now) + 1 \<le> rl_limit l" by auto
qed

lemma redis_allow_all_counts:
  assumes "counts_up client count" "refuses_on_failure environment l"
    and "redis_allow_all sha256 environment client rs l s = (as, l', s')"
  shows "int (length (filter (\<lambda>((k, t), a). redis_key sha256 l k t = rkey \<and> granted a) (zip rs as)))
    \<le> max 0 (rl_limit l - count s rkey)"
  using assms(3)
proof (induction rs arbitrary: s as l' s')
  case (Cons r rs)
  obtain key now a l1 s1 bs l2 s2 where r: "r = (key, now)"
    and one: "redis_allow sha256 environment client key now l s = (a, l1, s1)"
    and rest: "redis_allow_all sha256 environment client rs l1 s1 = (bs, l2, s2)"
    by (metis prod_cases3 prod.exhaust)
  note step = redis_allow_closed [OF assms(1,2) one]
  have as: "as = a # bs" using Cons.prems r one rest by simp
  have "int (length (filter (\<lambda>((k, t), a). redis_key sha256 l k t = rkey \<and> granted a) (zip rs bs)))
      \<le> max 0 (rl_limit l - count s1 rkey)"
    using Cons.IH rest step(1) by simp
  then show ?case using step(2) [of rkey] step(3) as r by (auto simp: max_def split: if_splits)
qed simp

section \<open>Retries\<close>

lemma retry_from_spec:
  assumes "attempt < attempts" "retry_from attempt attempts base give_up op = (r, ds)"
  shows "ds = map (\<lambda>i. base * 2 ^ (attempt + i)) [0..<length ds] \<and> attempt + length ds < attempts
    \<and> (\<forall>i < length ds. \<exists>e. op (attempt + i) = Inl e \<and> \<not> give_up e)
    \<and> (case op (attempt + length ds) of
         Inr x \<Rightarrow> r = Inr x
       | Inl e \<Rightarrow> r = Inl (Raised e) \<and> (give_up e \<or> Suc (attempt + length ds) = attempts))"
  using assms
proof (induction attempt attempts base give_up op arbitrary: ds rule: retry_from.induct)
  case (1 attempt attempts base give_up op)
  show ?case
  proof (cases "\<exists>e. op attempt = Inl e \<and> \<not> give_up e \<and> Suc attempt < attempts")
    case False
    note run = 1(3) [unfolded retry_from.simps [of attempt]]
    show ?thesis using run False 1(2) by (auto split: sum.splits if_splits prod.splits)
  next
    case True
    then obtain e where e: "op attempt = Inl e" "\<not> give_up e" "Suc attempt < attempts" by blast
    obtain ds' where next1: "retry_from (Suc attempt) attempts base give_up op = (r, ds')"
      and ds: "ds = base * 2 ^ attempt # ds'"
      using 1(3) [unfolded retry_from.simps [of attempt]] e
      by (auto split: prod.splits if_splits)
    have "\<not> attempts \<le> attempt" "\<not> (give_up e \<or> attempt = attempts - 1)" using e 1(2) by auto
    from 1(1) [OF this(1) e(1) this(2) e(3) next1]
    have IH: "ds' = map (\<lambda>i. base * 2 ^ (Suc attempt + i)) [0..<length ds']"
      "Suc attempt + length ds' < attempts"
      "\<forall>i < length ds'. \<exists>e. op (Suc attempt + i) = Inl e \<and> \<not> give_up e"
      "case op (Suc attempt + length ds') of
         Inr x \<Rightarrow> r = Inr x
       | Inl e \<Rightarrow> r = Inl (Raised e) \<and> (give_up e \<or> Suc (Suc attempt + length ds') = attempts)"
      by blast+
    have "map (\<lambda>i. base * 2 ^ (attempt + i)) [0..<Suc (length ds')]
        = base * 2 ^ attempt # map (\<lambda>i. base * 2 ^ (Suc attempt + i)) [0..<length ds']"
      by (simp add: map_upt_Suc del: upt_Suc)
    then have "ds = map (\<lambda>i. base * 2 ^ (attempt + i)) [0..<length ds]"
      using ds IH(1) by simp
    moreover have "\<exists>e. op (attempt + i) = Inl e \<and> \<not> give_up e" if "i < length ds" for i
      using that IH(3) e ds by (cases i) auto
    moreover have "attempt + length ds = Suc attempt + length ds'" using ds by simp
    ultimately show ?thesis using IH(2,4) by presburger
  qed
qed

lemma sum_doubling: "(\<Sum>i\<leftarrow>[0..<k]. b * 2 ^ i) = b * (2 ^ k - 1)" for b :: rat
  by (induction k) (simp_all add: algebra_simps)

section \<open>Properties\<close>

text \<open>
  C36: pruning loses nothing. For requests in order of time, the limiter of one process answers
  every request exactly as a limiter would that remembers every accepted request for ever and
  counts those of the same key in the last window.
\<close>

theorem memory_limiter_refines_window:
  assumes "0 < window" "sorted (map snd rs)"
  shows "map granted (fst (allow_all rs (memory_limiter_init limit window)))
    = window_allow_all limit (seconds window) [] rs"
  using memory_answers [OF assms] by simp

definition burst :: "(string \<times> instant) list" where
  "burst = [(''a'', 500000), (''b'', seconds 1), (''a'', seconds 2), (''a'', seconds 61)]"

theorem memory_limiter_refines_window_witness:
  "map granted (fst (allow_all burst (memory_limiter_init 1 60))) = [True, True, False, True]"
proof -
  have "window_allow_all 1 (seconds 60) [] burst = [True, True, False, True]" by code_simp
  then show ?thesis
    using memory_limiter_refines_window [of 60 burst 1] by (simp add: burst_def seconds_def)
qed

text \<open>
  The limit holds in every window, not only in aligned ones. Whatever the requests, no
  interval of the window's length contains more than \<open>limit\<close> accepted requests of one key.
\<close>

theorem memory_limiter_bound:
  assumes "0 < window" "sorted (map snd rs)"
  shows "int (length (requests_between key start (start + seconds window)
      (accepted rs (map granted (fst (allow_all rs (memory_limiter_init limit window)))))))
    \<le> max 0 limit"
proof -
  have "bounded limit (seconds window) ([] @ accepted rs (window_allow_all limit (seconds window) [] rs))"
    by (rule window_allow_all_bounded) (simp add: bounded_def requests_between_def)
  then show ?thesis using memory_answers [OF assms] by (simp add: bounded_def)
qed

theorem memory_limiter_bound_witness:
  "int (length (requests_between ''a'' 0 (seconds 60)
     (accepted burst (map granted (fst (allow_all burst (memory_limiter_init 1 60))))))) \<le> 1"
  using memory_limiter_bound [of 60 burst "''a''" 0 1] by (simp add: burst_def seconds_def)

text \<open>
  A refused client gets through. After any run, a request refused with the advice to retry
  after \<open>r\<close> seconds is accepted when it is repeated \<open>r + 1\<close> seconds later or at any later time
  with no request of that key in between, and \<open>r\<close> is at least 1.
\<close>

theorem memory_limiter_retry:
  assumes "0 < window" "sorted (map snd rs @ [now])"
    and "allow key now (snd (allow_all rs (memory_limiter_init limit window))) = (Some (False, r), l')"
    and "now + seconds (r + 1) \<le> now'"
  shows "1 \<le> r \<and> fst (allow key now' l') = Some (True, 0)"
proof -
  let ?l = "snd (allow_all rs (memory_limiter_init limit window))"
  define t0 where "t0 = (case rs of [] \<Rightarrow> now | x # _ \<Rightarrow> snd x)"
  have sorted: "sorted (t0 # map snd rs)" "t0 \<le> now"
    using assms(2) by (cases rs; force simp: t0_def sorted_append)+
  note state = allow_all_state [OF represents_init [OF assms(1), of limit t0] sorted(1)]
  have limits: "ml_limit ?l = limit" "ml_window ?l = seconds window"
    using state by (simp_all add: memory_limiter_init_def)
  have rep: "represents ?l (accepted rs (window_allow_all limit (seconds window) [] rs)) (fold max (map snd rs) t0)"
    using state by (simp add: memory_limiter_init_def)
  have "bounded limit (seconds window) ([] @ accepted rs (window_allow_all limit (seconds window) [] rs))"
    by (rule window_allow_all_bounded) (simp add: bounded_def requests_between_def)
  moreover have "fold max ts t \<le> now" if "\<forall>x \<in> set ts. x \<le> now" "t \<le> now" for ts :: "int list" and t
    using that by (induction ts arbitrary: t) auto
  then have "fold max (map snd rs) t0 \<le> now" using assms(2) sorted(2) by (auto simp: sorted_append)
  moreover have "1 \<le> r"
    using assms(3) unfolding allow_def Let_def by (auto split: if_splits list.splits)
  ultimately show ?thesis using refused_then_allowed [OF rep _ _ assms(3,4)] limits by simp
qed

theorem memory_limiter_retry_witness:
  "fst (allow ''a'' (seconds 62)
     (snd (allow ''a'' (seconds 2) (snd (allow_all [(''a'', 500000)] (memory_limiter_init 1 60))))))
   = Some (True, 0)"
proof -
  let ?l = "snd (allow_all [(''a'', 500000)] (memory_limiter_init 1 60))"
  have "fst (allow ''a'' (seconds 2) ?l) = Some (False, 58)" by code_simp
  then have "allow ''a'' (seconds 2) ?l = (Some (False, 58), snd (allow ''a'' (seconds 2) ?l))"
    by (simp add: prod_eq_iff)
  from memory_limiter_retry [of 60 "[(''a'', 500000)]" "seconds 2", OF _ _ this, of "seconds 62"]
  show ?thesis by (simp add: seconds_def)
qed

text \<open>
  The advice itself is one second short: it is truncated, so a client that waits exactly as long
  as told can be refused again.
\<close>

lemma retry_after_is_short:
  "case allow ''a'' (seconds 2) (snd (allow ''a'' 500000 (memory_limiter_init 1 60))) of
     (a, l) \<Rightarrow> a = Some (False, 58) \<and> fst (allow ''a'' (seconds (2 + 58)) l) = Some (False, 1)"
  by code_simp

text \<open>
  C37: a limiter that fails closed keeps its limit through any outage. Outside development, as
  long as the counters of a bucket only grow, no sequence of requests gets more than \<open>limit\<close>
  acceptances for one key in one bucket, whichever commands raise and whenever.
\<close>

theorem fail_closed_limiter_bound:
  assumes "counts_up client count" "\<forall>k. 0 \<le> count s k"
    and "rl_fail_closed l" "\<not> is_development_environment environment"
    and "redis_allow_all sha256 environment client rs l s = (as, l', s')"
  shows "int (length (filter (\<lambda>((k, t), a). redis_key sha256 l k t = rkey \<and> granted a) (zip rs as)))
    \<le> max 0 (rl_limit l)"
proof -
  have "refuses_on_failure environment l" using assms(3,4) by (simp add: refuses_on_failure_def)
  from redis_allow_all_counts [OF assms(1) this assms(5), of rkey] spec [OF assms(2), of rkey]
  show ?thesis by linarith
qed

text \<open>A store of counters whose connection drops after a number of commands.\<close>

definition sample_redis :: "((string \<Rightarrow> int) \<times> nat) redis" where
  "sample_redis = \<lparr>incr = (\<lambda>k (c, up). if up = 0 then (None, (c, 0))
       else (Some (c k + 1), (c(k := c k + 1), up - 1))),
     expire = (\<lambda>_ _ s. (Some (), s)), ttl = (\<lambda>_ s. (Some 60, s))\<rparr>"

theorem fail_closed_limiter_bound_witness:
  "int (length (filter (\<lambda>((k, t), a). redis_key id auth_rate_limiter k t = ''x'' \<and> granted a)
     (zip burst (fst (redis_allow_all id ''production'' sample_redis burst auth_rate_limiter (\<lambda>_. 0, 2))))))
   \<le> 10"
proof -
  have "counts_up sample_redis fst"
    by (auto simp: counts_up_def sample_redis_def split: prod.splits)
  moreover have "\<forall>k. 0 \<le> fst ((\<lambda>_. 0 :: int, 2 :: nat)) (k :: string)" by simp
  moreover have "rl_fail_closed auth_rate_limiter" "\<not> is_development_environment ''production''"
    "rl_limit auth_rate_limiter = 10"
    by code_simp+
  ultimately show ?thesis
    using fail_closed_limiter_bound [of sample_redis fst "(\<lambda>_. 0, 2)" auth_rate_limiter "''production''" id burst]
    by (metis max.absorb2 prod.collapse zero_le_numeral)
qed

text \<open>
  C38: the retry loop. It makes at most \<open>attempts\<close> calls and returns the outcome of the last
  one made: the first success, the first failure that retrying cannot help, or the failure of
  the last attempt. The delays double from \<open>base_delay\<close> and add up to
  \<open>base_delay * (2 ^ retries - 1)\<close>. Without any attempt it raises \<open>RuntimeError\<close>.
\<close>

theorem with_exponential_retry_correct:
  assumes "with_exponential_retry operation (int attempts) base_delay give_up_on = (r, delays)"
  shows "(if attempts = 0 then r = Inl RuntimeError \<and> delays = []
     else length delays < attempts
       \<and> (\<forall>i < length delays. \<exists>e. operation i = Inl e \<and> \<not> give_up_on e)
       \<and> (case operation (length delays) of
            Inr x \<Rightarrow> r = Inr x
          | Inl e \<Rightarrow> r = Inl (Raised e) \<and> (give_up_on e \<or> Suc (length delays) = attempts)))
    \<and> delays = map (\<lambda>i. base_delay * 2 ^ i) [0..<length delays]
    \<and> sum_list delays = base_delay * (2 ^ length delays - 1)"
proof (cases "attempts = 0")
  case True
  with assms show ?thesis by (simp add: with_exponential_retry_def retry_from.simps)
next
  case False
  from assms have run: "retry_from 0 attempts base_delay give_up_on operation = (r, delays)"
    by (simp add: with_exponential_retry_def)
  note spec = retry_from_spec [OF _ run]
  have "sum_list delays = (\<Sum>i\<leftarrow>[0..<length delays]. base_delay * 2 ^ i)"
    using spec False by simp
  then show ?thesis using spec False unfolding sum_doubling by (auto split: sum.splits)
qed

theorem with_exponential_retry_correct_witness:
  "with_exponential_retry (\<lambda>i. if i < 2 then Inl ''busy'' else Inr (7 :: int)) (int 3) (1/2)
      (\<lambda>e. e = ''denied'') = (Inr 7, [1/2, 1]) \<and> sum_list [1/2, 1 :: rat] = 1/2 * (2 ^ 2 - 1)"
proof -
  have run: "with_exponential_retry (\<lambda>i. if i < 2 then Inl ''busy'' else Inr (7 :: int)) (int 3) (1/2)
      (\<lambda>e. e = ''denied'') = (Inr 7, [1/2, 1])"
    by (simp add: with_exponential_retry_def retry_from.simps numeral_eq_Suc)
  with with_exponential_retry_correct [OF run] show ?thesis by simp
qed

end
