(* ===== verification/Accounts.thy ===== *)
theory Accounts
  imports Rbac Departments RateLimit
begin

text \<open>
  The tables behind signing in and the services that read them: \<open>src/models/user.py\<close>,
  \<open>src/models/rbac.py\<close>, \<open>src/models/sessions.py\<close> and \<open>src/models/access_token.py\<close>,
  \<open>bootstrap_rbac\<close> of \<open>src/domain/rbac.py\<close>, the lookups of \<open>src/repositories/user.py\<close>,
  \<open>src/core/security.py\<close> and \<open>src/domain/auth.py\<close>. An account refers to its roles and
  departments by id; \<open>load\<close> is what the eager loading of the repositories makes of it, the
  \<open>user\<close> of the other theories.

  Cryptography is an argument (\<open>crypto\<close>): SHA-256, bcrypt (\<open>checkpw\<close> is \<open>False\<close> where bcrypt
  raises) and the encoding and verification of signed tokens at a given time.
\<close>

section \<open>Rows\<close>

record role_row = role +
  role_system :: bool

record account =
  acc_id :: uuid
  acc_email :: string
  acc_name :: string
  acc_password_hash :: string
  acc_company :: string
  acc_dept :: "string option"
  acc_role :: string
  acc_active :: bool
  acc_auth_version :: int
  acc_roles :: "uuid list"
  acc_departments :: "uuid list"
  acc_ownerships :: "(uuid \<times> bool) list"

record refresh_session =
  rs_id :: uuid
  rs_user :: uuid
  rs_hash :: string
  rs_expires :: instant
  rs_revoked :: "instant option"
  rs_family :: "uuid option"
  rs_agent :: "string option"
  rs_ip :: "string option"
  rs_signed_in :: "instant option"
  rs_last_used :: "instant option"

record reset_token =
  rt_user :: uuid
  rt_hash :: string
  rt_expires :: instant
  rt_used :: "instant option"
  rt_email :: string

record invitation =
  inv_id :: uuid
  inv_email :: string
  inv_name :: string
  inv_role :: string
  inv_company :: string
  inv_audience :: "uuid list option"
  inv_hash :: string
  inv_expires :: instant
  inv_used :: "instant option"
  inv_revoked :: "instant option"
  inv_by :: "uuid option"
  inv_accepted :: "uuid option"
  inv_created :: instant

record personal_token =
  pt_id :: uuid
  pt_user :: uuid
  pt_name :: string
  pt_prefix :: string
  pt_hash :: string
  pt_scope :: string
  pt_expires :: instant
  pt_last_used :: "instant option"
  pt_revoked :: "instant option"

record external_identity =
  xi_user :: uuid
  xi_provider :: string
  xi_subject :: string

text \<open>An e-mail of the notification queue: its owner, its address and the secret it carries.\<close>

record mail =
  mail_owner :: uuid
  mail_to :: string
  mail_secret :: string

record accounts =
  permission_keys :: "string list"
  role_rows :: "role_row list"
  account_rows :: "account list"
  department_rows :: "department list"
  draft_rows :: "pending_draft list"
  session_rows :: "refresh_session list"
  reset_rows :: "reset_token list"
  invitation_rows :: "invitation list"
  token_rows :: "personal_token list"
  identity_rows :: "external_identity list"
  audit_rows :: "audit_log list"
  mail_rows :: "mail list"
  fresh_row :: uuid

type_synonym 'a reply = "'a result \<times> accounts"

section \<open>Loading a user\<close>

abbreviation loaded_role :: "role_row \<Rightarrow> role" where
  "loaded_role r \<equiv> role.truncate r"

definition load :: "accounts \<Rightarrow> account \<Rightarrow> user" where
  "load s a =
     \<lparr>user_id = acc_id a, u_name = acc_name a, u_company = acc_company a, u_dept = acc_dept a,
      u_role = acc_role a, u_active = acc_active a,
      u_roles = map loaded_role (filter (\<lambda>r. role_id r \<in> set (acc_roles a)) (role_rows s)),
      u_departments = filter (\<lambda>d. dept_id d \<in> set (acc_departments a)) (department_rows s),
      u_department_ownerships =
        List.map_filter (\<lambda>(i, act). map_option (\<lambda>d. \<lparr>mgr_active = act, mgr_department = d\<rparr>)
          (get_row dept_id i (department_rows s))) (acc_ownerships a)\<rparr>"

abbreviation account_of :: "accounts \<Rightarrow> uuid \<Rightarrow> account option" where
  "account_of s i \<equiv> get_row acc_id i (account_rows s)"

definition put_account :: "account \<Rightarrow> accounts \<Rightarrow> accounts" where
  "put_account a s = s\<lparr>account_rows := put_row acc_id a (account_rows s)\<rparr>"

definition record_audit ::
  "uuid option \<Rightarrow> string \<Rightarrow> string \<Rightarrow> uuid \<Rightarrow> string \<Rightarrow> accounts \<Rightarrow> accounts" where
  "record_audit who act kind target outcome s =
     s\<lparr>audit_rows := audit_rows s @
        [\<lparr>al_user = who, al_action = act, al_target_type = kind, al_target = Some target,
          al_outcome = outcome\<rparr>]\<rparr>"

text \<open>
  \<open>get_by_email\<close>: the address as given, then its canonical form, then any account whose
  address differs in case only; two such accounts are \<open>AmbiguousEmailError\<close>, the \<open>None\<close>.
\<close>

definition with_email :: "accounts \<Rightarrow> string \<Rightarrow> account option" where
  "with_email s e = find (\<lambda>a. acc_email a = e) (account_rows s)"

definition get_by_email :: "accounts \<Rightarrow> string \<Rightarrow> account option option" where
  "get_by_email s email =
     (let raw = strip email;
          normalized = lower raw;
          exact = List.map_filter (with_email s)
                    (filter (\<lambda>c. c \<noteq> []) (fromkeys [raw, normalized]))
      in case exact of
           a # _ \<Rightarrow> Some (Some a)
         | [] \<Rightarrow> (case filter (\<lambda>a. lower (acc_email a) = normalized) (account_rows s) of
                    [] \<Rightarrow> Some None
                  | [a] \<Rightarrow> Some (Some a)
                  | _ \<Rightarrow> None))"

section \<open>Seeding roles (bootstrap_rbac)\<close>

definition default_permissions :: "string \<Rightarrow> (string \<times> scope) list" where
  "default_permissions name = (case default_grants name of None \<Rightarrow> [] | Some gs \<Rightarrow> gs)"

definition grant_missing :: "string \<Rightarrow> role_row \<Rightarrow> role_row" where
  "grant_missing name r =
     r\<lparr>role_permissions := role_permissions r @
         map (\<lambda>(key, sc). \<lparr>rp_permission = Some key, rp_scope = Some sc\<rparr>)
           (filter (\<lambda>(key, sc). Some key \<notin> rp_permission ` set (role_permissions r))
             (default_permissions name))\<rparr>"

definition role_named :: "string \<Rightarrow> string option \<Rightarrow> role_row \<Rightarrow> bool" where
  "role_named name company r = (role_name r = name \<and> role_company r = company)"

definition ensure_role :: "string \<Rightarrow> string option \<Rightarrow> accounts \<Rightarrow> uuid \<times> accounts" where
  "ensure_role name company s =
     (case find (role_named name company) (role_rows s) of
        Some r \<Rightarrow> (role_id r, s\<lparr>role_rows := put_row role_id (grant_missing name r) (role_rows s)\<rparr>)
      | None \<Rightarrow>
          (fresh_row s,
           s\<lparr>role_rows := role_rows s @
               [grant_missing name
                  \<lparr>role_id = fresh_row s, role_name = name, role_company = company,
                   role_active = True, role_permissions = [], role_system = True\<rparr>],
             fresh_row := Suc (fresh_row s)\<rparr>))"

fun ensure_roles :: "(string \<times> string option) list \<Rightarrow> accounts \<Rightarrow> accounts" where
  "ensure_roles [] s = s"
| "ensure_roles ((name, company) # rest) s = ensure_roles rest (snd (ensure_role name company s))"

definition company_domains :: "accounts \<Rightarrow> string list" where
  "company_domains s = fromkeys (filter (\<lambda>c. c \<noteq> []) (map acc_company (account_rows s)))"

definition role_names :: "string list" where
  "role_names = map fst DEFAULT_ROLE_PERMISSIONS"

definition company_roles :: "string list \<Rightarrow> (string \<times> string option) list" where
  "company_roles domains = concat (map (\<lambda>d. map (\<lambda>n. (n, Some d)) role_names) domains)"

text \<open>The backfill: an account without roles gets the role of its column, or Staff.\<close>

fun backfill :: "account list \<Rightarrow> accounts \<Rightarrow> accounts" where
  "backfill [] s = s"
| "backfill (a # rest) s =
     (if acc_roles a \<noteq> [] then backfill rest s
      else let name = (if acc_role a \<in> set role_names then acc_role a else ''Staff'');
               (rid, s1) = ensure_role name (Some (acc_company a)) s
           in backfill rest (put_account (a\<lparr>acc_roles := [rid]\<rparr>) s1))"

definition bootstrap_rbac :: "accounts \<Rightarrow> accounts" where
  "bootstrap_rbac s =
     (let s1 = s\<lparr>permission_keys := permission_keys s @
                   filter (\<lambda>k. k \<notin> set (permission_keys s)) PERMISSION_CATALOG\<rparr>;
          s2 = ensure_roles [(''Admin'', None)] s1;
          s3 = ensure_roles (company_roles (company_domains s)) s2
      in backfill (account_rows s) s3)"

section \<open>Passwords and signed tokens (core/security.py)\<close>

record jwt_claims =
  cl_exp :: int
  cl_sub :: "string option"
  cl_type :: "string option"
  cl_av :: int
  cl_jti :: "uuid option"

record crypto =
  sha256_hex :: "string \<Rightarrow> string"
  hashpw :: "string \<Rightarrow> string \<Rightarrow> string"
  checkpw :: "string \<Rightarrow> string \<Rightarrow> bool"
  jwt_encode :: "jwt_claims \<Rightarrow> string"
  jwt_decode :: "instant \<Rightarrow> string \<Rightarrow> jwt_claims option"

record auth_settings =
  cors_origins :: "string list"
  development :: bool
  access_expire_minutes :: int
  refresh_expire_days :: int
  allowed_email_domains :: "string list"
  reset_emails :: "string list"
  token_max_days :: int
  tokens_per_user :: nat
  mcp_enabled :: bool

definition utf8_length :: "string \<Rightarrow> nat" where
  "utf8_length s = sum_list (map (\<lambda>c. if (of_char c :: nat) < 128 then 1 else 2) s)"

definition verify_password :: "crypto \<Rightarrow> string \<Rightarrow> string \<Rightarrow> bool" where
  "verify_password C plain hashed = checkpw C plain hashed"

definition get_password_hash :: "crypto \<Rightarrow> string \<Rightarrow> string \<Rightarrow> string result" where
  "get_password_hash C salt password =
     (if utf8_length password > 72 then raise 500 ''password cannot be longer than 72 UTF-8 bytes''
      else Inr (hashpw C salt password))"

definition days :: "int \<Rightarrow> int" where
  "days n = seconds (n * 86400)"

text \<open>\<open>exp\<close> is written in whole seconds.\<close>

definition create_access_token :: "crypto \<Rightarrow> auth_settings \<Rightarrow> instant \<Rightarrow> account \<Rightarrow> string" where
  "create_access_token C cfg now a =
     jwt_encode C \<lparr>cl_exp = (now + minutes (access_expire_minutes cfg)) div seconds 1,
                   cl_sub = Some (acc_email a), cl_type = Some ''access'',
                   cl_av = acc_auth_version a, cl_jti = None\<rparr>"

definition create_refresh_token ::
  "crypto \<Rightarrow> auth_settings \<Rightarrow> instant \<Rightarrow> uuid \<Rightarrow> account \<Rightarrow> string" where
  "create_refresh_token C cfg now jti a =
     jwt_encode C \<lparr>cl_exp = (now + days (refresh_expire_days cfg)) div seconds 1,
                   cl_sub = Some (acc_email a), cl_type = Some ''refresh'',
                   cl_av = acc_auth_version a, cl_jti = Some jti\<rparr>"

section \<open>The authentication service (domain/auth.py)\<close>

definition authenticate_user :: "crypto \<Rightarrow> string \<Rightarrow> string \<Rightarrow> accounts \<Rightarrow> account result" where
  "authenticate_user C email password s =
     (case get_by_email s email of
        None \<Rightarrow> raise 401 ''Incorrect email or password''
      | Some None \<Rightarrow> raise 401 ''Incorrect email or password''
      | Some (Some a) \<Rightarrow>
          if verify_password C password (acc_password_hash a) then Inr a
          else raise 401 ''Incorrect email or password'')"

text \<open>\<open>rsplit("@", 1)[-1]\<close>\<close>

definition after_at :: "string \<Rightarrow> string" where
  "after_at s = rev (takeWhile (\<lambda>c. c \<noteq> CHR ''@'') (rev s))"

definition MANAGED_PRIMARY_ROLES :: "string set" where
  "MANAGED_PRIMARY_ROLES = {''Admin'', ''CEO'', ''Reviewer'', ''Staff''}"

definition email_taken :: "accounts \<Rightarrow> string \<Rightarrow> bool" where
  "email_taken s email = (get_by_email s email \<noteq> Some None)"

text \<open>
  \<open>register_user\<close>. The department is looked up by its exact name in the company; the insert
  relies on the unique address, which \<open>get_by_email\<close> has just checked.
\<close>

definition register_user ::
  "crypto \<Rightarrow> auth_settings \<Rightarrow> string \<Rightarrow> string \<Rightarrow> string \<Rightarrow> string \<Rightarrow> string option \<Rightarrow> string \<Rightarrow> bool
     \<Rightarrow> accounts \<Rightarrow> (account \<times> accounts) result" where
  "register_user C cfg salt email name password dept role privileged s =
     (let email' = lower (strip email);
          company = (if CHR ''@'' \<in> set email' then after_at email' else ''local'');
          allowed = filter (\<lambda>d. d \<noteq> []) (map (\<lambda>d. lower (strip d)) (allowed_email_domains cfg));
          dept' = normalize_department_name dept
      in and_then (unless (allowed \<noteq> [] \<and> company \<notin> set allowed) 403
                     ''Use an approved company email address'') (\<lambda>_.
         and_then (unless (role \<notin> MANAGED_PRIMARY_ROLES) 422 ''Invalid role'') (\<lambda>_.
         and_then (unless (email_taken s email') 400 ''Email already registered'') (\<lambda>_.
         and_then (get_password_hash C salt password) (\<lambda>hashed.
           let a = \<lparr>acc_id = fresh_row s, acc_email = email', acc_name = name,
                    acc_password_hash = hashed, acc_company = company, acc_dept = dept,
                    acc_role = (if privileged then role else ''Staff''), acc_active = True,
                    acc_auth_version = 0, acc_roles = [],
                    acc_departments =
                      (case dept' of None \<Rightarrow> []
                       | Some n \<Rightarrow> map dept_id (filter (\<lambda>d. dept_name d = n \<and> dept_company d = company)
                                      (department_rows s))),
                    acc_ownerships = []\<rparr>
           in Inr (a, s\<lparr>account_rows := account_rows s @ [a], fresh_row := Suc (fresh_row s)\<rparr>))))))"

section \<open>What every operation keeps\<close>

text \<open>
  A table keeps its rows up to a relation when each row still has a row it is related to.
\<close>

definition rows_keep :: "('r \<Rightarrow> 'r \<Rightarrow> bool) \<Rightarrow> 'r list \<Rightarrow> 'r list \<Rightarrow> bool" where
  "rows_keep R xs ys = (\<forall>x \<in> set xs. \<exists>y \<in> set ys. R x y)"

lemma rows_keep_refl: "reflp R \<Longrightarrow> rows_keep R xs xs"
  unfolding rows_keep_def by (blast dest: reflpD)

lemma rows_keep_trans:
  "transp R \<Longrightarrow> rows_keep R xs ys \<Longrightarrow> rows_keep R ys zs \<Longrightarrow> rows_keep R xs zs"
  unfolding rows_keep_def by (blast dest: transpD)

lemma rows_keep_append: "reflp R \<Longrightarrow> rows_keep R xs (xs @ ys)"
  unfolding rows_keep_def by (force dest: reflpD)

lemma rows_keep_map: "(\<And>x. x \<in> set xs \<Longrightarrow> R x (f x)) \<Longrightarrow> rows_keep R xs (map f xs)"
  unfolding rows_keep_def by auto

lemma rows_keep_put:
  assumes "reflp R" "unique_key key xs" "get_row key (key r) xs = Some q" "R q r"
  shows "rows_keep R xs (put_row key r xs)"
  unfolding put_row_def
proof (rule rows_keep_map)
  fix x assume "x \<in> set xs"
  then show "R x (if key x = key r then r else x)"
    using assms unique_key_get_row [OF assms(2), of x] by (auto dest: reflpD)
qed

text \<open>
  Accounts keep their id and never go back to an older version; sessions, grants, invitations
  and tokens keep what identifies them and stay spent once they are.
\<close>

definition account_kept :: "account \<Rightarrow> account \<Rightarrow> bool" where
  "account_kept a b = (acc_id b = acc_id a \<and> acc_auth_version a \<le> acc_auth_version b)"

definition session_kept :: "refresh_session \<Rightarrow> refresh_session \<Rightarrow> bool" where
  "session_kept r q = (rs_id q = rs_id r \<and> rs_user q = rs_user r \<and> rs_hash q = rs_hash r
     \<and> (rs_revoked r \<noteq> None \<longrightarrow> rs_revoked q \<noteq> None))"

definition grant_kept :: "reset_token \<Rightarrow> reset_token \<Rightarrow> bool" where
  "grant_kept g h = (rt_user h = rt_user g \<and> rt_hash h = rt_hash g
     \<and> (rt_used g \<noteq> None \<longrightarrow> rt_used h \<noteq> None))"

definition spent :: "invitation \<Rightarrow> bool" where
  "spent v = (inv_used v \<noteq> None \<or> inv_revoked v \<noteq> None)"

definition invitation_kept :: "invitation \<Rightarrow> invitation \<Rightarrow> bool" where
  "invitation_kept v w = (inv_id w = inv_id v \<and> inv_email w = inv_email v \<and> inv_role w = inv_role v
     \<and> inv_company w = inv_company v \<and> (spent v \<longrightarrow> spent w \<and> inv_hash w = inv_hash v))"

definition token_kept :: "personal_token \<Rightarrow> personal_token \<Rightarrow> bool" where
  "token_kept p q = (pt_id q = pt_id p \<and> pt_user q = pt_user p \<and> pt_hash q = pt_hash p
     \<and> pt_scope q = pt_scope p \<and> pt_expires q = pt_expires p
     \<and> (pt_revoked p \<noteq> None \<longrightarrow> pt_revoked q \<noteq> None))"

lemmas kept_defs = account_kept_def session_kept_def grant_kept_def invitation_kept_def token_kept_def

lemma kept_reflp:
  "reflp account_kept" "reflp session_kept" "reflp grant_kept" "reflp invitation_kept" "reflp token_kept"
  by (simp_all add: reflp_def kept_defs)

lemma kept_transp:
  "transp account_kept" "transp session_kept" "transp grant_kept" "transp invitation_kept" "transp token_kept"
  by (auto simp: transp_def kept_defs)

definition evolves :: "accounts \<Rightarrow> accounts \<Rightarrow> bool" where
  "evolves s t =
     (rows_keep account_kept (account_rows s) (account_rows t)
      \<and> rows_keep session_kept (session_rows s) (session_rows t)
      \<and> rows_keep grant_kept (reset_rows s) (reset_rows t)
      \<and> rows_keep invitation_kept (invitation_rows s) (invitation_rows t)
      \<and> rows_keep token_kept (token_rows s) (token_rows t))"

lemma evolves_refl: "evolves s s"
  by (simp add: evolves_def rows_keep_refl kept_reflp)

lemma evolves_trans: "evolves s t \<Longrightarrow> evolves t u \<Longrightarrow> evolves s u"
  unfolding evolves_def by (blast intro: rows_keep_trans kept_transp)

text \<open>
  The state every operation keeps: primary keys are unique and older than the next one, the
  hashes of secrets and the addresses of accounts are unique, addresses are canonical.
\<close>

definition canonical :: "string \<Rightarrow> bool" where
  "canonical e = (lower (strip e) = e)"

definition keyed :: "('r \<Rightarrow> uuid) \<Rightarrow> uuid \<Rightarrow> 'r list \<Rightarrow> bool" where
  "keyed key n rows = (unique_key key rows \<and> (\<forall>r \<in> set rows. key r < n))"

definition auth_inv :: "accounts \<Rightarrow> bool" where
  "auth_inv s =
     (keyed acc_id (fresh_row s) (account_rows s) \<and> distinct (map acc_email (account_rows s))
      \<and> (\<forall>a \<in> set (account_rows s). canonical (acc_email a))
      \<and> keyed role_id (fresh_row s) (role_rows s)
      \<and> keyed rs_id (fresh_row s) (session_rows s) \<and> distinct (map rs_hash (session_rows s))
      \<and> distinct (map rt_hash (reset_rows s))
      \<and> keyed inv_id (fresh_row s) (invitation_rows s) \<and> distinct (map inv_hash (invitation_rows s))
      \<and> keyed pt_id (fresh_row s) (token_rows s) \<and> distinct (map pt_hash (token_rows s)))"

text \<open>One operation, or a part of one: it keeps the invariant and only moves rows forward.\<close>

definition advances :: "accounts \<Rightarrow> accounts \<Rightarrow> bool" where
  "advances s t = (auth_inv s \<longrightarrow> auth_inv t \<and> evolves s t)"

lemma advances_refl [simp]: "advances s s"
  by (simp add: advances_def evolves_refl)

lemma advances_trans: "advances s t \<Longrightarrow> advances t u \<Longrightarrow> advances s u"
  unfolding advances_def by (blast intro: evolves_trans)

lemma keyed_append: "keyed key n rows \<Longrightarrow> key r = n \<Longrightarrow> keyed key (Suc n) (rows @ [r])"
  by (fastforce simp: keyed_def unique_key_def)

lemma keyed_mono: "keyed key n rows \<Longrightarrow> n \<le> m \<Longrightarrow> keyed key m rows"
  by (auto simp: keyed_def)

lemma keys_put_row: "key ` set (put_row key r rows) = key ` set rows"
  by (metis list.set_map map_key_put_row)

lemma keyed_put [simp]: "keyed key n (put_row key r rows) = keyed key n rows"
proof -
  have "(\<forall>k \<in> key ` set (put_row key r rows). k < n) = (\<forall>k \<in> key ` set rows. k < n)"
    by (simp only: keys_put_row)
  then show ?thesis by (simp add: keyed_def)
qed

lemma keyed_map: "(\<And>r. key (f r) = key r) \<Longrightarrow> keyed key n (map f rows) = keyed key n rows"
  by (simp add: keyed_def unique_key_def comp_def)

lemma map_put_row_same:
  assumes "unique_key key rows" "get_row key (key r) rows = Some q" "f q = f r"
  shows "map f (put_row key r rows) = map f rows"
proof -
  have "f (if key x = key r then r else x) = f x" if "x \<in> set rows" for x
    using that assms unique_key_get_row [OF assms(1), of x] by auto
  then show ?thesis by (simp add: put_row_def)
qed

text \<open>The parts operations are made of.\<close>

lemma advances_fresh: "advances s (s\<lparr>fresh_row := Suc (fresh_row s)\<rparr>)"
  by (auto simp: advances_def auth_inv_def evolves_def rows_keep_refl kept_reflp intro: keyed_mono)

lemma advances_untracked:
  assumes "account_rows t = account_rows s" "session_rows t = session_rows s" "reset_rows t = reset_rows s"
    "invitation_rows t = invitation_rows s" "token_rows t = token_rows s" "role_rows t = role_rows s"
    "fresh_row t = fresh_row s"
  shows "advances s t"
  using assms by (simp add: advances_def auth_inv_def evolves_def rows_keep_refl kept_reflp)

lemma advances_put_account:
  assumes "account_of s (acc_id b) = Some a" "acc_email b = acc_email a" "acc_auth_version a \<le> acc_auth_version b"
  shows "advances s (put_account b s)"
proof (unfold advances_def, intro impI conjI)
  assume inv: "auth_inv s"
  then have uniq: "unique_key acc_id (account_rows s)" by (simp add: auth_inv_def keyed_def)
  have mails: "map acc_email (put_row acc_id b (account_rows s)) = map acc_email (account_rows s)"
    using uniq assms(1,2) by (intro map_put_row_same [where q = a]) simp_all
  then have "acc_email ` set (put_row acc_id b (account_rows s)) = acc_email ` set (account_rows s)"
    by (metis list.set_map)
  then have "(\<forall>e \<in> acc_email ` set (put_row acc_id b (account_rows s)). canonical e)
      = (\<forall>e \<in> acc_email ` set (account_rows s). canonical e)" by simp
  with inv mails show "auth_inv (put_account b s)"
    by (simp add: auth_inv_def put_account_def)
  have "account_kept a b" using assms get_row_SomeD(2) [OF assms(1)] by (simp add: account_kept_def)
  then have "rows_keep account_kept (account_rows s) (put_row acc_id b (account_rows s))"
    using uniq assms(1) kept_reflp by (intro rows_keep_put) auto
  then show "evolves s (put_account b s)"
    by (simp add: evolves_def put_account_def rows_keep_refl kept_reflp)
qed

lemma advances_new_account:
  assumes "acc_id a = fresh_row s" "acc_email a \<notin> acc_email ` set (account_rows s)" "canonical (acc_email a)"
  shows "advances s (s\<lparr>account_rows := account_rows s @ [a], fresh_row := Suc (fresh_row s)\<rparr>)"
  using assms unfolding advances_def auth_inv_def evolves_def
  by (auto simp: rows_keep_refl rows_keep_append kept_reflp keyed_append intro: keyed_mono)

lemma advances_new_role:
  assumes "role_id r = fresh_row s"
  shows "advances s (s\<lparr>role_rows := role_rows s @ [r], fresh_row := Suc (fresh_row s)\<rparr>)"
  using assms unfolding advances_def auth_inv_def evolves_def
  by (auto simp: rows_keep_refl kept_reflp keyed_append intro: keyed_mono)

lemma advances_put_role: "advances s (s\<lparr>role_rows := put_row role_id r (role_rows s)\<rparr>)"
  unfolding advances_def auth_inv_def evolves_def by (auto simp: rows_keep_refl kept_reflp)

lemma advances_new_session:
  assumes "rs_id r = fresh_row s" "rs_hash r \<notin> rs_hash ` set (session_rows s)"
  shows "advances s (s\<lparr>session_rows := session_rows s @ [r], fresh_row := Suc (Suc (fresh_row s))\<rparr>)"
  using assms unfolding advances_def auth_inv_def evolves_def
  by (auto simp: rows_keep_refl rows_keep_append kept_reflp intro: keyed_mono [OF keyed_append] keyed_mono)

lemma advances_put_session:
  assumes "get_row rs_id (rs_id q) (session_rows s) = Some r" "session_kept r q"
  shows "advances s (s\<lparr>session_rows := put_row rs_id q (session_rows s)\<rparr>)"
proof (unfold advances_def, intro impI conjI)
  assume inv: "auth_inv s"
  then have uniq: "unique_key rs_id (session_rows s)" by (simp add: auth_inv_def keyed_def)
  have "map rs_hash (put_row rs_id q (session_rows s)) = map rs_hash (session_rows s)"
    using uniq assms by (intro map_put_row_same [where q = r]) (simp_all add: session_kept_def)
  with inv assms show "auth_inv (s\<lparr>session_rows := put_row rs_id q (session_rows s)\<rparr>)"
    by (simp add: auth_inv_def)
  show "evolves s (s\<lparr>session_rows := put_row rs_id q (session_rows s)\<rparr>)"
    using uniq assms kept_reflp by (simp add: evolves_def rows_keep_refl rows_keep_put)
qed

lemma advances_map_sessions:
  assumes "\<And>r. session_kept r (f r)"
  shows "advances s (s\<lparr>session_rows := map f (session_rows s)\<rparr>)"
  using assms unfolding advances_def auth_inv_def evolves_def
  by (auto simp: rows_keep_refl kept_reflp rows_keep_map keyed_map session_kept_def comp_def)

lemma advances_new_grant:
  assumes "rt_hash g \<notin> rt_hash ` set (reset_rows s)"
  shows "advances s (s\<lparr>reset_rows := reset_rows s @ [g]\<rparr>)"
  using assms unfolding advances_def auth_inv_def evolves_def
  by (auto simp: rows_keep_refl rows_keep_append kept_reflp)

lemma advances_map_grants:
  assumes "\<And>g. grant_kept g (f g)"
  shows "advances s (s\<lparr>reset_rows := map f (reset_rows s)\<rparr>)"
  using assms unfolding advances_def auth_inv_def evolves_def
  by (auto simp: rows_keep_refl kept_reflp rows_keep_map grant_kept_def comp_def)

lemma advances_new_invitation:
  assumes "inv_id v = fresh_row s" "inv_hash v \<notin> inv_hash ` set (invitation_rows s)"
  shows "advances s (s\<lparr>invitation_rows := invitation_rows s @ [v], fresh_row := Suc (fresh_row s)\<rparr>)"
  using assms unfolding advances_def auth_inv_def evolves_def
  by (auto simp: rows_keep_refl rows_keep_append kept_reflp keyed_append intro: keyed_mono)

lemma advances_new_token:
  assumes "pt_id p = fresh_row s" "pt_hash p \<notin> pt_hash ` set (token_rows s)"
  shows "advances s (s\<lparr>token_rows := token_rows s @ [p], fresh_row := Suc (fresh_row s)\<rparr>)"
  using assms unfolding advances_def auth_inv_def evolves_def
  by (auto simp: rows_keep_refl rows_keep_append kept_reflp keyed_append intro: keyed_mono)

lemma advances_put_token:
  assumes "get_row pt_id (pt_id q) (token_rows s) = Some p" "token_kept p q"
  shows "advances s (s\<lparr>token_rows := put_row pt_id q (token_rows s)\<rparr>)"
proof (unfold advances_def, intro impI conjI)
  assume inv: "auth_inv s"
  then have uniq: "unique_key pt_id (token_rows s)" by (simp add: auth_inv_def keyed_def)
  have "map pt_hash (put_row pt_id q (token_rows s)) = map pt_hash (token_rows s)"
    using uniq assms by (intro map_put_row_same [where q = p]) (simp_all add: token_kept_def)
  with inv assms show "auth_inv (s\<lparr>token_rows := put_row pt_id q (token_rows s)\<rparr>)"
    by (simp add: auth_inv_def)
  show "evolves s (s\<lparr>token_rows := put_row pt_id q (token_rows s)\<rparr>)"
    using uniq assms kept_reflp by (simp add: evolves_def rows_keep_refl rows_keep_put)
qed

section \<open>Looking accounts up\<close>

lemma isspace_lower_char [simp]: "isspace (lower_char c) = isspace c"
  by (simp add: isspace_def lower_char_def Let_def)

lemma lower_char_idem [simp]: "lower_char (lower_char c) = lower_char c"
  by (simp add: lower_char_def Let_def)

lemma lower_idem [simp]: "lower (lower t) = lower t"
  by (simp add: lower_def)

lemma dropWhile_lower: "dropWhile isspace (lower t) = lower (dropWhile isspace t)"
  by (induction t) (simp_all add: lower_def)

lemma strip_lower: "strip (lower t) = lower (strip t)"
proof -
  have "rev (lower t) = lower (rev t)" for t by (simp add: lower_def rev_map)
  then show ?thesis by (simp add: strip_def lstrip_def rstrip_def dropWhile_lower)
qed

lemma dropWhile_idem: "dropWhile P (dropWhile P xs) = dropWhile P xs"
  by (induction xs) simp_all

lemma rstrip_hd: "x = [] \<or> \<not> isspace (hd x) \<Longrightarrow> rstrip x = [] \<or> \<not> isspace (hd (rstrip x))"
proof -
  assume x: "x = [] \<or> \<not> isspace (hd x)"
  obtain t where t: "x = rstrip x @ t" using rstrip_prefix by blast
  show ?thesis
  proof (cases "rstrip x")
    case (Cons c cs)
    with t have "hd x = c" by (metis append_Cons list.sel(1))
    with x t Cons show ?thesis by (metis append_Cons list.distinct(1) list.sel(1))
  qed simp
qed

lemma strip_idem [simp]: "strip (strip t) = strip t"
proof -
  have "lstrip t = [] \<or> \<not> isspace (hd (lstrip t))"
    by (induction t) (simp_all add: lstrip_def)
  from rstrip_hd [OF this] have "strip t = [] \<or> \<not> isspace (hd (strip t))" by (simp add: strip_def)
  then have "lstrip (strip t) = strip t"
    by (cases "strip t") (simp_all add: lstrip_def)
  then show ?thesis by (simp add: strip_def) (simp add: rstrip_def dropWhile_idem)
qed

lemma canonical_lower_strip [simp]: "canonical (lower (strip t))"
  by (simp add: canonical_def strip_lower)

lemma canonicalD:
  assumes "canonical e"
  shows "lower e = e" "strip e = e"
proof -
  from assms have e: "e = lower (strip e)" by (simp add: canonical_def)
  then show l: "lower e = e" by (metis lower_idem)
  have "lower (strip e) = strip e" using l strip_lower [of e] by simp
  with e show "strip e = e" by simp
qed

lemma with_email_Some: "with_email s e = Some a \<Longrightarrow> a \<in> set (account_rows s) \<and> acc_email a = e"
  by (auto simp: with_email_def find_Some_iff)

lemma find_distinct: "distinct (map f xs) \<Longrightarrow> x \<in> set xs \<Longrightarrow> find (\<lambda>y. f y = f x) xs = Some x"
  by (induction xs) auto

lemma set_map_filter: "x \<in> set (List.map_filter f xs) \<longleftrightarrow> (\<exists>y \<in> set xs. f y = Some x)"
  by (induction xs) (auto simp: List.map_filter_simps split: option.splits)

lemma with_email_mem:
  assumes "distinct (map acc_email (account_rows s))" "a \<in> set (account_rows s)"
  shows "with_email s (acc_email a) = Some a"
  using assms unfolding with_email_def by (rule find_distinct)

lemma get_by_email_Some:
  assumes "get_by_email s e = Some (Some a)"
  shows "a \<in> set (account_rows s)" "lower (acc_email a) = lower (strip e)"
proof -
  let ?cs = "filter (\<lambda>c. c \<noteq> []) (fromkeys [strip e, lower (strip e)])"
  consider (exact) as where "List.map_filter (with_email s) ?cs = a # as"
    | (folded) as where "filter (\<lambda>a. lower (acc_email a) = lower (strip e)) (account_rows s) = a # as"
    using assms by (auto simp: get_by_email_def Let_def split: list.splits)
  then have "a \<in> set (account_rows s) \<and> lower (acc_email a) = lower (strip e)"
  proof cases
    case exact
    then have "a \<in> set (List.map_filter (with_email s) ?cs)" by simp
    then show ?thesis by (auto simp: set_map_filter dest!: with_email_Some)
  next
    case folded
    then have "a \<in> set (filter (\<lambda>a. lower (acc_email a) = lower (strip e)) (account_rows s))" by simp
    then show ?thesis by simp
  qed
  then show "a \<in> set (account_rows s)" "lower (acc_email a) = lower (strip e)" by simp_all
qed

lemma get_by_email_none:
  assumes "get_by_email s e = Some None"
  shows "lower (strip e) \<notin> acc_email ` set (account_rows s)"
proof
  assume "lower (strip e) \<in> acc_email ` set (account_rows s)"
  then obtain a where a: "a \<in> set (account_rows s)" "acc_email a = lower (strip e)" by force
  then have "a \<in> set (filter (\<lambda>a. lower (acc_email a) = lower (strip e)) (account_rows s))" by simp
  then have "filter (\<lambda>a. lower (acc_email a) = lower (strip e)) (account_rows s) \<noteq> []" by force
  with assms show False
    by (auto simp: get_by_email_def Let_def split: list.splits)
qed

text \<open>With canonical, unique addresses the look-up is exact.\<close>

lemma get_by_email_canonical:
  assumes "auth_inv s" "a \<in> set (account_rows s)" "acc_email a \<noteq> []"
  shows "get_by_email s (acc_email a) = Some (Some a)"
proof -
  have "canonical (acc_email a)" "with_email s (acc_email a) = Some a"
    using assms(1,2) with_email_mem by (simp_all add: auth_inv_def)
  then show ?thesis
    using assms(3) by (simp add: get_by_email_def Let_def canonicalD fromkeys_def List.map_filter_def)
qed

section \<open>Seeding keeps the accounts\<close>

lemma ensure_role_keeps [simp]:
  "account_rows (snd (ensure_role n c s)) = account_rows s"
  "session_rows (snd (ensure_role n c s)) = session_rows s"
  "reset_rows (snd (ensure_role n c s)) = reset_rows s"
  "invitation_rows (snd (ensure_role n c s)) = invitation_rows s"
  "token_rows (snd (ensure_role n c s)) = token_rows s"
  "department_rows (snd (ensure_role n c s)) = department_rows s"
  by (simp_all add: ensure_role_def split: option.splits)

lemma advances_ensure_role: "advances s (snd (ensure_role n c s))"
  unfolding ensure_role_def
  by (auto intro!: advances_put_role advances_new_role simp: grant_missing_def split: option.splits)

lemma ensure_roles_keeps [simp]:
  "account_rows (ensure_roles rs s) = account_rows s"
  "session_rows (ensure_roles rs s) = session_rows s"
  "reset_rows (ensure_roles rs s) = reset_rows s"
  "invitation_rows (ensure_roles rs s) = invitation_rows s"
  "token_rows (ensure_roles rs s) = token_rows s"
  "department_rows (ensure_roles rs s) = department_rows s"
  by (induction rs s rule: ensure_roles.induct) simp_all

lemma advances_ensure_roles: "advances s (ensure_roles rs s)"
proof (induction rs s rule: ensure_roles.induct)
  case (2 n c rest s)
  then show ?case using advances_trans [OF advances_ensure_role] by simp
qed simp

text \<open>What seeding may do to an account: give it its first role.\<close>

definition seeded_from :: "account \<Rightarrow> account \<Rightarrow> bool" where
  "seeded_from a b = (b = a \<or> acc_roles a = [] \<and> (\<exists>i. b = a\<lparr>acc_roles := [i]\<rparr>))"

lemma seeded_from_fields:
  assumes "seeded_from a b"
  shows "acc_id b = acc_id a" "acc_email b = acc_email a" "acc_active b = acc_active a"
    "acc_auth_version b = acc_auth_version a" "acc_password_hash b = acc_password_hash a"
    "acc_company b = acc_company a" "acc_role b = acc_role a" "acc_name b = acc_name a"
    "acc_departments b = acc_departments a" "acc_dept b = acc_dept a"
    "acc_ownerships b = acc_ownerships a"
  using assms by (auto simp: seeded_from_def)

lemma put_account_keeps [simp]:
  "session_rows (put_account a s) = session_rows s" "reset_rows (put_account a s) = reset_rows s"
  "invitation_rows (put_account a s) = invitation_rows s" "token_rows (put_account a s) = token_rows s"
  "department_rows (put_account a s) = department_rows s" "role_rows (put_account a s) = role_rows s"
  "fresh_row (put_account a s) = fresh_row s"
  by (simp_all add: put_account_def)

definition column_role :: "account \<Rightarrow> string" where
  "column_role a = (if acc_role a \<in> set role_names then acc_role a else ''Staff'')"

lemma backfill_step:
  assumes "acc_roles a = []"
  shows "backfill (a # rest) s =
    backfill rest (put_account
      (a\<lparr>acc_roles := [fst (ensure_role (column_role a) (Some (acc_company a)) s)]\<rparr>)
      (snd (ensure_role (column_role a) (Some (acc_company a)) s)))"
  using assms by (simp add: Let_def case_prod_beta column_role_def)

lemma backfill_skip: "acc_roles a \<noteq> [] \<Longrightarrow> backfill (a # rest) s = backfill rest s"
  by simp

declare backfill.simps(2) [simp del]

lemma backfill_keeps [simp]:
  "session_rows (backfill as s) = session_rows s"
  "reset_rows (backfill as s) = reset_rows s"
  "invitation_rows (backfill as s) = invitation_rows s"
  "token_rows (backfill as s) = token_rows s"
  "department_rows (backfill as s) = department_rows s"
proof (induction as arbitrary: s)
  case (Cons a as)
  { case 1 show ?case by (cases "acc_roles a = []") (simp_all only: backfill_step backfill_skip Cons put_account_keeps ensure_role_keeps not_False_eq_True) }
  { case 2 show ?case by (cases "acc_roles a = []") (simp_all only: backfill_step backfill_skip Cons put_account_keeps ensure_role_keeps not_False_eq_True) }
  { case 3 show ?case by (cases "acc_roles a = []") (simp_all only: backfill_step backfill_skip Cons put_account_keeps ensure_role_keeps not_False_eq_True) }
  { case 4 show ?case by (cases "acc_roles a = []") (simp_all only: backfill_step backfill_skip Cons put_account_keeps ensure_role_keeps not_False_eq_True) }
  { case 5 show ?case by (cases "acc_roles a = []") (simp_all only: backfill_step backfill_skip Cons put_account_keeps ensure_role_keeps not_False_eq_True) }
qed simp_all

lemma rest_found:
  assumes "distinct (map acc_id (a # rest))" "\<forall>x \<in> set (a # rest). account_of s (acc_id x) = Some x"
    "acc_id b = acc_id a" "account_rows t = account_rows s"
  shows "\<forall>x \<in> set rest. account_of (put_account b t) (acc_id x) = Some x"
proof
  fix x assume x: "x \<in> set rest"
  then have "acc_id x \<noteq> acc_id b" using assms(1,3) by (metis distinct.simps(2) image_eqI list.set_map list.simps(9))
  then have "account_of (put_account b t) (acc_id x) = account_of s (acc_id x)"
    using assms(4) by (simp add: put_account_def get_put_other)
  with assms(2) x show "account_of (put_account b t) (acc_id x) = Some x" by simp
qed

lemma advances_backfill:
  assumes "distinct (map acc_id as)" "\<forall>a \<in> set as. account_of s (acc_id a) = Some a"
  shows "advances s (backfill as s)"
  using assms
proof (induction as arbitrary: s)
  case (Cons a rest)
  show ?case
  proof (cases "acc_roles a = []")
    case True
    let ?b = "a\<lparr>acc_roles := [fst (ensure_role (column_role a) (Some (acc_company a)) s)]\<rparr>"
    let ?s1 = "snd (ensure_role (column_role a) (Some (acc_company a)) s)"
    have "advances ?s1 (put_account ?b ?s1)"
      by (rule advances_put_account [of _ _ a]) (use Cons.prems(2) in simp_all)
    then have "advances s (put_account ?b ?s1)" by (rule advances_trans [OF advances_ensure_role])
    moreover have "advances (put_account ?b ?s1) (backfill rest (put_account ?b ?s1))"
    proof (rule Cons.IH)
      show "distinct (map acc_id rest)" using Cons.prems(1) by simp
      show "\<forall>x \<in> set rest. account_of (put_account ?b ?s1) (acc_id x) = Some x"
        by (rule rest_found [OF Cons.prems]) simp_all
    qed
    ultimately show ?thesis unfolding backfill_step [OF True] by (rule advances_trans)
  next
    case False
    with Cons show ?thesis by (simp add: backfill_skip)
  qed
qed simp

lemma backfill_accounts:
  assumes "distinct (map acc_id as)" "\<forall>a \<in> set as. account_of s (acc_id a) = Some a"
    "account_of s i = Some c"
  shows "\<exists>b. account_of (backfill as s) i = Some b \<and> seeded_from c b
    \<and> (c \<in> set as \<longrightarrow> acc_roles b \<noteq> [])"
  using assms
proof (induction as arbitrary: s c)
  case Nil
  then show ?case by (auto simp: seeded_from_def)
next
  case (Cons a rest)
  show ?case
  proof (cases "acc_roles a = []")
    case False
    with Cons.IH [of s c] Cons.prems obtain b where
      "account_of (backfill rest s) i = Some b" "seeded_from c b" "c \<in> set rest \<longrightarrow> acc_roles b \<noteq> []"
      by auto
    with False show ?thesis by (auto simp: seeded_from_def backfill_skip)
  next
    case True
    note n = backfill_step [OF True, of rest s]
    let ?b = "a\<lparr>acc_roles := [fst (ensure_role (column_role a) (Some (acc_company a)) s)]\<rparr>"
    let ?s1 = "snd (ensure_role (column_role a) (Some (acc_company a)) s)"
    have rest: "\<forall>x \<in> set rest. account_of (put_account ?b ?s1) (acc_id x) = Some x"
      by (rule rest_found [OF Cons.prems(1,2)]) simp_all
    show ?thesis
    proof (cases "i = acc_id a")
      case True
      have "account_of (put_account ?b ?s1) i = Some ?b"
        using Cons.prems(2,3) True get_put_same [of acc_id ?b "account_rows s"]
        by (simp add: put_account_def)
      from Cons.IH [OF _ rest this] Cons.prems(1) obtain b where
        b: "account_of (backfill rest (put_account ?b ?s1)) i = Some b" "seeded_from ?b b" by auto
      from b(2) have "b = ?b" by (auto simp: seeded_from_def)
      moreover have "c = a" using Cons.prems(2,3) True by simp
      ultimately show ?thesis using b(1) \<open>acc_roles a = []\<close> unfolding n by (auto simp: seeded_from_def)
    next
      case False
      then have "account_of (put_account ?b ?s1) i = Some c"
        using Cons.prems(3) by (simp add: put_account_def get_put_other)
      from Cons.IH [OF _ rest this] Cons.prems(1) obtain b where
        "account_of (backfill rest (put_account ?b ?s1)) i = Some b" "seeded_from c b"
        "c \<in> set rest \<longrightarrow> acc_roles b \<noteq> []" by auto
      moreover have "c \<noteq> a" using False get_row_SomeD(2) [OF Cons.prems(3)] by auto
      ultimately show ?thesis unfolding n by auto
    qed
  qed
qed

lemma bootstrap_keeps [simp]:
  "session_rows (bootstrap_rbac s) = session_rows s"
  "reset_rows (bootstrap_rbac s) = reset_rows s"
  "invitation_rows (bootstrap_rbac s) = invitation_rows s"
  "token_rows (bootstrap_rbac s) = token_rows s"
  "department_rows (bootstrap_rbac s) = department_rows s"
  by (simp_all add: bootstrap_rbac_def Let_def)

lemma all_accounts_found:
  "keyed acc_id n (account_rows s) \<Longrightarrow> \<forall>a \<in> set (account_rows s). account_of s (acc_id a) = Some a"
  by (simp add: keyed_def unique_key_get_row)

lemma auth_inv_found:
  assumes "auth_inv s"
  shows "a \<in> set (account_rows s) \<Longrightarrow> account_of s (acc_id a) = Some a"
    "r \<in> set (session_rows s) \<Longrightarrow> get_row rs_id (rs_id r) (session_rows s) = Some r"
    "v \<in> set (invitation_rows s) \<Longrightarrow> get_row inv_id (inv_id v) (invitation_rows s) = Some v"
    "p \<in> set (token_rows s) \<Longrightarrow> get_row pt_id (pt_id p) (token_rows s) = Some p"
    "q \<in> set (role_rows s) \<Longrightarrow> get_row role_id (role_id q) (role_rows s) = Some q"
  using assms by (simp_all add: auth_inv_def keyed_def unique_key_get_row)

lemma advances_under: "(auth_inv s \<Longrightarrow> advances s t) \<Longrightarrow> advances s t"
  by (simp add: advances_def)

lemma advances_bootstrap: "advances s (bootstrap_rbac s)"
proof (unfold advances_def, rule impI)
  assume inv: "auth_inv s"
  let ?s1 = "s\<lparr>permission_keys := permission_keys s @
                   filter (\<lambda>k. k \<notin> set (permission_keys s)) PERMISSION_CATALOG\<rparr>"
  let ?s3 = "ensure_roles (company_roles (company_domains s)) (ensure_roles [(''Admin'', None)] ?s1)"
  have "advances s ?s1" by (rule advances_untracked) simp_all
  then have "advances s ?s3" by (blast intro: advances_trans advances_ensure_roles)
  moreover have "advances ?s3 (backfill (account_rows s) ?s3)"
    using inv all_accounts_found [of _ s] by (intro advances_backfill) (auto simp: auth_inv_def keyed_def unique_key_def)
  ultimately have "advances s (backfill (account_rows s) ?s3)" by (rule advances_trans)
  with inv show "auth_inv (bootstrap_rbac s) \<and> evolves s (bootstrap_rbac s)"
    by (simp add: advances_def bootstrap_rbac_def Let_def)
qed

lemma bootstrap_accounts:
  assumes "auth_inv s" "account_of s i = Some c"
  shows "\<exists>b. account_of (bootstrap_rbac s) i = Some b \<and> seeded_from c b \<and> acc_roles b \<noteq> []"
proof -
  let ?s1 = "s\<lparr>permission_keys := permission_keys s @
                   filter (\<lambda>k. k \<notin> set (permission_keys s)) PERMISSION_CATALOG\<rparr>"
  let ?s3 = "ensure_roles (company_roles (company_domains s)) (ensure_roles [(''Admin'', None)] ?s1)"
  have "\<exists>b. account_of (backfill (account_rows s) ?s3) i = Some b \<and> seeded_from c b
    \<and> (c \<in> set (account_rows s) \<longrightarrow> acc_roles b \<noteq> [])"
    using assms all_accounts_found [of _ s]
    by (intro backfill_accounts) (auto simp: auth_inv_def keyed_def unique_key_def)
  with get_row_SomeD(1) [OF assms(2)] show ?thesis
    by (simp add: bootstrap_rbac_def Let_def)
qed

lemma advances_register:
  assumes "register_user C cfg salt e n pw d r priv s = Inr (a, t)"
  shows "advances s t"
  using assms unfolding register_user_def Let_def
  by (auto simp: guard_simps email_taken_def strip_lower dest!: get_by_email_none intro!: advances_new_account)

end
