(* ===== verification/Sessions.thy ===== *)
theory Sessions
  imports Accounts
begin

text \<open>
  Signing in and staying signed in: the session, password and invitation routes of
  \<open>src/api/routers/auth.py\<close>, the account routes of \<open>src/api/routers/account.py\<close>,
  \<open>get_current_user\<close> of \<open>src/api/deps.py\<close> and the personal access tokens of
  \<open>src/domain/access_tokens.py\<close> with their router.

  \<open>limit\<close> is the answer of \<open>auth_rate_limiter\<close> to a key in this call; \<open>raw\<close> and \<open>salt\<close> are the
  random values of the call. A handler that needs a signed-in caller takes the account
  \<open>get_current_user\<close> returned. The row-level security of the database, which the handlers
  open or narrow with \<open>set_database_context\<close>, is not modelled.
\<close>

section \<open>Requests\<close>

text \<open>
  The headers the handlers read. The \<open>Referer\<close> is given as \<open>urlparse\<close> splits it: scheme,
  host and port, \<open>Inl\<close> when the port is malformed.
\<close>

record parsed_url =
  url_scheme :: string
  url_host :: string
  url_port :: "unit + nat option"

record auth_request =
  aq_method :: string
  aq_origin :: "string option"
  aq_referer :: "parsed_url option"
  aq_agent :: "string option"
  aq_peer :: request

definition reject_cross_site_auth_request :: "auth_settings \<Rightarrow> auth_request \<Rightarrow> unit result" where
  "reject_cross_site_auth_request cfg rq =
     unless (truthy (aq_origin rq) \<and> or_else (aq_origin rq) [] \<notin> set (cors_origins cfg)) 403
       ''Cross-site authentication requests are not allowed''"

definition CSRF_SAFE_METHODS :: "string set" where
  "CSRF_SAFE_METHODS = {''GET'', ''HEAD'', ''OPTIONS''}"

definition referer_origin :: "parsed_url \<Rightarrow> string option" where
  "referer_origin p =
     (case url_port p of
        Inl _ \<Rightarrow> None
      | Inr port \<Rightarrow>
          if url_scheme p = [] \<or> url_host p = [] then None
          else Some (url_scheme p @ ''://'' @ url_host p
                 @ (case port of None \<Rightarrow> [] | Some n \<Rightarrow> if n = 0 then [] else '':'' @ show_nat n)))"

text \<open>The method is given in upper case.\<close>

definition reject_cross_site_cookie_request :: "auth_settings \<Rightarrow> auth_request \<Rightarrow> unit result" where
  "reject_cross_site_cookie_request cfg rq =
     (if aq_method rq \<in> CSRF_SAFE_METHODS then Inr ()
      else if truthy (aq_origin rq)
      then unless (or_else (aq_origin rq) [] \<notin> set (cors_origins cfg)) 403
             ''Cross-site requests are not allowed''
      else case aq_referer rq of
        None \<Rightarrow> Inr ()
      | Some p \<Rightarrow>
          (case referer_origin p of
             None \<Rightarrow> raise 403 ''Cross-site requests are not allowed''
           | Some orig \<Rightarrow> unless (orig \<notin> set (cors_origins cfg)) 403
                              ''Cross-site requests are not allowed''))"

definition some_text :: "string \<Rightarrow> string option" where
  "some_text t = (if t = [] then None else Some t)"

definition client_context :: "auth_request \<Rightarrow> string option \<times> string option" where
  "client_context rq =
     (some_text (take 300 (strip (or_else (aq_agent rq) []))),
      some_text (take 64 (client_ip_from_request (aq_peer rq))))"

type_synonym limiter = "string \<Rightarrow> bool \<times> int"

definition limited :: "limiter \<Rightarrow> string list \<Rightarrow> string \<Rightarrow> unit result" where
  "limited limit keys msg = unless (\<not> list_all (\<lambda>k. fst (limit k)) keys) 429 msg"

section \<open>Refresh sessions\<close>

definition refresh_hash :: "crypto \<Rightarrow> string \<Rightarrow> string" where
  "refresh_hash C t = sha256_hex C t"

definition first_of :: "'a option \<Rightarrow> 'a option \<Rightarrow> 'a option" where
  "first_of x y = (case x of None \<Rightarrow> y | Some v \<Rightarrow> Some v)"

text \<open>
  The row of a new refresh token; \<open>token_hash\<close> is unique in its table. The token was signed a
  moment ago, so verifying it fails only if it is born expired.
\<close>

definition store_refresh_session ::
  "crypto \<Rightarrow> instant \<Rightarrow> account \<Rightarrow> string \<Rightarrow> auth_request \<Rightarrow> refresh_session option \<Rightarrow> accounts
     \<Rightarrow> accounts result" where
  "store_refresh_session C now a t rq previous s =
     (case jwt_decode C now t of
        None \<Rightarrow> raise 500 ''InvalidTokenError''
      | Some claims \<Rightarrow>
          let (agent, address) = client_context rq;
              row = \<lparr>rs_id = fresh_row s, rs_user = acc_id a, rs_hash = refresh_hash C t,
                     rs_expires = seconds (cl_exp claims), rs_revoked = None,
                     rs_family = first_of (case previous of None \<Rightarrow> None | Some p \<Rightarrow> rs_family p)
                                   (Some (Suc (fresh_row s))),
                     rs_agent = first_of agent (case previous of None \<Rightarrow> None | Some p \<Rightarrow> rs_agent p),
                     rs_ip = first_of address (case previous of None \<Rightarrow> None | Some p \<Rightarrow> rs_ip p),
                     rs_signed_in = first_of (case previous of None \<Rightarrow> None | Some p \<Rightarrow> rs_signed_in p)
                                      (Some now),
                     rs_last_used = Some now\<rparr>
          in if rs_hash row \<in> rs_hash ` set (session_rows s) then raise 500 ''IntegrityError''
             else Inr (s\<lparr>session_rows := session_rows s @ [row],
                         fresh_row := Suc (Suc (fresh_row s))\<rparr>))"

text \<open>Sign the user in: both tokens, the refresh token recorded.\<close>

definition issue_tokens ::
  "crypto \<Rightarrow> auth_settings \<Rightarrow> instant \<Rightarrow> account \<Rightarrow> auth_request \<Rightarrow> refresh_session option \<Rightarrow> accounts
     \<Rightarrow> ((string \<times> string) \<times> accounts) result" where
  "issue_tokens C cfg now a rq previous s =
     (let access = create_access_token C cfg now a;
          refresh = create_refresh_token C cfg now (fresh_row s) a
      in and_then (store_refresh_session C now a refresh rq previous
                     (s\<lparr>fresh_row := Suc (fresh_row s)\<rparr>)) (\<lambda>s1.
           Inr ((access, refresh), s1)))"

definition revoke_row :: "instant \<Rightarrow> refresh_session \<Rightarrow> refresh_session" where
  "revoke_row now r = (if rs_revoked r = None then r\<lparr>rs_revoked := Some now\<rparr> else r)"

definition revoke_refresh_sessions :: "instant \<Rightarrow> uuid \<Rightarrow> accounts \<Rightarrow> accounts" where
  "revoke_refresh_sessions now i s =
     s\<lparr>session_rows := map (\<lambda>r. if rs_user r = i then revoke_row now r else r) (session_rows s)\<rparr>"

definition refresh_claims_from_token :: "crypto \<Rightarrow> instant \<Rightarrow> string \<Rightarrow> jwt_claims result" where
  "refresh_claims_from_token C now t =
     (case jwt_decode C now t of
        None \<Rightarrow> raise 401 ''Refresh token is invalid or expired''
      | Some claims \<Rightarrow>
          (case cl_sub claims of
             None \<Rightarrow> raise 401 ''Refresh token is invalid or expired''
           | Some sub \<Rightarrow>
               let subject = lower (strip sub) in
               if cl_type claims \<noteq> Some ''refresh'' \<or> CHR ''@'' \<notin> set subject
               then raise 401 ''Refresh token is invalid or expired''
               else Inr (claims\<lparr>cl_sub := Some subject\<rparr>)))"

text \<open>Where a refresh token is read from: the body, the host cookie, or locally the plain one.\<close>

record carried =
  in_body :: "string option"
  host_cookie :: "string option"
  plain_cookie :: "string option"

definition refresh_value :: "auth_settings \<Rightarrow> carried \<Rightarrow> string option" where
  "refresh_value cfg c =
     (if truthy (in_body c) then in_body c
      else if truthy (host_cookie c) then host_cookie c
      else if development cfg \<and> truthy (plain_cookie c) then plain_cookie c else None)"

definition live_session :: "crypto \<Rightarrow> instant \<Rightarrow> string \<Rightarrow> accounts \<Rightarrow> refresh_session option" where
  "live_session C now t s =
     find (\<lambda>r. rs_hash r = refresh_hash C t \<and> rs_revoked r = None \<and> rs_expires r > now)
       (session_rows s)"

text \<open>An account without roles is seeded, which commits, before anything else is written.\<close>

definition seeded :: "account \<Rightarrow> accounts \<Rightarrow> account \<times> accounts" where
  "seeded a s =
     (if acc_roles a = []
      then let s1 = bootstrap_rbac s
           in ((case account_of s1 (acc_id a) of None \<Rightarrow> a | Some a1 \<Rightarrow> a1), s1)
      else (a, s))"

definition refresh_account ::
  "crypto \<Rightarrow> instant \<Rightarrow> string \<Rightarrow> accounts \<Rightarrow> (account \<times> refresh_session) result" where
  "refresh_account C now t s =
     and_then (refresh_claims_from_token C now t) (\<lambda>claims.
       case live_session C now t s of
         None \<Rightarrow> raise 401 ''Refresh token has been revoked or expired''
       | Some session \<Rightarrow>
           (case get_by_email s (or_else (cl_sub claims) []) of
              Some (Some a) \<Rightarrow>
                if \<not> acc_active a \<or> acc_id a \<noteq> rs_user session \<or> cl_av claims \<noteq> acc_auth_version a
                then raise 401 ''Account is unavailable'' else Inr (a, session)
            | _ \<Rightarrow> raise 401 ''Account is unavailable''))"

definition rotate ::
  "crypto \<Rightarrow> auth_settings \<Rightarrow> instant \<Rightarrow> auth_request \<Rightarrow> account \<Rightarrow> refresh_session \<Rightarrow> accounts
     \<Rightarrow> ((string \<times> string) \<times> accounts) result" where
  "rotate C cfg now rq a session s =
     issue_tokens C cfg now a rq (Some session)
       (s\<lparr>session_rows := put_row rs_id (session\<lparr>rs_revoked := Some now\<rparr>) (session_rows s)\<rparr>)"

definition refresh_token ::
  "crypto \<Rightarrow> auth_settings \<Rightarrow> instant \<Rightarrow> auth_request \<Rightarrow> carried \<Rightarrow> accounts \<Rightarrow> (string \<times> string) reply" where
  "refresh_token C cfg now rq c s =
     (case and_then (reject_cross_site_auth_request cfg rq) (\<lambda>_.
             case refresh_value cfg c of
               None \<Rightarrow> raise 401 ''Refresh token is required''
             | Some t \<Rightarrow> refresh_account C now t s) of
        Inl e \<Rightarrow> (Inl e, s)
      | Inr (a, session) \<Rightarrow>
          (case seeded a s of (a1, s1) \<Rightarrow> transaction s1 (rotate C cfg now rq a1 session s1)))"

definition login ::
  "crypto \<Rightarrow> auth_settings \<Rightarrow> limiter \<Rightarrow> instant \<Rightarrow> auth_request \<Rightarrow> string \<Rightarrow> string \<Rightarrow> accounts
     \<Rightarrow> (string \<times> string) reply" where
  "login C cfg limit now rq username password s =
     (let name = lower (strip username) in
      case and_then (reject_cross_site_auth_request cfg rq) (\<lambda>_.
           and_then (unless (CHR ''@'' \<notin> set name) 401 ''Incorrect email or password'') (\<lambda>_.
           and_then (limited limit [''account:'' @ name, ''ip:'' @ client_ip_from_request (aq_peer rq)]
                       ''Too many login attempts'') (\<lambda>_.
             authenticate_user C username password s))) of
        Inl e \<Rightarrow> (Inl e, s)
      | Inr a \<Rightarrow>
          (case seeded a s of (a1, s1) \<Rightarrow>
             transaction s1
               (and_then (issue_tokens C cfg now a1 rq None s1) (\<lambda>(ts, s2).
                  Inr (ts, record_audit (Some (acc_id a1)) ''login'' ''user'' (acc_id a1) ''success'' s2)))))"

definition logout ::
  "crypto \<Rightarrow> auth_settings \<Rightarrow> instant \<Rightarrow> auth_request \<Rightarrow> carried \<Rightarrow> accounts \<Rightarrow> unit reply" where
  "logout C cfg now rq c s =
     (case reject_cross_site_auth_request cfg rq of
        Inl e \<Rightarrow> (Inl e, s)
      | Inr _ \<Rightarrow>
          let session = (case refresh_value cfg c of
                None \<Rightarrow> None
              | Some t \<Rightarrow>
                  (case refresh_claims_from_token C now t of
                     Inl _ \<Rightarrow> None
                   | Inr _ \<Rightarrow> find (\<lambda>r. rs_hash r = refresh_hash C t) (session_rows s)))
          in (case session of
                None \<Rightarrow> (Inr (), s)
              | Some r \<Rightarrow>
                  if rs_revoked r \<noteq> None then (Inr (), s)
                  else (Inr (), record_audit (Some (rs_user r)) ''logout'' ''user'' (rs_user r) ''success''
                          (s\<lparr>session_rows :=
                               put_row rs_id (r\<lparr>rs_revoked := Some now\<rparr>) (session_rows s)\<rparr>))))"

section \<open>Access tokens (get_current_user)\<close>

text \<open>
  What the handlers rely on of the JWT library: a token it signed verifies, with the claims it
  was given, until the second it expires in.
\<close>

definition jwt_law :: "crypto \<Rightarrow> bool" where
  "jwt_law C = (\<forall>cl now. jwt_encode C cl \<noteq> []
     \<and> (now < seconds (cl_exp cl) \<longrightarrow> jwt_decode C now (jwt_encode C cl) = Some cl))"

definition access_claims :: "crypto \<Rightarrow> instant \<Rightarrow> string \<Rightarrow> (string \<times> int) result" where
  "access_claims C now t =
     (case jwt_decode C now t of
        None \<Rightarrow> raise 401 ''Could not validate credentials''
      | Some claims \<Rightarrow>
          (case cl_sub claims of
             None \<Rightarrow> raise 401 ''Could not validate credentials''
           | Some sub \<Rightarrow>
               if cl_type claims \<noteq> Some ''access'' \<or> CHR ''@'' \<notin> set (lower (strip sub))
               then raise 401 ''Could not validate credentials''
               else Inr (lower (strip sub), cl_av claims)))"

definition presented_token ::
  "auth_settings \<Rightarrow> auth_request \<Rightarrow> carried \<Rightarrow> string result" where
  "presented_token cfg rq c =
     (let cookie = (if truthy (host_cookie c) then host_cookie c
                    else if development cfg then plain_cookie c else None)
      in if truthy (in_body c) then Inr (or_else (in_body c) [])
         else if truthy cookie
         then and_then (reject_cross_site_cookie_request cfg rq) (\<lambda>_. Inr (or_else cookie []))
         else raise 401 ''Could not validate credentials'')"

definition token_account :: "crypto \<Rightarrow> instant \<Rightarrow> string \<Rightarrow> accounts \<Rightarrow> account result" where
  "token_account C now t s =
     and_then (access_claims C now t) (\<lambda>(email, av).
       case get_by_email s email of
         Some (Some a) \<Rightarrow>
           if \<not> acc_active a then raise 403 ''This account has been deactivated''
           else if av \<noteq> acc_auth_version a then raise 401 ''Could not validate credentials''
           else Inr a
       | _ \<Rightarrow> raise 401 ''Could not validate credentials'')"

text \<open>
  The bearer header of the request is the \<open>in_body\<close> of what it carries. Seeding reloads the
  account by its address.
\<close>

definition get_current_user ::
  "crypto \<Rightarrow> auth_settings \<Rightarrow> instant \<Rightarrow> auth_request \<Rightarrow> carried \<Rightarrow> accounts \<Rightarrow> account reply" where
  "get_current_user C cfg now rq c s =
     (case and_then (presented_token cfg rq c) (\<lambda>t. token_account C now t s) of
        Inl e \<Rightarrow> (Inl e, s)
      | Inr a \<Rightarrow>
          if acc_roles a \<noteq> [] then (Inr a, s)
          else let s1 = bootstrap_rbac s in
               (case get_by_email s1 (acc_email a) of
                  Some (Some a1) \<Rightarrow>
                    if acc_active a1 then (Inr a1, s1)
                    else (raise 403 ''This account has been deactivated'', s1)
                | _ \<Rightarrow> (raise 403 ''This account has been deactivated'', s1)))"

section \<open>Passwords\<close>

definition PASSWORD_MIN_LENGTH :: nat where "PASSWORD_MIN_LENGTH = 12"

definition PASSWORD_MAX_BYTES :: nat where "PASSWORD_MAX_BYTES = 72"

definition validate_password :: "string \<Rightarrow> unit result" where
  "validate_password password =
     and_then (unless (length password < PASSWORD_MIN_LENGTH) 422
                 ''Password must be at least 12 characters'') (\<lambda>_.
       unless (utf8_length password > PASSWORD_MAX_BYTES) 422
         ''Password must be at most 72 bytes; accented and Vietnamese characters count as more than one'')"

definition forgot_password ::
  "crypto \<Rightarrow> auth_settings \<Rightarrow> limiter \<Rightarrow> instant \<Rightarrow> auth_request \<Rightarrow> string \<Rightarrow> string \<Rightarrow> accounts
     \<Rightarrow> unit reply" where
  "forgot_password C cfg limit now rq address raw s =
     (let email = lower (strip address) in
      case and_then (reject_cross_site_auth_request cfg rq) (\<lambda>_.
             limited limit [''forgot:'' @ email, ''forgot-ip:'' @ client_ip_from_request (aq_peer rq)]
               ''Too many reset requests'') of
        Inl e \<Rightarrow> (Inl e, s)
      | Inr _ \<Rightarrow>
          (case find (\<lambda>a. acc_email a = email \<and> acc_active a) (account_rows s) of
             None \<Rightarrow> (Inr (), s)
           | Some a \<Rightarrow>
               if sha256_hex C raw \<in> rt_hash ` set (reset_rows s) then (raise 500 ''IntegrityError'', s)
               else (Inr (), record_audit (Some (acc_id a)) ''password_reset_request'' ''user'' (acc_id a)
                       ''success''
                       (s\<lparr>reset_rows := reset_rows s @
                            [\<lparr>rt_user = acc_id a, rt_hash = sha256_hex C raw,
                              rt_expires = now + minutes 60, rt_used = None, rt_email = email\<rparr>],
                          mail_rows := mail_rows s @
                            [\<lparr>mail_owner = acc_id a, mail_to = email, mail_secret = raw\<rparr>]\<rparr>))))"

definition set_password :: "string \<Rightarrow> account \<Rightarrow> account" where
  "set_password hashed a =
     a\<lparr>acc_password_hash := hashed, acc_auth_version := acc_auth_version a + 1\<rparr>"

definition void_grants :: "instant \<Rightarrow> uuid \<Rightarrow> accounts \<Rightarrow> accounts" where
  "void_grants now i s =
     s\<lparr>reset_rows := map (\<lambda>g. if rt_user g = i \<and> rt_used g = None
                              then g\<lparr>rt_used := Some now\<rparr> else g) (reset_rows s)\<rparr>"

definition reset_grant :: "crypto \<Rightarrow> instant \<Rightarrow> string \<Rightarrow> accounts \<Rightarrow> account result" where
  "reset_grant C now t s =
     (case find (\<lambda>g. rt_hash g = sha256_hex C t) (reset_rows s) of
        None \<Rightarrow> raise 404 ''This reset link is not valid''
      | Some g \<Rightarrow>
          if rt_used g \<noteq> None then raise 410 ''This reset link has already been used''
          else if rt_expires g \<le> now then raise 410 ''This reset link has expired''
          else case account_of s (rt_user g) of
            None \<Rightarrow> raise 410 ''This account is no longer active''
          | Some a \<Rightarrow> if acc_active a then Inr a
                      else raise 410 ''This account is no longer active'')"

definition reset_password ::
  "crypto \<Rightarrow> auth_settings \<Rightarrow> limiter \<Rightarrow> instant \<Rightarrow> auth_request \<Rightarrow> string \<Rightarrow> string \<Rightarrow> string \<Rightarrow> accounts
     \<Rightarrow> unit reply" where
  "reset_password C cfg limit now rq t password salt s =
     transaction s
       (and_then (reject_cross_site_auth_request cfg rq) (\<lambda>_.
        and_then (limited limit [''reset:'' @ client_ip_from_request (aq_peer rq)] ''Too many attempts'') (\<lambda>_.
        and_then (validate_password password) (\<lambda>_.
        and_then (reset_grant C now t s) (\<lambda>a.
        and_then (get_password_hash C salt password) (\<lambda>hashed.
          Inr ((), record_audit (Some (acc_id a)) ''password_reset'' ''user'' (acc_id a) ''success''
                (revoke_refresh_sessions now (acc_id a)
                  (void_grants now (acc_id a) (put_account (set_password hashed a) s)))))))))) "

text \<open>A wrong current password leaves an audit row behind.\<close>

definition change_password ::
  "crypto \<Rightarrow> auth_settings \<Rightarrow> limiter \<Rightarrow> instant \<Rightarrow> auth_request \<Rightarrow> account \<Rightarrow> string \<Rightarrow> string \<Rightarrow> string
     \<Rightarrow> accounts \<Rightarrow> (string \<times> string) reply" where
  "change_password C cfg limit now rq me current new_password salt s =
     (case and_then (reject_cross_site_auth_request cfg rq) (\<lambda>_.
             limited limit [''change:'' @ show_nat (acc_id me)] ''Too many attempts'') of
        Inl e \<Rightarrow> (Inl e, s)
      | Inr _ \<Rightarrow>
          if \<not> verify_password C current (acc_password_hash me)
          then (raise 401 ''Current password is incorrect'',
                record_audit (Some (acc_id me)) ''password_change'' ''user'' (acc_id me) ''failure'' s)
          else transaction s
            (and_then (validate_password new_password) (\<lambda>_.
             and_then (unless (new_password = current) 422
                         ''The new password must differ from the current one'') (\<lambda>_.
               case account_of s (acc_id me) of
                 None \<Rightarrow> raise 404 ''Account not found''
               | Some a \<Rightarrow>
                   and_then (get_password_hash C salt new_password) (\<lambda>hashed.
                   and_then (issue_tokens C cfg now (set_password hashed a) rq None
                      (revoke_refresh_sessions now (acc_id a) (put_account (set_password hashed a) s))) (\<lambda>(ts, s1).
                     Inr (ts, record_audit (Some (acc_id me)) ''password_change'' ''user'' (acc_id me)
                            ''success'' s1)))))))"

section \<open>The account page\<close>

definition live_sessions :: "instant \<Rightarrow> uuid \<Rightarrow> accounts \<Rightarrow> refresh_session list" where
  "live_sessions now i s =
     filter (\<lambda>r. rs_user r = i \<and> rs_revoked r = None \<and> rs_expires r > now) (session_rows s)"

definition revoke_session ::
  "crypto \<Rightarrow> auth_settings \<Rightarrow> instant \<Rightarrow> auth_request \<Rightarrow> carried \<Rightarrow> account \<Rightarrow> uuid \<Rightarrow> accounts \<Rightarrow> bool reply" where
  "revoke_session C cfg now rq c me i s =
     transaction s
       (and_then (reject_cross_site_auth_request cfg rq) (\<lambda>_.
          case find (\<lambda>r. rs_id r = i \<and> rs_user r = acc_id me \<and> rs_revoked r = None) (session_rows s) of
            None \<Rightarrow> raise 404 ''Session not found''
          | Some r \<Rightarrow>
              Inr ((case refresh_value cfg (c\<lparr>in_body := None\<rparr>) of
                      None \<Rightarrow> False | Some t \<Rightarrow> rs_hash r = refresh_hash C t),
                   record_audit (Some (acc_id me)) ''session_revoke'' ''user'' (acc_id me) ''success''
                     (s\<lparr>session_rows := put_row rs_id (r\<lparr>rs_revoked := Some now\<rparr>) (session_rows s)\<rparr>))))"

definition revoke_other_sessions ::
  "crypto \<Rightarrow> auth_settings \<Rightarrow> instant \<Rightarrow> auth_request \<Rightarrow> carried \<Rightarrow> account \<Rightarrow> accounts
     \<Rightarrow> ((string \<times> string) \<times> nat) reply" where
  "revoke_other_sessions C cfg now rq c me s =
     transaction s
       (and_then (reject_cross_site_auth_request cfg rq) (\<lambda>_.
          case refresh_value cfg (c\<lparr>in_body := None\<rparr>) of
            None \<Rightarrow> raise 400 ''The current session could not be identified''
          | Some t \<Rightarrow>
              (case find (\<lambda>r. rs_hash r = refresh_hash C t) (live_sessions now (acc_id me) s) of
                 None \<Rightarrow> raise 400 ''The current session could not be identified''
               | Some current \<Rightarrow>
                   (case account_of s (acc_id me) of
                      None \<Rightarrow> raise 404 ''Account not found''
                    | Some a \<Rightarrow>
                        let a1 = a\<lparr>acc_auth_version := acc_auth_version a + 1\<rparr>;
                            others = filter (\<lambda>r. rs_id r \<noteq> rs_id current)
                                       (live_sessions now (acc_id me) s)
                        in and_then (issue_tokens C cfg now a1 rq (Some current)
                              (revoke_refresh_sessions now (acc_id a) (put_account a1 s))) (\<lambda>(ts, s1).
                             Inr ((ts, length others),
                                  record_audit (Some (acc_id a)) ''sessions_revoke_others'' ''user''
                                    (acc_id a) ''success'' s1))))))"

section \<open>Personal access tokens (domain/access_tokens.py)\<close>

definition token_hash :: "crypto \<Rightarrow> string \<Rightarrow> string" where
  "token_hash C raw = sha256_hex C raw"

definition TOKEN_PREFIX :: string where "TOKEN_PREFIX = ''kbpat_''"

definition looks_like_token :: "string option \<Rightarrow> bool" where
  "looks_like_token raw =
     (case raw of None \<Rightarrow> False
      | Some t \<Rightarrow> take (length TOKEN_PREFIX) t = TOKEN_PREFIX \<and> length t \<le> 128)"

definition new_token :: "string \<Rightarrow> string" where
  "new_token random = TOKEN_PREFIX @ random"

definition live_token :: "instant \<Rightarrow> personal_token \<Rightarrow> bool" where
  "live_token now p = (pt_revoked p = None \<and> pt_expires p > now)"

definition count_live_tokens :: "instant \<Rightarrow> uuid \<Rightarrow> accounts \<Rightarrow> nat" where
  "count_live_tokens now i s = length (filter (\<lambda>p. pt_user p = i \<and> live_token now p) (token_rows s))"

definition create_token ::
  "crypto \<Rightarrow> auth_settings \<Rightarrow> instant \<Rightarrow> account \<Rightarrow> string \<Rightarrow> string \<Rightarrow> int \<Rightarrow> string \<Rightarrow> accounts
     \<Rightarrow> ((personal_token \<times> string) \<times> accounts) result" where
  "create_token C cfg now me name scope' expires_in_days random s =
     (let raw = new_token random;
          item = \<lparr>pt_id = fresh_row s, pt_user = acc_id me, pt_name = strip name,
                  pt_prefix = take (length TOKEN_PREFIX + 4) raw, pt_hash = token_hash C raw,
                  pt_scope = scope',
                  pt_expires = now + days (max 1 (min expires_in_days (token_max_days cfg))),
                  pt_last_used = None, pt_revoked = None\<rparr>
      in and_then (unless (scope' \<notin> {''read'', ''write''}) 500 ''ValueError'') (\<lambda>_.
         and_then (unless (pt_hash item \<in> pt_hash ` set (token_rows s)) 500 ''IntegrityError'') (\<lambda>_.
           Inr ((item, raw), s\<lparr>token_rows := token_rows s @ [item], fresh_row := Suc (fresh_row s)\<rparr>))))"

definition create_personal_token ::
  "crypto \<Rightarrow> auth_settings \<Rightarrow> instant \<Rightarrow> account \<Rightarrow> string \<Rightarrow> string \<Rightarrow> int \<Rightarrow> string \<Rightarrow> accounts
     \<Rightarrow> (personal_token \<times> string) reply" where
  "create_personal_token C cfg now me name scope' expires_in_days random s =
     transaction s
       (and_then (unless (\<not> mcp_enabled cfg) 404 ''MCP access is not enabled'') (\<lambda>_.
        and_then (unless (count_live_tokens now (acc_id me) s \<ge> tokens_per_user cfg) 409
                    ''Too many active tokens. Revoke one you no longer use first.'') (\<lambda>_.
        and_then (create_token C cfg now me name scope' expires_in_days random s) (\<lambda>((item, raw), s1).
          Inr ((item, raw), record_audit (Some (acc_id me)) ''access_token_create'' ''access_token''
                 (pt_id item) ''success'' s1)))))"

definition revoke_personal_token ::
  "auth_settings \<Rightarrow> instant \<Rightarrow> account \<Rightarrow> uuid \<Rightarrow> accounts \<Rightarrow> unit reply" where
  "revoke_personal_token cfg now me i s =
     transaction s
       (and_then (unless (\<not> mcp_enabled cfg) 404 ''MCP access is not enabled'') (\<lambda>_.
          case find (\<lambda>p. pt_id p = i \<and> pt_user p = acc_id me) (token_rows s) of
            None \<Rightarrow> raise 404 ''Token not found''
          | Some p \<Rightarrow>
              let p1 = (if pt_revoked p = None then p\<lparr>pt_revoked := Some now\<rparr> else p) in
              Inr ((), record_audit (Some (acc_id me)) ''access_token_revoke'' ''access_token'' i ''success''
                         (s\<lparr>token_rows := put_row pt_id p1 (token_rows s)\<rparr>))))"

record token_principal =
  tp_token :: uuid
  tp_user :: uuid
  tp_email :: string
  tp_auth_version :: int
  tp_scope :: string

definition LAST_USED_RESOLUTION :: int where
  "LAST_USED_RESOLUTION = minutes 5"

definition authenticate_token ::
  "crypto \<Rightarrow> instant \<Rightarrow> string option \<Rightarrow> accounts \<Rightarrow> token_principal option \<times> accounts" where
  "authenticate_token C now raw s =
     (if \<not> looks_like_token raw then (None, s)
      else case find (\<lambda>p. pt_hash p = token_hash C (or_else raw []) \<and> live_token now p
                        \<and> account_of s (pt_user p) \<noteq> None) (token_rows s) of
        None \<Rightarrow> (None, s)
      | Some p \<Rightarrow>
          (case account_of s (pt_user p) of
             None \<Rightarrow> (None, s)
           | Some a \<Rightarrow>
               if \<not> acc_active a then (None, s)
               else let s1 = (if (case pt_last_used p of None \<Rightarrow> True
                                  | Some t \<Rightarrow> now - t > LAST_USED_RESOLUTION)
                              then s\<lparr>token_rows := put_row pt_id (p\<lparr>pt_last_used := Some now\<rparr>) (token_rows s)\<rparr>
                              else s)
                    in (Some \<lparr>tp_token = pt_id p, tp_user = acc_id a,
                              tp_email = lower (strip (acc_email a)),
                              tp_auth_version = acc_auth_version a, tp_scope = pt_scope p\<rparr>, s1)))"

section \<open>What the handlers keep\<close>

lemma record_audit_keeps [simp]:
  "account_rows (record_audit w act k i out t) = account_rows t"
  "session_rows (record_audit w act k i out t) = session_rows t"
  "reset_rows (record_audit w act k i out t) = reset_rows t"
  "invitation_rows (record_audit w act k i out t) = invitation_rows t"
  "token_rows (record_audit w act k i out t) = token_rows t"
  "role_rows (record_audit w act k i out t) = role_rows t"
  "department_rows (record_audit w act k i out t) = department_rows t"
  "fresh_row (record_audit w act k i out t) = fresh_row t"
  by (simp_all add: record_audit_def)

text \<open>What storing a session adds: one live row of the account, with a hash of its own.\<close>

lemma store_session_Inr:
  assumes "store_refresh_session C now a t rq previous s = Inr s'"
  obtains r where "s' = s\<lparr>session_rows := session_rows s @ [r], fresh_row := Suc (Suc (fresh_row s))\<rparr>"
    "rs_id r = fresh_row s" "rs_user r = acc_id a" "rs_hash r = refresh_hash C t" "rs_revoked r = None"
    "rs_hash r \<notin> rs_hash ` set (session_rows s)"
  using assms by (auto simp: store_refresh_session_def Let_def case_prod_beta split: option.splits if_splits)

lemma issue_tokens_iff:
  "issue_tokens C cfg now a rq previous s = Inr (ts, s') \<longleftrightarrow>
     ts = (create_access_token C cfg now a, create_refresh_token C cfg now (fresh_row s) a)
     \<and> store_refresh_session C now a (create_refresh_token C cfg now (fresh_row s) a) rq previous
         (s\<lparr>fresh_row := Suc (fresh_row s)\<rparr>) = Inr s'"
  unfolding issue_tokens_def Let_def and_then_Inr by auto

lemma issue_tokens_Inr:
  assumes "issue_tokens C cfg now a rq previous s = Inr (ts, s')"
  obtains r where "ts = (create_access_token C cfg now a, create_refresh_token C cfg now (fresh_row s) a)"
    "s' = s\<lparr>session_rows := session_rows s @ [r], fresh_row := Suc (Suc (Suc (fresh_row s)))\<rparr>"
    "rs_id r = Suc (fresh_row s)" "rs_user r = acc_id a" "rs_hash r = refresh_hash C (snd ts)"
    "rs_revoked r = None" "refresh_hash C (snd ts) \<notin> rs_hash ` set (session_rows s)"
proof -
  note iss = assms [unfolded issue_tokens_iff]
  show ?thesis
    by (rule store_session_Inr [OF conjunct2 [OF iss]]) (use iss in \<open>intro that, simp_all\<close>)
qed

lemma advances_issue:
  assumes "issue_tokens C cfg now a rq previous s = Inr (ts, s')"
  shows "advances s s'"
proof (rule store_session_Inr [OF conjunct2 [OF assms [unfolded issue_tokens_iff]]])
  fix r
  assume r: "s' = s\<lparr>fresh_row := Suc (fresh_row s)\<rparr>
      \<lparr>session_rows := session_rows (s\<lparr>fresh_row := Suc (fresh_row s)\<rparr>) @ [r],
       fresh_row := Suc (Suc (fresh_row (s\<lparr>fresh_row := Suc (fresh_row s)\<rparr>)))\<rparr>"
    "rs_id r = fresh_row (s\<lparr>fresh_row := Suc (fresh_row s)\<rparr>)"
    "rs_hash r \<notin> rs_hash ` set (session_rows (s\<lparr>fresh_row := Suc (fresh_row s)\<rparr>))"
  show ?thesis unfolding r(1)
    by (rule advances_trans [OF advances_fresh advances_new_session [OF r(2,3)]])
qed

lemma advances_revoke_all: "advances s (revoke_refresh_sessions now i s)"
  unfolding revoke_refresh_sessions_def
  by (rule advances_map_sessions) (simp add: session_kept_def revoke_row_def)

lemma advances_void: "advances s (void_grants now i s)"
  unfolding void_grants_def by (rule advances_map_grants) (simp add: grant_kept_def)

lemma advances_revoke_one:
  assumes "r \<in> set (session_rows s)"
  shows "advances s (s\<lparr>session_rows := put_row rs_id (r\<lparr>rs_revoked := Some now\<rparr>) (session_rows s)\<rparr>)"
proof (rule advances_under)
  assume "auth_inv s"
  from auth_inv_found(2) [OF this assms]
  show "advances s (s\<lparr>session_rows := put_row rs_id (r\<lparr>rs_revoked := Some now\<rparr>) (session_rows s)\<rparr>)"
    by (intro advances_put_session [of _ _ r]) (simp_all add: session_kept_def)
qed

lemma advances_one_token:
  assumes "p \<in> set (token_rows s)" "token_kept p q"
  shows "advances s (s\<lparr>token_rows := put_row pt_id q (token_rows s)\<rparr>)"
proof (rule advances_under)
  assume "auth_inv s"
  from auth_inv_found(4) [OF this assms(1)] assms(2)
  show "advances s (s\<lparr>token_rows := put_row pt_id q (token_rows s)\<rparr>)"
    by (intro advances_put_token [of _ _ p]) (simp_all add: token_kept_def)
qed

lemma seeded_keeps [simp]:
  "session_rows (snd (seeded a s)) = session_rows s" "reset_rows (snd (seeded a s)) = reset_rows s"
  "invitation_rows (snd (seeded a s)) = invitation_rows s" "token_rows (snd (seeded a s)) = token_rows s"
  by (simp_all add: seeded_def Let_def)

lemma seeded_account:
  assumes "auth_inv s" "a \<in> set (account_rows s)"
  shows "account_of (snd (seeded a s)) (acc_id a) = Some (fst (seeded a s)) \<and> seeded_from a (fst (seeded a s))"
proof -
  have "account_of s (acc_id a) = Some a"
    using assms by (rule auth_inv_found(1))
  moreover obtain b where "account_of (bootstrap_rbac s) (acc_id a) = Some b" "seeded_from a b"
    using bootstrap_accounts [OF assms(1) calculation] by blast
  ultimately show ?thesis
    by (cases "acc_roles a = []") (simp_all add: seeded_def Let_def, simp add: seeded_from_def)
qed

lemma find_mem: "find P xs = Some x \<Longrightarrow> x \<in> set xs \<and> P x"
  by (auto simp: find_Some_iff)

lemma refresh_account_Inr:
  assumes "refresh_account C now t s = Inr (a, r)"
  obtains cl where "jwt_decode C now t = Some cl" "live_session C now t s = Some r"
    "r \<in> set (session_rows s)" "rs_hash r = refresh_hash C t" "rs_revoked r = None"
    "a \<in> set (account_rows s)" "acc_active a" "acc_id a = rs_user r" "cl_av cl = acc_auth_version a"
proof -
  obtain claims where claims: "refresh_claims_from_token C now t = Inr claims"
    using assms by (cases "refresh_claims_from_token C now t") (simp_all add: refresh_account_def)
  obtain session where session: "live_session C now t s = Some session"
    using assms claims by (cases "live_session C now t s") (simp_all add: refresh_account_def)
  have user: "get_by_email s (or_else (cl_sub claims) []) = Some (Some a)" "session = r"
      "acc_active a" "acc_id a = rs_user r" "cl_av claims = acc_auth_version a"
    using assms claims session by (auto simp: refresh_account_def split: option.splits if_splits)
  obtain cl where "jwt_decode C now t = Some cl" "cl_av claims = cl_av cl"
    using claims by (auto simp: refresh_claims_from_token_def Let_def split: option.splits if_splits)
  with session user get_by_email_Some(1) [OF user(1)] show ?thesis
    by (intro that) (auto simp: live_session_def dest!: find_mem)
qed

lemma reset_grant_Inr:
  assumes "reset_grant C now t s = Inr a"
  obtains g where "g \<in> set (reset_rows s)" "rt_hash g = sha256_hex C t" "rt_used g = None"
    "now < rt_expires g" "account_of s (acc_id a) = Some a" "rt_user g = acc_id a" "acc_active a"
proof -
  from assms obtain g where g: "find (\<lambda>g. rt_hash g = sha256_hex C t) (reset_rows s) = Some g"
    "rt_used g = None" "now < rt_expires g" "account_of s (rt_user g) = Some a" "acc_active a"
    by (auto simp: reset_grant_def split: option.splits if_splits)
  with get_row_SomeD(2) [OF g(4)] show ?thesis
    by (intro that [of g]) (auto dest!: find_mem)
qed

text \<open>
  What the handlers of this theory do to the tables, as the contract of a relation between the
  tables before and after: a relation that holds of these parts holds of every handler. The
  first interpretation is \<open>advances\<close>; \<open>Authority\<close> adds another.
\<close>

definition same_person :: "account \<Rightarrow> account \<Rightarrow> bool" where
  "same_person a b = (acc_id b = acc_id a \<and> acc_email b = acc_email a \<and> acc_roles b = acc_roles a
     \<and> acc_role b = acc_role a \<and> acc_company b = acc_company a
     \<and> acc_auth_version a \<le> acc_auth_version b)"

lemma same_person_intros [simp]:
  "same_person a (set_password h a)" "same_person a (a\<lparr>acc_auth_version := acc_auth_version a + 1\<rparr>)"
  by (simp_all add: same_person_def set_password_def)

locale account_contract =
  fixes R :: "accounts \<Rightarrow> accounts \<Rightarrow> bool"
  assumes refl: "R s s"
    and trans: "R s t \<Longrightarrow> R t u \<Longrightarrow> R s u"
    and untracked: "account_rows t = account_rows s \<Longrightarrow> session_rows t = session_rows s
      \<Longrightarrow> reset_rows t = reset_rows s \<Longrightarrow> invitation_rows t = invitation_rows s
      \<Longrightarrow> token_rows t = token_rows s \<Longrightarrow> role_rows t = role_rows s \<Longrightarrow> fresh_row t = fresh_row s
      \<Longrightarrow> R s t"
    and bootstrap: "R s (bootstrap_rbac s)"
    and issue: "issue_tokens C cfg now a rq previous s = Inr (ts, t) \<Longrightarrow> R s t"
    and account: "account_of s (acc_id a) = Some a \<Longrightarrow> same_person a b \<Longrightarrow> R s (put_account b s)"
    and revoke_one: "r \<in> set (session_rows s)
      \<Longrightarrow> R s (s\<lparr>session_rows := put_row rs_id (r\<lparr>rs_revoked := Some now\<rparr>) (session_rows s)\<rparr>)"
    and revoke_all: "R s (revoke_refresh_sessions now i s)"
    and void: "R s (void_grants now i s)"
    and new_grant: "rt_hash g \<notin> rt_hash ` set (reset_rows s) \<Longrightarrow> R s (s\<lparr>reset_rows := reset_rows s @ [g]\<rparr>)"
    and new_token: "pt_id p = fresh_row s \<Longrightarrow> pt_hash p \<notin> pt_hash ` set (token_rows s)
      \<Longrightarrow> R s (s\<lparr>token_rows := token_rows s @ [p], fresh_row := Suc (fresh_row s)\<rparr>)"
    and one_token: "p \<in> set (token_rows s) \<Longrightarrow> token_kept p q
      \<Longrightarrow> R s (s\<lparr>token_rows := put_row pt_id q (token_rows s)\<rparr>)"
    and one_invitation: "v \<in> set (invitation_rows s) \<Longrightarrow> invitation_kept v w
      \<Longrightarrow> inv_hash w = inv_hash v \<or> inv_hash w \<notin> inv_hash ` set (invitation_rows s)
      \<Longrightarrow> R s (s\<lparr>invitation_rows := put_row inv_id w (invitation_rows s)\<rparr>)"
begin

lemma transaction_step:
  assumes "\<And>x t. r = Inr (x, t) \<Longrightarrow> R s t"
  shows "R s (snd (transaction s r))"
  using assms refl by (cases r) (auto simp: transaction_def)

lemma audit_step: "R s t \<Longrightarrow> R s (record_audit w act k i out t)"
  by (rule trans [of _ t], assumption, rule untracked) simp_all

lemma seeded_step: "R s (snd (seeded a s))"
  by (simp add: seeded_def Let_def bootstrap refl)

lemma refresh_step: "R s (snd (refresh_token C cfg now rq c s))"
proof (cases "and_then (reject_cross_site_auth_request cfg rq) (\<lambda>_.
             case refresh_value cfg c of
               None \<Rightarrow> raise 401 ''Refresh token is required''
             | Some t \<Rightarrow> refresh_account C now t s)")
  case (Inl e)
  then show ?thesis by (simp add: refresh_token_def refl)
next
  case (Inr ar)
  obtain a r where ar: "ar = (a, r)" by (cases ar)
  with Inr obtain t where t: "refresh_account C now t s = Inr (a, r)"
    by (auto simp: guard_simps split: option.splits)
  then have r: "r \<in> set (session_rows s)" by (rule refresh_account_Inr)
  let ?s1 = "snd (seeded a s)"
  have "R ?s1 (snd (transaction ?s1 (rotate C cfg now rq (fst (seeded a s)) r ?s1)))"
    unfolding rotate_def using r
    by (intro transaction_step) (rule trans [OF revoke_one issue], auto)
  with seeded_step [of s a] have "R s (snd (transaction ?s1 (rotate C cfg now rq (fst (seeded a s)) r ?s1)))"
    by (rule trans)
  with Inr ar show ?thesis by (simp add: refresh_token_def case_prod_beta)
qed

lemma login_step: "R s (snd (login C cfg limit now rq u p s))"
proof -
  have "R s (snd (transaction (snd (seeded a s))
      (and_then (issue_tokens C cfg now (fst (seeded a s)) rq None (snd (seeded a s))) (\<lambda>(ts, s2).
         Inr (ts, record_audit w act k i out s2)))))" for a w act k i out
    by (rule trans [OF seeded_step transaction_step])
       (auto simp: guard_simps intro!: audit_step dest: issue)
  then show ?thesis by (auto simp: login_def Let_def case_prod_beta refl split: sum.splits)
qed

lemma logout_step: "R s (snd (logout C cfg now rq c s))"
  unfolding logout_def Let_def
  by (auto simp: refl split: sum.splits option.splits dest!: find_mem intro!: audit_step revoke_one)

lemma current_step: "R s (snd (get_current_user C cfg now rq c s))"
  by (auto simp: get_current_user_def Let_def bootstrap refl split: sum.splits option.splits)

lemma forgot_step: "R s (snd (forgot_password C cfg limit now rq e raw s))"
proof -
  have "R s (s\<lparr>reset_rows := reset_rows s @ [g], mail_rows := ms\<rparr>)"
    if "rt_hash g \<notin> rt_hash ` set (reset_rows s)" for g ms
    by (rule trans [OF new_grant [OF that]], rule untracked) simp_all
  then show ?thesis
    unfolding forgot_password_def Let_def
    by (auto simp: refl split: sum.splits option.splits intro!: audit_step)
qed

lemma reset_step: "R s (snd (reset_password C cfg limit now rq t pw salt s))"
  unfolding reset_password_def
  by (rule transaction_step)
     (auto simp: guard_simps elim!: reset_grant_Inr intro!: audit_step
       trans [OF trans [OF account void] revoke_all])

lemma reissued:
  assumes "account_of s i = Some a" "same_person a b"
    "issue_tokens C cfg now b rq p (revoke_refresh_sessions now (acc_id a) (put_account b s)) = Inr (ts, t)"
  shows "R s t"
proof -
  have "account_of s (acc_id a) = Some a" using assms(1) get_row_SomeD(2) [OF assms(1)] by simp
  from trans [OF trans [OF account [OF this assms(2)] revoke_all] issue [OF assms(3)]] show ?thesis .
qed

lemma change_step: "R s (snd (change_password C cfg limit now rq me cur new salt s))"
proof -
  have "R s t" if "account_of s i = Some a" "issue_tokens C cfg now (set_password h a) rq None
       (revoke_refresh_sessions now (acc_id a) (put_account (set_password h a) s)) = Inr (ts, t)" for i a h ts t
    by (rule reissued [OF that(1) _ that(2)]) simp
  then show ?thesis
    unfolding change_password_def
    by (auto split: sum.splits option.splits simp: guard_simps refl intro!: audit_step transaction_step)
qed

lemma revoke_session_step: "R s (snd (revoke_session C cfg now rq c me i s))"
  unfolding revoke_session_def
  by (rule transaction_step)
     (auto simp: guard_simps split: option.splits dest!: find_mem intro!: audit_step revoke_one)

lemma revoke_others_step: "R s (snd (revoke_other_sessions C cfg now rq c me s))"
proof -
  have "R s t" if "account_of s i = Some a"
      "issue_tokens C cfg now (a\<lparr>acc_auth_version := acc_auth_version a + 1\<rparr>) rq (Some p)
       (revoke_refresh_sessions now (acc_id a) (put_account (a\<lparr>acc_auth_version := acc_auth_version a + 1\<rparr>) s))
       = Inr (ts, t)" for i a p ts t
    by (rule reissued [OF that(1) _ that(2)]) simp
  then show ?thesis
    unfolding revoke_other_sessions_def Let_def
    by (intro transaction_step) (auto simp: guard_simps split: option.splits intro!: audit_step)
qed

lemma create_token_step: "R s (snd (create_personal_token C cfg now me n sc d r s))"
  unfolding create_personal_token_def
  by (rule transaction_step)
     (auto simp: guard_simps create_token_def Let_def intro!: audit_step new_token)

lemma revoke_token_step: "R s (snd (revoke_personal_token cfg now me i s))"
proof -
  have "R s (s\<lparr>token_rows := put_row pt_id (if pt_revoked p = None then p\<lparr>pt_revoked := Some now\<rparr> else p)
      (token_rows s)\<rparr>)" if "p \<in> set (token_rows s)" for p
    by (rule one_token [OF that]) (simp add: token_kept_def)
  then have "p \<in> set (token_rows s) \<Longrightarrow> pt_revoked p = None
      \<Longrightarrow> R s (s\<lparr>token_rows := put_row pt_id (p\<lparr>pt_revoked := Some now\<rparr>) (token_rows s)\<rparr>)"
    "p \<in> set (token_rows s) \<Longrightarrow> pt_revoked p \<noteq> None
      \<Longrightarrow> R s (s\<lparr>token_rows := put_row pt_id p (token_rows s)\<rparr>)" for p
    by fastforce+
  then show ?thesis
    unfolding revoke_personal_token_def Let_def
    by (intro transaction_step)
       (auto simp: guard_simps split: option.splits dest!: find_mem intro!: audit_step)
qed

lemma authenticate_step: "R s (snd (authenticate_token C now raw s))"
  by (auto simp: authenticate_token_def Let_def refl token_kept_def split: option.splits
      dest!: find_mem intro: one_token)

end

lemma distinct_put_row:
  assumes "unique_key key rows" "distinct (map f rows)" "f r \<notin> f ` set rows"
  shows "distinct (map f (put_row key r rows))"
  using assms
proof (induction rows)
  case (Cons q rows)
  then have rest: "distinct (map f (put_row key r rows))" by (auto simp: unique_key_def)
  have sub: "f ` set (put_row key r rows) \<subseteq> insert (f r) (f ` set rows)"
    using set_put_row_subset [of key r rows] by auto
  show ?case
  proof (cases "key q = key r")
    case True
    with Cons.prems(1) have "put_row key r rows = rows"
      by (intro put_row_absent) (auto simp: unique_key_def)
    with True Cons.prems show ?thesis by auto
  next
    case False
    with rest sub Cons.prems show ?thesis by auto
  qed
qed simp

lemma advances_one_invitation:
  assumes "v \<in> set (invitation_rows s)" "invitation_kept v w"
    "inv_hash w = inv_hash v \<or> inv_hash w \<notin> inv_hash ` set (invitation_rows s)"
  shows "advances s (s\<lparr>invitation_rows := put_row inv_id w (invitation_rows s)\<rparr>)"
proof (unfold advances_def, intro impI conjI)
  assume inv: "auth_inv s"
  then have uniq: "unique_key inv_id (invitation_rows s)" and dist: "distinct (map inv_hash (invitation_rows s))"
    by (simp_all add: auth_inv_def keyed_def)
  have row: "get_row inv_id (inv_id w) (invitation_rows s) = Some v"
    using auth_inv_found(3) [OF inv assms(1)] assms(2) by (simp add: invitation_kept_def)
  have "distinct (map inv_hash (put_row inv_id w (invitation_rows s)))"
    using assms(3) distinct_put_row [OF uniq dist, of w] dist map_put_row_same [OF uniq row, of inv_hash] by auto
  with inv show "auth_inv (s\<lparr>invitation_rows := put_row inv_id w (invitation_rows s)\<rparr>)"
    by (simp add: auth_inv_def)
  show "evolves s (s\<lparr>invitation_rows := put_row inv_id w (invitation_rows s)\<rparr>)"
    using uniq row assms(2) kept_reflp by (simp add: evolves_def rows_keep_refl rows_keep_put)
qed

lemma advances_account:
  "account_of s (acc_id a) = Some a \<Longrightarrow> same_person a b \<Longrightarrow> advances s (put_account b s)"
  by (rule advances_put_account [of _ _ a]) (simp_all add: same_person_def)

interpretation advancing: account_contract advances
  by unfold_locales
     (blast intro: advances_refl advances_trans advances_untracked advances_bootstrap advances_issue
       advances_account advances_revoke_one advances_revoke_all advances_void advances_new_grant
       advances_new_token advances_one_token advances_one_invitation)+

lemmas advances_transaction = advancing.transaction_step
lemmas advances_audit = advancing.audit_step
lemmas advances_seeded = advancing.seeded_step

end
