(* ===== verification/Invitations.thy ===== *)
theory Invitations
  imports Sessions
begin

text \<open>
  Invitations and what they turn into: the invitation routes of \<open>src/api/routers/auth.py\<close> and
  its Microsoft sign-in, \<open>entra_callback\<close>. The claims Microsoft's token carries arrive verified
  by \<open>src/domain/entra_auth.py\<close>, or not at all.
\<close>

section \<open>Invitations\<close>

definition require_permission :: "user \<Rightarrow> string \<Rightarrow> unit result" where
  "require_permission u key =
     unless (\<not> has_permission u key None Company) 403 (''Missing permission: '' @ key)"

definition is_global_user_manager :: "user \<Rightarrow> bool" where
  "is_global_user_manager u = has_permission u ''user.manage'' None Global"

definition is_reset_operator :: "auth_settings \<Rightarrow> string \<Rightarrow> bool" where
  "is_reset_operator cfg email = (email \<noteq> [] \<and> lower (strip email) \<in> set (reset_emails cfg))"

record invitation_request =
  iq_email :: string
  iq_name :: string
  iq_role :: string
  iq_audience :: "uuid list"

definition may_invite ::
  "auth_settings \<Rightarrow> user \<Rightarrow> invitation_request \<Rightarrow> accounts \<Rightarrow> unit result" where
  "may_invite cfg u iq s =
     (let email = lower (iq_email iq); domain = after_at email in
      and_then (require_permission u ''user.manage'') (\<lambda>_.
      and_then (unless (domain \<noteq> u_company u \<and> \<not> is_global_user_manager u) 403
                  ''Employee email must remain in the company domain'') (\<lambda>_.
      and_then (unless (iq_role iq \<notin> MANAGED_PRIMARY_ROLES) 422 ''Unsupported employee role'') (\<lambda>_.
      and_then (unless (iq_role iq \<in> {''Admin'', ''CEO''} \<and> \<not> is_global_user_manager u) 403
                  ''Only global user managers can assign global or executive roles'') (\<lambda>_.
      and_then (unless (list_ex (\<lambda>a. acc_email a = email \<and> acc_active a) (account_rows s)) 409
                  ''An active account already exists for this email'') (\<lambda>_.
      and_then (unless (is_reset_operator cfg email) 403
         ''This address is reserved for database-reset operations and cannot be invited'') (\<lambda>_.
        unless (iq_audience iq \<noteq> [] \<and>
                length (filter (\<lambda>d. dept_id d \<in> set (iq_audience iq) \<and> dept_company d = u_company u
                                  \<and> dept_active d) (department_rows s))
                  \<noteq> card (set (iq_audience iq))) 422
          ''One or more audiences are not available in this company'')))))))"

definition send_mail :: "uuid \<Rightarrow> string \<Rightarrow> string \<Rightarrow> accounts \<Rightarrow> accounts" where
  "send_mail owner address secret s =
     s\<lparr>mail_rows := mail_rows s @ [\<lparr>mail_owner = owner, mail_to = address, mail_secret = secret\<rparr>]\<rparr>"

definition create_invitation ::
  "crypto \<Rightarrow> auth_settings \<Rightarrow> instant \<Rightarrow> account \<Rightarrow> invitation_request \<Rightarrow> string \<Rightarrow> accounts
     \<Rightarrow> invitation reply" where
  "create_invitation C cfg now me iq raw s =
     transaction s
       (and_then (may_invite cfg (load s me) iq s) (\<lambda>_.
          let email = lower (iq_email iq);
              item = \<lparr>inv_id = fresh_row s, inv_email = email, inv_name = strip (iq_name iq),
                      inv_role = iq_role iq, inv_company = after_at email,
                      inv_audience = (if iq_audience iq = [] then None else Some (iq_audience iq)),
                      inv_hash = token_hash C raw, inv_expires = now + days 7,
                      inv_used = None, inv_revoked = None, inv_by = Some (acc_id me),
                      inv_accepted = None, inv_created = now\<rparr>
          in and_then (unless (token_hash C raw \<in> inv_hash ` set (invitation_rows s)) 500
                         ''IntegrityError'') (\<lambda>_.
               Inr (item, record_audit (Some (acc_id me)) ''invitation_create'' ''invitation'' (inv_id item)
                            ''success''
                            (send_mail (acc_id me) email raw
                              (s\<lparr>invitation_rows := invitation_rows s @ [item],
                                 fresh_row := Suc (fresh_row s)\<rparr>))))))"

definition managed_invitation :: "user \<Rightarrow> uuid \<Rightarrow> accounts \<Rightarrow> invitation result" where
  "managed_invitation u i s =
     and_then (require_permission u ''user.manage'') (\<lambda>_.
       case find (\<lambda>v. inv_id v = i \<and> inv_company v = u_company u) (invitation_rows s) of
         None \<Rightarrow> raise 404 ''Invitation not found''
       | Some v \<Rightarrow> Inr v)"

definition resend_invitation ::
  "crypto \<Rightarrow> instant \<Rightarrow> account \<Rightarrow> uuid \<Rightarrow> string \<Rightarrow> accounts \<Rightarrow> invitation reply" where
  "resend_invitation C now me i raw s =
     transaction s
       (and_then (managed_invitation (load s me) i s) (\<lambda>v.
        and_then (unless (inv_used v \<noteq> None \<or> inv_revoked v \<noteq> None) 409
                    ''This invitation can no longer be resent'') (\<lambda>_.
        and_then (unless (token_hash C raw \<in> inv_hash ` set (invitation_rows s)) 500 ''IntegrityError'') (\<lambda>_.
          let v1 = v\<lparr>inv_hash := token_hash C raw, inv_expires := now + days 7\<rparr> in
          Inr (v1, record_audit (Some (acc_id me)) ''invitation_resend'' ''invitation'' i ''success''
                     (send_mail (acc_id me) (inv_email v) raw
                       (s\<lparr>invitation_rows := put_row inv_id v1 (invitation_rows s)\<rparr>)))))))"

definition revoke_invitation ::
  "instant \<Rightarrow> account \<Rightarrow> uuid \<Rightarrow> accounts \<Rightarrow> invitation reply" where
  "revoke_invitation now me i s =
     transaction s
       (and_then (managed_invitation (load s me) i s) (\<lambda>v.
          let v1 = (if inv_used v = None then v\<lparr>inv_revoked := Some now\<rparr> else v) in
          Inr (v1, record_audit (Some (acc_id me)) ''invitation_revoke'' ''invitation'' i ''success''
                     (s\<lparr>invitation_rows := put_row inv_id v1 (invitation_rows s)\<rparr>))))"

definition live_invitation :: "crypto \<Rightarrow> instant \<Rightarrow> string \<Rightarrow> accounts \<Rightarrow> invitation result" where
  "live_invitation C now t s =
     (case find (\<lambda>v. inv_hash v = token_hash C t) (invitation_rows s) of
        None \<Rightarrow> raise 404 ''Invitation not found''
      | Some v \<Rightarrow>
          if inv_revoked v \<noteq> None then raise 410 ''This invitation was revoked''
          else if inv_used v \<noteq> None then raise 409 ''This invitation has already been accepted''
          else if inv_expires v \<le> now then raise 410 ''This invitation has expired''
          else Inr v)"

definition preview_invitation ::
  "crypto \<Rightarrow> auth_settings \<Rightarrow> limiter \<Rightarrow> instant \<Rightarrow> auth_request \<Rightarrow> string \<Rightarrow> accounts \<Rightarrow> invitation result" where
  "preview_invitation C cfg limit now rq t s =
     and_then (reject_cross_site_auth_request cfg rq) (\<lambda>_.
     and_then (limited limit [''invite-preview:'' @ client_ip_from_request (aq_peer rq)]
                 ''Too many attempts'') (\<lambda>_. live_invitation C now t s))"

definition invitation_status :: "instant \<Rightarrow> invitation \<Rightarrow> string" where
  "invitation_status now v =
     (if inv_revoked v \<noteq> None then ''revoked'' else if inv_used v \<noteq> None then ''accepted''
      else if inv_expires v \<le> now then ''expired'' else ''pending'')"

text \<open>
  The account an invitation turns into: a new one, or the deactivated one of that address,
  whose roles stay as they were.
\<close>

definition invited_account :: "string \<Rightarrow> invitation \<Rightarrow> account option \<Rightarrow> accounts \<Rightarrow> account \<times> accounts" where
  "invited_account hashed v existing s =
     (case existing of
        Some a \<Rightarrow>
          let a1 = (set_password hashed a)\<lparr>acc_name := or_else (Some (inv_name v)) (acc_name a),
                      acc_role := inv_role v, acc_active := True\<rparr>
          in (a1, put_account a1 s)
      | None \<Rightarrow>
          let a1 = \<lparr>acc_id = fresh_row s, acc_email = lower (strip (inv_email v)), acc_name = inv_name v,
                    acc_password_hash = hashed, acc_company = inv_company v, acc_dept = None,
                    acc_role = inv_role v, acc_active = True, acc_auth_version = 0,
                    acc_roles = [], acc_departments = [], acc_ownerships = []\<rparr>
          in (a1, s\<lparr>account_rows := account_rows s @ [a1], fresh_row := Suc (fresh_row s)\<rparr>))"

definition invited_departments :: "invitation \<Rightarrow> accounts \<Rightarrow> account \<Rightarrow> account" where
  "invited_departments v s a =
     (case inv_audience v of
        None \<Rightarrow> a
      | Some ids \<Rightarrow>
          let memberships = filter (\<lambda>d. dept_id d \<in> set ids \<and> dept_company d = acc_company a)
                              (department_rows s)
          in a\<lparr>acc_departments := map dept_id memberships,
               acc_dept := (if memberships \<noteq> [] \<and> \<not> truthy (acc_dept a)
                            then Some (dept_name (hd memberships)) else acc_dept a)\<rparr>)"

text \<open>What the route checks before it touches an account.\<close>

definition acceptable ::
  "crypto \<Rightarrow> auth_settings \<Rightarrow> limiter \<Rightarrow> instant \<Rightarrow> auth_request \<Rightarrow> string \<Rightarrow> string \<Rightarrow> string \<Rightarrow> accounts
     \<Rightarrow> (invitation \<times> account option \<times> string) result" where
  "acceptable C cfg limit now rq t password salt s =
     and_then (reject_cross_site_auth_request cfg rq) (\<lambda>_.
     and_then (limited limit [''invite-accept:'' @ client_ip_from_request (aq_peer rq)]
                 ''Too many attempts'') (\<lambda>_.
     and_then (validate_password password) (\<lambda>_.
     and_then (live_invitation C now t s) (\<lambda>v.
       case get_by_email s (lower (strip (inv_email v))) of
         None \<Rightarrow> raise 409 ''More than one account matches this invitation's email''
       | Some existing \<Rightarrow>
           and_then (unless (case existing of None \<Rightarrow> False | Some a \<Rightarrow> acc_active a) 409
                       ''An active account already exists for this email'') (\<lambda>_.
           and_then (get_password_hash C salt password) (\<lambda>hashed. Inr (v, existing, hashed)))))))"

definition finish_acceptance ::
  "crypto \<Rightarrow> auth_settings \<Rightarrow> instant \<Rightarrow> auth_request \<Rightarrow> invitation \<Rightarrow> uuid \<Rightarrow> accounts
     \<Rightarrow> ((string \<times> string) \<times> accounts) result" where
  "finish_acceptance C cfg now rq v i s =
     (case account_of s i of
        None \<Rightarrow> raise 500 ''Could not provision the account''
      | Some a \<Rightarrow>
          let a1 = invited_departments v s a;
              s1 = (put_account a1 s)\<lparr>invitation_rows :=
                     put_row inv_id (v\<lparr>inv_used := Some now, inv_accepted := Some i\<rparr>) (invitation_rows s)\<rparr>
          in and_then (issue_tokens C cfg now a1 rq None s1) (\<lambda>(ts, s2).
               Inr (ts, record_audit (Some i) ''invitation_accept'' ''user'' i ''success'' s2)))"

definition accept_invitation ::
  "crypto \<Rightarrow> auth_settings \<Rightarrow> limiter \<Rightarrow> instant \<Rightarrow> auth_request \<Rightarrow> string \<Rightarrow> string \<Rightarrow> string \<Rightarrow> accounts
     \<Rightarrow> (string \<times> string) reply" where
  "accept_invitation C cfg limit now rq t password salt s =
     (case acceptable C cfg limit now rq t password salt s of
        Inl e \<Rightarrow> (Inl e, s)
      | Inr (v, existing, hashed) \<Rightarrow>
          let (a, s0) = invited_account hashed v existing s;
              s1 = bootstrap_rbac s0
          in transaction s1 (finish_acceptance C cfg now rq v (acc_id a) s1))"

section \<open>Signing in with Microsoft\<close>

record entra_claims =
  en_email :: string
  en_subject :: string
  en_name :: "string option"

definition ENTRA :: string where "ENTRA = ''microsoft_entra''"

definition linked_identity :: "entra_claims \<Rightarrow> accounts \<Rightarrow> external_identity option" where
  "linked_identity c s =
     find (\<lambda>x. xi_provider x = ENTRA \<and> xi_subject x = en_subject c) (identity_rows s)"

definition entra_account :: "entra_claims \<Rightarrow> accounts \<Rightarrow> account option result" where
  "entra_account c s =
     (case linked_identity c s of
        Some x \<Rightarrow> Inr (account_of s (xi_user x))
      | None \<Rightarrow> (case get_by_email s (lower (en_email c)) of
                   None \<Rightarrow> raise 403 ''Account is unavailable''
                 | Some a \<Rightarrow> Inr a))"

text \<open>The newest invitation of an address that can still be used.\<close>

definition open_invitation :: "instant \<Rightarrow> string \<Rightarrow> accounts \<Rightarrow> invitation option" where
  "open_invitation now email s =
     (case sort_key (\<lambda>v. - inv_created v)
             (filter (\<lambda>v. lower (inv_email v) = lower (strip email) \<and> inv_company v = after_at email
                        \<and> inv_used v = None \<and> inv_revoked v = None \<and> inv_expires v > now)
                (invitation_rows s)) of
        [] \<Rightarrow> None | v # _ \<Rightarrow> Some v)"

definition local_part :: "string \<Rightarrow> string" where
  "local_part email =
     (if CHR ''@'' \<in> set email
      then rev (tl (dropWhile (\<lambda>c. c \<noteq> CHR ''@'') (rev email))) else email)"

text \<open>
  The account of a first sign-in. Creating it and seeding its role are committed; using up the
  invitation and joining its departments are not yet: the second state holds them.
\<close>

definition entra_row :: "string \<Rightarrow> entra_claims \<Rightarrow> invitation \<Rightarrow> accounts \<Rightarrow> account" where
  "entra_row hashed c v s =
     \<lparr>acc_id = fresh_row s, acc_email = lower (strip (lower (en_email c))),
      acc_name = or_else (Some (inv_name v))
                   (take 255 (strip (or_else (en_name c) (local_part (lower (en_email c)))))),
      acc_password_hash = hashed, acc_company = inv_company v, acc_dept = None,
      acc_role = inv_role v, acc_active = True, acc_auth_version = 0,
      acc_roles = [], acc_departments = [], acc_ownerships = []\<rparr>"

definition entra_created :: "account \<Rightarrow> accounts \<Rightarrow> accounts" where
  "entra_created a s =
     record_audit (Some (acc_id a)) ''entra_user_provision'' ''user'' (acc_id a) ''success''
       (bootstrap_rbac (s\<lparr>account_rows := account_rows s @ [a], fresh_row := Suc (fresh_row s)\<rparr>))"

definition entra_joined :: "instant \<Rightarrow> invitation \<Rightarrow> account \<Rightarrow> accounts \<Rightarrow> accounts" where
  "entra_joined now v a s =
     (put_account a s)\<lparr>invitation_rows :=
       put_row inv_id (v\<lparr>inv_used := Some now, inv_accepted := Some (acc_id a)\<rparr>) (invitation_rows s)\<rparr>"

definition entra_provision ::
  "crypto \<Rightarrow> instant \<Rightarrow> entra_claims \<Rightarrow> invitation \<Rightarrow> string \<Rightarrow> string \<Rightarrow> accounts
     \<Rightarrow> (account \<times> accounts \<times> accounts) result" where
  "entra_provision C now c v raw salt s =
     and_then (get_password_hash C salt raw) (\<lambda>hashed.
     and_then (unless (acc_email (entra_row hashed c v s) \<in> acc_email ` set (account_rows s)) 500
                 ''IntegrityError'') (\<lambda>_.
       case account_of (entra_created (entra_row hashed c v s) s) (fresh_row s) of
         None \<Rightarrow> raise 500 ''Could not provision the Microsoft account''
       | Some a \<Rightarrow>
           Inr (invited_departments v (entra_created (entra_row hashed c v s) s) a,
                entra_created (entra_row hashed c v s) s,
                entra_joined now v (invited_departments v (entra_created (entra_row hashed c v s) s) a)
                  (entra_created (entra_row hashed c v s) s))))"

text \<open>\<open>base\<close> is what has been committed so far, \<open>s\<close> what the session sees.\<close>

definition entra_sign_in ::
  "crypto \<Rightarrow> auth_settings \<Rightarrow> instant \<Rightarrow> auth_request \<Rightarrow> entra_claims \<Rightarrow> account \<Rightarrow> accounts \<Rightarrow> accounts
     \<Rightarrow> (string \<times> string) reply" where
  "entra_sign_in C cfg now rq c a base s =
     (if \<not> acc_active a
      then (raise 403 ''Your Microsoft account is not linked to an active internal KB account'', base)
      else if lower (acc_email a) \<noteq> lower (en_email c)
      then (raise 403 ''The Microsoft account email does not match the linked internal account'', base)
      else
        let (base1, s1) =
              (if linked_identity c s = None
               then let t = record_audit (Some (acc_id a)) ''entra_identity_link'' ''user'' (acc_id a)
                              ''success''
                              (s\<lparr>identity_rows := identity_rows s @
                                   [\<lparr>xi_user = acc_id a, xi_provider = ENTRA,
                                     xi_subject = en_subject c\<rparr>]\<rparr>)
                    in (t, t)
               else (base, s));
            (a1, s2) = seeded a s1;
            base2 = (if acc_roles a = [] then s2 else base1)
        in transaction base2
             (and_then (issue_tokens C cfg now a1 rq None s2) (\<lambda>(ts, s3).
                Inr (ts, record_audit (Some (acc_id a1)) ''login'' ''user'' (acc_id a1) ''success'' s3))))"

definition entra_callback ::
  "crypto \<Rightarrow> auth_settings \<Rightarrow> bool \<Rightarrow> instant \<Rightarrow> auth_request \<Rightarrow> entra_claims option \<Rightarrow> string \<Rightarrow> string
     \<Rightarrow> accounts \<Rightarrow> (string \<times> string) reply" where
  "entra_callback C cfg configured now rq claims raw salt s =
     (if \<not> configured then (raise 503 ''Microsoft Entra login is not configured'', s)
      else case claims of
        None \<Rightarrow> (raise 401 ''Microsoft sign-in could not be verified'', s)
      | Some c \<Rightarrow>
          (case entra_account c s of
             Inl e \<Rightarrow> (Inl e, s)
           | Inr (Some a) \<Rightarrow> entra_sign_in C cfg now rq c a s s
           | Inr None \<Rightarrow>
               (case open_invitation now (lower (en_email c)) s of
                  None \<Rightarrow> (raise 403 ''Your Microsoft account has no active QNSC invitation'', s)
                | Some v \<Rightarrow>
                    (case entra_provision C now c v raw salt s of
                       Inl e \<Rightarrow> (Inl e, s)
                     | Inr (a, s1, s2) \<Rightarrow> entra_sign_in C cfg now rq c a s1 s2))))"

section \<open>What the handlers keep\<close>

lemma managed_invitation_Inr:
  assumes "managed_invitation u i s = Inr v"
  shows "v \<in> set (invitation_rows s)" "inv_id v = i" "inv_company v = u_company u"
    "has_permission u ''user.manage'' None Company"
  using assms by (auto simp: managed_invitation_def require_permission_def guard_simps
      split: option.splits dest!: find_mem)

lemma invited_departments_fields [simp]:
  "acc_id (invited_departments v s a) = acc_id a" "acc_email (invited_departments v s a) = acc_email a"
  "acc_active (invited_departments v s a) = acc_active a"
  "acc_auth_version (invited_departments v s a) = acc_auth_version a"
  "acc_password_hash (invited_departments v s a) = acc_password_hash a"
  "acc_roles (invited_departments v s a) = acc_roles a" "acc_role (invited_departments v s a) = acc_role a"
  "acc_company (invited_departments v s a) = acc_company a"
  by (simp_all add: invited_departments_def Let_def split: option.split)

lemma use_invitation_kept: "invitation_kept v (v\<lparr>inv_used := Some now, inv_accepted := k\<rparr>)"
  by (simp add: invitation_kept_def spent_def)

lemma finish_acceptance_Inr:
  assumes "finish_acceptance C cfg now rq v i s = Inr (ts, t)"
  obtains a s2 where "account_of s i = Some a"
    "issue_tokens C cfg now (invited_departments v s a) rq None
       ((put_account (invited_departments v s a) s)\<lparr>invitation_rows :=
          put_row inv_id (v\<lparr>inv_used := Some now, inv_accepted := Some i\<rparr>) (invitation_rows s)\<rparr>) = Inr (ts, s2)"
    "t = record_audit (Some i) ''invitation_accept'' ''user'' i ''success'' s2"
proof -
  obtain a where a: "account_of s i = Some a"
    using assms by (cases "account_of s i") (simp_all add: finish_acceptance_def)
  with assms that show ?thesis by (auto simp: finish_acceptance_def Let_def guard_simps)
qed

lemma open_invitation_Some:
  assumes "open_invitation now e s = Some v"
  shows "v \<in> set (invitation_rows s)" "\<not> spent v" "now < inv_expires v"
    "lower (inv_email v) = lower (strip e)" "inv_company v = after_at e"
proof -
  define xs where "xs = filter (\<lambda>v. lower (inv_email v) = lower (strip e) \<and> inv_company v = after_at e
      \<and> inv_used v = None \<and> inv_revoked v = None \<and> inv_expires v > now) (invitation_rows s)"
  have "v \<in> set (sort_key (\<lambda>v. - inv_created v) xs)"
    using assms unfolding open_invitation_def xs_def [symmetric]
    by (cases "sort_key (\<lambda>v. - inv_created v) xs") simp_all
  then have "v \<in> set xs" by simp
  then show "v \<in> set (invitation_rows s)" "\<not> spent v" "now < inv_expires v"
    "lower (inv_email v) = lower (strip e)" "inv_company v = after_at e" by (simp_all add: xs_def spent_def)
qed

lemma live_invitation_Inr:
  assumes "live_invitation C now t s = Inr v"
  shows "v \<in> set (invitation_rows s)" "inv_hash v = token_hash C t" "\<not> spent v" "now < inv_expires v"
  using assms by (auto simp: live_invitation_def spent_def split: option.splits if_splits dest!: find_mem)

lemma acceptable_Inr:
  assumes "acceptable C cfg limit now rq t pw salt s = Inr (v, existing, hashed)"
  shows "live_invitation C now t s = Inr v"
    "get_by_email s (lower (strip (inv_email v))) = Some existing"
    "existing = Some a \<Longrightarrow> \<not> acc_active a"
    "hashed = hashpw C salt pw"
proof -
  obtain v' where v': "live_invitation C now t s = Inr v'"
    using assms by (cases "live_invitation C now t s") (simp_all add: acceptable_def guard_simps)
  have "v = v' \<and> get_by_email s (lower (strip (inv_email v))) = Some existing
      \<and> (\<forall>a. existing = Some a \<longrightarrow> \<not> acc_active a) \<and> hashed = hashpw C salt pw"
    using assms v'
    by (auto simp: acceptable_def guard_simps get_password_hash_def split: option.splits if_splits)
  with v' show "live_invitation C now t s = Inr v"
    "get_by_email s (lower (strip (inv_email v))) = Some existing"
    "existing = Some a \<Longrightarrow> \<not> acc_active a" "hashed = hashpw C salt pw" by auto
qed

lemma invited_departments_person [simp]: "same_person a (invited_departments v s a)"
  by (simp add: same_person_def)

lemma invited_account_invitations [simp]:
  "invitation_rows (snd (invited_account h v existing s)) = invitation_rows s"
  by (simp add: invited_account_def Let_def split: option.split)

lemma entra_provision_Inr:
  assumes "entra_provision C now c v raw salt s = Inr (a, s1, s2)"
  obtains h b where "acc_email (entra_row h c v s) \<notin> acc_email ` set (account_rows s)"
    "s1 = entra_created (entra_row h c v s) s" "account_of s1 (acc_id b) = Some b"
    "s2 = entra_joined now v (invited_departments v s1 b) s1"
proof -
  obtain h where h: "get_password_hash C salt raw = Inr h"
    using assms by (cases "get_password_hash C salt raw") (simp_all add: entra_provision_def)
  obtain b where b: "account_of (entra_created (entra_row h c v s) s) (fresh_row s) = Some b"
    and s: "s1 = entra_created (entra_row h c v s) s" "s2 = entra_joined now v (invited_departments v s1 b) s1"
      "acc_email (entra_row h c v s) \<notin> acc_email ` set (account_rows s)"
    using assms h by (auto simp: entra_provision_def guard_simps split: option.splits)
  have "account_of s1 (acc_id b) = Some b" using b get_row_SomeD(2) [OF b] s(1) by simp
  with s that show ?thesis by blast
qed

context account_contract
begin

lemma mail_step: "R s t \<Longrightarrow> R s (send_mail o' ad sec t)"
  by (rule trans [of _ t], assumption, rule untracked) (simp_all add: send_mail_def)

lemma resend_step: "R s (snd (resend_invitation C now me i raw s))"
  unfolding resend_invitation_def
  by (rule transaction_step)
     (auto simp: guard_simps Let_def invitation_kept_def spent_def
       intro!: audit_step mail_step dest!: managed_invitation_Inr(1) elim!: one_invitation)

lemma revoke_invitation_step: "R s (snd (revoke_invitation now me i s))"
proof -
  have "R s (s\<lparr>invitation_rows := put_row inv_id (if inv_used v = None then v\<lparr>inv_revoked := Some now\<rparr> else v)
      (invitation_rows s)\<rparr>)" if "v \<in> set (invitation_rows s)" for v
    by (rule one_invitation [OF that]) (simp_all add: invitation_kept_def spent_def)
  then have "v \<in> set (invitation_rows s) \<Longrightarrow> inv_used v = None
      \<Longrightarrow> R s (s\<lparr>invitation_rows := put_row inv_id (v\<lparr>inv_revoked := Some now\<rparr>) (invitation_rows s)\<rparr>)"
    "v \<in> set (invitation_rows s) \<Longrightarrow> inv_used v \<noteq> None
      \<Longrightarrow> R s (s\<lparr>invitation_rows := put_row inv_id v (invitation_rows s)\<rparr>)" for v
    by fastforce+
  then show ?thesis
    unfolding revoke_invitation_def Let_def
    by (intro transaction_step)
       (auto simp: guard_simps dest!: managed_invitation_Inr(1) intro!: audit_step)
qed

text \<open>Joining the departments and using the invitation up.\<close>

lemma joined_step:
  assumes "account_of s (acc_id a) = Some a" "v \<in> set (invitation_rows s)"
  shows "R s ((put_account (invited_departments v s0 a) s)\<lparr>invitation_rows :=
           put_row inv_id (v\<lparr>inv_used := Some now, inv_accepted := k\<rparr>) (invitation_rows s)\<rparr>)"
proof -
  have "R s (put_account (invited_departments v s0 a) s)" by (rule account [OF assms(1)]) simp
  moreover have "R (put_account (invited_departments v s0 a) s)
    ((put_account (invited_departments v s0 a) s)\<lparr>invitation_rows :=
       put_row inv_id (v\<lparr>inv_used := Some now, inv_accepted := k\<rparr>)
         (invitation_rows (put_account (invited_departments v s0 a) s))\<rparr>)"
    using assms(2) by (intro one_invitation [of v]) (simp_all add: use_invitation_kept)
  ultimately show ?thesis using trans by simp
qed

lemma finish_step:
  assumes "finish_acceptance C cfg now rq v i s = Inr (ts, t)" "v \<in> set (invitation_rows s)"
  shows "R s t"
proof (rule finish_acceptance_Inr [OF assms(1)])
  fix a s2
  assume a: "account_of s i = Some a" and t: "t = record_audit (Some i) ''invitation_accept'' ''user'' i ''success'' s2"
    and iss: "issue_tokens C cfg now (invited_departments v s a) rq None
       ((put_account (invited_departments v s a) s)\<lparr>invitation_rows :=
          put_row inv_id (v\<lparr>inv_used := Some now, inv_accepted := Some i\<rparr>) (invitation_rows s)\<rparr>) = Inr (ts, s2)"
  have "account_of s (acc_id a) = Some a" using a get_row_SomeD(2) [OF a] by simp
  from trans [OF joined_step [OF this assms(2)] issue [OF iss]]
  show "R s t" unfolding t by (rule audit_step)
qed

lemma accept_step:
  assumes "\<And>v existing h. acceptable C cfg limit now rq t pw salt s = Inr (v, existing, h)
    \<Longrightarrow> R s (snd (invited_account h v existing s))"
  shows "R s (snd (accept_invitation C cfg limit now rq t pw salt s))"
proof (cases "acceptable C cfg limit now rq t pw salt s")
  case (Inl e)
  then show ?thesis by (simp add: accept_invitation_def refl)
next
  case (Inr r)
  obtain v existing h where r: "r = (v, existing, h)" by (cases r) auto
  note acc = acceptable_Inr [OF Inr [unfolded r]]
  let ?a = "fst (invited_account h v existing s)" and ?s0 = "snd (invited_account h v existing s)"
  have "R s (bootstrap_rbac ?s0)" by (rule trans [OF assms [OF Inr [unfolded r]] bootstrap])
  moreover have "R (bootstrap_rbac ?s0)
      (snd (transaction (bootstrap_rbac ?s0) (finish_acceptance C cfg now rq v (acc_id ?a) (bootstrap_rbac ?s0))))"
    using live_invitation_Inr(1) [OF acc(1)] by (intro transaction_step) (auto intro: finish_step)
  ultimately have "R s (snd (transaction (bootstrap_rbac ?s0)
      (finish_acceptance C cfg now rq v (acc_id ?a) (bootstrap_rbac ?s0))))" by (rule trans)
  with Inr r show ?thesis by (simp add: accept_invitation_def Let_def case_prod_beta)
qed

lemma sign_in_step:
  assumes "R s0 base" "R s0 s"
  shows "R s0 (snd (entra_sign_in C cfg now rq c a base s))"
proof -
  let ?t = "record_audit (Some (acc_id a)) ''entra_identity_link'' ''user'' (acc_id a) ''success''
      (s\<lparr>identity_rows := identity_rows s @
        [\<lparr>xi_user = acc_id a, xi_provider = ENTRA, xi_subject = en_subject c\<rparr>]\<rparr>)"
  have t: "R s0 ?t"
    by (rule audit_step, rule trans [OF assms(2)], rule untracked) simp_all
  have "R s0 (snd (transaction b (and_then (issue_tokens C cfg now (fst (seeded a s1)) rq None (snd (seeded a s1)))
      (\<lambda>(ts, s3). Inr (ts, record_audit w act k i out s3)))))"
    if "R s0 b" "R s0 s1" for b s1 w act k i out
  proof (cases "issue_tokens C cfg now (fst (seeded a s1)) rq None (snd (seeded a s1))")
    case (Inr x)
    obtain ts s3 where x: "x = (ts, s3)" by (cases x)
    have "R s0 s3"
      by (rule trans [OF trans [OF that(2) seeded_step] issue [OF Inr [unfolded x]]])
    with Inr x show ?thesis by (simp add: transaction_def audit_step)
  qed (simp add: transaction_def that)
  note run = this
  show ?thesis
    unfolding entra_sign_in_def Let_def
    using assms t run trans [OF t seeded_step] trans [OF assms(2) seeded_step]
    by (auto simp: case_prod_beta)
qed

lemma entra_step:
  assumes "\<And>h c v. claims = Some c \<Longrightarrow> open_invitation now (lower (en_email c)) s = Some v
    \<Longrightarrow> acc_email (entra_row h c v s) \<notin> acc_email ` set (account_rows s)
    \<Longrightarrow> R s (s\<lparr>account_rows := account_rows s @ [entra_row h c v s], fresh_row := Suc (fresh_row s)\<rparr>)"
  shows "R s (snd (entra_callback C cfg on now rq claims raw salt s))"
proof -
  have "R s s1 \<and> R s s2"
    if prov: "entra_provision C now c v raw salt s = Inr (a, s1, s2)" and c: "claims = Some c"
      and v: "open_invitation now (lower (en_email c)) s = Some v" for c v a s1 s2
  proof (rule entra_provision_Inr [OF prov])
    fix h b
    assume new: "acc_email (entra_row h c v s) \<notin> acc_email ` set (account_rows s)"
      and s1: "s1 = entra_created (entra_row h c v s) s" and b: "account_of s1 (acc_id b) = Some b"
      and s2: "s2 = entra_joined now v (invited_departments v s1 b) s1"
    have first: "R s s1" unfolding s1 entra_created_def
      by (intro audit_step) (rule trans [OF assms [OF c v new] bootstrap])
    have "invitation_rows s1 = invitation_rows s" by (simp add: s1 entra_created_def)
    then have "R s1 s2" unfolding s2 entra_joined_def invited_departments_fields
      by (intro joined_step [OF b]) (simp add: open_invitation_Some(1) [OF v])
    with first show "R s s1 \<and> R s s2" using trans by blast
  qed
  then show ?thesis
    unfolding entra_callback_def
    by (auto simp: refl split: option.splits sum.splits intro!: sign_in_step)
qed

end

lemma advances_create_invitation: "advances s (snd (create_invitation C cfg now me iq raw s))"
  unfolding create_invitation_def
  by (rule advances_transaction)
     (auto simp: guard_simps Let_def intro!: advances_audit advancing.mail_step advances_new_invitation)

lemma invited_account_ok:
  assumes "auth_inv s" "get_by_email s (lower (strip (inv_email v))) = Some existing"
  shows "advances s (snd (invited_account h v existing s))"
    "account_of (snd (invited_account h v existing s)) (acc_id (fst (invited_account h v existing s)))
      = Some (fst (invited_account h v existing s))"
    "invitation_rows (snd (invited_account h v existing s)) = invitation_rows s"
proof -
  show "invitation_rows (snd (invited_account h v existing s)) = invitation_rows s"
    by (simp add: invited_account_def Let_def split: option.split)
  have "advances s (snd (invited_account h v existing s))
    \<and> account_of (snd (invited_account h v existing s)) (acc_id (fst (invited_account h v existing s)))
      = Some (fst (invited_account h v existing s))"
  proof (cases existing)
    case None
    have new: "lower (strip (inv_email v)) \<notin> acc_email ` set (account_rows s)"
      using get_by_email_none [OF assms(2) [unfolded None]] by (simp add: strip_lower)
    have "account_of s (fresh_row s) = None"
      using assms(1) by (auto simp: get_row_None_iff auth_inv_def keyed_def)
    then have "get_row acc_id (fresh_row s) (account_rows s @ [a]) = Some a"
      if "acc_id a = fresh_row s" for a
      using that by (simp add: get_row_append)
    with new None show ?thesis
      by (auto simp: invited_account_def Let_def intro!: advances_new_account)
  next
    case (Some a)
    have a: "account_of s (acc_id a) = Some a"
      using auth_inv_found(1) [OF assms(1) get_by_email_Some(1) [OF assms(2) [unfolded Some]]] .
    let ?b = "(set_password h a)\<lparr>acc_name := or_else (Some (inv_name v)) (acc_name a),
                acc_role := inv_role v, acc_active := True\<rparr>"
    have b: "acc_id ?b = acc_id a" by (simp add: set_password_def)
    have "advances s (put_account ?b s)"
      by (rule advances_put_account [of _ _ a]) (use a in \<open>simp_all add: set_password_def\<close>)
    moreover have "account_of (put_account ?b s) (acc_id ?b) = Some ?b"
      using a b get_put_same [of acc_id ?b "account_rows s"] by (simp add: put_account_def)
    ultimately show ?thesis using Some by (simp add: invited_account_def Let_def)
  qed
  then show "advances s (snd (invited_account h v existing s))"
    "account_of (snd (invited_account h v existing s)) (acc_id (fst (invited_account h v existing s)))
      = Some (fst (invited_account h v existing s))" by simp_all
qed

lemma advances_accept: "advances s (snd (accept_invitation C cfg limit now rq t pw salt s))"
proof (rule advances_under)
  assume inv: "auth_inv s"
  show "advances s (snd (accept_invitation C cfg limit now rq t pw salt s))"
    by (rule advancing.accept_step, rule invited_account_ok(1) [OF inv acceptable_Inr(2)])
qed

lemma advances_entra: "advances s (snd (entra_callback C cfg on now rq claims raw salt s))"
  by (rule advancing.entra_step, rule advances_new_account) (simp_all add: entra_row_def)

end
