(* ===== verification/Identity.thy ===== *)
theory Identity
  imports Invitations Store
begin

text \<open>
  Managing users and roles: the user, CEO, role and permission routes of
  \<open>src/api/routers/auth.py\<close> with their helpers. Every handler takes the account
  \<open>get_current_user\<close> returned; \<open>load\<close> is what its guards see of it. The session is shared by the
  whole request, so a handler that raises before its commit leaves the tables as they were.
\<close>

section \<open>Departments of a user\<close>

definition LEGACY_DEPARTMENT_OWNER_ROLE :: string where
  "LEGACY_DEPARTMENT_OWNER_ROLE = ''Department Owner''"

definition departments_in :: "accounts \<Rightarrow> string \<Rightarrow> uuid list \<Rightarrow> department list" where
  "departments_in s company ids =
     filter (\<lambda>d. dept_id d \<in> set ids \<and> dept_company d = company \<and> dept_active d) (department_rows s)"

definition resolve_owned_departments ::
  "accounts \<Rightarrow> string \<Rightarrow> uuid list option \<Rightarrow> department list result" where
  "resolve_owned_departments s company ids =
     (case ids of
        None \<Rightarrow> Inr []
      | Some is \<Rightarrow>
          if is = [] then Inr []
          else and_then (unless (length (departments_in s company is) \<noteq> length (fromkeys is)) 422
                 ''Every owned department must be active and belong to the user's company'') (\<lambda>_.
               Inr (departments_in s company is)))"

definition resolve_membership_departments ::
  "accounts \<Rightarrow> string \<Rightarrow> uuid list option \<Rightarrow> string option \<Rightarrow> department list result" where
  "resolve_membership_departments s company ids primary =
     (case ids of
        None \<Rightarrow>
          and_then (resolve_active_department (department_rows s) company primary False) (\<lambda>d.
            Inr (case d of None \<Rightarrow> [] | Some x \<Rightarrow> [x]))
      | Some is \<Rightarrow>
          and_then (unless (length (departments_in s company is) \<noteq> length (fromkeys is)) 422
            ''Every department membership must be active and belong to the user's company'') (\<lambda>_.
            Inr (List.map_filter (\<lambda>i. get_row dept_id i (departments_in s company is)) (fromkeys is))))"

fun comma_list :: "string list \<Rightarrow> string" where
  "comma_list [] = []"
| "comma_list [x] = x"
| "comma_list (x # xs) = x @ '', '' @ comma_list xs"

text \<open>The names of those departments some other active account actively owns.\<close>

definition owner_conflicts :: "accounts \<Rightarrow> uuid \<Rightarrow> department list \<Rightarrow> string list" where
  "owner_conflicts s i departments =
     map dept_name (filter (\<lambda>d. d \<in> set departments
         \<and> list_ex (\<lambda>b. acc_id b \<noteq> i \<and> acc_active b \<and> (dept_id d, True) \<in> set (acc_ownerships b))
             (account_rows s)) (department_rows s))"

definition ensure_single_owner :: "accounts \<Rightarrow> uuid \<Rightarrow> department list \<Rightarrow> unit result" where
  "ensure_single_owner s i departments =
     unless (owner_conflicts s i departments \<noteq> []) 409
       (''Department already has an owner: '' @ comma_list (sort (remdups (owner_conflicts s i departments))))"

definition ensure_owned_are_memberships :: "department list \<Rightarrow> department list \<Rightarrow> unit result" where
  "ensure_owned_are_memberships memberships owned =
     unless (\<not> set (map dept_id owned) \<subseteq> set (map dept_id memberships)) 422
       ''A user must be a member of every department they own''"

definition apply_department_ownership :: "department list \<Rightarrow> account \<Rightarrow> account" where
  "apply_department_ownership departments a =
     a\<lparr>acc_ownerships :=
         map (\<lambda>(i, _). (i, i \<in> set (map dept_id departments))) (acc_ownerships a)
         @ map (\<lambda>i. (i, True)) (filter (\<lambda>i. i \<notin> fst ` set (acc_ownerships a))
                                 (fromkeys (map dept_id departments)))\<rparr>"

text \<open>The active departments an account owns.\<close>

definition owned_departments :: "accounts \<Rightarrow> account \<Rightarrow> department list" where
  "owned_departments s a =
     filter dept_active (List.map_filter (\<lambda>(i, act). if act then get_row dept_id i (department_rows s) else None)
       (acc_ownerships a))"

definition primary_is_member :: "department option \<Rightarrow> department list \<Rightarrow> unit result" where
  "primary_is_member primary memberships =
     unless (case primary of None \<Rightarrow> False
             | Some d \<Rightarrow> memberships \<noteq> [] \<and> dept_id d \<notin> set (map dept_id memberships)) 422
       ''The primary department must be one of the selected memberships''"

section \<open>Roles of a user\<close>

definition is_global_role_manager :: "user \<Rightarrow> bool" where
  "is_global_role_manager u = has_permission u ''role.manage'' None Global"

definition system_role :: "accounts \<Rightarrow> string \<Rightarrow> string option \<Rightarrow> role_row result" where
  "system_role s name company =
     (case find (role_named name company) (role_rows s) of
        None \<Rightarrow> raise 422 (''The requested system role is unavailable: '' @ name)
      | Some r \<Rightarrow> Inr r)"

definition set_primary_role :: "accounts \<Rightarrow> string \<Rightarrow> account \<Rightarrow> account result" where
  "set_primary_role s name a =
     and_then (system_role s name (Some (acc_company a))) (\<lambda>r.
       Inr (a\<lparr>acc_roles := [role_id r], acc_role := name\<rparr>))"

definition broader_than_own :: "user \<Rightarrow> role_row \<Rightarrow> bool" where
  "broader_than_own u r =
     list_ex (\<lambda>p. case rp_permission p of
                    None \<Rightarrow> False
                  | Some key \<Rightarrow> rank_of (rp_scope p) > rank_of (effective_permissions u key))
       (role_permissions r)"

definition validate_role_assignment_authority :: "user \<Rightarrow> role_row list \<Rightarrow> unit result" where
  "validate_role_assignment_authority u roles =
     and_then (unless (list_ex (\<lambda>r. lower (role_name r) = lower LEGACY_DEPARTMENT_OWNER_ROLE) roles) 422
                 ''Department ownership is managed separately from roles'') (\<lambda>_.
       if is_global_user_manager u then Inr ()
       else
         and_then (unless (list_ex (\<lambda>r. role_company r = None \<or> role_name r \<in> {''Admin'', ''CEO''}) roles) 403
                     ''Only global user managers can assign global or executive roles'') (\<lambda>_.
           unless (list_ex (broader_than_own u) roles) 403
             ''You cannot assign a role with permissions broader than your own''))"

text \<open>The rows a list of role ids selects for a company: its own roles and the global ones.\<close>

definition roles_for :: "accounts \<Rightarrow> string \<Rightarrow> uuid list \<Rightarrow> role_row list" where
  "roles_for s company ids =
     filter (\<lambda>r. role_id r \<in> set ids \<and> role_company r \<in> {Some company, None}) (role_rows s)"

definition primary_role_name :: "role_row list \<Rightarrow> string" where
  "primary_role_name roles =
     (case find (\<lambda>n. n \<in> MANAGED_PRIMARY_ROLES) (map role_name roles) of
        Some n \<Rightarrow> n | None \<Rightarrow> role_name (hd roles))"

definition give_roles :: "role_row list \<Rightarrow> account \<Rightarrow> account" where
  "give_roles roles a = a\<lparr>acc_roles := map role_id roles, acc_role := primary_role_name roles\<rparr>"

definition viewed_account :: "user \<Rightarrow> uuid \<Rightarrow> accounts \<Rightarrow> account result" where
  "viewed_account u i s =
     (case account_of s i of
        None \<Rightarrow> raise 404 ''User not found''
      | Some a \<Rightarrow> if identity_scope (Some u) (load s a) then Inr a else raise 404 ''User not found'')"

section \<open>Creating a user\<close>

record managed_user_create =
  mc_email :: string
  mc_name :: string
  mc_password :: "string option"
  mc_dept :: "string option"
  mc_department_ids :: "uuid list option"
  mc_role :: string
  mc_role_ids :: "uuid list option"
  mc_owned :: "uuid list option"

definition requested_roles :: "accounts \<Rightarrow> user \<Rightarrow> string \<Rightarrow> uuid list option \<Rightarrow> role_row list option result" where
  "requested_roles s u domain ids =
     (case ids of
        None \<Rightarrow> Inr None
      | Some is \<Rightarrow>
          let roles = roles_for s domain is in
          and_then (unless (length roles \<noteq> card (set is)) 403 ''Invalid role assignment'') (\<lambda>_.
          and_then (unless (list_ex (\<lambda>r. \<not> role_active r) roles) 422
                      ''Inactive roles cannot be assigned'') (\<lambda>_.
          and_then (unless (roles = []) 422 ''At least one role is required'') (\<lambda>_.
          and_then (validate_role_assignment_authority u roles) (\<lambda>_. Inr (Some roles))))))"

text \<open>What is checked before the account is registered, and what it yields.\<close>

definition may_create_user ::
  "auth_settings \<Rightarrow> user \<Rightarrow> managed_user_create \<Rightarrow> accounts
     \<Rightarrow> (string \<times> department list \<times> department option \<times> role_row list option) result" where
  "may_create_user cfg u mc s =
     (let domain = after_at (lower (mc_email mc)); global = is_global_user_manager u in
      and_then (require_permission u ''user.manage'') (\<lambda>_.
      and_then (case mc_password mc of None \<Rightarrow> raise 422 ''A password is required to create a user''
                | Some p \<Rightarrow> Inr p) (\<lambda>password.
      and_then (unless (\<not> global \<and> domain \<noteq> u_company u) 403
                  ''Users must be created inside your company'') (\<lambda>_.
      and_then (unless (is_reset_operator cfg (lower (mc_email mc))) 403
         ''This address is reserved for database-reset operations and cannot be created here'') (\<lambda>_.
      and_then (unless (\<not> global \<and> mc_role mc \<in> {''Admin'', ''CEO''}) 403
                  ''Only global user managers can create executive or Admin accounts'') (\<lambda>_.
      and_then (resolve_membership_departments s domain (mc_department_ids mc) (mc_dept mc)) (\<lambda>memberships.
      and_then (if truthy (mc_dept mc)
                then resolve_active_department (department_rows s) domain (mc_dept mc) False
                else Inr (case memberships of [] \<Rightarrow> None | d # _ \<Rightarrow> Some d)) (\<lambda>primary.
      and_then (primary_is_member primary memberships) (\<lambda>_.
      and_then (resolve_owned_departments s domain (mc_owned mc)) (\<lambda>owned.
      and_then (ensure_owned_are_memberships memberships owned) (\<lambda>_.
      and_then (requested_roles s u domain (mc_role_ids mc)) (\<lambda>roles.
      and_then (unless (lower (mc_role mc) = lower LEGACY_DEPARTMENT_OWNER_ROLE) 422
                  ''Department ownership is managed separately from roles'') (\<lambda>_.
      and_then (ensure_single_owner s 0 owned) (\<lambda>_.
        Inr (password, memberships, primary, roles)))))))))))))))"

text \<open>The account as registered, with what the request says of it.\<close>

definition complete_user ::
  "managed_user_create \<Rightarrow> department list \<Rightarrow> department option \<Rightarrow> role_row list option \<Rightarrow> account \<Rightarrow> account" where
  "complete_user mc memberships primary roles a =
     (let a1 = a\<lparr>acc_departments := map dept_id memberships, acc_dept := map_option dept_name primary\<rparr>
      in case roles of
           Some rs \<Rightarrow> give_roles rs a1
         | None \<Rightarrow> a1\<lparr>acc_role := (if acc_role a1 \<in> MANAGED_PRIMARY_ROLES then acc_role a1 else ''Staff'')\<rparr>)"

definition finish_user ::
  "account \<Rightarrow> managed_user_create \<Rightarrow> department list \<Rightarrow> department option \<Rightarrow> role_row list option \<Rightarrow> uuid
     \<Rightarrow> accounts \<Rightarrow> (account \<times> accounts) result" where
  "finish_user me mc memberships primary roles i s =
     (case account_of s i of
        None \<Rightarrow> raise 500 ''AssertionError''
      | Some a \<Rightarrow>
          and_then (resolve_owned_departments s (acc_company a) (mc_owned mc)) (\<lambda>owned.
          and_then (ensure_single_owner s i owned) (\<lambda>_.
            let a1 = complete_user mc memberships primary roles a;
                a2 = (if mc_owned mc = None then a1 else apply_department_ownership owned a1)
            in Inr (a2, record_audit (Some (acc_id me)) ''user_create'' ''user'' i ''success''
                          (put_account a2 s)))))"

definition create_managed_user ::
  "crypto \<Rightarrow> auth_settings \<Rightarrow> account \<Rightarrow> managed_user_create \<Rightarrow> string \<Rightarrow> accounts \<Rightarrow> account reply" where
  "create_managed_user C cfg me mc salt s =
     (case may_create_user cfg (load s me) mc s of
        Inl e \<Rightarrow> (Inl e, s)
      | Inr (password, memberships, primary, roles) \<Rightarrow>
          (case register_user C cfg salt (mc_email mc) (mc_name mc) password (map_option dept_name primary)
                  (mc_role mc) True s of
             Inl e \<Rightarrow> (Inl e, s)
           | Inr (a, s1) \<Rightarrow>
               transaction (bootstrap_rbac s1)
                 (finish_user me mc memberships primary roles (acc_id a) (bootstrap_rbac s1))))"

section \<open>Changing a user\<close>

record managed_user_update =
  mu_name :: "string option"
  mu_dept :: "string option option"
  mu_department_ids :: "uuid list option"
  mu_role :: "string option"
  mu_password :: "string option"
  mu_email :: "string option"
  mu_active :: "bool option"
  mu_role_ids :: "uuid list option"
  mu_owned :: "uuid list option"

definition manageable :: "user \<Rightarrow> uuid \<Rightarrow> accounts \<Rightarrow> account result" where
  "manageable u i s =
     and_then (require_permission u ''user.manage'') (\<lambda>_.
     and_then (viewed_account u i s) (\<lambda>a.
     and_then (unless (\<not> is_global_user_manager u \<and> acc_company a \<noteq> u_company u) 403
                 ''Users must belong to your company'') (\<lambda>_. Inr a)))"

text \<open>The memberships a request sets, if it does, and the account with them.\<close>

definition update_departments ::
  "accounts \<Rightarrow> managed_user_update \<Rightarrow> account \<Rightarrow> (department list option \<times> account) result" where
  "update_departments s mu a =
     (case mu_dept mu of
        Some dept \<Rightarrow>
          and_then (resolve_membership_departments s (acc_company a) (mu_department_ids mu) dept) (\<lambda>memberships.
          and_then (if truthy dept
                    then resolve_active_department (department_rows s) (acc_company a) dept False
                    else Inr None) (\<lambda>primary.
          and_then (primary_is_member primary memberships) (\<lambda>_.
            Inr (Some memberships,
                 a\<lparr>acc_departments := map dept_id memberships,
                   acc_dept := (case primary of
                                  Some d \<Rightarrow> Some (dept_name d)
                                | None \<Rightarrow> (case memberships of [] \<Rightarrow> None | d # _ \<Rightarrow> Some (dept_name d)))\<rparr>))))
      | None \<Rightarrow>
          (case mu_department_ids mu of
             None \<Rightarrow> Inr (None, a)
           | Some ids \<Rightarrow>
               and_then (resolve_membership_departments s (acc_company a) (Some ids) (acc_dept a)) (\<lambda>memberships.
                 Inr (Some memberships,
                      a\<lparr>acc_departments := map dept_id memberships,
                        acc_dept := (if acc_dept a \<in> set (map (Some \<circ> dept_name) memberships) then acc_dept a
                                     else case memberships of [] \<Rightarrow> None | d # _ \<Rightarrow> Some (dept_name d))\<rparr>))))"

definition update_primary_role ::
  "accounts \<Rightarrow> user \<Rightarrow> managed_user_update \<Rightarrow> account \<Rightarrow> account result" where
  "update_primary_role s u mu a =
     (case mu_role mu of
        None \<Rightarrow> Inr a
      | Some name \<Rightarrow>
          and_then (unless (name \<notin> MANAGED_PRIMARY_ROLES) 422 ''Invalid role'') (\<lambda>_.
          and_then (unless (\<not> is_global_user_manager u \<and> name \<in> {''Admin'', ''CEO''}) 403
                      ''Company managers cannot assign global roles'') (\<lambda>_.
            if mu_role_ids mu = None then set_primary_role s name a else Inr a)))"

definition keeps_own_admin :: "user \<Rightarrow> account \<Rightarrow> role_row list \<Rightarrow> unit result" where
  "keeps_own_admin u a roles =
     unless (acc_id a = user_id u \<and> is_global_user_manager u
             \<and> \<not> list_ex (\<lambda>r. role_name r = ''Admin'' \<and> role_company r = None) roles) 400
       ''You cannot remove your own global Admin role''"

definition update_roles ::
  "accounts \<Rightarrow> user \<Rightarrow> managed_user_update \<Rightarrow> account \<Rightarrow> account result" where
  "update_roles s u mu a =
     (case mu_role_ids mu of
        None \<Rightarrow> Inr a
      | Some ids \<Rightarrow>
          let roles = roles_for s (acc_company a) ids in
          and_then (unless (list_ex (\<lambda>r. \<not> role_active r) roles) 422
                      ''Inactive roles cannot be assigned'') (\<lambda>_.
          and_then (unless (roles = []) 422 ''At least one role is required'') (\<lambda>_.
          and_then (validate_role_assignment_authority u roles) (\<lambda>_.
          and_then (keeps_own_admin u a roles) (\<lambda>_. Inr (give_roles roles a))))))"

definition update_ownership ::
  "accounts \<Rightarrow> managed_user_update \<Rightarrow> department list option \<Rightarrow> account \<Rightarrow> account result" where
  "update_ownership s mu memberships a =
     and_then (case mu_owned mu of
                 None \<Rightarrow> Inr (owned_departments s a)
               | Some ids \<Rightarrow> resolve_owned_departments s (acc_company a) (Some ids)) (\<lambda>owned.
     and_then (case memberships of
                 None \<Rightarrow> Inr (owned, a)
               | Some ms \<Rightarrow>
                   if mu_owned mu \<noteq> None
                   then and_then (ensure_owned_are_memberships ms owned) (\<lambda>_. Inr (owned, a))
                   else let retained = filter (\<lambda>d. dept_id d \<in> set (map dept_id ms)) owned
                        in Inr (retained,
                                if length retained \<noteq> length owned
                                then apply_department_ownership retained a else a)) (\<lambda>(owned1, a1).
     and_then (ensure_single_owner s (acc_id a) owned1) (\<lambda>_.
       Inr (if mu_owned mu \<noteq> None then apply_department_ownership owned1 a1 else a1))))"

definition update_email ::
  "auth_settings \<Rightarrow> accounts \<Rightarrow> user \<Rightarrow> managed_user_update \<Rightarrow> account \<Rightarrow> account result" where
  "update_email cfg s u mu a =
     (case mu_email mu of
        None \<Rightarrow> Inr a
      | Some address \<Rightarrow>
          let email = lower address in
          and_then (unless (\<not> is_global_user_manager u \<and> after_at email \<noteq> u_company u) 403
                      ''Employee email must remain in the company domain'') (\<lambda>_.
          and_then (unless (after_at email \<noteq> acc_company a) 422
             ''Changing a user's company domain is not supported; create a new account instead'') (\<lambda>_.
          and_then (unless (is_reset_operator cfg email \<and> \<not> is_reset_operator cfg (acc_email a)) 403
             ''This address is reserved for database-reset operations and cannot be assigned here'') (\<lambda>_.
          and_then (unless (list_ex (\<lambda>b. acc_id b \<noteq> acc_id a \<and> acc_email b = email) (account_rows s)) 500
                      ''IntegrityError'') (\<lambda>_.
            Inr (a\<lparr>acc_email := email, acc_company := after_at email\<rparr>))))))"

text \<open>A deactivated account is no longer the assigned approver of any pending draft.\<close>

definition unassign_drafts :: "uuid \<Rightarrow> accounts \<Rightarrow> accounts" where
  "unassign_drafts i s =
     s\<lparr>draft_rows := map (\<lambda>d. if assigned_approver_id d = Some i \<and> d_status d = Pending
          then d\<lparr>assigned_approver_id := None, assigned_by := None, assigned_at := None\<rparr> else d)
        (draft_rows s)\<rparr>"

definition owns_nothing :: "accounts \<Rightarrow> account \<Rightarrow> unit result" where
  "owns_nothing s a =
     unless (owned_departments s a \<noteq> []) 409
       ''Reassign every organisational audience owned by this user before deactivation''"

definition update_active :: "accounts \<Rightarrow> user \<Rightarrow> managed_user_update \<Rightarrow> account \<Rightarrow> account result" where
  "update_active s u mu a =
     (case mu_active mu of
        None \<Rightarrow> Inr a
      | Some act \<Rightarrow>
          and_then (unless (acc_id a = user_id u \<and> \<not> act) 400 ''You cannot deactivate your own account'') (\<lambda>_.
          and_then (if act then Inr () else owns_nothing s a) (\<lambda>_. Inr (a\<lparr>acc_active := act\<rparr>))))"

definition update_password :: "crypto \<Rightarrow> string \<Rightarrow> managed_user_update \<Rightarrow> account \<Rightarrow> account result" where
  "update_password C salt mu a =
     (if truthy (mu_password mu)
      then and_then (get_password_hash C salt (or_else (mu_password mu) [])) (\<lambda>h. Inr (set_password h a))
      else Inr a)"

definition changed_user ::
  "crypto \<Rightarrow> auth_settings \<Rightarrow> user \<Rightarrow> managed_user_update \<Rightarrow> string \<Rightarrow> accounts \<Rightarrow> account \<Rightarrow> account result" where
  "changed_user C cfg u mu salt s a =
     and_then (unless (acc_id a = user_id u \<and> truthy (mu_role mu) \<and> mu_role mu \<noteq> Some ''Admin'') 400
                 ''You cannot remove your own Admin role'') (\<lambda>_.
     and_then (update_departments s mu (a\<lparr>acc_name := or_else (mu_name mu) (acc_name a)\<rparr>)) (\<lambda>(memberships, a1).
     and_then (update_primary_role s u mu a1) (\<lambda>a2.
     and_then (update_roles s u mu a2) (\<lambda>a3.
     and_then (update_ownership s mu memberships a3) (\<lambda>a4.
     and_then (update_email cfg s u mu a4) (\<lambda>a5.
     and_then (update_active s u mu a5) (\<lambda>a6.
       update_password C salt mu a6)))))))"

text \<open>Writing the changed account: what a new password or a deactivation takes with it.\<close>

definition save_user :: "instant \<Rightarrow> managed_user_update \<Rightarrow> account \<Rightarrow> accounts \<Rightarrow> accounts" where
  "save_user now mu b s =
     (let s1 = (if mu_active mu = Some False then unassign_drafts (acc_id b) (put_account b s)
                else put_account b s)
      in if truthy (mu_password mu) \<or> mu_active mu = Some False
         then revoke_refresh_sessions now (acc_id b) s1 else s1)"

definition update_managed_user ::
  "crypto \<Rightarrow> auth_settings \<Rightarrow> instant \<Rightarrow> account \<Rightarrow> uuid \<Rightarrow> managed_user_update \<Rightarrow> string \<Rightarrow> accounts
     \<Rightarrow> account reply" where
  "update_managed_user C cfg now me i mu salt s =
     transaction s
       (and_then (manageable (load s me) i s) (\<lambda>a.
        and_then (changed_user C cfg (load s me) mu salt s a) (\<lambda>b.
          Inr (b, record_audit (Some (acc_id me)) ''user_update'' ''user'' i ''success''
                    (save_user now mu b s)))))"

definition has_ceo_role :: "accounts \<Rightarrow> account \<Rightarrow> bool" where
  "has_ceo_role s a =
     (acc_role a = ''CEO'' \<or> list_ex (\<lambda>r. role_name r = ''CEO'') (u_roles (load s a)))"

definition deactivate_user :: "instant \<Rightarrow> account \<Rightarrow> uuid \<Rightarrow> accounts \<Rightarrow> account reply" where
  "deactivate_user now me i s =
     transaction s
       (and_then (manageable (load s me) i s) (\<lambda>a.
        and_then (unless (acc_id a = acc_id me) 400 ''You cannot deactivate your own account'') (\<lambda>_.
        and_then (owns_nothing s a) (\<lambda>_.
        and_then (if has_ceo_role s a then set_primary_role s ''Staff'' (a\<lparr>acc_active := False\<rparr>)
                  else Inr (a\<lparr>acc_active := False\<rparr>)) (\<lambda>b.
          Inr (b, record_audit (Some (acc_id me)) ''user_deactivate'' ''user'' i ''success''
                    (put_account b (revoke_refresh_sessions now i (unassign_drafts i s)))))))))"

definition replace_user_roles :: "account \<Rightarrow> uuid \<Rightarrow> uuid list \<Rightarrow> accounts \<Rightarrow> account reply" where
  "replace_user_roles me i ids s =
     (let u = load s me in
      transaction s
       (and_then (require_permission u ''user.manage'') (\<lambda>_.
        and_then (viewed_account u i s) (\<lambda>a.
        and_then (unless (ids = []) 422 ''At least one role is required'') (\<lambda>_.
        and_then (unless (length (roles_for s (acc_company a) ids) \<noteq> card (set ids)) 403
                    ''Invalid role assignment'') (\<lambda>_.
        and_then (unless (list_ex (\<lambda>r. \<not> role_active r) (roles_for s (acc_company a) ids)) 422
                    ''Inactive roles cannot be assigned'') (\<lambda>_.
        and_then (validate_role_assignment_authority u (roles_for s (acc_company a) ids)) (\<lambda>_.
        and_then (keeps_own_admin u a (roles_for s (acc_company a) ids)) (\<lambda>_.
          let b = give_roles (roles_for s (acc_company a) ids) a in
          Inr (b, record_audit (Some (acc_id me)) ''user_roles_update'' ''user'' i ''success''
                    (put_account b s)))))))))))"

section \<open>The CEO of a company\<close>

definition without_ceo :: "accounts \<Rightarrow> account \<Rightarrow> uuid list" where
  "without_ceo s a = map role_id (filter (\<lambda>r. role_name r \<noteq> ''CEO'') (u_roles (load s a)))"

definition demoted :: "accounts \<Rightarrow> role_row \<Rightarrow> account \<Rightarrow> account" where
  "demoted s staff a =
     a\<lparr>acc_role := ''Staff'',
       acc_roles := (if without_ceo s a = [] then [role_id staff] else without_ceo s a)\<rparr>"

fun demote_ceos :: "uuid \<Rightarrow> role_row \<Rightarrow> uuid \<Rightarrow> account list \<Rightarrow> accounts \<Rightarrow> accounts" where
  "demote_ceos actor staff target [] s = s"
| "demote_ceos actor staff target (a # as) s =
     demote_ceos actor staff target as
       (if has_ceo_role s a \<and> acc_id a \<noteq> target
        then record_audit (Some actor) ''ceo_change'' ''user'' (acc_id a) ''success''
               (put_account (demoted s staff a) s)
        else s)"

text \<open>\<open>list_users\<close> returns its first page, of 100 accounts.\<close>

definition first_page :: "accounts \<Rightarrow> account list" where
  "first_page s = take 100 (sort_key (\<lambda>a. (acc_company a, acc_name a)) (account_rows s))"

definition assign_company_ceo :: "account \<Rightarrow> string \<Rightarrow> uuid \<Rightarrow> accounts \<Rightarrow> account reply" where
  "assign_company_ceo me company i s =
     (let u = load s me; users = filter (\<lambda>a. acc_company a = lower company) (first_page s) in
      transaction s
       (and_then (require_permission u ''user.manage'') (\<lambda>_.
        and_then (unless (\<not> is_global_user_manager u) 403
                    ''Only global user managers can assign a company CEO'') (\<lambda>_.
        and_then (case find (\<lambda>a. acc_id a = i) users of
                    None \<Rightarrow> raise 404 ''Employee not found in this company'' | Some a \<Rightarrow> Inr a) (\<lambda>a.
        and_then (unless (\<not> acc_active a) 422 ''A deactivated employee cannot be assigned as CEO'') (\<lambda>_.
        and_then (system_role s ''CEO'' (Some (acc_company a))) (\<lambda>ceo.
        and_then (system_role s ''Staff'' (Some (acc_company a))) (\<lambda>staff.
          let s1 = demote_ceos (acc_id me) staff i users s;
              b = a\<lparr>acc_role := ''CEO'', acc_roles := without_ceo s1 a @ [role_id ceo]\<rparr>
          in Inr (b, record_audit (Some (acc_id me)) ''ceo_change'' ''user'' i ''success''
                       (put_account b s1))))))))))"

section \<open>Roles\<close>

definition same_role_name :: "string \<Rightarrow> string option \<Rightarrow> role_row \<Rightarrow> bool" where
  "same_role_name name company r = (lower (role_name r) = lower name \<and> role_company r = company)"

definition create_role ::
  "account \<Rightarrow> string \<Rightarrow> string option \<Rightarrow> accounts \<Rightarrow> role_row reply" where
  "create_role me name company s =
     (let u = load s me; global = is_global_role_manager u;
          domain = (if truthy company then Some (lower (or_else company []))
                    else if global then None else Some (u_company u));
          r = \<lparr>role_id = fresh_row s, role_name = strip name, role_company = domain,
               role_active = True, role_permissions = [], role_system = False\<rparr>
      in transaction s
       (and_then (require_permission u ''role.manage'') (\<lambda>_.
        and_then (unless (\<not> global \<and> domain \<noteq> Some (u_company u)) 403
                    ''Roles must belong to your company'') (\<lambda>_.
        and_then (unless (strip name = []) 422 ''Role name cannot be blank'') (\<lambda>_.
        and_then (unless (lower (strip name) = lower LEGACY_DEPARTMENT_OWNER_ROLE) 422
                    ''Department ownership is managed separately from roles'') (\<lambda>_.
        and_then (unless (list_ex (same_role_name (strip name) domain) (role_rows s)) 409
                    ''A role with this name already exists'') (\<lambda>_.
          Inr (r, record_audit (Some (acc_id me)) ''role_create'' ''role'' (role_id r) ''success''
                    (s\<lparr>role_rows := role_rows s @ [r], fresh_row := Suc (fresh_row s)\<rparr>)))))))))"

text \<open>The role a request names, within the caller's reach.\<close>

definition managed_role :: "user \<Rightarrow> bool \<Rightarrow> uuid \<Rightarrow> accounts \<Rightarrow> role_row result" where
  "managed_role u global i s =
     (case find (\<lambda>r. role_id r = i \<and> (global \<or> role_company r = Some (u_company u))) (role_rows s) of
        None \<Rightarrow> raise 404 ''Role not found'' | Some r \<Rightarrow> Inr r)"

definition in_management_scope :: "user \<Rightarrow> bool \<Rightarrow> role_row \<Rightarrow> unit result" where
  "in_management_scope u global r =
     unless (role_company r \<noteq> Some (u_company u) \<and> \<not> global) 403 ''Role is outside your management scope''"

definition renamed_role :: "accounts \<Rightarrow> string option \<Rightarrow> role_row \<Rightarrow> role_row result" where
  "renamed_role s name r =
     (case name of
        None \<Rightarrow> Inr r
      | Some n \<Rightarrow>
          and_then (unless (strip n = []) 422 ''Role name cannot be blank'') (\<lambda>_.
          and_then (unless (lower (strip n) = lower LEGACY_DEPARTMENT_OWNER_ROLE) 422
                      ''Department ownership is managed separately from roles'') (\<lambda>_.
          and_then (unless (list_ex (\<lambda>q. role_id q \<noteq> role_id r \<and> same_role_name (strip n) (role_company r) q)
                              (role_rows s)) 409
                      ''A role with this name already exists'') (\<lambda>_.
            Inr (r\<lparr>role_name := strip n\<rparr>)))))"

definition update_role ::
  "account \<Rightarrow> uuid \<Rightarrow> string option \<Rightarrow> bool option \<Rightarrow> accounts \<Rightarrow> role_row reply" where
  "update_role me i name act s =
     (let u = load s me; global = is_global_role_manager u in
      transaction s
       (and_then (require_permission u ''role.manage'') (\<lambda>_.
        and_then (managed_role u global i s) (\<lambda>r.
        and_then (in_management_scope u global r) (\<lambda>_.
        and_then (unless (role_system r \<and> truthy name \<and> name \<noteq> Some (role_name r)) 400
                    ''System role names cannot be changed'') (\<lambda>_.
        and_then (renamed_role s name r) (\<lambda>r1.
          let r2 = (if act \<noteq> None \<and> \<not> role_system r1 then r1\<lparr>role_active := the act\<rparr> else r1)
          in Inr (r2, record_audit (Some (acc_id me)) ''role_update'' ''role'' i ''success''
                       (s\<lparr>role_rows := put_row role_id r2 (role_rows s)\<rparr>)))))))))"

definition delete_role :: "account \<Rightarrow> uuid \<Rightarrow> accounts \<Rightarrow> unit reply" where
  "delete_role me i s =
     (let u = load s me; global = is_global_role_manager u in
      transaction s
       (and_then (require_permission u ''role.manage'') (\<lambda>_.
        and_then (managed_role u global i s) (\<lambda>r.
        and_then (unless (role_system r) 400 ''System roles cannot be deleted'') (\<lambda>_.
        and_then (in_management_scope u global r) (\<lambda>_.
        and_then (unless (list_ex (\<lambda>a. i \<in> set (acc_roles a)) (account_rows s)) 409
                    ''Remove users from this role before deleting it'') (\<lambda>_.
          Inr ((), record_audit (Some (acc_id me)) ''role_delete'' ''role'' i ''success''
                     (s\<lparr>role_rows := filter (\<lambda>q. role_id q \<noteq> i) (role_rows s)\<rparr>)))))))))"

section \<open>Permissions of a role\<close>

definition parse_scope :: "string \<Rightarrow> scope option" where
  "parse_scope t =
     (if t = ''own'' then Some Own else if t = ''department'' then Some Department
      else if t = ''company'' then Some Company else if t = ''global'' then Some Global else None)"

definition assignable ::
  "user \<Rightarrow> bool \<Rightarrow> (string \<times> string) list \<Rightarrow> role_row \<Rightarrow> accounts \<Rightarrow> unit result" where
  "assignable u global items r s =
     and_then (unless (list_ex (\<lambda>(_, t). parse_scope t = None) items) 422 ''Invalid permission scope'') (\<lambda>_.
     and_then (unless (\<not> distinct (map fst items)) 422
                 ''A permission can only be assigned once per role'') (\<lambda>_.
     and_then (unless ((role_company r \<noteq> None \<or> \<not> global) \<and> list_ex (\<lambda>(_, t). t = ''global'') items) 403
        ''Only global permission managers can grant global scopes to global roles'') (\<lambda>_.
     and_then (unless (\<not> set (map fst items) \<subseteq> set (permission_keys s)) 422 ''Unknown permission key'') (\<lambda>_.
       unless (\<not> global \<and> list_ex (\<lambda>(key, t). rank_of (parse_scope t) > rank_of (effective_permissions u key))
                           items) 403
         ''You cannot delegate permissions broader than your own''))))"

definition replace_role_permissions ::
  "account \<Rightarrow> uuid \<Rightarrow> (string \<times> string) list \<Rightarrow> accounts \<Rightarrow> role_row reply" where
  "replace_role_permissions me i items s =
     (let u = load s me; global = has_permission u ''permission.manage'' None Global in
      transaction s
       (and_then (require_permission u ''permission.manage'') (\<lambda>_.
        and_then (managed_role u global i s) (\<lambda>r.
        and_then (unless (role_system r) 400 ''System role permissions cannot be changed'') (\<lambda>_.
        and_then (in_management_scope u global r) (\<lambda>_.
        and_then (assignable u global items r s) (\<lambda>_.
          let r1 = r\<lparr>role_permissions :=
                       map (\<lambda>(key, t). \<lparr>rp_permission = Some key, rp_scope = parse_scope t\<rparr>) items\<rparr>
          in Inr (r1, record_audit (Some (acc_id me)) ''role_permissions_update'' ''role'' i ''success''
                       (s\<lparr>role_rows := put_row role_id r1 (role_rows s)\<rparr>)))))))))"

section \<open>Members of a department\<close>

definition replace_department_members ::
  "account \<Rightarrow> uuid \<Rightarrow> uuid list \<Rightarrow> accounts \<Rightarrow> uuid list reply" where
  "replace_department_members me i ids s =
     (let u = load s me in
      transaction s
       (and_then (require_permission u ''user.manage'') (\<lambda>_.
        and_then (case find (\<lambda>d. dept_id d = i \<and> dept_company d = u_company u) (department_rows s) of
                    None \<Rightarrow> raise 404 ''Department not found'' | Some d \<Rightarrow> Inr d) (\<lambda>d.
          let users = filter (\<lambda>a. acc_id a \<in> set ids \<and> acc_company a = dept_company d) (account_rows s) in
        and_then (unless (length users \<noteq> card (set ids)) 422
                    ''Every department member must be in the same company'') (\<lambda>_.
          Inr (map acc_id users,
               record_audit (Some (acc_id me)) ''department_members_update'' ''department'' i ''success''
                 (s\<lparr>account_rows := map (\<lambda>a. a\<lparr>acc_departments :=
                      filter (\<lambda>k. k \<noteq> i) (acc_departments a)
                        @ (if acc_id a \<in> set ids then [i] else [])\<rparr>) (account_rows s)\<rparr>)))))))"

section \<open>What the handlers keep\<close>

lemma advances_put_renamed:
  assumes "account_of s (acc_id b) = Some a" "acc_auth_version a \<le> acc_auth_version b"
    "canonical (acc_email b)" "\<forall>c \<in> set (account_rows s). acc_id c \<noteq> acc_id b \<longrightarrow> acc_email c \<noteq> acc_email b"
  shows "advances s (put_account b s)"
proof (unfold advances_def, intro impI conjI)
  assume inv: "auth_inv s"
  then have uniq: "unique_key acc_id (account_rows s)" by (simp add: auth_inv_def keyed_def)
  have "distinct (map acc_email (put_row acc_id b rows))"
    if "unique_key acc_id rows" "distinct (map acc_email rows)"
      "\<forall>c \<in> set rows. acc_id c \<noteq> acc_id b \<longrightarrow> acc_email c \<noteq> acc_email b" for rows
    using that
  proof (induction rows)
    case (Cons q rows)
    have ids: "acc_id q \<notin> acc_id ` set rows" and mails: "acc_email q \<notin> acc_email ` set rows"
      using Cons.prems by (simp_all add: unique_key_def)
    have rest: "distinct (map acc_email (put_row acc_id b rows))"
      using Cons by (simp add: unique_key_def)
    show ?case
    proof (cases "acc_id q = acc_id b")
      case True
      then have "put_row acc_id b rows = rows" using ids by (intro put_row_absent) simp
      moreover have "acc_email b \<notin> acc_email ` set rows"
        using Cons.prems(3) ids True by (auto simp: image_iff) metis
      ultimately show ?thesis using True rest by simp
    next
      case False
      then have "acc_email q \<noteq> acc_email b" using Cons.prems(3) by simp
      moreover have "acc_email ` set (put_row acc_id b rows) \<subseteq> insert (acc_email b) (acc_email ` set rows)"
        using set_put_row_subset [of acc_id b rows] by auto
      ultimately have "acc_email q \<notin> acc_email ` set (put_row acc_id b rows)" using mails by auto
      with False rest show ?thesis by simp
    qed
  qed simp
  from this [OF uniq] inv assms(4) have "distinct (map acc_email (put_row acc_id b (account_rows s)))"
    by (simp add: auth_inv_def)
  moreover have "\<forall>x \<in> set (put_row acc_id b (account_rows s)). canonical (acc_email x)"
    using inv assms(3) set_put_row_subset [of acc_id b "account_rows s"] by (auto simp: auth_inv_def)
  ultimately show "auth_inv (put_account b s)"
    using inv by (simp add: auth_inv_def put_account_def)
  have "account_kept a b" using assms get_row_SomeD(2) [OF assms(1)] by (simp add: account_kept_def)
  then have "rows_keep account_kept (account_rows s) (put_row acc_id b (account_rows s))"
    using uniq assms(1) kept_reflp by (intro rows_keep_put) auto
  then show "evolves s (put_account b s)"
    by (simp add: evolves_def put_account_def rows_keep_refl kept_reflp)
qed

lemma advances_map_accounts:
  assumes "\<And>a. acc_id (f a) = acc_id a \<and> acc_email (f a) = acc_email a
    \<and> acc_auth_version (f a) = acc_auth_version a"
  shows "advances s (s\<lparr>account_rows := map f (account_rows s)\<rparr>)"
  using assms unfolding advances_def auth_inv_def evolves_def
  by (auto simp: rows_keep_refl kept_reflp rows_keep_map keyed_map account_kept_def comp_def)

lemma keyed_filter: "keyed key n rows \<Longrightarrow> keyed key n (filter P rows)"
  by (auto simp: keyed_def unique_key_def distinct_map_filter)

lemma advances_filter_roles: "advances s (s\<lparr>role_rows := filter P (role_rows s)\<rparr>)"
  unfolding advances_def auth_inv_def evolves_def
  by (auto simp: rows_keep_refl kept_reflp keyed_filter)

lemma advances_unassign: "advances s (unassign_drafts i s)"
  by (rule advances_untracked) (simp_all add: unassign_drafts_def)

text \<open>Accounts an identity operation edits: what is left alone by all of them.\<close>

definition edited :: "account \<Rightarrow> account \<Rightarrow> bool" where
  "edited a b = (acc_id b = acc_id a \<and> acc_email b = acc_email a \<and> acc_company b = acc_company a
     \<and> acc_auth_version b = acc_auth_version a)"

lemma editedD:
  "edited a b \<Longrightarrow> acc_id b = acc_id a" "edited a b \<Longrightarrow> acc_email b = acc_email a"
  "edited a b \<Longrightarrow> acc_company b = acc_company a" "edited a b \<Longrightarrow> acc_auth_version b = acc_auth_version a"
  by (simp_all add: edited_def)

lemma edited_trans: "edited a b \<Longrightarrow> edited b c \<Longrightarrow> edited a c"
  by (simp add: edited_def)

lemma edited_steps:
  "edited a (apply_department_ownership ds a)" "edited a (give_roles rs a)"
  "set_primary_role s n a = Inr b \<Longrightarrow> edited a b"
  "update_departments s mu a = Inr (ms, b) \<Longrightarrow> edited a b"
  "update_primary_role s u mu a = Inr b \<Longrightarrow> edited a b"
  "update_roles s u mu a = Inr b \<Longrightarrow> edited a b"
  "update_active s u mu a = Inr b \<Longrightarrow> edited a b"
proof -
  show "edited a (apply_department_ownership ds a)" "edited a (give_roles rs a)"
    by (simp_all add: edited_def apply_department_ownership_def give_roles_def)
  show primary: "set_primary_role s n a = Inr b \<Longrightarrow> edited a b" for n
    by (auto simp: set_primary_role_def guard_simps edited_def)
  show "update_departments s mu a = Inr (ms, b) \<Longrightarrow> edited a b"
    by (auto simp: update_departments_def guard_simps edited_def split: option.splits)
  show "update_primary_role s u mu a = Inr b \<Longrightarrow> edited a b"
    using primary by (auto simp: update_primary_role_def guard_simps edited_def split: option.splits if_splits)
  show "update_roles s u mu a = Inr b \<Longrightarrow> edited a b"
    by (auto simp: update_roles_def Let_def guard_simps edited_def give_roles_def split: option.splits)
  show "update_active s u mu a = Inr b \<Longrightarrow> edited a b"
    by (auto simp: update_active_def guard_simps edited_def split: option.splits)
qed

lemma update_ownership_edited:
  assumes "update_ownership s mu ms a = Inr b"
  shows "edited a b \<and> acc_roles b = acc_roles a \<and> acc_role b = acc_role a"
  using assms
  by (auto simp: update_ownership_def Let_def guard_simps edited_def apply_department_ownership_def
      split: option.splits if_splits)

lemma changed_user_Inr:
  assumes "changed_user C cfg u mu salt s a = Inr b"
  obtains ms a1 a2 a3 a4 a5 a6 where
    "update_departments s mu (a\<lparr>acc_name := or_else (mu_name mu) (acc_name a)\<rparr>) = Inr (ms, a1)"
    "update_primary_role s u mu a1 = Inr a2" "update_roles s u mu a2 = Inr a3"
    "update_ownership s mu ms a3 = Inr a4" "update_email cfg s u mu a4 = Inr a5"
    "update_active s u mu a5 = Inr a6" "update_password C salt mu a6 = Inr b"
  using assms by (auto simp: changed_user_def guard_simps)

lemma update_email_Inr:
  assumes "update_email cfg s u mu a = Inr b"
  shows "acc_id b = acc_id a" "acc_company b = acc_company a" "acc_auth_version b = acc_auth_version a"
    "acc_roles b = acc_roles a" "acc_role b = acc_role a"
    "mu_email mu = None \<and> acc_email b = acc_email a
     \<or> (\<exists>e. mu_email mu = Some e \<and> acc_email b = lower e
         \<and> (\<forall>c \<in> set (account_rows s). acc_id c \<noteq> acc_id a \<longrightarrow> acc_email c \<noteq> lower e))"
  using assms
  by (auto simp: update_email_def Let_def guard_simps list_ex_iff split: option.splits)

lemma update_password_Inr:
  assumes "update_password C salt mu a = Inr b"
  shows "acc_id b = acc_id a" "acc_company b = acc_company a" "acc_email b = acc_email a"
    "acc_auth_version a \<le> acc_auth_version b" "acc_roles b = acc_roles a" "acc_role b = acc_role a"
    "acc_active b = acc_active a"
  using assms by (auto simp: update_password_def guard_simps set_password_def split: if_splits)

text \<open>An address that came in as an \<open>EmailStr\<close>.\<close>

definition email_address :: "string \<Rightarrow> bool" where
  "email_address e = (strip e = e \<and> CHR ''@'' \<in> set (lower e) \<and> after_at (lower e) \<noteq> [])"

lemma changed_user_account:
  assumes "changed_user C cfg u mu salt s a = Inr b"
  shows "acc_id b = acc_id a" "acc_company b = acc_company a" "acc_auth_version a \<le> acc_auth_version b"
    "mu_email mu = None \<and> acc_email b = acc_email a
     \<or> (\<exists>e. mu_email mu = Some e \<and> acc_email b = lower e
         \<and> (\<forall>c \<in> set (account_rows s). acc_id c \<noteq> acc_id a \<longrightarrow> acc_email c \<noteq> lower e))"
proof -
  obtain ms a1 a2 a3 a4 a5 a6 where
    1: "update_departments s mu (a\<lparr>acc_name := or_else (mu_name mu) (acc_name a)\<rparr>) = Inr (ms, a1)"
    and 2: "update_primary_role s u mu a1 = Inr a2" "update_roles s u mu a2 = Inr a3"
    and 4: "update_ownership s mu ms a3 = Inr a4" and 5: "update_email cfg s u mu a4 = Inr a5"
    and 6: "update_active s u mu a5 = Inr a6" and 7: "update_password C salt mu a6 = Inr b"
    using assms by (rule changed_user_Inr)
  have a: "edited a (a\<lparr>acc_name := or_else (mu_name mu) (acc_name a)\<rparr>)" by (simp add: edited_def)
  note a4 = edited_trans [OF edited_trans [OF edited_trans [OF edited_trans [OF a edited_steps(4) [OF 1]]
    edited_steps(5) [OF 2(1)]] edited_steps(6) [OF 2(2)]] conjunct1 [OF update_ownership_edited [OF 4]]]
  note facts = editedD [OF a4] update_email_Inr(1-3) [OF 5] editedD [OF edited_steps(7) [OF 6]] update_password_Inr [OF 7]
  show "acc_id b = acc_id a" "acc_company b = acc_company a" "acc_auth_version a \<le> acc_auth_version b"
    using facts by simp_all
  show "mu_email mu = None \<and> acc_email b = acc_email a
     \<or> (\<exists>e. mu_email mu = Some e \<and> acc_email b = lower e
         \<and> (\<forall>c \<in> set (account_rows s). acc_id c \<noteq> acc_id a \<longrightarrow> acc_email c \<noteq> lower e))"
    using update_email_Inr(6) [OF 5] facts by simp
qed

lemma viewed_account_Inr:
  assumes "viewed_account u i s = Inr a"
  shows "account_of s i = Some a" "acc_id a = i" "identity_scope (Some u) (load s a)"
  using assms by (auto simp: viewed_account_def split: option.splits if_splits dest: get_row_SomeD)

lemma manageable_Inr:
  assumes "manageable u i s = Inr a"
  shows "account_of s i = Some a" "acc_id a = i" "has_permission u ''user.manage'' None Company"
    "is_global_user_manager u \<or> acc_company a = u_company u"
  using assms by (auto simp: manageable_def guard_simps require_permission_def dest: viewed_account_Inr)

lemma advances_changed:
  assumes "changed_user C cfg u mu salt s a = Inr b" "account_of s (acc_id a) = Some a"
    "\<forall>e. mu_email mu = Some e \<longrightarrow> email_address e"
  shows "advances s (put_account b s)"
proof -
  note b = changed_user_account [OF assms(1)]
  from b(4) show ?thesis
  proof
    assume "mu_email mu = None \<and> acc_email b = acc_email a"
    then show ?thesis using b(1,3) assms(2) by (intro advances_put_account [of _ _ a]) simp_all
  next
    assume "\<exists>e. mu_email mu = Some e \<and> acc_email b = lower e
         \<and> (\<forall>c \<in> set (account_rows s). acc_id c \<noteq> acc_id a \<longrightarrow> acc_email c \<noteq> lower e)"
    then obtain e where e: "email_address e" "acc_email b = lower e"
      "\<forall>c \<in> set (account_rows s). acc_id c \<noteq> acc_id a \<longrightarrow> acc_email c \<noteq> lower e"
      using assms(3) by blast
    have "canonical (lower e)" using e(1) by (simp add: email_address_def canonical_def strip_lower)
    with e b(1,3) assms(2) show ?thesis by (intro advances_put_renamed [of _ _ a]) simp_all
  qed
qed

lemma advances_save: "advances s (put_account b s) \<Longrightarrow> advances s (save_user now mu b s)"
  using advances_trans [OF _ advances_unassign, of s "put_account b s"]
    advances_trans [OF _ advances_revoke_all, of s "put_account b s"]
    advances_trans [OF advances_trans [OF _ advances_unassign] advances_revoke_all, of s "put_account b s"]
  by (simp add: save_user_def Let_def)

lemma advances_update_user:
  assumes "\<forall>e. mu_email mu = Some e \<longrightarrow> email_address e"
  shows "advances s (snd (update_managed_user C cfg now me i mu salt s))"
proof -
  have "advances s (put_account b s)"
    if "manageable (load s me) i s = Inr a" "changed_user C cfg (load s me) mu salt s a = Inr b" for a b
  proof -
    have "account_of s (acc_id a) = Some a" using manageable_Inr(1,2) [OF that(1)] by simp
    from advances_changed [OF that(2) this assms] show ?thesis .
  qed
  then show ?thesis
    unfolding update_managed_user_def
    by (intro advances_transaction) (auto simp: guard_simps intro!: advances_audit advances_save)
qed

lemma advances_edited:
  assumes "account_of s i = Some a" "edited a b"
  shows "advances s (put_account b s)"
  using assms editedD [OF assms(2)] get_row_SomeD(2) [OF assms(1)] by (intro advances_put_account [of _ _ a]) simp_all

lemma advances_deactivate_user: "advances s (snd (deactivate_user now me i s))"
proof -
  have "advances s (put_account b (revoke_refresh_sessions now i (unassign_drafts i s)))"
    if "account_of s i = Some a" "edited a b" for a b
  proof -
    have "advances s (revoke_refresh_sessions now i (unassign_drafts i s))"
      by (rule advances_trans [OF advances_unassign advances_revoke_all])
    moreover have "account_of (revoke_refresh_sessions now i (unassign_drafts i s)) i = Some a"
      using that(1) by (simp add: revoke_refresh_sessions_def unassign_drafts_def)
    ultimately show ?thesis using advances_edited [OF _ that(2)] by (blast intro: advances_trans)
  qed
  moreover have "edited a b" if "(if X then set_primary_role s n (a\<lparr>acc_active := False\<rparr>)
      else Inr (a\<lparr>acc_active := False\<rparr>)) = Inr b" for a b X n
    using that edited_steps(3) [of s n "a\<lparr>acc_active := False\<rparr>" b] by (auto simp: edited_def split: if_splits)
  ultimately show ?thesis
    unfolding deactivate_user_def
    by (intro advances_transaction) (auto simp: guard_simps dest!: manageable_Inr(1) intro!: advances_audit)
qed

lemma advances_replace_roles: "advances s (snd (replace_user_roles me i ids s))"
  unfolding replace_user_roles_def Let_def
  by (intro advances_transaction)
     (auto simp: guard_simps dest!: viewed_account_Inr(1) intro!: advances_audit intro: advances_edited edited_steps)

lemma register_user_Inr:
  assumes "register_user C cfg salt e n pw d r priv s = Inr (a, t)"
  shows "acc_id a = fresh_row s" "acc_roles a = []" "acc_role a = (if priv then r else ''Staff'')"
    "acc_email a = lower (strip e)" "acc_active a" "acc_auth_version a = 0"
    "acc_company a = (if CHR ''@'' \<in> set (lower (strip e)) then after_at (lower (strip e)) else ''local'')"
    "t = s\<lparr>account_rows := account_rows s @ [a], fresh_row := Suc (fresh_row s)\<rparr>"
  using assms unfolding register_user_def Let_def
  by (auto simp: guard_simps)

lemma new_account_found:
  assumes "auth_inv s" "acc_id a = fresh_row s"
  shows "account_of (s\<lparr>account_rows := account_rows s @ [a], fresh_row := n\<rparr>) (acc_id a) = Some a"
proof -
  have "account_of s (fresh_row s) = None"
    using assms(1) by (auto simp: get_row_None_iff auth_inv_def keyed_def)
  with assms(2) show ?thesis by (simp add: get_row_append)
qed

lemma complete_user_fields [simp]:
  "acc_id (complete_user mc ms pr rs a) = acc_id a" "acc_email (complete_user mc ms pr rs a) = acc_email a"
  "acc_auth_version (complete_user mc ms pr rs a) = acc_auth_version a"
  "acc_company (complete_user mc ms pr rs a) = acc_company a"
  by (simp_all add: complete_user_def give_roles_def Let_def split: option.split)

lemma finish_user_Inr:
  assumes "finish_user me mc ms pr rs i s = Inr (b, t)"
  obtains a b1 where "account_of s i = Some a" "edited (complete_user mc ms pr rs a) b"
    "acc_roles b = acc_roles (complete_user mc ms pr rs a)" "acc_role b = acc_role (complete_user mc ms pr rs a)"
    "t = record_audit (Some (acc_id me)) ''user_create'' ''user'' i ''success'' (put_account b s)"
proof -
  obtain a where a: "account_of s i = Some a"
    using assms by (cases "account_of s i") (simp_all add: finish_user_def)
  have "edited (complete_user mc ms pr rs a) b \<and> acc_roles b = acc_roles (complete_user mc ms pr rs a)
    \<and> acc_role b = acc_role (complete_user mc ms pr rs a)
    \<and> t = record_audit (Some (acc_id me)) ''user_create'' ''user'' i ''success'' (put_account b s)"
    using assms a
    by (auto simp: finish_user_def Let_def guard_simps edited_def apply_department_ownership_def)
  with a that show ?thesis by blast
qed

lemma advances_finish_user:
  assumes "finish_user me mc ms pr rs i s = Inr (b, t)"
  shows "advances s t"
proof (rule finish_user_Inr [OF assms])
  fix a
  assume a: "account_of s i = Some a" and b: "edited (complete_user mc ms pr rs a) b"
    and t: "t = record_audit (Some (acc_id me)) ''user_create'' ''user'' i ''success'' (put_account b s)"
  have "edited a b" using b by (simp add: edited_def)
  from advances_edited [OF a this] show ?thesis unfolding t by (rule advances_audit)
qed

lemma advances_create_user: "advances s (snd (create_managed_user C cfg me mc salt s))"
proof (cases "may_create_user cfg (load s me) mc s")
  case (Inr x)
  obtain pw ms pr rs where x: "x = (pw, ms, pr, rs)" by (cases x)
  show ?thesis
  proof (cases "register_user C cfg salt (mc_email mc) (mc_name mc) pw (map_option dept_name pr) (mc_role mc) True s")
    case (Inr y)
    obtain a s1 where y: "y = (a, s1)" by (cases y)
    have "advances s (bootstrap_rbac s1)"
      by (rule advances_trans [OF advances_register [OF Inr [unfolded y]] advances_bootstrap])
    moreover have "advances (bootstrap_rbac s1) (snd (transaction (bootstrap_rbac s1)
        (finish_user me mc ms pr rs (acc_id a) (bootstrap_rbac s1))))"
      by (intro advances_transaction) (rule advances_finish_user)
    ultimately show ?thesis
      using \<open>may_create_user cfg (load s me) mc s = Inr x\<close> x Inr y
      by (simp add: create_managed_user_def) (rule advances_trans)
  qed (use Inr x in \<open>simp add: create_managed_user_def\<close>)
qed (simp add: create_managed_user_def)

lemma demoted_edited: "edited a (demoted s staff a)"
  by (simp add: edited_def demoted_def)

lemma put_keeps_other:
  "account_of s i = Some a \<Longrightarrow> acc_id b \<noteq> i \<Longrightarrow> account_of (put_account b s) i = Some a"
  by (simp add: put_account_def get_put_other)

lemma demote_ceos_run:
  assumes "distinct (map acc_id as)" "\<forall>a \<in> set as. account_of s (acc_id a) = Some a"
  shows "advances s (demote_ceos who staff i as s)
    \<and> (\<forall>k a. account_of s k = Some a \<longrightarrow> k = i \<or> k \<notin> acc_id ` set as
         \<longrightarrow> account_of (demote_ceos who staff i as s) k = Some a)"
  using assms
proof (induction as arbitrary: s)
  case (Cons a as)
  let ?s1 = "record_audit (Some who) ''ceo_change'' ''user'' (acc_id a) ''success''
               (put_account (demoted s staff a) s)"
  have id: "acc_id (demoted s staff a) = acc_id a" by (simp add: demoted_def)
  show ?case
  proof (cases "has_ceo_role s a \<and> acc_id a \<noteq> i")
    case True
    have "account_of s (acc_id a) = Some a" using Cons.prems(2) by simp
    from advances_edited [OF this demoted_edited] have adv: "advances s ?s1" by (rule advances_audit)
    have "account_of ?s1 (acc_id x) = Some x" if "x \<in> set as" for x
    proof -
      have "acc_id x \<noteq> acc_id a"
        using Cons.prems(1) that by (metis distinct.simps(2) image_eqI list.set_map list.simps(9))
      with Cons.prems(2) that id show ?thesis by (simp add: put_keeps_other)
    qed
    then have IH: "advances ?s1 (demote_ceos who staff i as ?s1)"
      "\<And>k b. account_of ?s1 k = Some b \<Longrightarrow> k = i \<or> k \<notin> acc_id ` set as
         \<Longrightarrow> account_of (demote_ceos who staff i as ?s1) k = Some b"
      using Cons.IH [of ?s1] Cons.prems(1) by auto
    show ?thesis
      using True advances_trans [OF adv IH(1)] IH(2) id by (auto simp: put_keeps_other)
  qed (use Cons in auto)
qed simp

lemma first_page_found:
  assumes "auth_inv s"
  shows "distinct (map acc_id (filter P (first_page s)))"
    "\<forall>a \<in> set (filter P (first_page s)). account_of s (acc_id a) = Some a"
proof -
  have sub: "set (first_page s) \<subseteq> set (account_rows s)"
    unfolding first_page_def using set_take_subset by fastforce
  have "distinct (map acc_id (account_rows s))" using assms by (simp add: auth_inv_def keyed_def unique_key_def)
  then have "distinct (map acc_id (sort_key (\<lambda>a. (acc_company a, acc_name a)) (account_rows s)))"
    by (simp add: distinct_map)
  then have "distinct (map acc_id (first_page s))"
    unfolding first_page_def take_map [symmetric] by (rule distinct_take)
  then show "distinct (map acc_id (filter P (first_page s)))" by (simp add: distinct_map_filter)
  show "\<forall>a \<in> set (filter P (first_page s)). account_of s (acc_id a) = Some a"
    using sub auth_inv_found(1) [OF assms] by auto
qed

lemma advances_ceo: "advances s (snd (assign_company_ceo me company i s))"
proof (rule advances_under)
  assume inv: "auth_inv s"
  let ?users = "filter (\<lambda>a. acc_company a = lower company) (first_page s)"
  have "advances s (put_account (a\<lparr>acc_role := ''CEO'', acc_roles := rs\<rparr>)
      (demote_ceos who staff i ?users s))"
    if "find (\<lambda>a. acc_id a = i) ?users = Some a" for a rs who staff
  proof -
    have a: "a \<in> set ?users" "acc_id a = i" using that by (auto dest!: find_mem)
    note run = demote_ceos_run [OF first_page_found [OF inv], of who staff i "\<lambda>a. acc_company a = lower company"]
    have "account_of s i = Some a" using first_page_found(2) [OF inv] a by blast
    with run have "account_of (demote_ceos who staff i ?users s) i = Some a" by blast
    from advances_trans [OF conjunct1 [OF run] advances_edited [OF this]] show ?thesis by (simp add: edited_def)
  qed
  then show "advances s (snd (assign_company_ceo me company i s))"
    unfolding assign_company_ceo_def Let_def
    by (intro advances_transaction) (auto simp: guard_simps split: option.splits intro!: advances_audit)
qed

lemma advances_create_role: "advances s (snd (create_role me n c s))"
  unfolding create_role_def Let_def
  by (intro advances_transaction) (auto simp: guard_simps intro!: advances_audit advances_new_role)

lemma advances_update_role: "advances s (snd (update_role me i n act s))"
  unfolding update_role_def Let_def
  by (intro advances_transaction) (auto simp: guard_simps intro!: advances_audit advances_put_role)

lemma advances_delete_role: "advances s (snd (delete_role me i s))"
  unfolding delete_role_def Let_def
  by (intro advances_transaction) (auto simp: guard_simps intro!: advances_audit advances_filter_roles)

lemma advances_role_permissions: "advances s (snd (replace_role_permissions me i items s))"
  unfolding replace_role_permissions_def Let_def
  by (intro advances_transaction) (auto simp: guard_simps intro!: advances_audit advances_put_role)

lemma advances_members: "advances s (snd (replace_department_members me i ids s))"
  unfolding replace_department_members_def Let_def
  by (intro advances_transaction) (auto simp: guard_simps intro!: advances_audit advances_map_accounts)

end
