(* ===== verification/Authority.thy ===== *)
theory Authority
  imports Identity
begin

text \<open>
  Who holds a global grant, and that nobody who lacks one can create one. An account is
  privileged when some grant of it is global, for any permission; the state is governed when
  roles, accounts and invitations are as seeding leaves them. \<open>confined\<close> is the contract of an
  operation on behalf of a caller without a global grant: it keeps the state governed and makes
  no account privileged.
\<close>

section \<open>Global grants\<close>

definition role_grants_global :: "'a role_scheme \<Rightarrow> bool" where
  "role_grants_global r =
     list_ex (\<lambda>p. rp_permission p \<noteq> None \<and> rp_scope p = Some Global) (role_permissions r)"

definition holds_global :: "user \<Rightarrow> bool" where
  "holds_global u =
     (if u_roles u = []
      then (case default_grants (u_role u) of None \<Rightarrow> False | Some gs \<Rightarrow> Global \<in> snd ` set gs)
      else list_ex (\<lambda>r. role_counts u r \<and> role_grants_global r) (u_roles u))"

definition privileged :: "accounts \<Rightarrow> uuid \<Rightarrow> bool" where
  "privileged s i = (case account_of s i of None \<Rightarrow> False | Some a \<Rightarrow> holds_global (load s a))"

lemma default_global: "Global \<in> snd ` set (default_permissions n) \<longleftrightarrow> n = ''Admin''"
proof -
  have "list_ex (\<lambda>g. snd g = Global) (default_permissions n) \<longleftrightarrow> n = ''Admin''"
    by (simp add: default_permissions_def DEFAULT_ROLE_PERMISSIONS_def PERMISSION_CATALOG_def)
  then show ?thesis by (force simp: list_ex_iff)
qed

lemma default_grants_global:
  "(case default_grants n of None \<Rightarrow> False | Some gs \<Rightarrow> Global \<in> snd ` set gs) \<longleftrightarrow> n = ''Admin''"
  using default_global [of n] by (cases "default_grants n") (simp_all add: default_permissions_def)

lemma default_distinct: "default_grants n = Some gs \<Longrightarrow> distinct (map fst gs)"
  by (auto simp: DEFAULT_ROLE_PERMISSIONS_def PERMISSION_CATALOG_def split: if_splits)

lemma holds_global_iff: "holds_global u \<longleftrightarrow> (\<exists>key. Global \<in> grants u key)"
proof (cases "u_roles u = []")
  case True
  then show ?thesis
    by (force simp: holds_global_def grants_def dest: default_distinct map_of_SomeD split: option.splits if_splits)
next
  case False
  then show ?thesis
    by (fastforce simp: holds_global_def grants_def role_grants_global_def list_ex_iff)
qed

lemma not_global:
  assumes "\<not> holds_global u"
  shows "\<not> has_permission u key None Global" "\<not> is_global_user_manager u" "\<not> is_global_role_manager u"
    "rank_of (effective_permissions u key) < rank Global"
proof -
  have g: "Global \<notin> grants u key" for key using assms by (simp add: holds_global_iff)
  then show "\<not> has_permission u key None Global" "\<not> is_global_user_manager u" "\<not> is_global_role_manager u"
    by (simp_all add: has_global_permission is_global_user_manager_def is_global_role_manager_def)
  show "rank_of (effective_permissions u key) < rank Global"
  proof (cases "effective_permissions u key")
    case (Some x)
    then have "x \<noteq> Global" using effective_permissions_SomeD [OF Some] g by auto
    with Some show ?thesis by (cases x) simp_all
  qed simp
qed

text \<open>The same, read from the rows.\<close>

definition role_reaches :: "account \<Rightarrow> role_row \<Rightarrow> bool" where
  "role_reaches a r = (role_id r \<in> set (acc_roles a) \<and> role_active r
     \<and> (case role_company r of None \<Rightarrow> True | Some c \<Rightarrow> c = acc_company a))"

definition account_global :: "role_row list \<Rightarrow> account \<Rightarrow> bool" where
  "account_global rs a =
     (if acc_roles a = [] then acc_role a = ''Admin''
      else list_ex (\<lambda>r. role_reaches a r \<and> role_grants_global r) rs)"

definition roles_exist :: "accounts \<Rightarrow> account \<Rightarrow> bool" where
  "roles_exist s a = (set (acc_roles a) \<subseteq> role_id ` set (role_rows s))"

lemma load_fields:
  "u_company (load s a) = acc_company a" "u_role (load s a) = acc_role a" "user_id (load s a) = acc_id a"
  "u_roles (load s a) = map loaded_role (filter (\<lambda>r. role_id r \<in> set (acc_roles a)) (role_rows s))"
  by (simp_all add: load_def)

lemma load_roles_Nil: "roles_exist s a \<Longrightarrow> u_roles (load s a) = [] \<longleftrightarrow> acc_roles a = []"
  by (cases "acc_roles a") (auto simp: load_def roles_exist_def filter_empty_conv)

lemma truncate_fields [simp]:
  "role_id (loaded_role r) = role_id r" "role_name (loaded_role r) = role_name r"
  "role_company (loaded_role r) = role_company r" "role_active (loaded_role r) = role_active r"
  "role_permissions (loaded_role r) = role_permissions r"
  by (simp_all add: role.truncate_def)

lemma role_counts_load:
  "role_counts (load s a) (loaded_role r) \<longleftrightarrow>
     role_active r \<and> (case role_company r of None \<Rightarrow> True | Some c \<Rightarrow> c = acc_company a)"
  by (cases "role_company r") (simp_all add: role_counts_def load_fields)

lemma holds_global_load:
  assumes "roles_exist s a"
  shows "holds_global (load s a) \<longleftrightarrow> account_global (role_rows s) a"
proof (cases "acc_roles a = []")
  case True
  then have "u_roles (load s a) = []" using load_roles_Nil [OF assms] by simp
  moreover have "u_role (load s a) = acc_role a" by (simp add: load_def)
  ultimately show ?thesis using True by (simp add: holds_global_def account_global_def default_grants_global)
next
  case False
  then have "u_roles (load s a) \<noteq> []" using load_roles_Nil [OF assms] by simp
  then show ?thesis using False
    by (auto simp: holds_global_def account_global_def list_ex_iff load_fields(4) role_counts_load
        role_reaches_def role_grants_global_def)
qed

section \<open>Governed states\<close>

definition account_governed :: "accounts \<Rightarrow> account \<Rightarrow> bool" where
  "account_governed s a =
     (roles_exist s a \<and> acc_company a \<noteq> []
      \<and> (acc_roles a \<noteq> [] \<longrightarrow> list_ex (role_named ''Admin'' (Some (acc_company a))) (role_rows s)))"

definition role_governed :: "role_row \<Rightarrow> bool" where
  "role_governed r =
     ((role_name r = ''Admin'' \<longrightarrow> role_grants_global r \<and> role_system r)
      \<and> (role_grants_global r \<longrightarrow> role_company r = None \<or> role_name r = ''Admin''))"

definition invitation_governed :: "invitation \<Rightarrow> bool" where
  "invitation_governed v = (inv_company v \<noteq> [] \<and> (spent v \<or> inv_role v \<noteq> ''Admin''))"

definition governed :: "accounts \<Rightarrow> bool" where
  "governed s = (list_all (account_governed s) (account_rows s) \<and> list_all role_governed (role_rows s)
     \<and> list_all invitation_governed (invitation_rows s))"

lemma governedD:
  assumes "governed s"
  shows "a \<in> set (account_rows s) \<Longrightarrow> account_governed s a" "r \<in> set (role_rows s) \<Longrightarrow> role_governed r"
    "v \<in> set (invitation_rows s) \<Longrightarrow> invitation_governed v"
  using assms by (auto simp: governed_def list_all_iff)

lemma privileged_iff:
  assumes "governed s"
  shows "privileged s i \<longleftrightarrow> (\<exists>a. account_of s i = Some a \<and> account_global (role_rows s) a)"
proof (cases "account_of s i")
  case (Some a)
  then have "roles_exist s a"
    using governedD(1) [OF assms get_row_SomeD(1) [OF Some]] by (simp add: account_governed_def)
  with Some show ?thesis by (simp add: privileged_def holds_global_load)
qed (simp add: privileged_def)

definition confined :: "accounts \<Rightarrow> accounts \<Rightarrow> bool" where
  "confined s t =
     (auth_inv s \<and> governed s \<longrightarrow>
        auth_inv t \<and> governed t \<and> (\<forall>i. privileged t i \<longrightarrow> privileged s i))"

lemma confined_refl [simp]: "confined s s"
  by (simp add: confined_def)

lemma confined_trans: "confined s t \<Longrightarrow> confined t u \<Longrightarrow> confined s u"
  unfolding confined_def by blast

lemma confined_under: "(auth_inv s \<Longrightarrow> governed s \<Longrightarrow> confined s t) \<Longrightarrow> confined s t"
  by (simp add: confined_def)

lemma confined_intro:
  assumes "auth_inv s \<Longrightarrow> auth_inv t" "governed s \<Longrightarrow> auth_inv s \<Longrightarrow> governed t"
    "\<And>i b. governed s \<Longrightarrow> auth_inv s \<Longrightarrow> account_of t i = Some b \<Longrightarrow> account_global (role_rows t) b
       \<Longrightarrow> \<exists>a. account_of s i = Some a \<and> account_global (role_rows s) a"
  shows "confined s t"
  unfolding confined_def
proof (intro impI conjI allI)
  assume inv: "auth_inv s \<and> governed s"
  then show "auth_inv t" "governed t" using assms(1,2) by auto
  fix i assume "privileged t i"
  with privileged_iff [OF assms(2)] inv assms(3) show "privileged s i"
    by (auto simp: privileged_iff)
qed

lemma advances_inv: "advances s t \<Longrightarrow> auth_inv s \<Longrightarrow> auth_inv t"
  by (simp add: advances_def)

lemmas confinedI = confined_intro [OF advances_inv]

section \<open>Operations that leave the standing of accounts alone\<close>

definition standing :: "account \<Rightarrow> uuid \<times> uuid list \<times> string \<times> string" where
  "standing a = (acc_id a, acc_roles a, acc_role a, acc_company a)"

lemma account_global_standing: "standing a = standing b \<Longrightarrow> account_global rs a = account_global rs b"
proof -
  assume st: "standing a = standing b"
  then have "role_reaches a r = role_reaches b r" for r
    by (cases "role_company r") (simp_all add: standing_def role_reaches_def)
  with st show ?thesis by (simp add: standing_def account_global_def)
qed

lemma account_governed_standing:
  "standing a = standing b \<Longrightarrow> role_rows s = role_rows t \<Longrightarrow> account_governed s a = account_governed t b"
  by (simp add: standing_def account_governed_def roles_exist_def)

definition same_standing :: "accounts \<Rightarrow> accounts \<Rightarrow> bool" where
  "same_standing s t =
     (role_rows t = role_rows s \<and> map standing (account_rows t) = map standing (account_rows s)
      \<and> (\<forall>v \<in> set (invitation_rows t). invitation_governed v
           \<or> (\<exists>w \<in> set (invitation_rows s). invitation_kept w v)))"

lemma invitation_kept_governed: "invitation_kept v w \<Longrightarrow> invitation_governed v \<Longrightarrow> invitation_governed w"
  by (auto simp: invitation_kept_def invitation_governed_def)

lemma get_row_standing:
  assumes "map standing xs = map standing ys" "get_row acc_id i xs = Some a"
  shows "\<exists>b. get_row acc_id i ys = Some b \<and> standing b = standing a"
  using assms
proof (induction xs arbitrary: ys)
  case (Cons x xs)
  then obtain y zs where "ys = y # zs" "standing x = standing y" "map standing xs = map standing zs"
    by (cases ys) auto
  with Cons show ?case by (auto simp: standing_def split: if_splits)
qed simp

lemma confined_same_standing:
  assumes "auth_inv s \<Longrightarrow> auth_inv t" "same_standing s t"
  shows "confined s t"
proof (rule confined_intro [OF assms(1)])
  assume gov: "governed s"
  have "account_governed t b" if "b \<in> set (account_rows t)" for b
  proof -
    have "standing b \<in> standing ` set (account_rows s)"
      using that assms(2) by (metis image_eqI list.set_map same_standing_def)
    then obtain a where "a \<in> set (account_rows s)" "standing b = standing a" by blast
    with account_governed_standing [of b a t s] governedD(1) [OF gov] assms(2)
    show ?thesis by (simp add: same_standing_def)
  qed
  moreover have "invitation_governed v" if "v \<in> set (invitation_rows t)" for v
    using that assms(2) governedD(3) [OF gov] invitation_kept_governed
    by (auto simp: same_standing_def)
  moreover have "list_all role_governed (role_rows t)"
    using gov assms(2) by (simp add: governed_def same_standing_def)
  ultimately show "governed t" by (simp add: governed_def list_all_iff)
next
  fix i b
  assume "account_of t i = Some b" "account_global (role_rows t) b"
  moreover obtain a where "account_of s i = Some a" "standing a = standing b"
    using get_row_standing [of "account_rows t" "account_rows s" i b] assms(2) calculation(1)
    by (auto simp: same_standing_def)
  ultimately show "\<exists>a. account_of s i = Some a \<and> account_global (role_rows s) a"
    using assms(2) account_global_standing [of a b "role_rows s"] by (simp add: same_standing_def)
qed

text \<open>The parts of such operations.\<close>

lemma same_standing_refl: "invitation_rows t = invitation_rows s \<Longrightarrow> account_rows t = account_rows s
    \<Longrightarrow> role_rows t = role_rows s \<Longrightarrow> same_standing s t"
  by (auto simp: same_standing_def invitation_kept_def)

lemma invitation_kept_trans: "invitation_kept u v \<Longrightarrow> invitation_kept v w \<Longrightarrow> invitation_kept u w"
  using kept_transp(4) by (rule transpD)

lemma same_standing_trans: "same_standing s t \<Longrightarrow> same_standing t u \<Longrightarrow> same_standing s u"
proof (unfold same_standing_def, intro conjI ballI)
  assume st: "role_rows t = role_rows s \<and> map standing (account_rows t) = map standing (account_rows s)
      \<and> (\<forall>v \<in> set (invitation_rows t). invitation_governed v
           \<or> (\<exists>w \<in> set (invitation_rows s). invitation_kept w v))"
    and tu: "role_rows u = role_rows t \<and> map standing (account_rows u) = map standing (account_rows t)
      \<and> (\<forall>v \<in> set (invitation_rows u). invitation_governed v
           \<or> (\<exists>w \<in> set (invitation_rows t). invitation_kept w v))"
  then show "role_rows u = role_rows s" "map standing (account_rows u) = map standing (account_rows s)"
    by simp_all
  fix v assume "v \<in> set (invitation_rows u)"
  with tu consider "invitation_governed v" | w where "w \<in> set (invitation_rows t)" "invitation_kept w v"
    by blast
  then show "invitation_governed v \<or> (\<exists>w \<in> set (invitation_rows s). invitation_kept w v)"
  proof cases
    case 2
    from st 2(1) consider "invitation_governed w"
      | x where "x \<in> set (invitation_rows s)" "invitation_kept x w" by blast
    then show ?thesis
    proof cases
      case 1
      with 2(2) show ?thesis by (simp add: invitation_kept_governed)
    next
      case x: 2
      have "invitation_kept x v" using x(2) 2(2) by (rule invitation_kept_trans)
      with x(1) show ?thesis by blast
    qed
  qed simp
qed

lemma same_standing_audit: "same_standing s t \<Longrightarrow> same_standing s (record_audit w act k i out t)"
  by (simp add: same_standing_def)

lemma same_standing_put:
  assumes "auth_inv s" "account_of s (acc_id b) = Some a" "standing b = standing a"
  shows "same_standing s (put_account b s)"
proof -
  have "map standing (put_row acc_id b (account_rows s)) = map standing (account_rows s)"
    using assms by (intro map_put_row_same [where q = a]) (auto simp: auth_inv_def keyed_def)
  then show ?thesis by (auto simp: same_standing_def put_account_def invitation_kept_def)
qed

lemma same_standing_sessions [simp]:
  "same_standing s (s\<lparr>session_rows := x\<rparr>)" "same_standing s (s\<lparr>reset_rows := y\<rparr>)"
  "same_standing s (s\<lparr>token_rows := z\<rparr>)" "same_standing s (s\<lparr>fresh_row := n\<rparr>)"
  "same_standing s (revoke_refresh_sessions now i s)" "same_standing s (void_grants now i s)"
  "same_standing s s"
  by (rule same_standing_refl; simp add: revoke_refresh_sessions_def void_grants_def)+

lemma same_standing_issue:
  assumes "issue_tokens C cfg now a rq previous s = Inr (ts, t)"
  shows "same_standing s t"
  by (rule issue_tokens_Inr [OF assms]) (auto intro!: same_standing_refl)

section \<open>Operations on roles, and new accounts\<close>

lemma account_governed_roles:
  assumes "account_governed s a" "role_id ` set (role_rows s) \<subseteq> role_id ` set (role_rows t)"
    "\<And>r c. r \<in> set (role_rows s) \<Longrightarrow> role_named ''Admin'' c r
       \<Longrightarrow> \<exists>q \<in> set (role_rows t). role_named ''Admin'' c q"
  shows "account_governed t a"
  using assms unfolding account_governed_def roles_exist_def by (auto simp: list_ex_iff)

lemma governed_rows:
  assumes "governed s" "\<And>a. a \<in> set (account_rows t) \<Longrightarrow> account_governed t a"
    "\<And>r. r \<in> set (role_rows t) \<Longrightarrow> role_governed r" "invitation_rows t = invitation_rows s"
  shows "governed t"
  using assms by (simp add: governed_def list_all_iff)

lemma confined_put_role:
  assumes r: "r \<in> set (role_rows s)" "role_id q = role_id r" "role_company q = role_company r"
    and gov: "governed s \<Longrightarrow> role_governed q"
    and admin: "governed s \<Longrightarrow> role_name r = ''Admin'' \<Longrightarrow> role_name q = ''Admin''"
    and mono: "governed s \<Longrightarrow> role_grants_global q \<Longrightarrow> role_grants_global r \<and> (role_active q \<longrightarrow> role_active r)"
  shows "confined s (s\<lparr>role_rows := put_row role_id q (role_rows s)\<rparr>)" (is "confined s ?t")
proof (rule confinedI [OF advances_put_role])
  assume g: "governed s" and inv: "auth_inv s"
  have row: "get_row role_id (role_id q) (role_rows s) = Some r"
    using auth_inv_found(5) [OF inv r(1)] r(2) by simp
  have rows: "set (put_row role_id q (role_rows s)) = insert q (set (role_rows s) - {r})"
    using inv row by (intro set_put_row) (simp_all add: auth_inv_def keyed_def)
  show "governed ?t"
  proof (rule governed_rows [OF g])
    fix a assume "a \<in> set (account_rows ?t)"
    then have "account_governed s a" using governedD(1) [OF g] by simp
    then show "account_governed ?t a"
    proof (rule account_governed_roles)
      show "role_id ` set (role_rows s) \<subseteq> role_id ` set (role_rows ?t)" by (simp add: keys_put_row)
      fix p c assume "p \<in> set (role_rows s)" "role_named ''Admin'' c p"
      then show "\<exists>x \<in> set (role_rows ?t). role_named ''Admin'' c x"
        using rows admin [OF g] r(3) by (cases "p = r") (auto simp: role_named_def)
    qed
  next
    fix x assume "x \<in> set (role_rows ?t)"
    then show "role_governed x" using rows gov [OF g] governedD(2) [OF g] by auto
  qed simp
  fix i b
  assume b: "account_of ?t i = Some b" "account_global (role_rows ?t) b"
  have "role_reaches b q \<Longrightarrow> role_active r \<Longrightarrow> role_reaches b r"
    using r by (simp add: role_reaches_def)
  then have "account_global (role_rows s) b"
    using b(2) rows mono [OF g] r(1)
    by (auto simp: account_global_def list_ex_iff role_reaches_def split: if_splits)
  with b(1) show "\<exists>a. account_of s i = Some a \<and> account_global (role_rows s) a" by simp
qed

lemma confined_new_role:
  assumes r: "role_id r = fresh_row s" "role_governed r"
  shows "confined s (s\<lparr>role_rows := role_rows s @ [r], fresh_row := Suc (fresh_row s)\<rparr>)" (is "confined s ?t")
proof (rule confinedI [OF advances_new_role [OF r(1)]])
  assume g: "governed s" and inv: "auth_inv s"
  show "governed ?t"
  proof (rule governed_rows [OF g])
    fix a assume "a \<in> set (account_rows ?t)"
    then have "account_governed s a" using governedD(1) [OF g] by simp
    then show "account_governed ?t a" by (rule account_governed_roles) auto
  next
    fix x assume "x \<in> set (role_rows ?t)"
    then show "role_governed x" using r(2) governedD(2) [OF g] by auto
  qed simp
  fix i b
  assume b: "account_of ?t i = Some b" "account_global (role_rows ?t) b"
  then have "roles_exist s b"
    using governedD(1) [OF g] get_row_SomeD(1) [of acc_id i "account_rows s" b] by (simp add: account_governed_def)
  moreover have "fresh_row s \<notin> role_id ` set (role_rows s)"
    using inv by (auto simp: auth_inv_def keyed_def)
  ultimately have "\<not> role_reaches b r"
    using r(1) by (auto simp: role_reaches_def roles_exist_def)
  with b show "\<exists>a. account_of s i = Some a \<and> account_global (role_rows s) a"
    by (simp add: account_global_def split: if_splits)
qed

lemma confined_drop_role:
  assumes "\<forall>a \<in> set (account_rows s). i \<notin> set (acc_roles a)"
    "governed s \<Longrightarrow> \<forall>r \<in> set (role_rows s). role_id r = i \<longrightarrow> role_name r \<noteq> ''Admin''"
  shows "confined s (s\<lparr>role_rows := filter (\<lambda>q. role_id q \<noteq> i) (role_rows s)\<rparr>)" (is "confined s ?t")
proof (rule confinedI [OF advances_filter_roles])
  assume g: "governed s"
  show "governed ?t"
  proof (rule governed_rows [OF g])
    fix a assume a: "a \<in> set (account_rows ?t)"
    then have "account_governed s a" using governedD(1) [OF g] by simp
    with a assms(1) assms(2) [OF g] show "account_governed ?t a"
      by (fastforce simp: account_governed_def roles_exist_def list_ex_iff role_named_def)
  qed (use governedD(2) [OF g] in auto)
  fix k b
  assume "account_of ?t k = Some b" "account_global (role_rows ?t) b"
  then show "\<exists>a. account_of s k = Some a \<and> account_global (role_rows s) a"
    by (auto simp: account_global_def list_ex_iff split: if_splits)
qed

lemma confined_put_account:
  assumes adv: "advances s (put_account b s)" and a: "account_of s (acc_id b) = Some a"
    and gov: "governed s \<Longrightarrow> account_governed s b"
    and mono: "governed s \<Longrightarrow> account_global (role_rows s) b \<Longrightarrow> account_global (role_rows s) a"
  shows "confined s (put_account b s)"
proof (rule confinedI [OF adv])
  assume g: "governed s"
  show "governed (put_account b s)"
  proof (rule governed_rows [OF g])
    fix c assume "c \<in> set (account_rows (put_account b s))"
    then have "c = b \<or> c \<in> set (account_rows s)"
      using set_put_row_subset [of acc_id b "account_rows s"] by (auto simp: put_account_def)
    then have "account_governed s c" using gov [OF g] governedD(1) [OF g] by auto
    then show "account_governed (put_account b s) c" by (simp add: account_governed_def roles_exist_def)
  qed (use governedD(2) [OF g] in auto)
  fix i c
  assume c: "account_of (put_account b s) i = Some c" "account_global (role_rows (put_account b s)) c"
  show "\<exists>a. account_of s i = Some a \<and> account_global (role_rows s) a"
  proof (cases "i = acc_id b")
    case True
    then have "c = b" using c(1) a get_put_same [of acc_id b "account_rows s"] by (simp add: put_account_def)
    with c(2) mono [OF g] a True show ?thesis by auto
  next
    case False
    with c show ?thesis by (simp add: put_account_def get_put_other)
  qed
qed

lemma confined_new_account:
  assumes "acc_id a = fresh_row s" "acc_email a \<notin> acc_email ` set (account_rows s)" "canonical (acc_email a)"
    "acc_roles a = []" "acc_role a \<noteq> ''Admin''" "governed s \<Longrightarrow> acc_company a \<noteq> []"
  shows "confined s (s\<lparr>account_rows := account_rows s @ [a], fresh_row := Suc (fresh_row s)\<rparr>)"
    (is "confined s ?t")
proof (rule confinedI [OF advances_new_account [OF assms(1-3)]])
  assume g: "governed s"
  show "governed ?t"
  proof (rule governed_rows [OF g])
    fix c assume "c \<in> set (account_rows ?t)"
    then have "account_governed s c"
      using governedD(1) [OF g] assms(4) assms(6) [OF g] by (auto simp: account_governed_def roles_exist_def)
    then show "account_governed ?t c" by (simp add: account_governed_def roles_exist_def)
  qed (use governedD(2) [OF g] in auto)
  fix i c
  assume c: "account_of ?t i = Some c" "account_global (role_rows ?t) c"
  have "\<not> account_global (role_rows s) a" using assms(4,5) by (simp add: account_global_def)
  with c show "\<exists>a. account_of s i = Some a \<and> account_global (role_rows s) a"
    by (auto simp: get_row_append split: option.splits if_splits)
qed

section \<open>Seeding\<close>

lemma grant_missing_fields [simp]:
  "role_id (grant_missing n r) = role_id r" "role_name (grant_missing n r) = role_name r"
  "role_company (grant_missing n r) = role_company r" "role_active (grant_missing n r) = role_active r"
  "role_system (grant_missing n r) = role_system r"
  by (simp_all add: grant_missing_def)

lemma grant_missing_iff:
  "role_grants_global (grant_missing n r) \<longleftrightarrow> role_grants_global r
     \<or> (\<exists>k. (k, Global) \<in> set (default_permissions n) \<and> Some k \<notin> rp_permission ` set (role_permissions r))"
proof -
  have "list_ex (\<lambda>p. rp_permission p \<noteq> None \<and> rp_scope p = Some Global)
      (map (\<lambda>(key, sc). \<lparr>rp_permission = Some key, rp_scope = Some sc\<rparr>) gs)
    \<longleftrightarrow> (\<exists>k. (k, Global) \<in> set gs)" for gs
    by (induction gs) auto
  then show ?thesis
    unfolding role_grants_global_def grant_missing_def
    by (simp add: case_prod_beta conj_commute)
qed

lemma grant_missing_global:
  "n \<noteq> ''Admin'' \<Longrightarrow> role_grants_global (grant_missing n r) = role_grants_global r"
  "role_grants_global r \<Longrightarrow> role_grants_global (grant_missing n r)"
  "role_permissions r = [] \<Longrightarrow> role_grants_global (grant_missing ''Admin'' r)"
proof -
  have "(\<exists>k. (k, Global) \<in> set (default_permissions m)) \<longleftrightarrow> m = ''Admin''" for m
    using default_global [of m] by force
  then show "n \<noteq> ''Admin'' \<Longrightarrow> role_grants_global (grant_missing n r) = role_grants_global r"
    "role_grants_global r \<Longrightarrow> role_grants_global (grant_missing n r)"
    "role_permissions r = [] \<Longrightarrow> role_grants_global (grant_missing ''Admin'' r)"
    by (auto simp: grant_missing_iff)
qed

lemma confined_ensure_role: "confined s (snd (ensure_role n c s))"
proof (cases "find (role_named n c) (role_rows s)")
  case (Some r)
  then have r: "r \<in> set (role_rows s)" "role_name r = n" by (auto dest!: find_mem simp: role_named_def)
  have "confined s (s\<lparr>role_rows := put_row role_id (grant_missing n r) (role_rows s)\<rparr>)"
  proof (rule confined_put_role [OF r(1)])
    assume g: "governed s"
    from governedD(2) [OF g r(1)] have gr: "role_governed r" .
    then show "role_governed (grant_missing n r)"
      using grant_missing_global(2) [of r n] grant_missing_global(1) [of n r] r(2)
      by (cases "n = ''Admin''") (auto simp: role_governed_def)
    show "role_grants_global (grant_missing n r) \<Longrightarrow> role_grants_global r
        \<and> (role_active (grant_missing n r) \<longrightarrow> role_active r)"
      using gr r(2) grant_missing_global(1) [of n r] by (cases "n = ''Admin''") (auto simp: role_governed_def)
  qed simp_all
  with Some show ?thesis by (simp add: ensure_role_def)
next
  case None
  let ?r = "grant_missing n \<lparr>role_id = fresh_row s, role_name = n, role_company = c,
                   role_active = True, role_permissions = [], role_system = True\<rparr>"
  have "role_governed ?r"
    using grant_missing_global(3) [of "\<lparr>role_id = fresh_row s, role_name = n, role_company = c,
        role_active = True, role_permissions = [], role_system = True\<rparr>"]
      grant_missing_global(1) [of n "\<lparr>role_id = fresh_row s, role_name = n, role_company = c,
        role_active = True, role_permissions = [], role_system = True\<rparr>"]
    by (cases "n = ''Admin''") (auto simp: role_governed_def role_grants_global_def)
  with None show ?thesis by (simp add: ensure_role_def confined_new_role)
qed

lemma confined_ensure_roles: "confined s (ensure_roles rs s)"
proof (induction rs s rule: ensure_roles.induct)
  case (2 n c rest s)
  then show ?case using confined_trans [OF confined_ensure_role] by simp
qed simp

lemma role_named_put:
  assumes "auth_inv s" "r \<in> set (role_rows s)" "role_id q = role_id r" "role_name q = role_name r"
    "role_company q = role_company r"
  shows "list_ex (role_named n c) (put_row role_id q (role_rows s)) = list_ex (role_named n c) (role_rows s)"
proof -
  have "get_row role_id (role_id q) (role_rows s) = Some r"
    using auth_inv_found(5) [OF assms(1,2)] assms(3) by simp
  then have "set (put_row role_id q (role_rows s)) = insert q (set (role_rows s) - {r})"
    using assms(1) by (intro set_put_row) (simp_all add: auth_inv_def keyed_def)
  moreover have "role_named n c q = role_named n c r" using assms(4,5) by (simp add: role_named_def)
  ultimately show ?thesis using assms(2) by (auto simp: list_ex_iff)
qed

lemma ensure_role_named:
  assumes "auth_inv s"
  shows "list_ex (role_named m d) (role_rows s) \<Longrightarrow> list_ex (role_named m d) (role_rows (snd (ensure_role n c s)))"
    "\<exists>r \<in> set (role_rows (snd (ensure_role n c s))). role_id r = fst (ensure_role n c s) \<and> role_named n c r"
proof -
  have "(list_ex (role_named m d) (role_rows s) \<longrightarrow> list_ex (role_named m d) (role_rows (snd (ensure_role n c s))))
    \<and> (\<exists>r \<in> set (role_rows (snd (ensure_role n c s))). role_id r = fst (ensure_role n c s) \<and> role_named n c r)"
  proof (cases "find (role_named n c) (role_rows s)")
    case None
    then show ?thesis by (auto simp: ensure_role_def role_named_def grant_missing_def)
  next
    case (Some r)
    then have r: "r \<in> set (role_rows s)" "role_named n c r" by (auto dest!: find_mem)
    have "grant_missing n r \<in> set (put_row role_id (grant_missing n r) (role_rows s))"
      using r(1) by (force simp: put_row_def)
    then have "\<exists>q \<in> set (put_row role_id (grant_missing n r) (role_rows s)). role_id q = role_id r \<and> role_named n c q"
      using r(2) by (intro bexI [of _ "grant_missing n r"]) (simp_all add: role_named_def)
    with Some role_named_put [OF assms r(1), of "grant_missing n r" m d] show ?thesis
      by (simp add: ensure_role_def)
  qed
  then show "list_ex (role_named m d) (role_rows s) \<Longrightarrow> list_ex (role_named m d) (role_rows (snd (ensure_role n c s)))"
    "\<exists>r \<in> set (role_rows (snd (ensure_role n c s))). role_id r = fst (ensure_role n c s) \<and> role_named n c r"
    by simp_all
qed

lemma ensure_roles_named:
  assumes "auth_inv s" "(n, c) \<in> set rs \<or> list_ex (role_named n c) (role_rows s)"
  shows "list_ex (role_named n c) (role_rows (ensure_roles rs s))"
  using assms
proof (induction rs s rule: ensure_roles.induct)
  case (2 m d rest s)
  have inv: "auth_inv (snd (ensure_role m d s))"
    using advances_ensure_role [of s m d] 2(2) by (simp add: advances_def)
  have "list_ex (role_named m d) (role_rows (snd (ensure_role m d s)))"
    using ensure_role_named(2) [OF 2(2), of m d] by (auto simp: list_ex_iff)
  then have "(n, c) \<in> set rest \<or> list_ex (role_named n c) (role_rows (snd (ensure_role m d s)))"
    using 2(3) ensure_role_named(1) [OF 2(2), of n c m d] by auto
  from 2(1) [OF inv this] show ?case by simp
qed simp

lemma confined_first_role:
  assumes inv: "auth_inv s" and a: "account_of s (acc_id a) = Some a" "acc_roles a = []"
    and r: "r \<in> set (role_rows s)" "role_named (column_role a) (Some (acc_company a)) r"
    and admin: "list_ex (role_named ''Admin'' (Some (acc_company a))) (role_rows s)"
  shows "confined s (put_account (a\<lparr>acc_roles := [role_id r]\<rparr>) s)"
proof (rule confined_put_account)
  show "advances s (put_account (a\<lparr>acc_roles := [role_id r]\<rparr>) s)"
    by (rule advances_put_account [of _ _ a]) (use a in simp_all)
  show "account_of s (acc_id (a\<lparr>acc_roles := [role_id r]\<rparr>)) = Some a" using a by simp
  assume g: "governed s"
  show "account_governed s (a\<lparr>acc_roles := [role_id r]\<rparr>)"
    using governedD(1) [OF g get_row_SomeD(1) [OF a(1)]] r(1) admin
    by (auto simp: account_governed_def roles_exist_def)
  assume "account_global (role_rows s) (a\<lparr>acc_roles := [role_id r]\<rparr>)"
  then obtain q where q: "q \<in> set (role_rows s)" "role_id q = role_id r" "role_grants_global q"
    by (auto simp: account_global_def list_ex_iff role_reaches_def)
  have "q = r" using auth_inv_found(5) [OF inv q(1)] auth_inv_found(5) [OF inv r(1)] q(2)
    by (metis option.inject)
  then have "column_role a = ''Admin''"
    using governedD(2) [OF g r(1)] q(3) r(2) by (auto simp: role_governed_def role_named_def)
  then have "acc_role a = ''Admin''" by (simp add: column_role_def split: if_splits)
  then show "account_global (role_rows s) a" using a(2) by (simp add: account_global_def)
qed

lemma confined_backfill:
  assumes "distinct (map acc_id as)" "\<forall>a \<in> set as. account_of s (acc_id a) = Some a"
    "\<forall>a \<in> set as. list_ex (role_named ''Admin'' (Some (acc_company a))) (role_rows s)"
  shows "confined s (backfill as s)"
  using assms
proof (induction as arbitrary: s)
  case (Cons a rest)
  show ?case
  proof (cases "acc_roles a = []")
    case True
    let ?e = "ensure_role (column_role a) (Some (acc_company a)) s"
    let ?b = "a\<lparr>acc_roles := [fst ?e]\<rparr>"
    let ?t = "put_account ?b (snd ?e)"
    show ?thesis
    proof (rule confined_under)
      assume inv: "auth_inv s"
      then have inv1: "auth_inv (snd ?e)" using advances_ensure_role by (simp add: advances_def)
      have admin: "list_ex (role_named ''Admin'' (Some (acc_company x))) (role_rows (snd ?e))"
        if "x \<in> set (a # rest)" for x
        using Cons.prems(3) that by (intro ensure_role_named(1) [OF inv]) blast
      obtain r where r: "r \<in> set (role_rows (snd ?e))" "role_id r = fst ?e"
        "role_named (column_role a) (Some (acc_company a)) r"
        using ensure_role_named(2) [OF inv] by blast
      have "confined (snd ?e) ?t"
        using confined_first_role [OF inv1 _ True r(1,3) admin] Cons.prems(2) r(2) by simp
      with confined_ensure_role have "confined s ?t" by (rule confined_trans)
      moreover have "confined ?t (backfill rest ?t)"
      proof (rule Cons.IH)
        show "distinct (map acc_id rest)" using Cons.prems(1) by simp
        show "\<forall>x \<in> set rest. account_of ?t (acc_id x) = Some x"
          by (rule rest_found [OF Cons.prems(1,2)]) simp_all
        show "\<forall>x \<in> set rest. list_ex (role_named ''Admin'' (Some (acc_company x))) (role_rows ?t)"
          using admin by simp
      qed
      ultimately show "confined s (backfill (a # rest) s)"
        unfolding backfill_step [OF True] by (rule confined_trans)
    qed
  next
    case False
    with Cons show ?thesis by (simp add: backfill_skip)
  qed
qed simp

lemma company_seeded:
  assumes "a \<in> set (account_rows s)" "acc_company a \<noteq> []"
  shows "(''Admin'', Some (acc_company a)) \<in> set (company_roles (company_domains s))"
proof -
  have "acc_company a \<in> set (company_domains s)" using assms by (auto simp: company_domains_def)
  moreover have "''Admin'' \<in> set role_names"
    by (simp add: role_names_def DEFAULT_ROLE_PERMISSIONS_def)
  ultimately show ?thesis by (auto simp: company_roles_def)
qed

lemma confined_bootstrap: "confined s (bootstrap_rbac s)"
proof (rule confined_under)
  assume inv: "auth_inv s" and gov: "governed s"
  let ?s1 = "s\<lparr>permission_keys := permission_keys s @
                   filter (\<lambda>k. k \<notin> set (permission_keys s)) PERMISSION_CATALOG\<rparr>"
  let ?s2 = "ensure_roles [(''Admin'', None)] ?s1"
  let ?s3 = "ensure_roles (company_roles (company_domains s)) ?s2"
  have adv: "advances s ?s1" by (rule advances_untracked) simp_all
  then have s1: "confined s ?s1"
    by (intro confined_same_standing [OF advances_inv] same_standing_refl) simp_all
  have "auth_inv ?s2"
    using inv advances_trans [OF adv advances_ensure_roles, of "[(''Admin'', None)]"] unfolding advances_def by blast
  then have admin: "\<forall>a \<in> set (account_rows s). list_ex (role_named ''Admin'' (Some (acc_company a))) (role_rows ?s3)"
    using governedD(1) [OF gov] company_seeded [of _ s]
    by (intro ballI ensure_roles_named) (auto simp: account_governed_def)
  have "confined ?s3 (backfill (account_rows s) ?s3)"
    using inv all_accounts_found [of _ s] admin
    by (intro confined_backfill) (auto simp: auth_inv_def keyed_def unique_key_def)
  with s1 confined_ensure_roles have "confined s (backfill (account_rows s) ?s3)"
    by (blast intro: confined_trans)
  then show "confined s (bootstrap_rbac s)" by (simp add: bootstrap_rbac_def Let_def)
qed

section \<open>Signing in confines\<close>

lemma same_standing_steps:
  "account_of s (acc_id a) = Some a \<Longrightarrow> same_person a b \<Longrightarrow> auth_inv s \<Longrightarrow> same_standing s (put_account b s)"
  "v \<in> set (invitation_rows s) \<Longrightarrow> invitation_kept v w
     \<Longrightarrow> same_standing s (s\<lparr>invitation_rows := put_row inv_id w (invitation_rows s)\<rparr>)"
proof -
  show "account_of s (acc_id a) = Some a \<Longrightarrow> same_person a b \<Longrightarrow> auth_inv s \<Longrightarrow> same_standing s (put_account b s)"
    by (rule same_standing_put [where a = a]) (simp_all add: same_person_def standing_def)
  assume v: "v \<in> set (invitation_rows s)" "invitation_kept v w"
  have "x = w \<or> x \<in> set (invitation_rows s)" if "x \<in> set (put_row inv_id w (invitation_rows s))" for x
    using that set_put_row_subset [of inv_id w "invitation_rows s"] by auto
  with v kept_reflp(4) show "same_standing s (s\<lparr>invitation_rows := put_row inv_id w (invitation_rows s)\<rparr>)"
    by (auto simp: same_standing_def dest: reflpD)
qed

lemma confined_by: "advances s t \<Longrightarrow> same_standing s t \<Longrightarrow> confined s t"
  by (rule confined_same_standing [OF advances_inv])

lemma confined_account:
  "account_of s (acc_id a) = Some a \<Longrightarrow> same_person a b \<Longrightarrow> confined s (put_account b s)"
  by (rule confined_under) (intro confined_by advances_account same_standing_steps(1))

interpretation confining: account_contract confined
proof unfold_locales
  fix s t u :: accounts
  show "confined s s" by simp
  show "confined s t \<Longrightarrow> confined t u \<Longrightarrow> confined s u" by (rule confined_trans)
  show "confined s (bootstrap_rbac s)" by (rule confined_bootstrap)
  show "account_rows t = account_rows s \<Longrightarrow> session_rows t = session_rows s
      \<Longrightarrow> reset_rows t = reset_rows s \<Longrightarrow> invitation_rows t = invitation_rows s
      \<Longrightarrow> token_rows t = token_rows s \<Longrightarrow> role_rows t = role_rows s \<Longrightarrow> fresh_row t = fresh_row s
      \<Longrightarrow> confined s t"
    by (intro confined_by advances_untracked same_standing_refl)
qed (intro confined_account confined_by advances_issue same_standing_issue advances_revoke_one advances_revoke_all
      advances_void advances_new_grant advances_new_token advances_one_token advances_one_invitation
      same_standing_steps same_standing_sessions same_standing_refl; simp)+

section \<open>Invitations confine\<close>

text \<open>A caller that was let in: its row is in the table, it has roles, none of them global.\<close>

definition plain_caller :: "accounts \<Rightarrow> account \<Rightarrow> bool" where
  "plain_caller s me = (me \<in> set (account_rows s) \<and> acc_roles me \<noteq> [] \<and> \<not> holds_global (load s me))"

lemma plain_caller_company:
  assumes "plain_caller s me" "governed s"
  shows "acc_company me \<noteq> []" "list_ex (role_named ''Admin'' (Some (acc_company me))) (role_rows s)"
  using governedD(1) [OF assms(2), of me] assms(1) by (simp_all add: plain_caller_def account_governed_def)

lemma may_invite_Inr:
  assumes "may_invite cfg u iq s = Inr x"
  shows "has_permission u ''user.manage'' None Company" "iq_role iq \<in> MANAGED_PRIMARY_ROLES"
    "is_global_user_manager u \<or> after_at (lower (iq_email iq)) = u_company u"
    "is_global_user_manager u \<or> iq_role iq \<notin> {''Admin'', ''CEO''}"
  using assms by (auto simp: may_invite_def Let_def guard_simps require_permission_def)

lemma confined_create_invitation:
  assumes "plain_caller s me"
  shows "confined s (snd (create_invitation C cfg now me iq raw s))"
proof (rule confined_under)
  assume gov: "governed s"
  have plain: "\<not> is_global_user_manager (load s me)" using assms not_global by (simp add: plain_caller_def)
  have "same_standing s (snd (create_invitation C cfg now me iq raw s))"
  proof (cases "may_invite cfg (load s me) iq s")
    case (Inr x)
    have item: "after_at (lower (iq_email iq)) \<noteq> []" "iq_role iq \<noteq> ''Admin''"
      using may_invite_Inr [OF Inr] plain plain_caller_company(1) [OF assms gov] by (simp_all add: load_fields)
    have "same_standing s (s\<lparr>invitation_rows := invitation_rows s @ [v], fresh_row := n, mail_rows := m\<rparr>)"
      if "inv_company v = after_at (lower (iq_email iq))" "inv_role v = iq_role iq" for v n m
      using that item kept_reflp(4) by (auto simp: same_standing_def invitation_governed_def dest: reflpD)
    with Inr show ?thesis
      by (auto simp: create_invitation_def Let_def transaction_def unless_def send_mail_def
          intro!: same_standing_audit)
  qed (simp add: create_invitation_def transaction_def)
  with advances_create_invitation show "confined s (snd (create_invitation C cfg now me iq raw s))"
    by (rule confined_by)
qed

lemma reactivated_global:
  assumes "acc_roles b = acc_roles a" "acc_company b = acc_company a" "acc_role b \<noteq> ''Admin''"
    "account_global rs b"
  shows "account_global rs a"
proof -
  have "role_reaches b r = role_reaches a r" for r
    using assms(1,2) by (cases "role_company r") (simp_all add: role_reaches_def)
  with assms show ?thesis by (simp add: account_global_def split: if_splits)
qed

lemma confined_accept: "confined s (snd (accept_invitation C cfg limit now rq t pw salt s))"
proof (rule confined_under)
  assume inv: "auth_inv s" and gov: "governed s"
  show "confined s (snd (accept_invitation C cfg limit now rq t pw salt s))"
  proof (rule confining.accept_step)
    fix v existing h
    assume acc: "acceptable C cfg limit now rq t pw salt s = Inr (v, existing, h)"
    note v = live_invitation_Inr [OF acceptable_Inr(1) [OF acc]]
    have gv: "inv_company v \<noteq> []" "inv_role v \<noteq> ''Admin''"
      using governedD(3) [OF gov v(1)] v(3) by (auto simp: invitation_governed_def)
    note found = acceptable_Inr(2) [OF acc]
    show "confined s (snd (invited_account h v existing s))"
    proof (cases existing)
      case None
      have "lower (strip (inv_email v)) \<notin> acc_email ` set (account_rows s)"
        using get_by_email_none [OF found [unfolded None]] by (simp add: strip_lower)
      with None gv show ?thesis
        by (auto simp: invited_account_def Let_def intro!: confined_new_account)
    next
      case (Some a)
      have a: "account_of s (acc_id a) = Some a"
        using auth_inv_found(1) [OF inv get_by_email_Some(1) [OF found [unfolded Some]]] .
      let ?b = "(set_password h a)\<lparr>acc_name := or_else (Some (inv_name v)) (acc_name a),
                  acc_role := inv_role v, acc_active := True\<rparr>"
      have "confined s (put_account ?b s)"
      proof (rule confined_put_account [where a = a])
        show "advances s (put_account ?b s)"
          by (rule advances_put_account [of _ _ a]) (use a in \<open>simp_all add: set_password_def\<close>)
        show "account_of s (acc_id ?b) = Some a" using a by (simp add: set_password_def)
        show "account_governed s ?b"
          using governedD(1) [OF gov get_row_SomeD(1) [OF a]]
          by (simp add: account_governed_def roles_exist_def set_password_def)
        assume "account_global (role_rows s) ?b"
        from reactivated_global [OF _ _ _ this] gv(2) show "account_global (role_rows s) a"
          by (simp add: set_password_def)
      qed
      with Some show ?thesis by (simp add: invited_account_def Let_def)
    qed
  qed
qed

lemma confined_entra: "confined s (snd (entra_callback C cfg on now rq claims raw salt s))"
proof (rule confined_under)
  assume gov: "governed s"
  show "confined s (snd (entra_callback C cfg on now rq claims raw salt s))"
  proof (rule confining.entra_step)
    fix h c v
    assume v: "open_invitation now (lower (en_email c)) s = Some v"
      and new: "acc_email (entra_row h c v s) \<notin> acc_email ` set (account_rows s)"
    have "inv_company v \<noteq> []" "inv_role v \<noteq> ''Admin''"
      using governedD(3) [OF gov open_invitation_Some(1) [OF v]] open_invitation_Some(2) [OF v]
      by (auto simp: invitation_governed_def)
    then show "confined s (s\<lparr>account_rows := account_rows s @ [entra_row h c v s], fresh_row := Suc (fresh_row s)\<rparr>)"
      using new by (intro confined_new_account) (simp_all add: entra_row_def)
  qed
qed

section \<open>Managing users and roles confines\<close>

text \<open>Roles a caller without a global grant may hand out reach nothing global.\<close>

lemma validated_roles:
  assumes "validate_role_assignment_authority u roles = Inr x" "\<not> holds_global u" "r \<in> set roles"
  shows "\<not> role_grants_global r" "role_company r \<noteq> None" "role_name r \<notin> {''Admin'', ''CEO''}"
proof -
  have *: "\<not> list_ex (\<lambda>r. role_company r = None \<or> role_name r \<in> {''Admin'', ''CEO''}) roles"
    "\<not> list_ex (broader_than_own u) roles"
    using assms(1) not_global(2) [OF assms(2)]
    by (simp_all add: validate_role_assignment_authority_def guard_simps)
  then show "role_company r \<noteq> None" "role_name r \<notin> {''Admin'', ''CEO''}"
    using assms(3) by (auto simp: list_ex_iff)
  show "\<not> role_grants_global r"
  proof
    assume "role_grants_global r"
    then obtain p key where "p \<in> set (role_permissions r)" "rp_permission p = Some key" "rp_scope p = Some Global"
      by (auto simp: role_grants_global_def list_ex_iff)
    then have "broader_than_own u r"
      using not_global(4) [OF assms(2), of key] by (force simp: broader_than_own_def list_ex_iff)
    with *(2) assms(3) show False by (auto simp: list_ex_iff)
  qed
qed

lemma given_roles:
  assumes inv: "auth_inv s" and rows: "set roles \<subseteq> set (role_rows s)" and ne: "roles \<noteq> []"
    and plain: "\<forall>r \<in> set roles. \<not> role_grants_global r"
    and b: "acc_roles b = map role_id roles"
  shows "\<not> account_global (role_rows s) b" "roles_exist s b"
proof -
  show "roles_exist s b" using rows b by (auto simp: roles_exist_def)
  have "\<not> role_grants_global q" if q: "q \<in> set (role_rows s)" "role_id q \<in> role_id ` set roles" for q
  proof -
    obtain r where r: "r \<in> set roles" "role_id r = role_id q" using q(2) by auto
    have "get_row role_id (role_id q) (role_rows s) = Some q" using auth_inv_found(5) [OF inv q(1)] .
    moreover have "get_row role_id (role_id r) (role_rows s) = Some r"
      using auth_inv_found(5) [OF inv] rows r(1) by blast
    ultimately have "q = r" using r(2) by simp
    with plain r(1) show ?thesis by simp
  qed
  then show "\<not> account_global (role_rows s) b"
    using b ne by (auto simp: account_global_def list_ex_iff role_reaches_def)
qed

text \<open>An account edited on behalf of a plain caller of its own company.\<close>

definition modest :: "accounts \<Rightarrow> account \<Rightarrow> account \<Rightarrow> bool" where
  "modest s a b = (acc_company b = acc_company a
     \<and> (acc_roles b = acc_roles a \<and> (acc_role b = acc_role a \<or> acc_roles a \<noteq> [])
        \<or> acc_roles b \<noteq> [] \<and> roles_exist s b \<and> \<not> account_global (role_rows s) b))"

lemma modest_refl: "acc_company b = acc_company a \<Longrightarrow> acc_roles b = acc_roles a
    \<Longrightarrow> acc_role b = acc_role a \<or> acc_roles a \<noteq> [] \<Longrightarrow> modest s a b"
  by (simp add: modest_def)

lemma account_global_cong:
  "acc_roles b = acc_roles a \<Longrightarrow> acc_role b = acc_role a \<or> acc_roles a \<noteq> [] \<Longrightarrow> acc_company b = acc_company a
     \<Longrightarrow> account_global rs b = account_global rs a"
proof -
  assume *: "acc_roles b = acc_roles a" "acc_role b = acc_role a \<or> acc_roles a \<noteq> []" "acc_company b = acc_company a"
  then have "role_reaches b r = role_reaches a r" for r
    by (cases "role_company r") (simp_all add: role_reaches_def)
  with * show ?thesis by (auto simp: account_global_def)
qed

lemma modest_trans: "modest s a b \<Longrightarrow> modest s b c \<Longrightarrow> modest s a c"
  using account_global_cong [of c b "role_rows s"] by (auto simp: modest_def roles_exist_def)

lemma confined_modest:
  assumes adv: "advances s (put_account b s)" and a: "account_of s (acc_id b) = Some a"
    and b: "modest s a b"
    and admin: "governed s \<Longrightarrow> list_ex (role_named ''Admin'' (Some (acc_company a))) (role_rows s)"
  shows "confined s (put_account b s)"
proof (rule confined_put_account [OF adv a])
  assume g: "governed s"
  have "account_governed s a" by (rule governedD(1) [OF g get_row_SomeD(1) [OF a]])
  then show "account_governed s b"
    using b admin [OF g] by (auto simp: account_governed_def modest_def roles_exist_def)
  show "account_global (role_rows s) b \<Longrightarrow> account_global (role_rows s) a"
    using b account_global_cong [of b a "role_rows s"] by (auto simp: modest_def)
qed

lemma modest_give_roles:
  assumes "auth_inv s" "set roles \<subseteq> set (role_rows s)" "roles \<noteq> []" "\<not> holds_global u"
    "validate_role_assignment_authority u roles = Inr x"
  shows "modest s a (give_roles roles a)"
proof -
  have "\<forall>r \<in> set roles. \<not> role_grants_global r" using validated_roles(1) [OF assms(5,4)] by blast
  from given_roles [OF assms(1-3) this, of "give_roles roles a"] assms(3)
  show ?thesis by (simp add: modest_def give_roles_def)
qed

lemma system_role_Inr: "system_role s n c = Inr r \<Longrightarrow> r \<in> set (role_rows s) \<and> role_named n c r"
  by (auto simp: system_role_def split: option.splits dest!: find_mem)

lemma modest_primary_role:
  assumes "auth_inv s" "governed s" "set_primary_role s n a = Inr b" "n \<noteq> ''Admin''"
  shows "modest s a b"
proof -
  obtain r where r: "system_role s n (Some (acc_company a)) = Inr r"
    and b: "b = a\<lparr>acc_roles := [role_id r], acc_role := n\<rparr>"
    using assms(3) by (auto simp: set_primary_role_def guard_simps)
  have "\<not> role_grants_global r"
    using governedD(2) [OF assms(2), of r] system_role_Inr [OF r] assms(4)
    by (auto simp: role_governed_def role_named_def)
  with given_roles [OF assms(1), of "[r]" b] system_role_Inr [OF r] b show ?thesis
    by (simp add: modest_def)
qed

text \<open>What a plain caller may change of another account.\<close>

lemma manageable_company:
  assumes "plain_caller s me" "manageable (load s me) i s = Inr a"
  shows "acc_company a = acc_company me"
  using manageable_Inr(4) [OF assms(2)] not_global(2) assms(1) by (auto simp: plain_caller_def load_fields)

lemma viewed_company:
  assumes "plain_caller s me" "viewed_account (load s me) i s = Inr a"
  shows "acc_company a = acc_company me"
proof -
  have "\<not> has_permission (load s me) k None Global" for k
    using not_global(1) assms(1) by (simp add: plain_caller_def)
  then show ?thesis
    using viewed_account_Inr(3) [OF assms(2)]
    by (auto simp: identity_scope_def load_fields split: if_splits)
qed

lemma update_roles_modest:
  assumes "auth_inv s" "\<not> holds_global u" "update_roles s u mu a = Inr b"
  shows "modest s a b"
proof (cases "mu_role_ids mu")
  case None
  with assms(3) show ?thesis by (simp add: update_roles_def modest_refl)
next
  case (Some ids)
  let ?roles = "roles_for s (acc_company a) ids"
  have ne: "?roles \<noteq> []" and val: "validate_role_assignment_authority u ?roles = Inr ()"
    and b: "b = give_roles ?roles a"
    using assms(3) Some by (auto simp: update_roles_def Let_def guard_simps)
  have "set ?roles \<subseteq> set (role_rows s)" by (auto simp: roles_for_def)
  from modest_give_roles [OF assms(1) this ne assms(2) val] show ?thesis unfolding b .
qed

lemma update_primary_modest:
  assumes "auth_inv s" "governed s" "\<not> holds_global u" "update_primary_role s u mu a = Inr b"
  shows "modest s a b"
proof (cases "mu_role mu")
  case None
  with assms(4) show ?thesis by (simp add: update_primary_role_def modest_refl)
next
  case (Some n)
  have "n \<noteq> ''Admin''" "(if mu_role_ids mu = None then set_primary_role s n a else Inr a) = Inr b"
    using assms(4) Some not_global(2) [OF assms(3)] by (auto simp: update_primary_role_def guard_simps)
  with modest_primary_role [OF assms(1,2), of n a b] show ?thesis
    by (auto simp: modest_refl split: if_splits)
qed

lemma changed_user_modest:
  assumes "auth_inv s" "governed s" "\<not> holds_global u" "changed_user C cfg u mu salt s a = Inr b"
  shows "modest s a b"
proof -
  obtain ms a1 a2 a3 a4 a5 a6 where
    1: "update_departments s mu (a\<lparr>acc_name := or_else (mu_name mu) (acc_name a)\<rparr>) = Inr (ms, a1)"
    and 2: "update_primary_role s u mu a1 = Inr a2" and 3: "update_roles s u mu a2 = Inr a3"
    and 4: "update_ownership s mu ms a3 = Inr a4" and 5: "update_email cfg s u mu a4 = Inr a5"
    and 6: "update_active s u mu a5 = Inr a6" and 7: "update_password C salt mu a6 = Inr b"
    using assms(4) by (rule changed_user_Inr)
  have m1: "modest s a a1"
    using 1 by (intro modest_refl) (auto simp: update_departments_def guard_simps split: option.splits)
  have m4: "modest s a3 a4"
    using update_ownership_edited [OF 4] by (intro modest_refl) (auto dest: editedD)
  have m5: "modest s a4 a5" using update_email_Inr [OF 5] by (intro modest_refl) simp_all
  have m6: "modest s a5 a6"
    using 6 by (intro modest_refl) (auto simp: update_active_def guard_simps split: option.splits)
  have m7: "modest s a6 b" using update_password_Inr [OF 7] by (intro modest_refl) simp_all
  note m2 = update_primary_modest [OF assms(1-3) 2] and m3 = update_roles_modest [OF assms(1,3) 3]
  from m1 m2 m3 m4 m5 m6 m7 show ?thesis by (blast intro: modest_trans)
qed

lemma confined_update_user:
  assumes "plain_caller s me" "\<forall>e. mu_email mu = Some e \<longrightarrow> email_address e"
  shows "confined s (snd (update_managed_user C cfg now me i mu salt s))"
proof (rule confined_under)
  assume inv: "auth_inv s" and gov: "governed s"
  have plain: "\<not> holds_global (load s me)" using assms(1) by (simp add: plain_caller_def)
  have "confined s (save_user now mu b s)"
    if man: "manageable (load s me) i s = Inr a" and ch: "changed_user C cfg (load s me) mu salt s a = Inr b" for a b
  proof -
    have a: "account_of s (acc_id a) = Some a" using manageable_Inr(1,2) [OF man] by simp
    have put: "confined s (put_account b s)"
    proof (rule confined_modest)
      show "advances s (put_account b s)" by (rule advances_changed [OF ch a assms(2)])
      show "account_of s (acc_id b) = Some a" using a changed_user_account(1) [OF ch] by simp
      show "modest s a b" by (rule changed_user_modest [OF inv gov plain ch])
      show "list_ex (role_named ''Admin'' (Some (acc_company a))) (role_rows s)"
        using plain_caller_company(2) [OF assms(1) gov] manageable_company [OF assms(1) man] by simp
    qed
    have "confined s (unassign_drafts k (put_account b s))" for k
      by (rule confined_trans [OF put], rule confining.untracked) (simp_all add: unassign_drafts_def)
    with put show ?thesis
      using confined_trans [OF _ confining.revoke_all] by (simp add: save_user_def Let_def)
  qed
  then show "confined s (snd (update_managed_user C cfg now me i mu salt s))"
    unfolding update_managed_user_def
    by (intro confining.transaction_step) (auto simp: guard_simps intro!: confining.audit_step)
qed

lemma confined_deactivate_user:
  assumes "plain_caller s me"
  shows "confined s (snd (deactivate_user now me i s))"
proof (rule confined_under)
  assume inv: "auth_inv s" and gov: "governed s"
  let ?s1 = "revoke_refresh_sessions now i (unassign_drafts i s)"
  have s1: "confined s ?s1"
    by (rule confined_trans [OF _ confining.revoke_all], rule confining.untracked) (simp_all add: unassign_drafts_def)
  have rows: "account_rows ?s1 = account_rows s" "role_rows ?s1 = role_rows s"
    by (simp_all add: revoke_refresh_sessions_def unassign_drafts_def)
  have "confined s (put_account b ?s1)"
    if man: "manageable (load s me) i s = Inr a"
      and b: "(if X then set_primary_role s ''Staff'' (a\<lparr>acc_active := False\<rparr>)
               else Inr (a\<lparr>acc_active := False\<rparr>)) = Inr b" for a b X
  proof (rule confined_trans [OF s1], rule confined_modest)
    have a: "account_of s i = Some a" "acc_id a = i" by (rule manageable_Inr [OF man])+
    have e: "edited a b"
      using b edited_steps(3) [of s "''Staff''" "a\<lparr>acc_active := False\<rparr>" b] by (auto simp: edited_def split: if_splits)
    then show acc: "account_of ?s1 (acc_id b) = Some a" using a rows by (simp add: editedD)
    show "advances ?s1 (put_account b ?s1)" by (rule advances_edited [OF acc e])
    have "modest s (a\<lparr>acc_active := False\<rparr>) b"
      using b modest_primary_role [OF inv gov, of "''Staff''" "a\<lparr>acc_active := False\<rparr>" b]
      by (auto simp: modest_refl split: if_splits)
    moreover have "modest s a (a\<lparr>acc_active := False\<rparr>)" by (simp add: modest_refl)
    ultimately have "modest s a b" using modest_trans by blast
    then show "modest ?s1 a b" using rows by (simp add: modest_def roles_exist_def)
    show "list_ex (role_named ''Admin'' (Some (acc_company a))) (role_rows ?s1)"
      using plain_caller_company(2) [OF assms gov] manageable_company [OF assms man] rows by simp
  qed
  then show "confined s (snd (deactivate_user now me i s))"
    unfolding deactivate_user_def
    by (intro confining.transaction_step) (auto simp: guard_simps intro!: confining.audit_step)
qed

lemma confined_replace_roles:
  assumes "plain_caller s me"
  shows "confined s (snd (replace_user_roles me i ids s))"
proof (rule confined_under)
  assume inv: "auth_inv s" and gov: "governed s"
  have plain: "\<not> holds_global (load s me)" using assms by (simp add: plain_caller_def)
  have "confined s (put_account (give_roles (roles_for s (acc_company a) ids) a) s)"
    if view: "viewed_account (load s me) i s = Inr a" and ids: "ids \<noteq> []"
      and len: "length (roles_for s (acc_company a) ids) = card (set ids)"
      and val: "validate_role_assignment_authority (load s me) (roles_for s (acc_company a) ids) = Inr ()" for a
  proof (rule confined_modest)
    let ?roles = "roles_for s (acc_company a) ids"
    have a: "account_of s i = Some a" "acc_id a = i" by (rule viewed_account_Inr [OF view])+
    then show acc: "account_of s (acc_id (give_roles ?roles a)) = Some a" by (simp add: give_roles_def)
    show "advances s (put_account (give_roles ?roles a) s)"
      by (rule advances_edited [OF a(1) edited_steps(2)])
    have "?roles \<noteq> []" using len ids by (metis card_eq_0_iff finite_set list.size(3) set_empty)
    from modest_give_roles [OF inv _ this plain val, of a] show "modest s a (give_roles ?roles a)"
      by (simp add: roles_for_def)
    show "list_ex (role_named ''Admin'' (Some (acc_company a))) (role_rows s)"
      using plain_caller_company(2) [OF assms gov] viewed_company [OF assms view] by simp
  qed
  then show "confined s (snd (replace_user_roles me i ids s))"
    unfolding replace_user_roles_def Let_def
    by (intro confining.transaction_step) (auto simp: guard_simps intro!: confining.audit_step)
qed

lemma may_create_user_Inr:
  assumes "may_create_user cfg u mc s = Inr (pw, ms, pr, rs)"
  shows "has_permission u ''user.manage'' None Company"
    "is_global_user_manager u \<or> after_at (lower (mc_email mc)) = u_company u"
    "is_global_user_manager u \<or> mc_role mc \<notin> {''Admin'', ''CEO''}"
    "requested_roles s u (after_at (lower (mc_email mc))) (mc_role_ids mc) = Inr rs"
  using assms by (auto simp: may_create_user_def Let_def guard_simps require_permission_def)

lemma requested_roles_Inr:
  assumes "requested_roles s u c ids = Inr (Some roles)"
  shows "set roles \<subseteq> set (role_rows s)" "roles \<noteq> []" "validate_role_assignment_authority u roles = Inr ()"
  using assms by (auto simp: requested_roles_def Let_def guard_simps roles_for_def split: option.splits)

text \<open>Seeding leaves the roles of a governed state where they are, and as plain as they were.\<close>

definition role_kept :: "role_row \<Rightarrow> role_row \<Rightarrow> bool" where
  "role_kept r q = (role_id q = role_id r \<and> role_name q = role_name r \<and> role_company q = role_company r
     \<and> (role_name r \<noteq> ''Admin'' \<longrightarrow> role_grants_global q = role_grants_global r))"

lemma role_kept_rel: "reflp role_kept" "transp role_kept"
  by (auto simp: reflp_def transp_def role_kept_def)

lemma ensure_role_kept:
  assumes "auth_inv s"
  shows "rows_keep role_kept (role_rows s) (role_rows (snd (ensure_role n c s)))"
proof (cases "find (role_named n c) (role_rows s)")
  case None
  then show ?thesis by (simp add: ensure_role_def rows_keep_append role_kept_rel)
next
  case (Some r)
  then have r: "r \<in> set (role_rows s)" "role_name r = n" by (auto dest!: find_mem simp: role_named_def)
  have "role_kept r (grant_missing n r)" using r(2) grant_missing_global(1) [of n r] by (simp add: role_kept_def)
  moreover have "get_row role_id (role_id (grant_missing n r)) (role_rows s) = Some r"
    using auth_inv_found(5) [OF assms r(1)] by simp
  ultimately have "rows_keep role_kept (role_rows s) (put_row role_id (grant_missing n r) (role_rows s))"
    using assms role_kept_rel by (intro rows_keep_put) (simp_all add: auth_inv_def keyed_def)
  with Some show ?thesis by (simp add: ensure_role_def)
qed

lemma ensure_roles_kept: "auth_inv s \<Longrightarrow> rows_keep role_kept (role_rows s) (role_rows (ensure_roles rs s))"
proof (induction rs s rule: ensure_roles.induct)
  case (1 s)
  show ?case by (simp add: rows_keep_refl role_kept_rel)
next
  case (2 n c rest s)
  from advances_inv [OF advances_ensure_role 2(2)] have "auth_inv (snd (ensure_role n c s))" .
  from rows_keep_trans [OF role_kept_rel(2) ensure_role_kept [OF 2(2)] 2(1) [OF this]] show ?case by simp
qed

lemma backfill_kept:
  assumes "auth_inv s" "distinct (map acc_id as)" "\<forall>a \<in> set as. account_of s (acc_id a) = Some a"
  shows "rows_keep role_kept (role_rows s) (role_rows (backfill as s))"
  using assms
proof (induction as arbitrary: s)
  case Nil
  show ?case by (simp add: rows_keep_refl role_kept_rel)
next
  case (Cons a rest)
  show ?case
  proof (cases "acc_roles a = []")
    case True
    let ?e = "ensure_role (column_role a) (Some (acc_company a)) s"
    let ?b = "a\<lparr>acc_roles := [fst ?e]\<rparr>"
    have "advances (snd ?e) (put_account ?b (snd ?e))"
      by (rule advances_put_account [of _ _ a]) (use Cons.prems(3) in simp_all)
    from advances_inv [OF advances_trans [OF advances_ensure_role this] Cons.prems(1)]
    have inv: "auth_inv (put_account ?b (snd ?e))" .
    have "rows_keep role_kept (role_rows (put_account ?b (snd ?e))) (role_rows (backfill rest (put_account ?b (snd ?e))))"
    proof (rule Cons.IH [OF inv])
      show "distinct (map acc_id rest)" using Cons.prems(2) by simp
      show "\<forall>x \<in> set rest. account_of (put_account ?b (snd ?e)) (acc_id x) = Some x"
        by (rule rest_found [OF Cons.prems(2,3)]) simp_all
    qed
    then show ?thesis
      unfolding backfill_step [OF True]
      using rows_keep_trans [OF role_kept_rel(2) ensure_role_kept [OF Cons.prems(1)]] by simp
  next
    case False
    with Cons show ?thesis by (simp add: backfill_skip)
  qed
qed

lemma bootstrap_kept:
  assumes inv: "auth_inv s"
  shows "rows_keep role_kept (role_rows s) (role_rows (bootstrap_rbac s))"
proof -
  let ?s1 = "s\<lparr>permission_keys := permission_keys s @
                   filter (\<lambda>k. k \<notin> set (permission_keys s)) PERMISSION_CATALOG\<rparr>"
  let ?s2 = "ensure_roles [(''Admin'', None)] ?s1"
  let ?s3 = "ensure_roles (company_roles (company_domains s)) ?s2"
  have adv: "advances s ?s1" by (rule advances_untracked) simp_all
  from advances_inv [OF adv inv] have i1: "auth_inv ?s1" .
  from advances_inv [OF advances_ensure_roles i1] have i2: "auth_inv ?s2" .
  from advances_inv [OF advances_ensure_roles i2] have i3: "auth_inv ?s3" .
  have "rows_keep role_kept (role_rows ?s3) (role_rows (backfill (account_rows s) ?s3))"
    using inv all_accounts_found [of _ s]
    by (intro backfill_kept [OF i3]) (auto simp: auth_inv_def keyed_def unique_key_def)
  from rows_keep_trans [OF role_kept_rel(2) rows_keep_trans [OF role_kept_rel(2) ensure_roles_kept [OF i1]
      ensure_roles_kept [OF i2]] this]
  show ?thesis by (simp add: bootstrap_rbac_def Let_def)
qed

text \<open>Plain roles picked before seeding are plain roles after it.\<close>

lemma plain_roles_seeded:
  assumes inv: "auth_inv s" and rows: "set roles \<subseteq> set (role_rows s)" and ne: "roles \<noteq> []"
    and plain: "\<forall>r \<in> set roles. \<not> role_grants_global r \<and> role_name r \<noteq> ''Admin''"
    and b: "acc_roles b = map role_id roles"
  shows "\<not> account_global (role_rows (bootstrap_rbac s)) b" "roles_exist (bootstrap_rbac s) b"
proof -
  have inv1: "auth_inv (bootstrap_rbac s)" by (rule advances_inv [OF advances_bootstrap inv])
  have "\<forall>r \<in> set roles. \<exists>q \<in> set (role_rows (bootstrap_rbac s)). role_kept r q"
    using bootstrap_kept [OF inv] rows by (auto simp: rows_keep_def)
  then obtain f where f: "\<forall>r \<in> set roles. f r \<in> set (role_rows (bootstrap_rbac s)) \<and> role_kept r (f r)"
    by metis
  have "map role_id (map f roles) = map role_id roles" using f by (auto simp: role_kept_def)
  moreover have "set (map f roles) \<subseteq> set (role_rows (bootstrap_rbac s))"
    "\<forall>r \<in> set (map f roles). \<not> role_grants_global r"
    using f plain by (auto simp: role_kept_def)
  ultimately show "\<not> account_global (role_rows (bootstrap_rbac s)) b" "roles_exist (bootstrap_rbac s) b"
    using given_roles [OF inv1, of "map f roles" b] ne b by simp_all
qed

lemma finish_user_modest:
  assumes inv: "auth_inv s1" and a: "account_of (bootstrap_rbac s1) i = Some a" "acc_roles a \<noteq> []"
    and b: "edited (complete_user mc ms pr rs a) b"
      "acc_roles b = acc_roles (complete_user mc ms pr rs a)" "acc_role b = acc_role (complete_user mc ms pr rs a)"
    and rs: "\<And>roles. rs = Some roles \<Longrightarrow> set roles \<subseteq> set (role_rows s1) \<and> roles \<noteq> []
       \<and> (\<forall>r \<in> set roles. \<not> role_grants_global r \<and> role_name r \<noteq> ''Admin'')"
  shows "modest (bootstrap_rbac s1) a b"
proof (cases rs)
  case None
  with a(2) b show ?thesis by (intro modest_refl) (simp_all add: complete_user_def Let_def editedD)
next
  case (Some roles)
  then have roles: "acc_roles b = map role_id roles" "acc_company b = acc_company a"
    using b by (simp_all add: complete_user_def Let_def give_roles_def editedD)
  with plain_roles_seeded [OF inv, of roles b] rs [OF Some] show ?thesis by (simp add: modest_def)
qed

lemma confined_create_user:
  assumes "plain_caller s me" "email_address (mc_email mc)"
  shows "confined s (snd (create_managed_user C cfg me mc salt s))"
proof (rule confined_under)
  assume inv: "auth_inv s" and gov: "governed s"
  have plain: "\<not> holds_global (load s me)" using assms(1) by (simp add: plain_caller_def)
  show "confined s (snd (create_managed_user C cfg me mc salt s))"
  proof (cases "may_create_user cfg (load s me) mc s")
    case (Inl e)
    then show ?thesis by (simp add: create_managed_user_def)
  next
    case (Inr x)
    obtain pw ms pr rs where x: "x = (pw, ms, pr, rs)" by (cases x)
    note may = may_create_user_Inr [OF Inr [unfolded x]]
    let ?reg = "register_user C cfg salt (mc_email mc) (mc_name mc) pw (map_option dept_name pr) (mc_role mc) True s"
    show ?thesis
    proof (cases ?reg)
      case (Inl e)
      with Inr x show ?thesis by (simp add: create_managed_user_def)
    next
      case r: (Inr y)
      obtain a s1 where y: "y = (a, s1)" by (cases y)
      note reg = register_user_Inr [OF r [unfolded y]]
      have "acc_email a \<notin> acc_email ` set (account_rows s)"
        using r y unfolding register_user_def Let_def
        by (auto simp: guard_simps email_taken_def strip_lower dest!: get_by_email_none)
      moreover have "acc_role a \<noteq> ''Admin''" using reg(3) may(3) not_global(2) [OF plain] by auto
      moreover have "acc_company a \<noteq> []" using reg(7) assms(2) by (simp add: email_address_def)
      ultimately have "confined s s1" using reg(1,2,4) unfolding reg(8)
        by (intro confined_new_account) simp_all
      then have s1: "confined s (bootstrap_rbac s1)" by (rule confined_trans [OF _ confined_bootstrap])
      have inv1: "auth_inv s1" by (rule advances_inv [OF advances_register [OF r [unfolded y]] inv])
      have found: "account_of s1 (acc_id a) = Some a" unfolding reg(8) by (rule new_account_found [OF inv reg(1)])
      have roles: "set roles \<subseteq> set (role_rows s1) \<and> roles \<noteq> []
          \<and> (\<forall>r \<in> set roles. \<not> role_grants_global r \<and> role_name r \<noteq> ''Admin'')" if "rs = Some roles" for roles
        using requested_roles_Inr [OF may(4) [unfolded that]] validated_roles [OF _ plain] reg(8) by auto
      have "confined (bootstrap_rbac s1) t"
        if fin: "finish_user me mc ms pr rs (acc_id a) (bootstrap_rbac s1) = Inr (c, t)" for c t
      proof (rule finish_user_Inr [OF fin])
        fix d
        assume d: "account_of (bootstrap_rbac s1) (acc_id a) = Some d" and c: "edited (complete_user mc ms pr rs d) c"
            "acc_roles c = acc_roles (complete_user mc ms pr rs d)" "acc_role c = acc_role (complete_user mc ms pr rs d)"
          and t: "t = record_audit (Some (acc_id me)) ''user_create'' ''user'' (acc_id a) ''success''
            (put_account c (bootstrap_rbac s1))"
        have ne: "acc_roles d \<noteq> []" using bootstrap_accounts [OF inv1 found] d by auto
        have "edited d c" using c(1) by (simp add: edited_def)
        have "confined (bootstrap_rbac s1) (put_account c (bootstrap_rbac s1))"
        proof (rule confined_modest)
          show "advances (bootstrap_rbac s1) (put_account c (bootstrap_rbac s1))"
            by (rule advances_edited [OF d \<open>edited d c\<close>])
          show "account_of (bootstrap_rbac s1) (acc_id c) = Some d"
            using d editedD(1) [OF \<open>edited d c\<close>] get_row_SomeD(2) [OF d] by simp
          show "modest (bootstrap_rbac s1) d c" by (rule finish_user_modest [OF inv1 d ne c roles])
          assume "governed (bootstrap_rbac s1)"
          from governedD(1) [OF this get_row_SomeD(1) [OF d]] ne
          show "list_ex (role_named ''Admin'' (Some (acc_company d))) (role_rows (bootstrap_rbac s1))"
            by (simp add: account_governed_def)
        qed
        then show "confined (bootstrap_rbac s1) t" unfolding t by (rule confining.audit_step)
      qed
      then have "confined (bootstrap_rbac s1) (snd (transaction (bootstrap_rbac s1)
          (finish_user me mc ms pr rs (acc_id a) (bootstrap_rbac s1))))"
        by (rule confining.transaction_step)
      with s1 have "confined s (snd (transaction (bootstrap_rbac s1)
          (finish_user me mc ms pr rs (acc_id a) (bootstrap_rbac s1))))" by (rule confined_trans)
      with Inr x r y show ?thesis by (simp add: create_managed_user_def)
    qed
  qed
qed

lemma confined_ceo: "plain_caller s me \<Longrightarrow> confined s (snd (assign_company_ceo me company i s))"
  using not_global(2) [of "load s me"]
  by (auto simp: plain_caller_def assign_company_ceo_def Let_def require_permission_def transaction_def unless_def)

lemma confined_create_role:
  assumes "plain_caller s me"
  shows "confined s (snd (create_role me n c s))"
proof (rule confined_under)
  assume gov: "governed s"
  have g: "\<not> is_global_role_manager (load s me)" using assms not_global(3) by (simp add: plain_caller_def)
  let ?r = "\<lparr>role_id = fresh_row s, role_name = strip n, role_company = Some (u_company (load s me)),
               role_active = True, role_permissions = [], role_system = False\<rparr> :: role_row"
  have "confined s (s\<lparr>role_rows := role_rows s @ [?r], fresh_row := Suc (fresh_row s)\<rparr>)"
    if no: "\<not> list_ex (same_role_name (strip n) (Some (u_company (load s me)))) (role_rows s)"
  proof (rule confined_new_role)
    have "strip n \<noteq> ''Admin''"
    proof
      assume "strip n = ''Admin''"
      moreover obtain q where "q \<in> set (role_rows s)" "role_named ''Admin'' (Some (acc_company me)) q"
        using plain_caller_company(2) [OF assms gov] by (auto simp: list_ex_iff)
      ultimately have "q \<in> set (role_rows s) \<and> same_role_name (strip n) (Some (u_company (load s me))) q"
        by (simp add: same_role_name_def role_named_def load_fields)
      with no show False by (auto simp: list_ex_iff)
    qed
    then show "role_governed ?r" by (simp add: role_governed_def role_grants_global_def)
  qed simp
  with g show "confined s (snd (create_role me n c s))"
    unfolding create_role_def Let_def
    by (intro confining.transaction_step) (auto simp: guard_simps intro!: confining.audit_step)
qed

lemma managed_role_Inr: "managed_role u g i s = Inr r \<Longrightarrow> r \<in> set (role_rows s) \<and> role_id r = i"
  by (auto simp: managed_role_def split: option.splits dest!: find_mem)

lemma renamed_role_Inr:
  assumes "renamed_role s n r = Inr q"
  shows "role_id q = role_id r" "role_company q = role_company r" "role_active q = role_active r"
    "role_permissions q = role_permissions r" "role_system q = role_system r"
    "q = r \<or> (\<forall>p \<in> set (role_rows s). role_id p \<noteq> role_id r
        \<longrightarrow> \<not> same_role_name (role_name q) (role_company r) p)"
    "n = None \<longrightarrow> q = r" "\<forall>m. n = Some m \<longrightarrow> role_name q = strip m \<and> strip m \<noteq> []"
  using assms by (auto simp: renamed_role_def guard_simps list_ex_iff split: option.splits)

lemma confined_update_role:
  assumes "plain_caller s me"
  shows "confined s (snd (update_role me i n act s))"
proof (rule confined_under)
  assume inv: "auth_inv s" and gov: "governed s"
  have g: "\<not> is_global_role_manager (load s me)" using assms not_global(3) by (simp add: plain_caller_def)
  have "confined s (s\<lparr>role_rows := put_row role_id q2 (role_rows s)\<rparr>)"
    if r: "r \<in> set (role_rows s)" "role_company r = Some (acc_company me)"
      and sys: "role_system r \<longrightarrow> truthy n \<longrightarrow> n = Some (role_name r)" and q: "renamed_role s n r = Inr q"
      and q2: "q2 = (if act \<noteq> None \<and> \<not> role_system q then q\<lparr>role_active := the act\<rparr> else q)" for r q q2
  proof (rule confined_put_role [OF r(1)])
    note ren = renamed_role_Inr [OF q]
    have same: "role_id q2 = role_id q" "role_company q2 = role_company q" "role_name q2 = role_name q"
      "role_permissions q2 = role_permissions q" "role_system q2 = role_system q"
      using q2 by simp_all
    show "role_id q2 = role_id r" "role_company q2 = role_company r" using same ren by simp_all
    have gr: "role_governed r" by (rule governedD(2) [OF gov r(1)])
    obtain p where p: "p \<in> set (role_rows s)" "role_named ''Admin'' (Some (acc_company me)) p"
      using plain_caller_company(2) [OF assms gov] by (auto simp: list_ex_iff)
    have admin: "role_name r = ''Admin''" if "role_name q = ''Admin''"
    proof (cases "role_id p = role_id r")
      case True
      have "p = r" using auth_inv_found(5) [OF inv p(1)] auth_inv_found(5) [OF inv r(1)] True
        by (metis option.inject)
      with p(2) show ?thesis by (simp add: role_named_def)
    next
      case False
      have "same_role_name (role_name q) (role_company r) p"
        using p(2) r(2) that by (simp add: same_role_name_def role_named_def)
      with ren(6) p(1) False have "q = r" by blast
      with that show ?thesis by simp
    qed
    have grants: "role_grants_global q2 = role_grants_global r" using same ren by (simp add: role_grants_global_def)
    show name: "role_name q2 = ''Admin''" if "role_name r = ''Admin''"
    proof (cases n)
      case None
      with ren(7) that same show ?thesis by simp
    next
      case (Some m)
      then have "role_name q = strip m" "m \<noteq> []" using ren(8) by auto
      moreover have "role_system r" using gr that by (simp add: role_governed_def)
      ultimately have "role_name q = strip ''Admin''" using sys Some that by simp
      then show ?thesis using same by (simp add: strip_def lstrip_def rstrip_def isspace_def)
    qed
    show "role_governed q2"
    proof -
      have "role_system q2 = role_system r" "role_company q2 = role_company r" "role_name q2 = role_name q"
        using same ren(2,5) by simp_all
      moreover have "role_name r = ''Admin'' \<longrightarrow> role_grants_global r \<and> role_system r"
        "role_grants_global r \<longrightarrow> role_name r = ''Admin''"
        using gr r(2) by (simp_all add: role_governed_def)
      ultimately show ?thesis using grants admin name unfolding role_governed_def by metis
    qed
    assume "role_grants_global q2"
    then have "role_grants_global r" "role_system r"
      using grants gr r(2) by (auto simp: role_governed_def)
    then show "role_grants_global r \<and> (role_active q2 \<longrightarrow> role_active r)" using q2 ren by simp
  qed
  with g show "confined s (snd (update_role me i n act s))"
    unfolding update_role_def Let_def
    by (intro confining.transaction_step)
       (auto simp: guard_simps in_management_scope_def load_fields dest!: managed_role_Inr
         intro!: confining.audit_step)
qed

lemma confined_delete_role:
  assumes "plain_caller s me"
  shows "confined s (snd (delete_role me i s))"
proof (rule confined_under)
  assume inv: "auth_inv s" and gov: "governed s"
  have "confined s (s\<lparr>role_rows := filter (\<lambda>q. role_id q \<noteq> i) (role_rows s)\<rparr>)"
    if "managed_role u g i s = Inr r" "\<not> role_system r" "\<forall>a \<in> set (account_rows s). i \<notin> set (acc_roles a)" for u g r
  proof (rule confined_drop_role [OF that(3)], intro ballI impI)
    have r: "r \<in> set (role_rows s)" "role_id r = i" using managed_role_Inr [OF that(1)] by simp_all
    fix q assume q: "q \<in> set (role_rows s)" "role_id q = i"
    have "q = r" using auth_inv_found(5) [OF inv q(1)] auth_inv_found(5) [OF inv r(1)] q(2) r(2) by simp
    with governedD(2) [OF gov r(1)] that(2) show "role_name q \<noteq> ''Admin''" by (auto simp: role_governed_def)
  qed
  then show "confined s (snd (delete_role me i s))"
    unfolding delete_role_def Let_def
    by (intro confining.transaction_step)
       (auto simp: guard_simps list_ex_iff intro!: confining.audit_step)
qed

lemma parse_scope_Global: "parse_scope t = Some Global \<longleftrightarrow> t = ''global''"
  by (simp add: parse_scope_def)

lemma confined_role_permissions:
  assumes "plain_caller s me"
  shows "confined s (snd (replace_role_permissions me i items s))"
proof (rule confined_under)
  assume gov: "governed s"
  have g: "\<not> has_permission (load s me) ''permission.manage'' None Global"
    using assms not_global(1) by (simp add: plain_caller_def)
  have "confined s (s\<lparr>role_rows := put_row role_id (r\<lparr>role_permissions :=
      map (\<lambda>(key, t). \<lparr>rp_permission = Some key, rp_scope = parse_scope t\<rparr>) items\<rparr>) (role_rows s)\<rparr>)"
    if r: "r \<in> set (role_rows s)" "\<not> role_system r" and a: "assignable u False items r s = Inr x" for r u x
  proof (rule confined_put_role [OF r(1)])
    have no: "\<not> role_grants_global (r\<lparr>role_permissions :=
        map (\<lambda>(key, t). \<lparr>rp_permission = Some key, rp_scope = parse_scope t\<rparr>) items\<rparr>)"
      using a by (auto simp: assignable_def guard_simps role_grants_global_def list_ex_iff parse_scope_Global)
    have name: "role_name r \<noteq> ''Admin''"
      using governedD(2) [OF gov r(1)] r(2) by (auto simp: role_governed_def)
    with no show "role_governed (r\<lparr>role_permissions :=
        map (\<lambda>(key, t). \<lparr>rp_permission = Some key, rp_scope = parse_scope t\<rparr>) items\<rparr>)"
      by (simp add: role_governed_def)
    show "role_grants_global (r\<lparr>role_permissions :=
        map (\<lambda>(key, t). \<lparr>rp_permission = Some key, rp_scope = parse_scope t\<rparr>) items\<rparr>) \<Longrightarrow>
        role_grants_global r \<and> (role_active (r\<lparr>role_permissions :=
        map (\<lambda>(key, t). \<lparr>rp_permission = Some key, rp_scope = parse_scope t\<rparr>) items\<rparr>) \<longrightarrow> role_active r)"
      using no by simp
  qed simp_all
  with g show "confined s (snd (replace_role_permissions me i items s))"
    unfolding replace_role_permissions_def Let_def
    by (intro confining.transaction_step)
       (auto simp: guard_simps dest!: managed_role_Inr intro!: confining.audit_step)
qed

lemma confined_members: "confined s (snd (replace_department_members me i ids s))"
proof (rule confined_by [OF advances_members])
  have "same_standing s (s\<lparr>account_rows := map (\<lambda>a. a\<lparr>acc_departments := f a\<rparr>) (account_rows s)\<rparr>)" for f
    using kept_reflp(4) by (auto simp: same_standing_def standing_def comp_def dest: reflpD)
  then show "same_standing s (snd (replace_department_members me i ids s))"
    unfolding replace_department_members_def Let_def
    by (auto simp: transaction_def guard_simps split: sum.splits intro!: same_standing_audit)
qed

end
