(* ===== verification/Office.thy ===== *)
theory Office
  imports Authority
begin

text \<open>
  A small office, for applying the properties at concrete values: three accounts of one company,
  its seeded roles, and a crypto whose token encoding is a plain reversible code. The code writes
  each field of the claims as its length in unary and then itself, numbers in binary.
\<close>

section \<open>A reversible token encoding\<close>

definition put_field :: "string \<Rightarrow> string" where
  "put_field s = replicate (length s) CHR ''1'' @ CHR ''0'' # s"

definition get_field :: "string \<Rightarrow> string \<times> string" where
  "get_field t =
     (let n = length (takeWhile (\<lambda>c. c = CHR ''1'') t); rest = drop (Suc n) t
      in (take n rest, drop n rest))"

lemma get_put_field [simp]: "get_field (put_field s @ t) = (s, t)"
proof -
  have "takeWhile (\<lambda>c. c = CHR ''1'') (replicate n CHR ''1'' @ CHR ''0'' # r) = replicate n CHR ''1''" for n r
    by (induction n) simp_all
  then show ?thesis by (simp add: get_field_def put_field_def Let_def)
qed

fun bits :: "nat \<Rightarrow> string" where
  "bits n = (if n = 0 then [] else (if even n then CHR ''0'' else CHR ''1'') # bits (n div 2))"

fun unbits :: "string \<Rightarrow> nat" where
  "unbits [] = 0"
| "unbits (c # cs) = (if c = CHR ''1'' then 1 else 0) + 2 * unbits cs"

declare bits.simps [simp del]

lemma unbits_bits [simp]: "unbits (bits n) = n"
proof (induction n rule: bits.induct)
  case (1 n)
  show ?case
  proof (cases "n = 0")
    case True
    then show ?thesis by (simp add: bits.simps)
  next
    case False
    with 1 have "unbits (bits (n div 2)) = n div 2" by simp
    with False show ?thesis by (subst bits.simps) (auto elim!: evenE oddE)
  qed
qed

definition put_int :: "int \<Rightarrow> string" where
  "put_int i = (if i < 0 then CHR ''-'' else CHR ''+'') # bits (nat \<bar>i\<bar>)"

definition get_int :: "string \<Rightarrow> int" where
  "get_int s = (case s of [] \<Rightarrow> 0 | c # cs \<Rightarrow> if c = CHR ''-'' then - int (unbits cs) else int (unbits cs))"

lemma get_put_int [simp]: "get_int (put_int i) = i"
  by (simp add: get_int_def put_int_def)

definition put_opt :: "string option \<Rightarrow> string" where
  "put_opt x = (case x of None \<Rightarrow> [] | Some s \<Rightarrow> CHR ''s'' # s)"

definition get_opt :: "string \<Rightarrow> string option" where
  "get_opt s = (case s of [] \<Rightarrow> None | _ # t \<Rightarrow> Some t)"

lemma get_put_opt [simp]: "get_opt (put_opt x) = x"
  by (cases x) (simp_all add: get_opt_def put_opt_def)

definition office_encode :: "jwt_claims \<Rightarrow> string" where
  "office_encode cl =
     put_field (put_int (cl_exp cl)) @ put_field (put_opt (cl_sub cl)) @ put_field (put_opt (cl_type cl))
     @ put_field (put_int (cl_av cl)) @ put_field (put_opt (map_option bits (cl_jti cl))) @ []"

definition office_decode :: "string \<Rightarrow> jwt_claims" where
  "office_decode t =
     (let (e, t1) = get_field t; (s, t2) = get_field t1; (k, t3) = get_field t2;
          (a, t4) = get_field t3; (j, t5) = get_field t4
      in \<lparr>cl_exp = get_int e, cl_sub = get_opt s, cl_type = get_opt k, cl_av = get_int a,
          cl_jti = map_option unbits (get_opt j)\<rparr>)"

lemma office_decode_encode [simp]: "office_decode (office_encode cl) = cl"
  by (simp add: office_decode_def office_encode_def option.map_comp comp_def map_option.identity del: append_Nil2)

definition office_crypto :: crypto where
  "office_crypto =
     \<lparr>sha256_hex = (\<lambda>t. t), hashpw = (\<lambda>salt pw. pw), checkpw = (\<lambda>pw h. h = pw),
      jwt_encode = office_encode,
      jwt_decode = (\<lambda>now t. if now < seconds (cl_exp (office_decode t)) then Some (office_decode t) else None)\<rparr>"

lemma office_jwt_law: "jwt_law office_crypto"
  by (simp add: jwt_law_def office_crypto_def) (simp add: office_encode_def put_field_def)

lemma office_crypto_simps [simp]:
  "sha256_hex office_crypto t = t" "hashpw office_crypto salt pw = pw" "checkpw office_crypto pw h = (h = pw)"
  "now < seconds (cl_exp cl) \<Longrightarrow> jwt_decode office_crypto now (jwt_encode office_crypto cl) = Some cl"
  "jwt_encode office_crypto cl = jwt_encode office_crypto cl' \<longleftrightarrow> cl = cl'"
proof -
  show "jwt_encode office_crypto cl = jwt_encode office_crypto cl' \<longleftrightarrow> cl = cl'"
    unfolding office_crypto_def by simp (metis office_decode_encode)
qed (simp_all add: office_crypto_def)

lemma office_token_nonempty [simp]: "jwt_encode office_crypto cl \<noteq> []"
  using office_jwt_law by (simp add: jwt_law_def)

section \<open>The office\<close>

definition office_settings :: auth_settings where
  "office_settings =
     \<lparr>cors_origins = [], development = False, access_expire_minutes = 15, refresh_expire_days = 7,
      allowed_email_domains = [], reset_emails = [], token_max_days = 90, tokens_per_user = 10,
      mcp_enabled = True\<rparr>"

definition desk :: auth_request where
  "desk = \<lparr>aq_method = ''POST'', aq_origin = None, aq_referer = None, aq_agent = None,
           aq_peer = \<lparr>cf_connecting_ip = None, client_host = Some ''10.0.0.1''\<rparr>\<rparr>"

definition open_limit :: limiter where
  "open_limit = (\<lambda>_. (True, 0))"

definition carry :: "string \<Rightarrow> carried" where
  "carry t = \<lparr>in_body = Some t, host_cookie = None, plain_cookie = None\<rparr>"

definition person :: "uuid \<Rightarrow> string \<Rightarrow> string \<Rightarrow> uuid \<Rightarrow> account" where
  "person i email role rid =
     \<lparr>acc_id = i, acc_email = email, acc_name = email, acc_password_hash = ''correct horse battery'',
      acc_company = ''x'', acc_dept = None, acc_role = role, acc_active = True, acc_auth_version = 0,
      acc_roles = [rid], acc_departments = [], acc_ownerships = []\<rparr>"

definition ann :: account where "ann = person 1 ''ann@x'' ''CEO'' 11"

definition bob :: account where "bob = person 2 ''bob@x'' ''Staff'' 12"

definition kim :: account where "kim = person 3 ''kim@x'' ''Admin'' 10"

definition office_role :: "uuid \<Rightarrow> string \<Rightarrow> (string \<times> scope) list \<Rightarrow> role_row" where
  "office_role i name gs =
     \<lparr>role_id = i, role_name = name, role_company = Some ''x'', role_active = True,
      role_permissions = map (\<lambda>(k, s). \<lparr>rp_permission = Some k, rp_scope = Some s\<rparr>) gs,
      role_system = True\<rparr>"

definition office :: accounts where
  "office =
     \<lparr>permission_keys = PERMISSION_CATALOG,
      role_rows = [office_role 10 ''Admin'' [(''user.manage'', Global)],
                   office_role 11 ''CEO'' [(''user.manage'', Company)], office_role 12 ''Staff'' []],
      account_rows = [ann, bob, kim], department_rows = [], draft_rows = [], session_rows = [],
      reset_rows = [], invitation_rows = [], token_rows = [], identity_rows = [], audit_rows = [],
      mail_rows = [], fresh_row = 100\<rparr>"

lemmas people_defs = ann_def bob_def kim_def person_def

lemma office_inv: "auth_inv office"
  by (simp add: auth_inv_def keyed_def unique_key_def office_def office_role_def people_defs canonical_def
      lower_def lower_char_def strip_def lstrip_def rstrip_def isspace_def)

lemma office_governed: "governed office"
  by (simp add: governed_def office_def office_role_def people_defs account_governed_def roles_exist_def
      role_governed_def role_grants_global_def role_named_def)

lemma ann_signed_in: "ann \<in> set (account_rows office)" "acc_active ann" "acc_roles ann \<noteq> []"
  "account_of office (acc_id ann) = Some ann"
  by (simp_all add: office_def people_defs)

lemma ann_plain: "\<not> holds_global (load office ann)" "privileged office 3" "\<not> privileged office 2"
  by (simp_all add: holds_global_def load_def office_def office_role_def people_defs role_counts_def
      role_grants_global_def privileged_def)

text \<open>The office with a refresh session, a reset link, an invitation or a personal token in it.\<close>

definition ann_refresh :: string where
  "ann_refresh = create_refresh_token office_crypto office_settings 0 50 ann"

definition ann_session :: refresh_session where
  "ann_session =
     \<lparr>rs_id = 51, rs_user = 1, rs_hash = ann_refresh, rs_expires = days 7, rs_revoked = None,
      rs_family = None, rs_agent = None, rs_ip = None, rs_signed_in = None, rs_last_used = None\<rparr>"

definition busy_office :: accounts where
  "busy_office = office\<lparr>session_rows := [ann_session],
     reset_rows := [\<lparr>rt_user = 1, rt_hash = ''reset'', rt_expires = minutes 60, rt_used = None,
                     rt_email = ''ann@x''\<rparr>],
     invitation_rows := [\<lparr>inv_id = 60, inv_email = ''joe@x'', inv_name = ''Joe'', inv_role = ''Staff'',
       inv_company = ''x'', inv_audience = None, inv_hash = ''invite'', inv_expires = days 7,
       inv_used = None, inv_revoked = None, inv_by = Some 1, inv_accepted = None, inv_created = 0\<rparr>],
     token_rows := [\<lparr>pt_id = 70, pt_user = 1, pt_name = ''cli'', pt_prefix = ''kbpat_'', pt_hash = ''kbpat_abc'',
       pt_scope = ''read'', pt_expires = days 7, pt_last_used = None, pt_revoked = None\<rparr>]\<rparr>"

lemma busy_office_inv: "auth_inv busy_office"
  using office_inv
  by (simp add: busy_office_def auth_inv_def keyed_def unique_key_def ann_session_def) (simp add: office_def)

lemma busy_office_simps [simp]:
  "account_rows busy_office = [ann, bob, kim]" "role_rows busy_office = role_rows office"
  "session_rows busy_office = [ann_session]" "fresh_row busy_office = 100"
  by (simp_all add: busy_office_def office_def)

end
