(* ===== verification/Authentication.thy ===== *)
theory Authentication
  imports Office
begin

text \<open>
  The authentication service as a state machine: one step is one request to any of the routes of
  \<open>Sessions\<close>, \<open>Invitations\<close> and \<open>Identity\<close>, in any order, with any argument and at any time. The
  properties hold along every run: secrets that were used or revoked stay dead, and callers
  without a global grant never produce one.
\<close>

section \<open>Steps and runs\<close>

text \<open>A caller is what \<open>get_current_user\<close> lets through: active, with at least one role.\<close>

definition signed_in :: "accounts \<Rightarrow> account \<Rightarrow> bool" where
  "signed_in s me = (me \<in> set (account_rows s) \<and> acc_active me \<and> acc_roles me \<noteq> [])"

inductive auth_step ::
  "crypto \<Rightarrow> auth_settings \<Rightarrow> account option \<Rightarrow> accounts \<Rightarrow> accounts \<Rightarrow> bool" for C cfg where
  Login: "auth_step C cfg None s (snd (login C cfg limit now rq u p s))"
| Refresh: "auth_step C cfg None s (snd (refresh_token C cfg now rq c s))"
| Logout: "auth_step C cfg None s (snd (logout C cfg now rq c s))"
| Current: "auth_step C cfg None s (snd (get_current_user C cfg now rq c s))"
| Forgot: "auth_step C cfg None s (snd (forgot_password C cfg limit now rq e raw s))"
| Reset: "auth_step C cfg None s (snd (reset_password C cfg limit now rq t pw salt s))"
| Accept: "auth_step C cfg None s (snd (accept_invitation C cfg limit now rq t pw salt s))"
| Entra: "auth_step C cfg None s (snd (entra_callback C cfg on now rq claims raw salt s))"
| Token: "auth_step C cfg None s (snd (authenticate_token C now presented s))"
| Change: "signed_in s me \<Longrightarrow>
    auth_step C cfg (Some me) s (snd (change_password C cfg limit now rq me cur new salt s))"
| Revoke_session: "signed_in s me \<Longrightarrow> auth_step C cfg (Some me) s (snd (revoke_session C cfg now rq c me i s))"
| Revoke_others: "signed_in s me \<Longrightarrow> auth_step C cfg (Some me) s (snd (revoke_other_sessions C cfg now rq c me s))"
| Create_token: "signed_in s me \<Longrightarrow>
    auth_step C cfg (Some me) s (snd (create_personal_token C cfg now me n sc d raw s))"
| Revoke_token: "signed_in s me \<Longrightarrow> auth_step C cfg (Some me) s (snd (revoke_personal_token cfg now me i s))"
| Invite: "signed_in s me \<Longrightarrow> auth_step C cfg (Some me) s (snd (create_invitation C cfg now me iq raw s))"
| Resend: "signed_in s me \<Longrightarrow> auth_step C cfg (Some me) s (snd (resend_invitation C now me i raw s))"
| Revoke_invitation: "signed_in s me \<Longrightarrow> auth_step C cfg (Some me) s (snd (revoke_invitation now me i s))"
| Create_user: "signed_in s me \<Longrightarrow> email_address (mc_email mc) \<Longrightarrow>
    auth_step C cfg (Some me) s (snd (create_managed_user C cfg me mc salt s))"
| Update_user: "signed_in s me \<Longrightarrow> \<forall>e. mu_email mu = Some e \<longrightarrow> email_address e \<Longrightarrow>
    auth_step C cfg (Some me) s (snd (update_managed_user C cfg now me i mu salt s))"
| Deactivate: "signed_in s me \<Longrightarrow> auth_step C cfg (Some me) s (snd (deactivate_user now me i s))"
| Replace_roles: "signed_in s me \<Longrightarrow> auth_step C cfg (Some me) s (snd (replace_user_roles me i ids s))"
| Assign_ceo: "signed_in s me \<Longrightarrow> auth_step C cfg (Some me) s (snd (assign_company_ceo me company i s))"
| Create_role: "signed_in s me \<Longrightarrow> auth_step C cfg (Some me) s (snd (create_role me n company' s))"
| Update_role: "signed_in s me \<Longrightarrow> auth_step C cfg (Some me) s (snd (update_role me i n' act s))"
| Delete_role: "signed_in s me \<Longrightarrow> auth_step C cfg (Some me) s (snd (delete_role me i s))"
| Permissions: "signed_in s me \<Longrightarrow> auth_step C cfg (Some me) s (snd (replace_role_permissions me i items s))"
| Members: "signed_in s me \<Longrightarrow> auth_step C cfg (Some me) s (snd (replace_department_members me i ids s))"

text \<open>Runs whose callers satisfy \<open>P\<close> in the state they call in.\<close>

inductive auth_run ::
  "crypto \<Rightarrow> auth_settings \<Rightarrow> (accounts \<Rightarrow> account \<Rightarrow> bool) \<Rightarrow> accounts \<Rightarrow> accounts \<Rightarrow> bool"
  for C cfg P s where
  Start: "auth_run C cfg P s s"
| Step: "auth_run C cfg P s t \<Longrightarrow> auth_step C cfg who t u \<Longrightarrow> (\<And>me. who = Some me \<Longrightarrow> P t me)
    \<Longrightarrow> auth_run C cfg P s u"

abbreviation anyone :: "accounts \<Rightarrow> account \<Rightarrow> bool" where
  "anyone \<equiv> (\<lambda>_ _. True)"

definition unprivileged :: "accounts \<Rightarrow> account \<Rightarrow> bool" where
  "unprivileged s me = (\<not> holds_global (load s me))"

lemma advances_step: "auth_step C cfg who s t \<Longrightarrow> advances s t"
  by (induction rule: auth_step.induct)
     (simp_all add: advancing.login_step advancing.refresh_step advancing.logout_step advancing.current_step
       advancing.forgot_step advancing.reset_step advances_accept advances_entra advancing.authenticate_step
       advancing.change_step advancing.revoke_session_step advancing.revoke_others_step
       advancing.create_token_step advancing.revoke_token_step advances_create_invitation
       advancing.resend_step advancing.revoke_invitation_step advances_create_user advances_update_user
       advances_deactivate_user advances_replace_roles advances_ceo advances_create_role
       advances_update_role advances_delete_role advances_role_permissions advances_members)

lemma confined_step:
  assumes "auth_step C cfg who s t" "\<And>me. who = Some me \<Longrightarrow> unprivileged s me"
  shows "confined s t"
proof -
  have "plain_caller s me" if "signed_in s me" "who = Some me" for me
    using that assms(2) by (simp add: plain_caller_def signed_in_def unprivileged_def)
  with assms(1) show ?thesis
    by (induction rule: auth_step.induct)
       (simp_all add: confining.login_step confining.refresh_step confining.logout_step confining.current_step
         confining.forgot_step confining.reset_step confined_accept confined_entra confining.authenticate_step
         confining.change_step confining.revoke_session_step confining.revoke_others_step
         confining.create_token_step confining.revoke_token_step confined_create_invitation
         confining.resend_step confining.revoke_invitation_step confined_create_user confined_update_user
         confined_deactivate_user confined_replace_roles confined_ceo confined_create_role
         confined_update_role confined_delete_role confined_role_permissions confined_members)
qed

text \<open>What holds of every allowed step, and composes, holds of every run.\<close>

locale run_contract =
  fixes P :: "accounts \<Rightarrow> account \<Rightarrow> bool" and R :: "accounts \<Rightarrow> accounts \<Rightarrow> bool"
  assumes refl: "R s s"
    and trans: "R s t \<Longrightarrow> R t u \<Longrightarrow> R s u"
    and step: "auth_step C cfg who s t \<Longrightarrow> (\<And>me. who = Some me \<Longrightarrow> P s me) \<Longrightarrow> R s t"
begin

lemma run: "auth_run C cfg P s t \<Longrightarrow> R s t"
proof (induction rule: auth_run.induct)
  case Start
  show ?case by (rule refl)
next
  case (Step t who u)
  show ?case by (rule trans [OF Step.IH step [OF Step.hyps(2)]]) (rule Step.hyps(3))
qed

end

interpretation any_run: run_contract anyone advances
  by unfold_locales (auto intro: advances_trans advances_step)

interpretation plain_run: run_contract unprivileged confined
  by unfold_locales (auto intro: confined_trans confined_step)

lemma run_evolves:
  assumes "auth_run C cfg anyone s t" "auth_inv s"
  shows "auth_inv t" "evolves s t"
  using any_run.run [OF assms(1)] assms(2) by (simp_all add: advances_def)

text \<open>
  C26: The tables stay well formed. Whatever requests are made, ids and e-mail addresses of
  accounts stay unique and addresses canonical, no two rows share the hash of a secret, and no
  id is handed out twice.
\<close>

theorem tables_stay_well_formed:
  assumes "auth_inv s" "auth_run C cfg anyone s t"
  shows "distinct (map acc_id (account_rows t)) \<and> distinct (map acc_email (account_rows t))
    \<and> (\<forall>a \<in> set (account_rows t). canonical (acc_email a) \<and> acc_id a < fresh_row t)
    \<and> distinct (map rs_hash (session_rows t)) \<and> distinct (map rt_hash (reset_rows t))
    \<and> distinct (map inv_hash (invitation_rows t)) \<and> distinct (map pt_hash (token_rows t))
    \<and> distinct (map role_id (role_rows t))"
  using run_evolves(1) [OF assms(2,1)] by (simp add: auth_inv_def keyed_def unique_key_def)

theorem tables_stay_well_formed_witness:
  "distinct (map acc_email (account_rows (snd (login office_crypto office_settings open_limit 0 desk
     ''Ann@x'' ''correct horse battery'' office))))"
proof -
  have "auth_run office_crypto office_settings anyone office
      (snd (login office_crypto office_settings open_limit 0 desk ''Ann@x'' ''correct horse battery'' office))"
    by (rule auth_run.Step [OF auth_run.Start auth_step.Login]) simp
  from tables_stay_well_formed [OF office_inv this] show ?thesis by blast
qed

section \<open>Secrets stay dead\<close>

lemma evolves_session:
  assumes "evolves s t" "r \<in> set (session_rows s)" "rs_revoked r \<noteq> None"
  obtains q where "q \<in> set (session_rows t)" "rs_hash q = rs_hash r" "rs_user q = rs_user r" "rs_revoked q \<noteq> None"
  using assms by (auto simp: evolves_def rows_keep_def session_kept_def)

lemma revoked_not_live:
  assumes "auth_inv s" "r \<in> set (session_rows s)" "rs_revoked r \<noteq> None" "rs_hash r = refresh_hash C t"
  shows "live_session C now t s = None"
proof -
  have "q = r" if "q \<in> set (session_rows s)" "rs_hash q = rs_hash r" for q
  proof -
    have "distinct (map rs_hash (session_rows s))" using assms(1) by (simp add: auth_inv_def)
    with that assms(2) show ?thesis by (simp add: distinct_map inj_on_def)
  qed
  with assms(3,4) show ?thesis
    unfolding live_session_def by (auto simp: find_None_iff)
qed

lemma refresh_refused:
  assumes "live_session C now t s = None" "refresh_value cfg c = Some t"
  shows "\<exists>e. refresh_token C cfg now rq c s = (Inl e, s)"
proof -
  have "\<exists>e. refresh_account C now t s = Inl e"
    using assms(1) by (cases "refresh_claims_from_token C now t") (simp_all add: refresh_account_def)
  then obtain e where e: "refresh_account C now t s = Inl e" ..
  show ?thesis
    using assms(2) e by (cases "reject_cross_site_auth_request cfg rq") (simp_all add: refresh_token_def)
qed

lemma rotate_revokes:
  assumes "rotate C cfg now rq a r s = Inr (ts, t)" "r \<in> set (session_rows s)" "auth_inv s"
  shows "\<exists>q \<in> set (session_rows t). rs_hash q = rs_hash r \<and> rs_revoked q \<noteq> None"
proof -
  have "r\<lparr>rs_revoked := Some now\<rparr> \<in> set (put_row rs_id (r\<lparr>rs_revoked := Some now\<rparr>) (session_rows s))"
    using assms(2) by (force simp: put_row_def)
  then show ?thesis
    using assms(1) unfolding rotate_def
    by (elim issue_tokens_Inr) (auto intro!: bexI [of _ "r\<lparr>rs_revoked := Some now\<rparr>"])
qed

lemma refresh_spends:
  assumes "auth_inv s" "refresh_token C cfg now rq c s = (Inr ts, s')" "refresh_value cfg c = Some t"
  obtains r where "r \<in> set (session_rows s')" "rs_hash r = refresh_hash C t" "rs_revoked r \<noteq> None"
proof -
  obtain a r where ar: "refresh_account C now t s = Inr (a, r)"
    and run: "transaction (snd (seeded a s)) (rotate C cfg now rq (fst (seeded a s)) r (snd (seeded a s))) = (Inr ts, s')"
    using assms(2,3)
    by (auto simp: refresh_token_def case_prod_beta split: sum.splits option.splits) (auto simp: guard_simps)
  have rot: "rotate C cfg now rq (fst (seeded a s)) r (snd (seeded a s)) = Inr (ts, s')"
    using run by (auto simp: transaction_def split: sum.splits)
  have r: "r \<in> set (session_rows (snd (seeded a s)))" "rs_hash r = refresh_hash C t"
    by (rule refresh_account_Inr [OF ar], simp)+
  have "auth_inv (snd (seeded a s))" by (rule advances_inv [OF advances_seeded assms(1)])
  from rotate_revokes [OF rot r(1) this] r(2) that show ?thesis by auto
qed

text \<open>
  C4: A refresh token works once. Once a refresh has answered it with new tokens, then after any
  sequence of requests by anyone, presenting the same token again, from anywhere and at any
  time, is refused and changes nothing.
\<close>

theorem refresh_single_use:
  assumes "auth_inv s" "refresh_value cfg c = Some t" "refresh_token C cfg now rq c s = (Inr ts, s')"
    and "auth_run C cfg anyone s' u" "refresh_value cfg c' = Some t"
  shows "\<exists>e. refresh_token C cfg now' rq' c' u = (Inl e, u)"
proof (rule refresh_spends [OF assms(1,3,2)])
  fix r assume r: "r \<in> set (session_rows s')" "rs_hash r = refresh_hash C t" "rs_revoked r \<noteq> None"
  have "auth_inv s'" using advances_inv [OF advancing.refresh_step assms(1)] assms(3) by (metis snd_conv)
  note u = run_evolves [OF assms(4) this]
  obtain q where "q \<in> set (session_rows u)" "rs_hash q = rs_hash r" "rs_revoked q \<noteq> None"
    using evolves_session [OF u(2) r(1,3)] .
  with revoked_not_live [OF u(1), of q C t] r(2) refresh_refused [OF _ assms(5)] show ?thesis by simp
qed

lemma office_refresh:
  "fst (refresh_token office_crypto office_settings 0 desk (carry ann_refresh) busy_office) = Inr
     (create_access_token office_crypto office_settings 0 ann,
      create_refresh_token office_crypto office_settings 0 100 ann)"
proof -
  have claims: "refresh_claims_from_token office_crypto 0 ann_refresh = Inr
      \<lparr>cl_exp = 604800, cl_sub = Some ''ann@x'', cl_type = Some ''refresh'', cl_av = 0, cl_jti = Some 50\<rparr>"
    by (simp add: refresh_claims_from_token_def ann_refresh_def create_refresh_token_def office_settings_def
        days_def seconds_def people_defs lower_def lower_char_def strip_def lstrip_def rstrip_def isspace_def)
  have "live_session office_crypto 0 ann_refresh busy_office = Some ann_session"
    by (simp add: live_session_def refresh_hash_def ann_session_def days_def seconds_def)
  moreover have "get_by_email busy_office ''ann@x'' = Some (Some ann)"
    using get_by_email_canonical [OF busy_office_inv, of ann] by (simp add: people_defs)
  ultimately have acc: "refresh_account office_crypto 0 ann_refresh busy_office = Inr (ann, ann_session)"
    using claims by (simp add: refresh_account_def or_else_def ann_session_def people_defs)
  have "create_refresh_token office_crypto office_settings 0 100 ann \<noteq> ann_refresh"
    by (simp add: create_refresh_token_def ann_refresh_def)
  then have "fst (transaction busy_office (rotate office_crypto office_settings 0 desk ann ann_session busy_office)) =
      Inr (create_access_token office_crypto office_settings 0 ann, create_refresh_token office_crypto office_settings 0 100 ann)"
    by (simp add: rotate_def issue_tokens_def store_refresh_session_def Let_def case_prod_beta transaction_def
        create_refresh_token_def office_settings_def days_def seconds_def refresh_hash_def ann_session_def)
  moreover have "ann_refresh \<noteq> []" by (simp add: ann_refresh_def create_refresh_token_def)
  ultimately show ?thesis
    using acc by (simp add: refresh_token_def reject_cross_site_auth_request_def desk_def carry_def
        refresh_value_def seeded_def people_defs unless_def)
qed

text \<open>Ann's token is refreshed, Bob asks for a reset link, and the token is tried again.\<close>

theorem refresh_single_use_witness:
  "fst (refresh_token office_crypto office_settings 0 desk (carry ann_refresh) busy_office) = Inr
     (create_access_token office_crypto office_settings 0 ann,
      create_refresh_token office_crypto office_settings 0 100 ann)
   \<and> (\<exists>e. refresh_token office_crypto office_settings 5 desk (carry ann_refresh)
         (snd (forgot_password office_crypto office_settings open_limit 1 desk ''bob@x'' ''r2''
           (snd (refresh_token office_crypto office_settings 0 desk (carry ann_refresh) busy_office))))
       = (Inl e, snd (forgot_password office_crypto office_settings open_limit 1 desk ''bob@x'' ''r2''
           (snd (refresh_token office_crypto office_settings 0 desk (carry ann_refresh) busy_office)))))"
proof -
  let ?s = "snd (refresh_token office_crypto office_settings 0 desk (carry ann_refresh) busy_office)"
  have "ann_refresh \<noteq> []" by (simp add: ann_refresh_def create_refresh_token_def)
  then have carried: "refresh_value office_settings (carry ann_refresh) = Some ann_refresh"
    by (simp add: refresh_value_def carry_def)
  have first: "refresh_token office_crypto office_settings 0 desk (carry ann_refresh) busy_office =
      (Inr (create_access_token office_crypto office_settings 0 ann,
            create_refresh_token office_crypto office_settings 0 100 ann), ?s)"
    using office_refresh by (simp add: prod_eq_iff)
  have run: "auth_run office_crypto office_settings anyone ?s
      (snd (forgot_password office_crypto office_settings open_limit 1 desk ''bob@x'' ''r2'' ?s))"
    by (rule auth_run.Step [OF auth_run.Start auth_step.Forgot]) simp
  show ?thesis
    using refresh_single_use [OF busy_office_inv carried first run carried, of 5 desk] office_refresh by simp
qed

lemma reset_password_Inr:
  assumes "reset_password C cfg limit now rq t pw salt s = (Inr (), s')"
  obtains a h where "reset_grant C now t s = Inr a"
    "s' = record_audit (Some (acc_id a)) ''password_reset'' ''user'' (acc_id a) ''success''
      (revoke_refresh_sessions now (acc_id a) (void_grants now (acc_id a) (put_account (set_password h a) s)))"
proof -
  have "transaction s r = (Inr (), s') \<Longrightarrow> r = Inr ((), s')" for r :: "(unit \<times> accounts) result"
    by (auto simp: transaction_def split: sum.splits)
  from this [OF assms [unfolded reset_password_def]] that show ?thesis by (auto simp: guard_simps)
qed

lemma evolves_account:
  assumes "evolves s t" "auth_inv t" "a \<in> set (account_rows s)"
  obtains b where "account_of t (acc_id a) = Some b" "acc_auth_version a \<le> acc_auth_version b"
proof -
  obtain b where b: "b \<in> set (account_rows t)" "account_kept a b"
    using assms(1,3) by (auto simp: evolves_def rows_keep_def)
  with auth_inv_found(1) [OF assms(2) b(1)] that show ?thesis by (simp add: account_kept_def)
qed

lemma token_account_Inr:
  assumes "token_account C now t s = Inr a"
  obtains cl where "jwt_decode C now t = Some cl" "cl_av cl = acc_auth_version a" "a \<in> set (account_rows s)"
    "acc_active a" "cl_type cl = Some ''access''"
proof -
  obtain email av where cl: "access_claims C now t = Inr (email, av)"
    using assms by (cases "access_claims C now t") (auto simp: token_account_def)
  then have "get_by_email s email = Some (Some a)" "acc_active a" "av = acc_auth_version a"
    using assms by (auto simp: token_account_def split: option.splits if_splits)
  moreover obtain c where "jwt_decode C now t = Some c" "av = cl_av c" "cl_type c = Some ''access''"
    using cl by (auto simp: access_claims_def split: option.splits if_splits)
  ultimately show ?thesis using that get_by_email_Some(1) by metis
qed

lemma old_version_refused:
  assumes "evolves s t" "auth_inv t" "a \<in> set (account_rows s)"
    "jwt_decode C now tok = Some cl" "cl_av cl < acc_auth_version a" "token_account C now tok t = Inr b"
  shows "acc_id b \<noteq> acc_id a"
proof
  assume id: "acc_id b = acc_id a"
  obtain c where c: "account_of t (acc_id a) = Some c" "acc_auth_version a \<le> acc_auth_version c"
    using evolves_account [OF assms(1-3)] .
  from token_account_Inr [OF assms(6)] have "cl_av cl = acc_auth_version b" "b \<in> set (account_rows t)"
    using assms(4) by auto
  with auth_inv_found(1) [OF assms(2)] id c assms(5) show False by fastforce
qed


lemma office_reset:
  "reset_grant office_crypto 0 ''reset'' busy_office = Inr ann"
  "fst (reset_password office_crypto office_settings open_limit 0 desk ''reset'' ''a long new password'' [] busy_office) = Inr ()"
proof -
  show grant: "reset_grant office_crypto 0 ''reset'' busy_office = Inr ann"
    by (simp add: reset_grant_def busy_office_def minutes_def seconds_def office_def people_defs)
  show "fst (reset_password office_crypto office_settings open_limit 0 desk ''reset'' ''a long new password'' [] busy_office) = Inr ()"
    using grant by (simp add: reset_password_def reject_cross_site_auth_request_def desk_def limited_def open_limit_def
        validate_password_def PASSWORD_MIN_LENGTH_def PASSWORD_MAX_BYTES_def utf8_length_def get_password_hash_def
        transaction_def unless_def)
qed


section \<open>Tokens that were just issued work\<close>

lemma login_Inr:
  assumes "login C cfg limit now rq name pw s = (Inr ts, s')"
  obtains a s2 where "authenticate_user C name pw s = Inr a" "CHR ''@'' \<in> set (lower (strip name))"
    "issue_tokens C cfg now (fst (seeded a s)) rq None (snd (seeded a s)) = Inr (ts, s2)"
    "s' = record_audit (Some (acc_id (fst (seeded a s)))) ''login'' ''user'' (acc_id (fst (seeded a s))) ''success'' s2"
proof -
  obtain a where a: "authenticate_user C name pw s = Inr a" "CHR ''@'' \<in> set (lower (strip name))"
    and run: "transaction (snd (seeded a s))
      (and_then (issue_tokens C cfg now (fst (seeded a s)) rq None (snd (seeded a s))) (\<lambda>(ts, s2).
         Inr (ts, record_audit (Some (acc_id (fst (seeded a s)))) ''login'' ''user''
           (acc_id (fst (seeded a s))) ''success'' s2))) = (Inr ts, s')"
    using assms by (auto simp: login_def Let_def case_prod_beta split: sum.splits) (auto simp: guard_simps)
  from run have "and_then (issue_tokens C cfg now (fst (seeded a s)) rq None (snd (seeded a s))) (\<lambda>(ts, s2).
         Inr (ts, record_audit (Some (acc_id (fst (seeded a s)))) ''login'' ''user''
           (acc_id (fst (seeded a s))) ''success'' s2)) = Inr (ts, s')"
    by (auto simp: transaction_def split: sum.splits)
  with a that show ?thesis by (auto simp: and_then_Inr)
qed

lemma authenticate_user_Inr:
  assumes "authenticate_user C name pw s = Inr a"
  shows "get_by_email s name = Some (Some a)" "checkpw C pw (acc_password_hash a)"
  using assms by (auto simp: authenticate_user_def verify_password_def split: option.splits if_splits)

lemma fresh_access_claims:
  assumes "jwt_law C" "now' < seconds ((now + minutes (access_expire_minutes cfg)) div seconds 1)"
    "canonical (acc_email a)" "CHR ''@'' \<in> set (acc_email a)"
  shows "access_claims C now' (create_access_token C cfg now a) = Inr (acc_email a, acc_auth_version a)"
  using assms by (simp add: access_claims_def create_access_token_def jwt_law_def canonicalD)

lemma fresh_refresh_claims:
  assumes "jwt_law C" "now' < seconds ((now + days (refresh_expire_days cfg)) div seconds 1)"
    "canonical (acc_email a)" "CHR ''@'' \<in> set (acc_email a)"
  obtains cl where "refresh_claims_from_token C now' (create_refresh_token C cfg now j a) = Inr cl"
    "cl_sub cl = Some (acc_email a)" "cl_av cl = acc_auth_version a"
  using assms by (simp add: refresh_claims_from_token_def create_refresh_token_def jwt_law_def canonicalD Let_def)

lemma seeded_roles:
  assumes "auth_inv s" "a \<in> set (account_rows s)"
  shows "acc_roles (fst (seeded a s)) \<noteq> []"
proof (cases "acc_roles a = []")
  case True
  from bootstrap_accounts [OF assms(1) auth_inv_found(1) [OF assms]] obtain b where
    "account_of (bootstrap_rbac s) (acc_id a) = Some b" "acc_roles b \<noteq> []" by blast
  with True show ?thesis by (simp add: seeded_def Let_def)
next
  case False
  then show ?thesis by (simp add: seeded_def)
qed

lemma find_append_last: "\<forall>q \<in> set xs. \<not> P q \<Longrightarrow> P r \<Longrightarrow> find P (xs @ [r]) = Some r"
  by (induction xs) auto

lemma stored_session:
  assumes "store_refresh_session C now a t rq None s = Inr s'" "jwt_decode C now t = Some cl"
    "now' < seconds (cl_exp cl)" "auth_inv s'"
  obtains r where "live_session C now' t s' = Some r" "rs_user r = acc_id a"
proof -
  obtain r where r: "s' = s\<lparr>session_rows := session_rows s @ [r], fresh_row := Suc (Suc (fresh_row s))\<rparr>"
    "rs_user r = acc_id a" "rs_hash r = refresh_hash C t" "rs_revoked r = None" "rs_expires r = seconds (cl_exp cl)"
    using assms(1,2)
    by (auto simp: store_refresh_session_def Let_def case_prod_beta split: if_splits)
  have "distinct (map rs_hash (session_rows s'))" using assms(4) by (simp add: auth_inv_def)
  then have "\<forall>q \<in> set (session_rows s). rs_hash q \<noteq> refresh_hash C t" using r(1,3) by (force simp: image_iff)
  then have "live_session C now' t s' = Some r"
    using r assms(3) find_append_last [of "session_rows s"] by (simp add: live_session_def)
  with r(2) that show ?thesis by blast
qed


lemma office_address: "strip ''Ann@x'' = ''Ann@x''" "lower ''Ann@x'' = ''ann@x''"
  by code_simp+

lemma office_lookup: "get_by_email office ''Ann@x'' = Some (Some ann)"
  by (simp add: get_by_email_def Let_def office_address fromkeys_def with_email_def office_def people_defs
      List.map_filter_def)

lemma office_login:
  "fst (login office_crypto office_settings open_limit 0 desk ''Ann@x'' ''correct horse battery'' office) = Inr
     (create_access_token office_crypto office_settings 0 ann,
      create_refresh_token office_crypto office_settings 0 100 ann)"
proof -
  have auth: "authenticate_user office_crypto ''Ann@x'' ''correct horse battery'' office = Inr ann"
    using office_lookup by (simp add: authenticate_user_def verify_password_def people_defs)
  have "issue_tokens office_crypto office_settings 0 ann desk None office \<noteq> Inl e" for e
    by (simp add: issue_tokens_def store_refresh_session_def Let_def case_prod_beta create_refresh_token_def
        office_settings_def days_def seconds_def office_def)
  then obtain ts s where iss: "issue_tokens office_crypto office_settings 0 ann desk None office = Inr (ts, s)"
    by (metis sum.exhaust surj_pair)
  have ts: "ts = (create_access_token office_crypto office_settings 0 ann,
      create_refresh_token office_crypto office_settings 0 100 ann)"
    using iss [unfolded issue_tokens_iff] by (simp add: office_def)
  show ?thesis
    using auth iss ts
    by (simp add: login_def Let_def reject_cross_site_auth_request_def desk_def limited_def open_limit_def
        unless_def seeded_def people_defs transaction_def case_prod_beta office_address)
qed


section \<open>Invitations and personal tokens\<close>

lemma accept_Inr:
  assumes "accept_invitation C cfg limit now rq t pw salt s = (Inr ts, s')"
  obtains v existing h where "acceptable C cfg limit now rq t pw salt s = Inr (v, existing, h)"
    "finish_acceptance C cfg now rq v (acc_id (fst (invited_account h v existing s)))
       (bootstrap_rbac (snd (invited_account h v existing s))) = Inr (ts, s')"
proof -
  obtain x where x: "acceptable C cfg limit now rq t pw salt s = Inr x"
    using assms by (auto simp: accept_invitation_def split: sum.splits)
  obtain v existing h where "x = (v, existing, h)" by (cases x) auto
  with assms x that show ?thesis
    by (auto simp: accept_invitation_def Let_def case_prod_beta dest!: transaction_Inr [THEN iffD1])
qed

lemma spent_invitation:
  assumes "auth_inv s" "v \<in> set (invitation_rows s)" "spent v" "inv_hash v = token_hash C t"
  shows "\<exists>e. live_invitation C now t s = Inl e"
proof -
  have "distinct (map inv_hash (invitation_rows s))" using assms(1) by (simp add: auth_inv_def)
  from find_distinct [OF this assms(2)] assms(3,4) show ?thesis
    by (auto simp: live_invitation_def spent_def)
qed

lemma evolves_invitation:
  assumes "evolves s t" "v \<in> set (invitation_rows s)" "spent v"
  obtains w where "w \<in> set (invitation_rows t)" "spent w" "inv_hash w = inv_hash v"
  using assms by (auto simp: evolves_def rows_keep_def invitation_kept_def)

lemma invited_account_fields:
  assumes "(a, s0) = invited_account h v existing s"
  shows "acc_active a" "acc_role a = inv_role v" "acc_password_hash a = h"
    "acc_email a = (case existing of Some b \<Rightarrow> acc_email b | None \<Rightarrow> lower (strip (inv_email v)))"
  using assms by (auto simp: invited_account_def Let_def set_password_def split: option.splits)

text \<open>
  C6: An invitation turns into one account, once. When it is accepted, it was live, and the
  account of its address is active, with the invited role, the chosen password and at least one
  role row; after any run it can never be accepted or previewed again.
\<close>

theorem invitation_single_use:
  assumes "auth_inv s" "accept_invitation C cfg limit now rq t pw salt s = (Inr ts, s')"
    and "auth_run C cfg anyone s' u"
  shows "\<exists>v \<in> set (invitation_rows s). \<exists>a \<in> set (account_rows s').
      inv_hash v = token_hash C t \<and> \<not> spent v \<and> now < inv_expires v
      \<and> lower (acc_email a) = lower (strip (inv_email v)) \<and> acc_active a \<and> acc_role a = inv_role v
      \<and> acc_password_hash a = hashpw C salt pw \<and> acc_roles a \<noteq> []
      \<and> (\<exists>e. live_invitation C now' t u = Inl e)"
proof (rule accept_Inr [OF assms(2)])
  fix v existing h
  let ?a = "fst (invited_account h v existing s)" and ?s0 = "snd (invited_account h v existing s)"
  assume acc: "acceptable C cfg limit now rq t pw salt s = Inr (v, existing, h)"
    and fin: "finish_acceptance C cfg now rq v (acc_id ?a) (bootstrap_rbac ?s0) = Inr (ts, s')"
  note fields = invited_account_fields [of ?a ?s0 h v existing s, simplified]
  note acc' = acceptable_Inr [OF acc] and live = live_invitation_Inr [OF acceptable_Inr(1) [OF acc]]
  note ok = invited_account_ok [OF assms(1) acc'(2), of h]
  have inv0: "auth_inv ?s0" by (rule advances_inv [OF ok(1) assms(1)])
  obtain b where b: "account_of (bootstrap_rbac ?s0) (acc_id ?a) = Some b" "seeded_from ?a b" "acc_roles b \<noteq> []"
    using bootstrap_accounts [OF inv0 ok(2)] by blast
  note same = seeded_from_fields [OF b(2)]
  obtain a s2 where a: "account_of (bootstrap_rbac ?s0) (acc_id ?a) = Some a"
    and iss: "issue_tokens C cfg now (invited_departments v (bootstrap_rbac ?s0) a) rq None
       ((put_account (invited_departments v (bootstrap_rbac ?s0) a) (bootstrap_rbac ?s0))\<lparr>invitation_rows :=
          put_row inv_id (v\<lparr>inv_used := Some now, inv_accepted := Some (acc_id ?a)\<rparr>)
            (invitation_rows (bootstrap_rbac ?s0))\<rparr>) = Inr (ts, s2)"
    and s': "s' = record_audit (Some (acc_id ?a)) ''invitation_accept'' ''user'' (acc_id ?a) ''success'' s2"
    by (rule finish_acceptance_Inr [OF fin])
  have ab: "a = b" using a b(1) by simp
  let ?b = "invited_departments v (bootstrap_rbac ?s0) b"
  let ?v = "v\<lparr>inv_used := Some now, inv_accepted := Some (acc_id ?a)\<rparr>"
  have rows: "account_rows s' = put_row acc_id ?b (account_rows (bootstrap_rbac ?s0))"
    "invitation_rows s' = put_row inv_id ?v (invitation_rows s)"
    unfolding s' by (rule issue_tokens_Inr [OF iss], simp add: put_account_def ab)+
  have "get_row acc_id (acc_id ?b) (account_rows (bootstrap_rbac ?s0)) \<noteq> None"
    using b(1) get_row_SomeD(2) [OF b(1)] by simp
  from get_row_SomeD(1) [OF get_put_same [OF this]] have mem: "?b \<in> set (account_rows s')" by (simp add: rows)
  have "lower (acc_email ?a) = lower (strip (inv_email v))"
  proof (cases existing)
    case None
    then show ?thesis using fields by simp
  next
    case (Some x)
    with get_by_email_Some(2) [OF acc'(2) [unfolded Some]] fields show ?thesis
      by (simp add: strip_lower)
  qed
  then have acct: "lower (acc_email ?b) = lower (strip (inv_email v))" "acc_active ?b" "acc_role ?b = inv_role v"
    "acc_password_hash ?b = hashpw C salt pw" "acc_roles ?b \<noteq> []"
    using same fields acc'(4) b(3) by simp_all
  have "?v \<in> set (invitation_rows s')" using live(1) rows(2) by (force simp: put_row_def)
  moreover have "auth_inv s'" using advances_inv [OF advances_accept assms(1)] assms(2) by (metis snd_conv)
  note u = run_evolves [OF assms(3) this]
  ultimately obtain w where "w \<in> set (invitation_rows u)" "spent w" "inv_hash w = inv_hash ?v"
    using evolves_invitation [OF u(2), of ?v] by (auto simp: spent_def)
  with spent_invitation [OF u(1), of w C t now'] live(2) have "\<exists>e. live_invitation C now' t u = Inl e" by simp
  with live mem acct show ?thesis by blast
qed

lemma office_accept:
  "\<exists>ts. fst (accept_invitation office_crypto office_settings open_limit 0 desk ''invite'' ''a long password'' [] busy_office) = Inr ts"
proof -
  define v where "v = hd (invitation_rows busy_office)"
  have v: "inv_email v = ''joe@x''" "inv_audience v = None" "inv_hash v = ''invite''"
    "invitation_rows busy_office = [v]" "inv_used v = None" "inv_revoked v = None" "inv_expires v = days 7"
    by (simp_all add: v_def busy_office_def)
  have joe: "lower (strip ''joe@x'') = ''joe@x''" by code_simp
  have "strip ''joe@x'' = ''joe@x''" "lower ''joe@x'' = ''joe@x''" "lower ''ann@x'' = ''ann@x''"
    "lower ''bob@x'' = ''bob@x''" "lower ''kim@x'' = ''kim@x''" by code_simp+
  then have none: "get_by_email busy_office ''joe@x'' = Some None"
    by (simp add: get_by_email_def Let_def fromkeys_def with_email_def people_defs List.map_filter_def)
  have live: "live_invitation office_crypto 0 ''invite'' busy_office = Inr v"
    using v by (simp add: live_invitation_def token_hash_def days_def seconds_def)
  have acc: "acceptable office_crypto office_settings open_limit 0 desk ''invite'' ''a long password'' [] busy_office
      = Inr (v, None, ''a long password'')"
    using live none
    by (simp add: acceptable_def reject_cross_site_auth_request_def desk_def limited_def open_limit_def v joe
        validate_password_def PASSWORD_MIN_LENGTH_def PASSWORD_MAX_BYTES_def utf8_length_def get_password_hash_def
        unless_def)
  let ?a = "fst (invited_account ''a long password'' v None busy_office)"
  let ?s1 = "bootstrap_rbac (snd (invited_account ''a long password'' v None busy_office))"
  have ok: "auth_inv (snd (invited_account ''a long password'' v None busy_office))"
    "account_of (snd (invited_account ''a long password'' v None busy_office)) (acc_id ?a) = Some ?a"
    using invited_account_ok [OF busy_office_inv, of v None "''a long password''"] none busy_office_inv
    by (simp_all add: v joe advances_def)
  obtain b where b: "account_of ?s1 (acc_id ?a) = Some b" "seeded_from ?a b"
    using bootstrap_accounts [OF ok] by blast
  have email: "acc_email b = ''joe@x''"
    using seeded_from_fields(2) [OF b(2)] by (simp add: invited_account_def v joe Let_def)
  have sess: "session_rows ?s1 = [ann_session]" by (simp add: invited_account_def Let_def)
  have "issue_tokens office_crypto office_settings 0 b desk None
      ((put_account b ?s1)\<lparr>invitation_rows := rows\<rparr>) \<noteq> Inl e" for rows e
    using sess email
    by (simp add: issue_tokens_def store_refresh_session_def Let_def case_prod_beta create_refresh_token_def
        office_settings_def days_def seconds_def refresh_hash_def ann_session_def ann_refresh_def people_defs)
  then have "finish_acceptance office_crypto office_settings 0 desk v (acc_id ?a) ?s1 \<noteq> Inl e" for e
    using b(1) by (auto simp: finish_acceptance_def Let_def invited_departments_def v and_then_def split: sum.splits)
  then obtain ts s2 where "finish_acceptance office_crypto office_settings 0 desk v (acc_id ?a) ?s1 = Inr (ts, s2)"
    by (metis sum.exhaust surj_pair)
  with acc show ?thesis by (simp add: accept_invitation_def Let_def case_prod_beta transaction_def)
qed

text \<open>Joe accepts, and the link is tried again after a day.\<close>

theorem invitation_single_use_witness:
  "\<exists>a \<in> set (account_rows (snd (accept_invitation office_crypto office_settings open_limit 0 desk ''invite''
       ''a long password'' [] busy_office))). acc_password_hash a = ''a long password'' \<and> acc_active a
   \<and> (\<exists>e. live_invitation office_crypto (days 1) ''invite''
        (snd (accept_invitation office_crypto office_settings open_limit 0 desk ''invite'' ''a long password'' []
          busy_office)) = Inl e)"
proof -
  let ?r = "accept_invitation office_crypto office_settings open_limit 0 desk ''invite'' ''a long password'' [] busy_office"
  obtain ts where "fst ?r = Inr ts" using office_accept by blast
  then have ok: "?r = (Inr ts, snd ?r)" by (simp add: prod_eq_iff)
  from invitation_single_use [OF busy_office_inv ok auth_run.Start, of "days 1"] show ?thesis by auto
qed

lemma create_personal_token_Inr:
  assumes "create_personal_token C cfg now me n sc d rnd s = (Inr (item, raw), s')"
  shows "raw = TOKEN_PREFIX @ rnd" "pt_user item = acc_id me" "pt_hash item = token_hash C raw"
    "pt_scope item = sc" "pt_revoked item = None" "sc \<in> {''read'', ''write''}"
    "pt_expires item = now + days (max 1 (min d (token_max_days cfg)))" "pt_last_used item = None"
    "pt_hash item \<notin> pt_hash ` set (token_rows s)"
    "s' = record_audit (Some (acc_id me)) ''access_token_create'' ''access_token'' (pt_id item) ''success''
      (s\<lparr>token_rows := token_rows s @ [item], fresh_row := Suc (fresh_row s)\<rparr>)"
  using transaction_Inr [THEN iffD1, OF assms [unfolded create_personal_token_def]]
  by (auto simp: guard_simps create_token_def Let_def new_token_def)

text \<open>
  A personal token authenticates its owner. The raw value returned on creation
  authenticates, until it expires and while its owner is active, as exactly the owner and scope it
  was created for; the token table holds no other trace of it than its hash.
\<close>

theorem personal_token_round_trip:
  assumes "auth_inv s" "create_personal_token C cfg now me n sc d rnd s = (Inr (item, raw), s')"
    and "account_of s (acc_id me) = Some a" "acc_active a" "length rnd \<le> 122"
    and "now' < now + days (max 1 (min d (token_max_days cfg)))"
  shows "fst (authenticate_token C now' (Some raw) s')
      = Some \<lparr>tp_token = pt_id item, tp_user = acc_id me, tp_email = acc_email a,
              tp_auth_version = acc_auth_version a, tp_scope = sc\<rparr>
    \<and> map pt_hash (token_rows s') = map pt_hash (token_rows s) @ [token_hash C raw]"
proof -
  note item = create_personal_token_Inr [OF assms(2)]
  have id: "acc_id a = acc_id me" by (rule get_row_SomeD(2) [OF assms(3)])
  have rows: "token_rows s' = token_rows s @ [item]" "account_rows s' = account_rows s"
    by (simp_all add: item(10))
  have "canonical (acc_email a)" using assms(1) get_row_SomeD(1) [OF assms(3)] by (simp add: auth_inv_def)
  then have email: "lower (strip (acc_email a)) = acc_email a" by (simp add: canonical_def)
  have "find (\<lambda>p. pt_hash p = token_hash C raw \<and> live_token now' p \<and> account_of s (pt_user p) \<noteq> None)
      (token_rows s @ [item]) = Some item"
    using item(2,3,5,7,9) assms(3,6) by (intro find_append_last) (force simp: live_token_def)+
  moreover have "looks_like_token (Some raw)"
    using assms(5) by (simp add: looks_like_token_def item(1) TOKEN_PREFIX_def)
  moreover have "raw \<noteq> []" by (simp add: item(1) TOKEN_PREFIX_def)
  ultimately show ?thesis
    using assms(3,4) item(2,3,4) id email
    by (simp add: authenticate_token_def rows or_else_def Let_def)
qed

text \<open>Ann makes a token for a month and uses it a week later.\<close>

theorem personal_token_round_trip_witness:
  "\<exists>item raw. fst (create_personal_token office_crypto office_settings 0 ann ''cli'' ''read'' 30 ''abc'' office) = Inr (item, raw)
    \<and> fst (authenticate_token office_crypto (days 7) (Some raw)
         (snd (create_personal_token office_crypto office_settings 0 ann ''cli'' ''read'' 30 ''abc'' office)))
      = Some \<lparr>tp_token = pt_id item, tp_user = 1, tp_email = ''ann@x'', tp_auth_version = 0, tp_scope = ''read''\<rparr>"
proof -
  let ?r = "create_personal_token office_crypto office_settings 0 ann ''cli'' ''read'' 30 ''abc'' office"
  have "fst ?r \<noteq> Inl e" for e
    by (simp add: create_personal_token_def transaction_def office_settings_def count_live_tokens_def office_def
        create_token_def Let_def unless_def)
  then obtain item raw where ok: "?r = (Inr (item, raw), snd ?r)"
    by (metis prod.collapse sum.exhaust surj_pair)
  have exp: "days 7 < 0 + days (max 1 (min 30 (token_max_days office_settings)))"
    by (simp add: days_def seconds_def office_settings_def)
  have a: "account_of office (acc_id ann) = Some ann" "acc_active ann" "length ''abc'' \<le> 122"
    using ann_signed_in by simp_all
  have "fst (authenticate_token office_crypto (days 7) (Some raw) (snd ?r))
      = Some \<lparr>tp_token = pt_id item, tp_user = 1, tp_email = ''ann@x'', tp_auth_version = 0, tp_scope = ''read''\<rparr>"
    using conjunct1 [OF personal_token_round_trip [OF office_inv ok a exp]] by (simp add: people_defs)
  moreover have "fst ?r = Inr (item, raw)" using arg_cong [OF ok, of fst] by simp
  ultimately show ?thesis by blast
qed

text \<open>
  A revoked personal token stays revoked: after its owner revokes it, no run brings it back,
  and presenting it authenticates nobody.
\<close>

theorem personal_token_revocation:
  assumes "auth_inv s" "p \<in> set (token_rows s)" "token_hash C raw = pt_hash p"
    and "revoke_personal_token cfg now me (pt_id p) s = (Inr (), s')" "auth_run C cfg anyone s' u"
  shows "authenticate_token C now' (Some raw) u = (None, u)"
proof -
  obtain q where q: "find (\<lambda>x. pt_id x = pt_id p \<and> pt_user x = acc_id me) (token_rows s) = Some q"
    and s': "s' = record_audit (Some (acc_id me)) ''access_token_revoke'' ''access_token'' (pt_id p) ''success''
       (s\<lparr>token_rows := put_row pt_id (if pt_revoked q = None then q\<lparr>pt_revoked := Some now\<rparr> else q)
          (token_rows s)\<rparr>)"
    using transaction_Inr [THEN iffD1, OF assms(4) [unfolded revoke_personal_token_def]]
    by (auto simp: guard_simps Let_def split: option.splits)
  have "q = p"
    using find_mem [OF q] auth_inv_found(4) [OF assms(1)] assms(2) by (metis option.inject)
  define p1 where "p1 = (if pt_revoked p = None then p\<lparr>pt_revoked := Some now\<rparr> else p)"
  have "p1 \<in> set (put_row pt_id p1 (token_rows s))" using assms(2) by (force simp: put_row_def p1_def)
  moreover have "token_rows s' = put_row pt_id p1 (token_rows s)"
    using \<open>q = p\<close> by (simp add: s' p1_def record_audit_keeps)
  ultimately have p1: "p1 \<in> set (token_rows s')" "pt_revoked p1 \<noteq> None" "pt_hash p1 = pt_hash p"
    by (simp_all add: p1_def)
  have "auth_inv s'" using advances_inv [OF advancing.revoke_token_step assms(1)] assms(4) by (metis snd_conv)
  note u = run_evolves [OF assms(5) this]
  obtain w where w: "w \<in> set (token_rows u)" "pt_hash w = pt_hash p" "pt_revoked w \<noteq> None"
    using u(2) p1 by (auto simp: evolves_def rows_keep_def token_kept_def)
  have "distinct (map pt_hash (token_rows u))" using u(1) by (simp add: auth_inv_def)
  then have "x = w" if "x \<in> set (token_rows u)" "pt_hash x = pt_hash p" for x
    using that w by (auto simp: distinct_map inj_on_def)
  then have "find (\<lambda>x. pt_hash x = token_hash C raw \<and> live_token now' x \<and> account_of u (pt_user x) \<noteq> None)
      (token_rows u) = None"
    using assms(3) w(3) by (auto simp: find_None_iff live_token_def)
  then show ?thesis by (cases "raw = []") (auto simp: authenticate_token_def or_else_def looks_like_token_def TOKEN_PREFIX_def)
qed

text \<open>The token in the busy office is revoked and then presented.\<close>

theorem personal_token_revocation_witness:
  "fst (revoke_personal_token office_settings 0 ann 70 busy_office) = Inr ()
   \<and> fst (authenticate_token office_crypto 1 (Some ''kbpat_abc'')
       (snd (revoke_personal_token office_settings 0 ann 70 busy_office))) = None"
proof -
  let ?r = "revoke_personal_token office_settings 0 ann 70 busy_office"
  obtain p where p: "p \<in> set (token_rows busy_office)" "pt_id p = 70" "token_hash office_crypto ''kbpat_abc'' = pt_hash p"
    by (simp add: busy_office_def token_hash_def)
  have res: "fst ?r = Inr ()"
    by (simp add: revoke_personal_token_def transaction_def office_settings_def busy_office_def people_defs unless_def)
  then have ok: "revoke_personal_token office_settings 0 ann (pt_id p) busy_office = (Inr (), snd ?r)"
    using p(2) by (simp add: prod_eq_iff)
  show ?thesis
    using personal_token_revocation [OF busy_office_inv p(1,3) ok auth_run.Start, where now' = 1] res by simp
qed

section \<open>What strangers learn, and what deactivation takes\<close>

text \<open>
  Asking for a reset link tells nothing. The answer to \<open>forgot_password\<close> is the same in any
  two states of the tables, whether or not they hold the address, as long as the random token
  of the call is new in both.
\<close>

theorem forgot_password_silent:
  assumes "sha256_hex C raw \<notin> rt_hash ` set (reset_rows s)" "sha256_hex C raw \<notin> rt_hash ` set (reset_rows s')"
  shows "fst (forgot_password C cfg limit now rq address raw s) = fst (forgot_password C cfg limit now rq address raw s')"
  using assms unfolding forgot_password_def Let_def
  by (auto split: sum.splits option.splits)

theorem forgot_password_silent_witness:
  "''raw'' \<notin> rt_hash ` set (reset_rows office)
   \<and> fst (forgot_password office_crypto office_settings open_limit 0 desk ''ann@x'' ''raw'' office)
     = fst (forgot_password office_crypto office_settings open_limit 0 desk ''ann@x'' ''raw'' (office\<lparr>account_rows := []\<rparr>))"
  using forgot_password_silent [of office_crypto "''raw''" office "office\<lparr>account_rows := []\<rparr>"]
  by (simp add: office_def)

lemma authenticate_token_Some:
  assumes "fst (authenticate_token C now raw s) = Some p"
  obtains x where "x \<in> set (account_rows s)" "acc_active x" "tp_user p = acc_id x"
proof -
  have look: "looks_like_token raw"
    using assms by (cases "looks_like_token raw") (simp_all add: authenticate_token_def)
  define f where "f = find (\<lambda>p. pt_hash p = token_hash C (or_else raw []) \<and> live_token now p
      \<and> account_of s (pt_user p) \<noteq> None) (token_rows s)"
  note run = assms [unfolded authenticate_token_def, folded f_def]
  obtain q where q: "f = Some q"
    using run look by (cases f) simp_all
  obtain x where x: "account_of s (pt_user q) = Some x"
    using run look q by (cases "account_of s (pt_user q)") simp_all
  have "acc_active x"
    using run look q x by (cases "acc_active x") simp_all
  moreover from this have "tp_user p = acc_id x"
    using run look q x by (auto simp: Let_def)
  ultimately show ?thesis using that get_row_SomeD(1) [OF x] by blast
qed

lemma deactivate_user_Inr:
  assumes "deactivate_user now me i s = (Inr b, s')"
  obtains a where "account_of s i = Some a" "acc_id b = i" "\<not> acc_active b" "i \<noteq> acc_id me"
    "acc_auth_version b = acc_auth_version a" "owned_departments s a = []"
    "s' = record_audit (Some (acc_id me)) ''user_deactivate'' ''user'' i ''success''
       (put_account b (revoke_refresh_sessions now i (unassign_drafts i s)))"
proof -
  obtain a where man: "manageable (load s me) i s = Inr a" and ne: "acc_id a \<noteq> acc_id me"
    and own: "owned_departments s a = []"
    and b: "(if has_ceo_role s a then set_primary_role s ''Staff'' (a\<lparr>acc_active := False\<rparr>)
                  else Inr (a\<lparr>acc_active := False\<rparr>)) = Inr b"
    and s': "s' = record_audit (Some (acc_id me)) ''user_deactivate'' ''user'' i ''success''
       (put_account b (revoke_refresh_sessions now i (unassign_drafts i s)))"
    using transaction_Inr [THEN iffD1, OF assms [unfolded deactivate_user_def]]
    by (auto simp: guard_simps owns_nothing_def)
  have "acc_id b = acc_id a" "\<not> acc_active b" "acc_auth_version b = acc_auth_version a"
    using b by (auto simp: set_primary_role_def guard_simps split: if_splits)
  with manageable_Inr(1,2) [OF man] ne own s' that show ?thesis by auto
qed

text \<open>
  C25: Deactivation locks an account out at once: whatever token is presented next - an access
  token, a refresh token, a personal token - it authenticates as somebody else or nobody, no
  pending draft waits for the account any more, and nobody can do it to their own account.
\<close>

theorem deactivation_locks_out:
  assumes "auth_inv s" "deactivate_user now me i s = (Inr b, s')"
  shows "i \<noteq> acc_id me
    \<and> (\<forall>tok now' a. token_account C now' tok s' = Inr a \<longrightarrow> acc_id a \<noteq> i)
    \<and> (\<forall>tok now' a r. refresh_account C now' tok s' = Inr (a, r) \<longrightarrow> acc_id a \<noteq> i)
    \<and> (\<forall>tok now' p. fst (authenticate_token C now' tok s') = Some p \<longrightarrow> tp_user p \<noteq> i)
    \<and> (\<forall>d \<in> set (draft_rows s'). d_status d = Pending \<longrightarrow> assigned_approver_id d \<noteq> Some i)"
proof (rule deactivate_user_Inr [OF assms(2)])
  fix a
  assume a: "account_of s i = Some a" and b: "acc_id b = i" "\<not> acc_active b" and ne: "i \<noteq> acc_id me"
    and s': "s' = record_audit (Some (acc_id me)) ''user_deactivate'' ''user'' i ''success''
       (put_account b (revoke_refresh_sessions now i (unassign_drafts i s)))"
  have inv': "auth_inv s'" using advances_inv [OF advances_deactivate_user assms(1)] assms(2) by (metis snd_conv)
  have "account_of s' i = Some b"
    using a b(1) get_put_same [of acc_id b "account_rows s"]
    by (simp add: s' put_account_def revoke_refresh_sessions_def unassign_drafts_def)
  then have gone: "\<not> acc_active c \<or> acc_id c \<noteq> i" if "c \<in> set (account_rows s')" for c
    using auth_inv_found(1) [OF inv' that] b(2) by auto
  have "acc_id x \<noteq> i" if "token_account C now' tok s' = Inr x" for tok now' x
    by (rule token_account_Inr [OF that]) (use gone in blast)
  moreover have "acc_id x \<noteq> i" if "refresh_account C now' tok s' = Inr (x, r)" for tok now' x r
    by (rule refresh_account_Inr [OF that]) (use gone in blast)
  moreover have "tp_user p \<noteq> i" if "fst (authenticate_token C now' tok s') = Some p" for tok now' p
    by (rule authenticate_token_Some [OF that]) (use gone in auto)
  moreover have "\<forall>d \<in> set (draft_rows s'). d_status d = Pending \<longrightarrow> assigned_approver_id d \<noteq> Some i"
    by (auto simp: s' put_account_def revoke_refresh_sessions_def unassign_drafts_def record_audit_def)
  ultimately show ?thesis using ne by blast
qed

text \<open>Ann deactivates Bob, who still holds an access token.\<close>

theorem deactivation_locks_out_witness:
  "fst (deactivate_user 0 ann 2 office) = Inr (bob\<lparr>acc_active := False\<rparr>)
   \<and> token_account office_crypto 1 (create_access_token office_crypto office_settings 0 bob)
       (snd (deactivate_user 0 ann 2 office)) \<noteq> Inr bob"
proof -
  have u: "\<not> has_permission (load office ann) ''user.read'' None Global"
    "\<not> has_permission (load office ann) ''user.manage'' None Global"
    "has_permission (load office ann) ''user.manage'' None Company"
    by (simp_all add: has_permission_def load_def office_def office_role_def people_defs role_counts_def scope_allows_def)
  have bob: "account_of office 2 = Some bob" "acc_id bob = 2" "acc_company bob = ''x''"
    "u_company (load office ann) = ''x''" "u_company (load office bob) = ''x''"
    by (simp_all add: office_def people_defs load_fields)
  have "manageable (load office ann) 2 office = Inr bob"
    using u bob by (simp add: manageable_def require_permission_def viewed_account_def identity_scope_def
        is_global_user_manager_def unless_def)
  then have res: "fst (deactivate_user 0 ann 2 office) = Inr (bob\<lparr>acc_active := False\<rparr>)"
    by (simp add: deactivate_user_def owns_nothing_def owned_departments_def has_ceo_role_def load_def
        office_def office_role_def people_defs List.map_filter_def transaction_def unless_def)
  then have "deactivate_user 0 ann 2 office = (Inr (bob\<lparr>acc_active := False\<rparr>), snd (deactivate_user 0 ann 2 office))"
    by (simp add: prod_eq_iff)
  from deactivation_locks_out [OF office_inv this] res bob(2) show ?thesis by fastforce
qed

text \<open>
  C3: No escalation. In a governed state, however callers without a global grant and strangers
  use the service, in any order, no account comes to hold a global grant that did not hold one
  before: neither the callers, nor accounts they create, invite, edit or give roles to.
\<close>

theorem no_escalation:
  assumes "auth_inv s" "governed s" "auth_run C cfg unprivileged s t" "privileged t i"
  shows "privileged s i"
  using plain_run.run [OF assms(3)] assms(1,2,4) by (auto simp: confined_def)

text \<open>Ann, who manages her company only, tries to give Bob the Admin role.\<close>

theorem no_escalation_witness:
  "privileged office 3 \<and> \<not> privileged (snd (replace_user_roles ann 2 [10] office)) 2"
proof -
  have run: "auth_run office_crypto office_settings unprivileged office (snd (replace_user_roles ann 2 [10] office))"
  proof (rule auth_run.Step [OF auth_run.Start])
    show "auth_step office_crypto office_settings (Some ann) office (snd (replace_user_roles ann 2 [10] office))"
      by (rule auth_step.Replace_roles) (simp add: signed_in_def ann_signed_in)
    show "unprivileged office me" if "Some ann = Some me" for me
      using that ann_plain(1) by (simp add: unprivileged_def)
  qed
  show ?thesis
    using no_escalation [OF office_inv office_governed run, of 2] ann_plain(2,3) by blast
qed

end
