(* ===== verification/Management.thy ===== *)
theory Management
  imports Office
begin

text \<open>
  What user management establishes: the one CEO of a company, the roles an assignment gives, and
  what it leaves alone.
\<close>

section \<open>The CEO of a company\<close>

lemma has_ceo_role_iff:
  "has_ceo_role s a \<longleftrightarrow> acc_role a = ''CEO''
     \<or> (\<exists>r \<in> set (role_rows s). role_id r \<in> set (acc_roles a) \<and> role_name r = ''CEO'')"
  by (auto simp: has_ceo_role_def load_fields list_ex_iff)

lemma without_ceo_set:
  "k \<in> set (without_ceo s a) \<longleftrightarrow>
     (\<exists>r \<in> set (role_rows s). role_id r = k \<and> k \<in> set (acc_roles a) \<and> role_name r \<noteq> ''CEO'')"
  by (auto simp: without_ceo_def load_fields image_iff)

lemma same_role:
  assumes "auth_inv s" "r \<in> set (role_rows s)" "q \<in> set (role_rows s)" "role_id r = role_id q"
  shows "r = q"
  using auth_inv_found(5) [OF assms(1,2)] auth_inv_found(5) [OF assms(1,3)] assms(4) by (metis option.inject)

lemma demoted_not_ceo:
  assumes "auth_inv s" "system_role s ''Staff'' c = Inr staff"
  shows "\<not> has_ceo_role s (demoted s staff a)"
proof -
  have staff: "staff \<in> set (role_rows s)" "role_name staff = ''Staff''"
    using system_role_Inr [OF assms(2)] by (simp_all add: role_named_def)
  have "role_name r \<noteq> ''CEO''" if "r \<in> set (role_rows s)" "role_id r \<in> set (acc_roles (demoted s staff a))" for r
  proof (cases "without_ceo s a = []")
    case True
    with that(2) have "role_id r = role_id staff" by (simp add: demoted_def)
    with same_role [OF assms(1) that(1) staff(1)] staff(2) show ?thesis by simp
  next
    case False
    then have "role_id r \<in> set (without_ceo s a)" using that(2) by (simp add: demoted_def)
    then obtain q where "q \<in> set (role_rows s)" "role_id q = role_id r" "role_name q \<noteq> ''CEO''"
      by (auto simp: without_ceo_set)
    with same_role [OF assms(1) that(1)] show ?thesis by metis
  qed
  then show ?thesis by (auto simp: has_ceo_role_iff demoted_def)
qed

lemma has_ceo_role_rows: "role_rows t = role_rows s \<Longrightarrow> has_ceo_role t a = has_ceo_role s a"
  by (simp add: has_ceo_role_iff)

lemma demoted_rows: "role_rows t = role_rows s \<Longrightarrow> demoted t r a = demoted s r a"
  by (simp add: demoted_def without_ceo_def load_fields)

lemma demote_ceos_rows [simp]: "role_rows (demote_ceos who staff i as s) = role_rows s"
  by (induction as arbitrary: s) simp_all

text \<open>After the loop the accounts it went through have no CEO role, and the others are as before.\<close>

lemma demote_ceos_result:
  assumes "distinct (map acc_id as)" "\<forall>a \<in> set as. account_of s (acc_id a) = Some a"
    "\<And>a. \<not> has_ceo_role s (demoted s staff a)"
  shows "a \<in> set as \<Longrightarrow> acc_id a \<noteq> i
      \<Longrightarrow> \<exists>b. account_of (demote_ceos who staff i as s) (acc_id a) = Some b \<and> \<not> has_ceo_role s b"
  using assms
proof (induction as arbitrary: s)
  case (Cons x as)
  let ?s1 = "if has_ceo_role s x \<and> acc_id x \<noteq> i
    then record_audit (Some who) ''ceo_change'' ''user'' (acc_id x) ''success'' (put_account (demoted s staff x) s)
    else s"
  have rows: "role_rows ?s1 = role_rows s" by simp
  have id: "acc_id (demoted s staff x) = acc_id x" by (simp add: demoted_def)
  have found: "\<forall>a \<in> set as. account_of ?s1 (acc_id a) = Some a"
  proof
    fix a assume a: "a \<in> set as"
    then have "acc_id a \<noteq> acc_id x"
      using Cons.prems(3) by (metis distinct.simps(2) image_eqI list.set_map list.simps(9))
    with a Cons.prems(4) id show "account_of ?s1 (acc_id a) = Some a" by (simp add: put_keeps_other)
  qed
  have keep: "\<not> has_ceo_role ?s1 (demoted ?s1 staff a)" for a
    using Cons.prems(5) has_ceo_role_rows [OF rows] demoted_rows [OF rows] by simp
  have tail: "distinct (map acc_id as)" using Cons.prems(3) by simp
  show ?case
  proof (cases "a = x")
    case True
    have x: "account_of ?s1 (acc_id x) = Some (if has_ceo_role s x then demoted s staff x else x)"
      using Cons.prems(2,4) True id get_put_same [of acc_id "demoted s staff x" "account_rows s"]
      by (auto simp: put_account_def)
    have "acc_id x \<notin> acc_id ` set as" using Cons.prems(3) by simp
    with demote_ceos_run [OF tail found, of who staff i] x
    have "account_of (demote_ceos who staff i (x # as) s) (acc_id x) = Some (if has_ceo_role s x then demoted s staff x else x)"
      by simp
    then show ?thesis using True Cons.prems(5) by auto
  next
    case False
    with Cons.prems(1) have "a \<in> set as" by simp
    from Cons.IH [OF this Cons.prems(2) tail found keep] show ?thesis
      using has_ceo_role_rows [OF rows] by simp
  qed
qed simp

lemma assign_ceo_Inr:
  assumes "assign_company_ceo me company i s = (Inr b, s')"
  obtains a ceo staff where
    "find (\<lambda>a. acc_id a = i) (filter (\<lambda>a. acc_company a = lower company) (first_page s)) = Some a"
    "acc_active a" "system_role s ''CEO'' (Some (acc_company a)) = Inr ceo"
    "system_role s ''Staff'' (Some (acc_company a)) = Inr staff"
    "b = a\<lparr>acc_role := ''CEO'', acc_roles := without_ceo (demote_ceos (acc_id me) staff i
        (filter (\<lambda>a. acc_company a = lower company) (first_page s)) s) a @ [role_id ceo]\<rparr>"
    "s' = record_audit (Some (acc_id me)) ''ceo_change'' ''user'' i ''success''
       (put_account b (demote_ceos (acc_id me) staff i
          (filter (\<lambda>a. acc_company a = lower company) (first_page s)) s))"
proof -
  have "transaction s r = (Inr b, s') \<Longrightarrow> r = Inr (b, s')" for r :: "(account \<times> accounts) result"
    by (auto simp: transaction_def split: sum.splits)
  from this [OF assms [unfolded assign_company_ceo_def Let_def]] that show ?thesis
    by (auto simp: guard_simps split: option.splits)
qed

lemma first_page_all: "length (account_rows s) \<le> 100 \<Longrightarrow> set (first_page s) = set (account_rows s)"
  by (simp add: first_page_def)

text \<open>
  A company has one CEO. While all accounts fit the first page of \<open>list_users\<close>, a successful
  assignment makes the target the CEO of its company, by its role column and by a role row, and
  leaves no other account of the company with either.
\<close>

theorem company_has_one_ceo:
  assumes "auth_inv s" "length (account_rows s) \<le> 100" "assign_company_ceo me company i s = (Inr b, s')"
  shows "account_of s' i = Some b \<and> has_ceo_role s' b \<and> acc_active b \<and> acc_company b = lower company
    \<and> (\<forall>a \<in> set (account_rows s). acc_company a = lower company \<and> acc_id a \<noteq> i
         \<longrightarrow> (\<exists>c. account_of s' (acc_id a) = Some c \<and> \<not> has_ceo_role s' c))"
proof (rule assign_ceo_Inr [OF assms(3)])
  fix a ceo staff
  let ?users = "filter (\<lambda>a. acc_company a = lower company) (first_page s)"
  let ?s1 = "demote_ceos (acc_id me) staff i ?users s"
  assume find: "find (\<lambda>a. acc_id a = i) ?users = Some a" and act: "acc_active a"
    and staff: "system_role s ''Staff'' (Some (acc_company a)) = Inr staff"
    and b: "b = a\<lparr>acc_role := ''CEO'', acc_roles := without_ceo ?s1 a @ [role_id ceo]\<rparr>"
    and s': "s' = record_audit (Some (acc_id me)) ''ceo_change'' ''user'' i ''success'' (put_account b ?s1)"
  have a: "a \<in> set ?users" "acc_id a = i" using find by (auto dest!: find_mem)
  note found = first_page_found [OF assms(1), of "\<lambda>a. acc_company a = lower company"]
  note run = demote_ceos_run [OF found, of "acc_id me" staff i]
  have rows: "role_rows s' = role_rows s" by (simp add: s')
  have "account_of s i = Some a" using found(2) a by blast
  with run have "account_of ?s1 i = Some a" by blast
  then have "account_of s' i = Some b"
    using a(2) b get_put_same [of acc_id b "account_rows ?s1"] by (simp add: s' put_account_def)
  moreover have "has_ceo_role s' b" by (simp add: has_ceo_role_iff b)
  moreover have "acc_active b" "acc_company b = lower company" using act a(1) by (simp_all add: b)
  moreover have "\<exists>c. account_of s' (acc_id x) = Some c \<and> \<not> has_ceo_role s' c"
    if "x \<in> set (account_rows s)" "acc_company x = lower company \<and> acc_id x \<noteq> i" for x
  proof -
    have "x \<in> set ?users" using that first_page_all [OF assms(2)] by simp
    from demote_ceos_result [OF found demoted_not_ceo [OF assms(1) staff] this] that(2)
    obtain c where c: "account_of ?s1 (acc_id x) = Some c" "\<not> has_ceo_role s c" by blast
    have "acc_id x \<noteq> acc_id b" using that(2) a(2) by (simp add: b)
    with c(1) have "account_of s' (acc_id x) = Some c"
      by (simp add: s' put_account_def get_put_other)
    with c(2) has_ceo_role_rows [OF rows] show ?thesis by blast
  qed
  ultimately show ?thesis by blast
qed

lemma kim_manages:
  "is_global_user_manager (load office kim)" "has_permission (load office kim) ''user.manage'' None Company"
  by (simp_all add: is_global_user_manager_def has_permission_def load_def office_def office_role_def people_defs
      role_counts_def scope_allows_def)

text \<open>Kim makes Bob the CEO; Ann, who was, becomes staff.\<close>

theorem company_has_one_ceo_witness:
  "acc_role ann = ''CEO''
   \<and> (\<exists>c. account_of (snd (assign_company_ceo kim ''x'' 2 office)) 1 = Some c
        \<and> \<not> has_ceo_role (snd (assign_company_ceo kim ''x'' 2 office)) c)
   \<and> (\<exists>b. account_of (snd (assign_company_ceo kim ''x'' 2 office)) 2 = Some b \<and> acc_role b = ''CEO'')"
proof -
  let ?r = "assign_company_ceo kim ''x'' 2 office"
  have page: "first_page office = [ann, bob, kim]"
    by (simp add: first_page_def office_def people_defs)
  have low: "lower ''x'' = ''x''" by code_simp
  have roles: "system_role office ''CEO'' (Some ''x'') = Inr (office_role 11 ''CEO'' [(''user.manage'', Company)])"
    "system_role office ''Staff'' (Some ''x'') = Inr (office_role 12 ''Staff'' [])"
    by (simp_all add: system_role_def office_def office_role_def role_named_def)
  have "\<exists>b t. ?r = (Inr b, t) \<and> acc_role b = ''CEO''"
    unfolding assign_company_ceo_def Let_def page low
    using kim_manages roles
    by (simp add: require_permission_def unless_def transaction_def people_defs)
  then obtain b where ok: "?r = (Inr b, snd ?r)" and b: "acc_role b = ''CEO''" by auto
  have "length (account_rows office) \<le> 100" by (simp add: office_def)
  from company_has_one_ceo [OF office_inv this ok] b low show ?thesis
    by (auto simp: office_def people_defs)
qed

section \<open>What the routes leave open\<close>

text \<open>An account beyond the first hundred cannot be made CEO, and a CEO there is not demoted.\<close>

lemma ceo_beyond_first_page:
  assumes "i \<notin> acc_id ` set (first_page s)" "has_permission (load s me) ''user.manage'' None Company"
    "is_global_user_manager (load s me)"
  shows "assign_company_ceo me company i s = (raise 404 ''Employee not found in this company'', s)"
proof -
  have "find (\<lambda>a. acc_id a = i) (filter (\<lambda>a. acc_company a = lower company) (first_page s)) = None"
    using assms(1) by (auto simp: find_None_iff)
  with assms(2,3) show ?thesis
    by (simp add: assign_company_ceo_def Let_def require_permission_def unless_def transaction_def)
qed

text \<open>
  A manager of one company sets the password of an account with global grants in that company:
  Ann takes over Kim's account.
\<close>

definition only_password :: "string \<Rightarrow> managed_user_update" where
  "only_password pw =
     \<lparr>mu_name = None, mu_dept = None, mu_department_ids = None, mu_role = None, mu_password = Some pw,
      mu_email = None, mu_active = None, mu_role_ids = None, mu_owned = None\<rparr>"

lemma ann_manages:
  "\<not> has_permission (load office ann) ''user.read'' None Global"
  "\<not> has_permission (load office ann) ''user.manage'' None Global"
  "has_permission (load office ann) ''user.manage'' None Company"
  by (simp_all add: has_permission_def load_def office_def office_role_def people_defs role_counts_def scope_allows_def)

lemma company_manager_sets_admin_password:
  "\<not> holds_global (load office ann) \<and> privileged office 3
   \<and> fst (update_managed_user office_crypto office_settings 0 ann 3 (only_password ''chosen by ann'') [] office)
       = Inr (set_password ''chosen by ann'' kim)"
proof -
  have kim: "account_of office 3 = Some kim" "acc_id kim = 3" "acc_company kim = ''x''" "acc_id ann = 1"
    "u_company (load office ann) = ''x''" "u_company (load office kim) = ''x''" "user_id (load office ann) = 1"
    by (simp_all add: office_def people_defs load_fields)
  have man: "manageable (load office ann) 3 office = Inr kim"
    using ann_manages kim by (simp add: manageable_def require_permission_def viewed_account_def identity_scope_def
        is_global_user_manager_def unless_def)
  have "utf8_length ''chosen by ann'' = 13" by (simp add: utf8_length_def)
  moreover have "owned_departments office kim = []" "acc_ownerships kim = []"
    by (simp_all add: owned_departments_def people_defs List.map_filter_def)
  moreover have "owner_conflicts office i [] = []" for i by (simp add: owner_conflicts_def)
  moreover have "kim\<lparr>acc_name := acc_name kim\<rparr> = kim" by simp
  ultimately have "changed_user office_crypto office_settings (load office ann) (only_password ''chosen by ann'') [] office kim
      = Inr (set_password ''chosen by ann'' kim)"
    using kim
    by (simp add: changed_user_def only_password_def update_departments_def update_primary_role_def update_roles_def
        update_ownership_def ensure_single_owner_def update_email_def update_active_def update_password_def
        get_password_hash_def unless_def or_else_def)
  with man ann_plain show ?thesis by (simp add: update_managed_user_def transaction_def)
qed

text \<open>
  Changing a password leaves reset links alone, resetting one leaves personal tokens alone, and
  inviting a deactivated account again leaves its roles alone.
\<close>

lemma issue_tokens_grants:
  assumes "issue_tokens C cfg now a rq p s = Inr (ts, t)"
  shows "reset_rows t = reset_rows s"
  by (rule issue_tokens_Inr [OF assms]) simp

lemma change_password_keeps_links:
  "reset_rows (snd (change_password C cfg limit now rq me cur new salt s)) = reset_rows s"
proof -
  have "reset_rows t = reset_rows s" if "issue_tokens C cfg now b rq p
      (revoke_refresh_sessions now k (put_account b s)) = Inr (ts, t)" for b p k ts t
    using issue_tokens_grants [OF that] by (simp add: revoke_refresh_sessions_def)
  then show ?thesis
    by (auto simp: change_password_def transaction_def guard_simps split: sum.splits option.splits)
qed

lemma reset_password_keeps_tokens:
  "token_rows (snd (reset_password C cfg limit now rq t pw salt s)) = token_rows s"
  by (auto simp: reset_password_def transaction_def guard_simps revoke_refresh_sessions_def void_grants_def
      split: sum.splits)

lemma reinvited_keeps_roles:
  "acc_roles (fst (invited_account h v (Some a) s)) = acc_roles a"
  by (simp add: invited_account_def set_password_def Let_def)

end
