(* ===== verification/Organisation.thy ===== *)
theory Organisation
  imports Office Governance
begin

text \<open>
  The department routes of \<open>src/api/routers/auth.py\<close>: creation, change and deletion of a
  department of the caller's company, with every table a department's name is copied into
  (accounts, articles, chunks, drafts, gaps, feature flags) or its id refers to (memberships,
  ownerships, article audiences). The loaded \<open>departments\<close> of an article are rows of the
  department table, so writing a row writes it there too.
\<close>

section \<open>Rows\<close>

record chunk_row =
  ck_article :: uuid
  ck_department :: string

record feature_flag =
  ff_key :: string
  ff_department :: "string option"

text \<open>The columns of a department that only describe it.\<close>

record department_profile =
  dp_department :: uuid
  dp_description :: string
  dp_contact :: "string option"

record organisation =
  people :: accounts
  profile_rows :: "department_profile list"
  article_rows :: "article list"
  chunk_rows :: "chunk_row list"
  gap_rows :: "gap list"
  flag_rows :: "feature_flag list"
  approver_rules :: "approver_rule list"

record department_input =
  di_name :: string
  di_description :: string
  di_contact :: "string option"

record department_update =
  du_name :: "string option"
  du_description :: "string option"
  du_active :: "bool option"
  du_contact :: "string option"
  du_review :: "bool option"

abbreviation departments_of :: "organisation \<Rightarrow> department list" where
  "departments_of s \<equiv> department_rows (people s)"

abbreviation on_people :: "(accounts \<Rightarrow> accounts) \<Rightarrow> organisation \<Rightarrow> organisation" where
  "on_people f s \<equiv> s\<lparr>people := f (people s)\<rparr>"

text \<open>\<open>scalar_one_or_none\<close> raises when a second row matches.\<close>

definition one_or_none :: "('r \<Rightarrow> bool) \<Rightarrow> 'r list \<Rightarrow> 'r option result" where
  "one_or_none P rows =
     (case filter P rows of
        [] \<Rightarrow> Inr None | [r] \<Rightarrow> Inr (Some r) | _ \<Rightarrow> raise 500 ''MultipleResultsFound'')"

section \<open>Creating a department\<close>

definition create_department ::
  "account \<Rightarrow> department_input \<Rightarrow> organisation \<Rightarrow> department result \<times> organisation" where
  "create_department me p s =
     (let u = load (people s) me in
      transaction s
       (and_then (require_permission u ''user.manage'') (\<lambda>_.
        case normalize_department_name (Some (di_name p)) of
          None \<Rightarrow> raise 422 ''Department name cannot be blank''
        | Some name \<Rightarrow>
            and_then (one_or_none (\<lambda>d. dept_company d = u_company u \<and> lower (dept_name d) = lower name)
                        (departments_of s)) (\<lambda>existing.
            and_then (unless (existing \<noteq> None) 409 ''Department already exists'') (\<lambda>_.
              let i = fresh_row (people s);
                  d = \<lparr>dept_id = i, dept_company = u_company u, dept_name = name, dept_active = True,
                       review_required = True, auto_publish_by = None\<rparr>
              in Inr (d, on_people (record_audit (Some (acc_id me)) ''department_create'' ''department'' i
                                       ''success'')
                           (s\<lparr>people := (people s)\<lparr>department_rows := departments_of s @ [d],
                                                   fresh_row := Suc i\<rparr>,
                              profile_rows := profile_rows s @
                                [\<lparr>dp_department = i, dp_description = strip (di_description p),
                                  dp_contact = (if truthy (di_contact p) then map_option lower (di_contact p)
                                                else None)\<rparr>]\<rparr>)))))))"

section \<open>Changing a department\<close>

definition department_for_management :: "user \<Rightarrow> uuid \<Rightarrow> organisation \<Rightarrow> department result" where
  "department_for_management u i s =
     (case find (\<lambda>d. dept_id d = i \<and> dept_company d = u_company u) (departments_of s) of
        None \<Rightarrow> raise 404 ''Department not found'' | Some d \<Rightarrow> Inr d)"

definition put_department :: "department \<Rightarrow> organisation \<Rightarrow> organisation" where
  "put_department d s =
     s\<lparr>people := (people s)\<lparr>department_rows := put_row dept_id d (departments_of s)\<rparr>,
       article_rows := map (\<lambda>x. x\<lparr>a_departments := put_row dept_id d (a_departments x)\<rparr>)
                         (article_rows s)\<rparr>"

text \<open>
  The copies of a name. The accounts, articles, drafts and gaps of the company are renamed, the
  chunks of its articles that now carry the new name, and the feature flags of everyone.
\<close>

definition renamed_text :: "string \<Rightarrow> string \<Rightarrow> string option \<Rightarrow> string option" where
  "renamed_text old name t = (if t = Some old then Some name else t)"

definition rename_copies :: "string \<Rightarrow> string \<Rightarrow> string \<Rightarrow> organisation \<Rightarrow> organisation" where
  "rename_copies company old name s =
     (let articles = map (\<lambda>x. if a_company x = company \<and> a_dept x = old then x\<lparr>a_dept := name\<rparr> else x)
                       (article_rows s);
          touched = article_id ` set (filter (\<lambda>x. a_company x = company \<and> a_dept x = name) articles)
      in s\<lparr>people := (people s)\<lparr>
             account_rows := map (\<lambda>a. if acc_company a = company
                 then a\<lparr>acc_dept := renamed_text old name (acc_dept a)\<rparr> else a) (account_rows (people s)),
             draft_rows := map (\<lambda>d. if d_company d = company
                 then d\<lparr>d_dept := renamed_text old name (d_dept d)\<rparr> else d) (draft_rows (people s))\<rparr>,
           article_rows := articles,
           chunk_rows := map (\<lambda>c. if ck_department c = old \<and> ck_article c \<in> touched
                                  then c\<lparr>ck_department := name\<rparr> else c) (chunk_rows s),
           gap_rows := map (\<lambda>g. if gap_company g = company
                 then g\<lparr>gap_dept := renamed_text old name (gap_dept g)\<rparr> else g) (gap_rows s),
           flag_rows := map (\<lambda>f. f\<lparr>ff_department := renamed_text old name (ff_department f)\<rparr>)
                          (flag_rows s)\<rparr>)"

definition rename_department ::
  "department \<Rightarrow> string option \<Rightarrow> organisation \<Rightarrow> (department \<times> organisation) result" where
  "rename_department d requested s =
     (case requested of
        None \<Rightarrow> Inr (d, s)
      | Some t \<Rightarrow>
          (case normalize_department_name (Some t) of
             None \<Rightarrow> raise 422 ''Department name cannot be blank''
           | Some name \<Rightarrow>
               and_then (one_or_none (\<lambda>e. dept_company e = dept_company d \<and> dept_id e \<noteq> dept_id d
                                         \<and> lower (dept_name e) = lower name) (departments_of s)) (\<lambda>duplicate.
               and_then (unless (duplicate \<noteq> None) 409 ''Department already exists'') (\<lambda>_.
                 Inr (d\<lparr>dept_name := name\<rparr>, rename_copies (dept_company d) (dept_name d) name s)))))"

definition describe_department :: "department_update \<Rightarrow> uuid \<Rightarrow> organisation \<Rightarrow> organisation" where
  "describe_department p i s =
     s\<lparr>profile_rows := map (\<lambda>q. if dp_department q \<noteq> i then q
          else q\<lparr>dp_description := (case du_description p of None \<Rightarrow> dp_description q | Some t \<Rightarrow> strip t),
                 dp_contact := (case du_contact p of None \<Rightarrow> dp_contact q | Some t \<Rightarrow> Some (lower t))\<rparr>)
        (profile_rows s)\<rparr>"

definition may_waive_review :: "user \<Rightarrow> bool" where
  "may_waive_review u = may_self_approve u"

definition set_review_policy :: "user \<Rightarrow> bool option \<Rightarrow> department \<Rightarrow> department result" where
  "set_review_policy u wanted d =
     (case wanted of
        None \<Rightarrow> Inr d
      | Some r \<Rightarrow>
          if r = review_required d then Inr d
          else and_then (unless (\<not> r \<and> \<not> may_waive_review u) 403
                 ''Only an Admin or CEO can let a department publish without review'') (\<lambda>_.
               Inr (d\<lparr>review_required := r,
                      auto_publish_by := (if r then None else Some (user_id u))\<rparr>)))"

definition update_department ::
  "account \<Rightarrow> uuid \<Rightarrow> department_update \<Rightarrow> organisation \<Rightarrow> department result \<times> organisation" where
  "update_department me i p s =
     (let u = load (people s) me in
      transaction s
       (and_then (require_permission u ''user.manage'') (\<lambda>_.
        and_then (department_for_management u i s) (\<lambda>d.
        and_then (unless (du_name p = None \<and> du_description p = None \<and> du_active p = None
                          \<and> du_contact p = None \<and> du_review p = None) 422
                    ''Provide a new name, description, active status or review policy'') (\<lambda>_.
        and_then (rename_department d (du_name p) s) (\<lambda>(d1, s1).
        and_then (set_review_policy u (du_review p)
                    (d1\<lparr>dept_active := (case du_active p of None \<Rightarrow> dept_active d1 | Some b \<Rightarrow> b)\<rparr>)) (\<lambda>d2.
          Inr (d2, on_people (record_audit (Some (acc_id me)) ''department_update'' ''department'' i ''success'')
                     (put_department d2 (describe_department p i s1))))))))))"

section \<open>Deleting a department\<close>

fun article_status_name :: "article_status \<Rightarrow> string" where
  "article_status_name Draft_article = ''draft''"
| "article_status_name Pending_review = ''pending_review''"
| "article_status_name Published = ''published''"
| "article_status_name Archived = ''archived''"
| "article_status_name Deleted = ''deleted''"

fun separated :: "string \<Rightarrow> string list \<Rightarrow> string" where
  "separated sep [] = []"
| "separated sep [x] = x"
| "separated sep (x # xs) = x @ sep @ separated sep xs"

text \<open>The articles that are still content of a department.\<close>

definition articles_of_department :: "department \<Rightarrow> organisation \<Rightarrow> article list" where
  "articles_of_department d s =
     filter (\<lambda>x. a_company x = dept_company d \<and> a_dept x = dept_name d \<and> a_status x \<noteq> Deleted)
       (article_rows s)"

definition references :: "department \<Rightarrow> organisation \<Rightarrow> (string \<times> nat) list" where
  "references d s =
     [(''users'', count_rows (\<lambda>a. acc_company a = dept_company d \<and> acc_dept a = Some (dept_name d))
                    (account_rows (people s))),
      (''user memberships'', count_rows (\<lambda>a. dept_id d \<in> set (acc_departments a)) (account_rows (people s))),
      (''articles'', length (articles_of_department d s)),
      (''pending drafts'', count_rows (\<lambda>x. d_company x = dept_company d \<and> d_dept x = Some (dept_name d)
                                         \<and> d_status x = Pending) (draft_rows (people s))),
      (''owners'', count_rows (\<lambda>a. dept_id d \<in> fst ` set (acc_ownerships a)) (account_rows (people s))),
      (''feature flags'', count_rows (\<lambda>f. ff_department f = Some (dept_name d)) (flag_rows s))]"

definition in_use_detail :: "department \<Rightarrow> organisation \<Rightarrow> string" where
  "in_use_detail d s =
     (let used = map (\<lambda>(label, n). label @ '' ('' @ show_nat n @ '')'')
                   (filter (\<lambda>(_, n). n \<noteq> 0) (references d s));
          articles = sort_key a_title (articles_of_department d s);
          named = map (\<lambda>x. a_title x @ '' ['' @ article_status_name (a_status x) @ '']'') (take 5 articles)
      in ''Department is still in use by '' @ separated '', '' used @ ''.''
         @ (if articles = [] then []
            else '' Articles: '' @ separated ''; '' named
                 @ (if length articles > length named then ''; ...'' else []) @ ''.'')
         @ '' Deactivate it instead of deleting it.'')"

definition remove_department :: "department \<Rightarrow> organisation \<Rightarrow> organisation" where
  "remove_department d s =
     s\<lparr>people := (people s)\<lparr>department_rows := filter (\<lambda>e. dept_id e \<noteq> dept_id d) (departments_of s)\<rparr>,
       profile_rows := filter (\<lambda>q. dp_department q \<noteq> dept_id d) (profile_rows s),
       article_rows := map (\<lambda>x. x\<lparr>a_departments := filter (\<lambda>e. dept_id e \<noteq> dept_id d) (a_departments x)\<rparr>)
                         (article_rows s),
       gap_rows := map (\<lambda>g. if gap_company g = dept_company d \<and> gap_dept g = Some (dept_name d)
                            then g\<lparr>gap_dept := None\<rparr> else g) (gap_rows s)\<rparr>"

definition delete_department ::
  "account \<Rightarrow> uuid \<Rightarrow> organisation \<Rightarrow> uuid result \<times> organisation" where
  "delete_department me i s =
     (let u = load (people s) me in
      transaction s
       (and_then (require_permission u ''user.manage'') (\<lambda>_.
        and_then (department_for_management u i s) (\<lambda>d.
        and_then (unless (\<exists>n \<in> snd ` set (references d s). n \<noteq> 0) 409 (in_use_detail d s)) (\<lambda>_.
          Inr (i, on_people (record_audit (Some (acc_id me)) ''department_delete'' ''department'' i ''success'')
                    (remove_department d s)))))))"

text \<open>The members route, on the people of the organisation.\<close>

definition set_department_members ::
  "account \<Rightarrow> uuid \<Rightarrow> uuid list \<Rightarrow> organisation \<Rightarrow> uuid list result \<times> organisation" where
  "set_department_members me i ids s =
     (case replace_department_members me i ids (people s) of (r, t) \<Rightarrow> (r, s\<lparr>people := t\<rparr>))"

section \<open>When two views agree\<close>

lemma some_meets: "(Some ` A \<union> {Some b}) \<inter> Some ` C \<noteq> {} \<longleftrightarrow> C \<inter> insert b A \<noteq> {}"
  by auto

lemma can_view_cong:
  assumes user: "user_id v = user_id u" "u_company v = u_company u" "u_role v = u_role u"
      "u_roles v = u_roles u"
    and article: "article_id y = article_id x" "a_company y = a_company x" "owner_id y = owner_id x"
      "a_status y = a_status x" "lifecycle_status y = lifecycle_status x" "visibility y = visibility x"
      "sensitivity y = sensitivity x" "user_permissions y = user_permissions x" "sources y = sources x"
    and ids: "shares_department_id v y = shares_department_id u x"
    and members: "member_department_names v \<inter> article_department_names y = {} \<longleftrightarrow>
      member_department_names u \<inter> article_department_names x = {}"
    and owned: "owned_department_names v \<inter> insert (a_dept y) (set (map dept_name (a_departments y))) = {} \<longleftrightarrow>
      owned_department_names u \<inter> insert (a_dept x) (set (map dept_name (a_departments x))) = {}"
  shows "can_view_article v y = can_view_article u x"
proof -
  have scope: "scope_allows g sc v (Some (article_resource y)) = scope_allows g sc u (Some (article_resource x))"
    for g sc
    using user article owned some_meets [of "set (map dept_name (a_departments y))" "a_dept y" "owned_department_names v"]
      some_meets [of "set (map dept_name (a_departments x))" "a_dept x" "owned_department_names u"]
    by (auto simp: scope_allows_def article_resource_def same_tenant_def split: option.splits scope.splits)
  have plain: "scope_allows g sc v None = scope_allows g sc u None" for g sc
    by (simp add: scope_allows_def split: option.splits)
  have counts: "role_counts v = role_counts u" by (auto simp: role_counts_def fun_eq_iff user split: option.split)
  have hp: "has_permission v key (Some (article_resource y)) sc = has_permission u key (Some (article_resource x)) sc"
    for key sc unfolding has_permission_def by (simp add: user scope counts)
  then have hps: "has_permission v key (Some (article_resource y)) = has_permission u key (Some (article_resource x))"
    for key by (intro ext)
  have hp0: "has_permission v key None sc = has_permission u key None sc" for key sc
    unfolding has_permission_def by (simp add: user plain counts)
  have full: "has_full_company_article_access v = has_full_company_article_access u"
    by (simp add: has_full_company_article_access_def hp0 privileged_role_def user)
  have explicit: "explicit_user_effect v y = explicit_user_effect u x"
    by (simp only: explicit_user_effect_def user article)
  have acl: "source_acl_allows v y = source_acl_allows u x"
    by (simp only: source_acl_allows_def governed_by_def user article ids)
  have gov: "governance_access v y = governance_access u x"
    by (simp only: governance_access_def hps)
  have access: "can_access_article_departments v y = can_access_article_departments u x"
    by (simp only: can_access_article_departments_def hp0 full members)
  show ?thesis
    by (simp only: can_view_article_def hps full ids user article explicit acl gov access)
qed

lemma image_meets: "inj_on f N \<Longrightarrow> A \<subseteq> N \<Longrightarrow> B \<subseteq> N \<Longrightarrow> f ` A \<inter> f ` B = {} \<longleftrightarrow> A \<inter> B = {}"
  by (metis image_is_empty inj_on_image_Int)

section \<open>Well-formed organisations\<close>

definition company_names :: "organisation \<Rightarrow> string \<Rightarrow> string set" where
  "company_names s c = dept_name ` {d \<in> set (departments_of s). dept_company d = c}"

definition article_placed :: "organisation \<Rightarrow> article \<Rightarrow> bool" where
  "article_placed s x =
     (set (a_departments x) \<subseteq> {d \<in> set (departments_of s). dept_company d = a_company x}
      \<and> (a_status x \<noteq> Deleted \<longrightarrow> a_dept x \<in> company_names s (a_company x)))"

definition account_placed :: "organisation \<Rightarrow> account \<Rightarrow> bool" where
  "account_placed s a =
     (set (acc_departments a) \<union> fst ` set (acc_ownerships a) \<subseteq> dept_id ` set (departments_of s))"

definition organisation_inv :: "organisation \<Rightarrow> bool" where
  "organisation_inv s =
     (keyed dept_id (fresh_row (people s)) (departments_of s)
      \<and> (\<forall>d \<in> set (departments_of s). dept_name d \<noteq> [])
      \<and> (\<forall>d \<in> set (departments_of s). \<forall>e \<in> set (departments_of s).
           dept_company d = dept_company e \<and> lower (dept_name d) = lower (dept_name e) \<longrightarrow> d = e)
      \<and> (\<forall>a \<in> set (account_rows (people s)). account_placed s a)
      \<and> (\<forall>x \<in> set (article_rows s). article_placed s x))"

lemma load_department_fields:
  "member_department_names (load s a) =
     dept_name ` {d \<in> set (department_rows s). dept_id d \<in> set (acc_departments a) \<and> dept_active d
                    \<and> dept_company d = acc_company a}"
  "dept_id ` set (u_departments (load s a)) =
     dept_id ` {d \<in> set (department_rows s). dept_id d \<in> set (acc_departments a)}"
  by (auto simp: member_department_names_def load_def)

lemma load_owned:
  assumes "unique_key dept_id (department_rows s)"
  shows "owned_department_names (load s a) =
     dept_name ` {d \<in> set (department_rows s). (dept_id d, True) \<in> set (acc_ownerships a) \<and> dept_active d
                    \<and> dept_company d = acc_company a}"
proof -
  have "mgr_department m \<in> set (department_rows s) \<and> (dept_id (mgr_department m), mgr_active m) \<in> set (acc_ownerships a)"
    if "m \<in> set (u_department_ownerships (load s a))" for m
    using that by (auto simp: load_def List.map_filter_def dest: get_row_SomeD)
  moreover have "\<lparr>mgr_active = b, mgr_department = d\<rparr> \<in> set (u_department_ownerships (load s a))"
    if "d \<in> set (department_rows s)" "(dept_id d, b) \<in> set (acc_ownerships a)" for d b
    using that unique_key_get_row [OF assms that(1)]
    by (auto simp: load_def List.map_filter_def image_iff intro!: exI [of _ "dept_id d"] exI [of _ b])
  ultimately show ?thesis
    by (force simp: owned_department_names_def load_def)
qed

lemma article_names_nonempty:
  assumes "\<forall>n \<in> insert (a_dept x) (dept_name ` set (a_departments x)). n \<noteq> []"
  shows "article_department_names x = insert (a_dept x) (dept_name ` {d \<in> set (a_departments x). dept_active d})"
proof -
  have 1: "a_dept x \<noteq> []" and "\<forall>d \<in> set (a_departments x). dept_name d \<noteq> []" using assms by auto
  then show ?thesis by (auto simp: article_department_names_def)
qed

lemma placed_names:
  assumes "organisation_inv s" "x \<in> set (article_rows s)" "a_status x \<noteq> Deleted"
  shows "set (a_departments x) \<subseteq> {d \<in> set (departments_of s). dept_company d = a_company x}"
    "a_dept x \<in> company_names s (a_company x)"
    "article_department_names x = insert (a_dept x) (dept_name ` {d \<in> set (a_departments x). dept_active d})"
proof -
  have placed: "article_placed s x" and names: "\<forall>d \<in> set (departments_of s). dept_name d \<noteq> []"
    using assms(1,2) by (simp_all add: organisation_inv_def)
  show 1: "set (a_departments x) \<subseteq> {d \<in> set (departments_of s). dept_company d = a_company x}"
    and 2: "a_dept x \<in> company_names s (a_company x)"
    using placed assms(3) by (simp_all add: article_placed_def)
  have "insert (a_dept x) (dept_name ` set (a_departments x)) \<subseteq> company_names s (a_company x)"
    using 1 2 by (auto simp: company_names_def)
  moreover have "\<forall>n \<in> company_names s (a_company x). n \<noteq> []"
    using names by (auto simp: company_names_def)
  ultimately have "\<forall>n \<in> insert (a_dept x) (dept_name ` set (a_departments x)). n \<noteq> []"
    by (meson subsetD)
  then show "article_department_names x = insert (a_dept x) (dept_name ` {d \<in> set (a_departments x). dept_active d})"
    by (rule article_names_nonempty)
qed

lemma view_under_renaming:
  assumes inv: "organisation_inv s"
    and rows: "departments_of t = map g (departments_of s)" "role_rows (people t) = role_rows (people s)"
    and g: "\<And>d. d \<in> set (departments_of s) \<Longrightarrow>
      dept_id (g d) = dept_id d \<and> dept_company (g d) = dept_company d \<and> dept_active (g d) = dept_active d"
    and f: "\<And>d. d \<in> set (departments_of s) \<Longrightarrow> dept_company d = c \<Longrightarrow> dept_name (g d) = f (dept_name d)"
      "inj_on f (company_names s c)" "[] \<notin> f ` company_names s c"
    and a: "acc_company a = c" "b = a\<lparr>acc_dept := z\<rparr>"
    and x: "x \<in> set (article_rows s)" "a_status x \<noteq> Deleted" "a_company x = c"
      "y = x\<lparr>a_dept := f (a_dept x), a_departments := map g (a_departments x)\<rparr>"
  shows "can_view_article (load (people t) b) y = can_view_article (load (people s) a) x"
proof -
  note placed = placed_names [OF inv x(1,2), unfolded x(3)]
  have uniq: "unique_key dept_id (departments_of s)" using inv by (simp add: organisation_inv_def keyed_def)
  have uniq': "unique_key dept_id (departments_of t)"
    using uniq g by (simp add: unique_key_def rows comp_def cong: map_cong)
  have move: "dept_name ` {d \<in> set (departments_of t). P (dept_id d) \<and> dept_active d \<and> dept_company d = c}
      = f ` dept_name ` {d \<in> set (departments_of s). P (dept_id d) \<and> dept_active d \<and> dept_company d = c}" for P
    using g f(1) by (auto simp: rows image_iff) metis+
  have within: "dept_name ` {d \<in> set (departments_of s). P d \<and> dept_company d = c} \<subseteq> company_names s c" for P
    by (auto simp: company_names_def)
  define M where "M = member_department_names (load (people s) a)"
  define W where "W = owned_department_names (load (people s) a)"
  have M: "member_department_names (load (people t) b) = f ` M" "M \<subseteq> company_names s c"
    using move [of "\<lambda>i. i \<in> set (acc_departments a)"]
    by (auto simp: M_def load_department_fields a company_names_def)
  have W: "owned_department_names (load (people t) b) = f ` W" "W \<subseteq> company_names s c"
    using move [of "\<lambda>i. (i, True) \<in> set (acc_ownerships a)"]
    by (auto simp: W_def load_owned [OF uniq] load_owned [OF uniq'] a company_names_def)
  have fg: "dept_name (g d) = f (dept_name d)" "dept_active (g d) = dept_active d" "dept_id (g d) = dept_id d"
    if "d \<in> set (a_departments x)" for d
    using that placed(1) g f(1) by auto
  have names: "insert (a_dept y) (set (map dept_name (a_departments y)))
      = f ` insert (a_dept x) (set (map dept_name (a_departments x)))"
    using fg by (simp add: x(4) image_image cong: image_cong_simp)
  have here: "insert (a_dept x) (set (map dept_name (a_departments x))) \<subseteq> company_names s c"
    using placed(1,2) by (auto simp: company_names_def)
  have act: "{d \<in> set (a_departments y). dept_active d} = g ` {d \<in> set (a_departments x). dept_active d}"
    using fg by (auto simp: x(4))
  have "article_department_names y = insert (a_dept y) (dept_name ` {d \<in> set (a_departments y). dept_active d})"
  proof -
    have "n \<noteq> []" if "n \<in> insert (a_dept y) (set (map dept_name (a_departments y)))" for n
      using that f(3) here unfolding names by blast
    then show ?thesis by (intro article_names_nonempty) auto
  qed
  also have "\<dots> = f ` article_department_names x"
    using fg unfolding act placed(3) by (simp add: x(4) image_image cong: image_cong_simp)
  finally have N: "article_department_names y = f ` article_department_names x" .
  have here': "article_department_names x \<subseteq> company_names s c" using here by (auto simp: placed(3))
  have ids: "shares_department_id (load (people t) b) y = shares_department_id (load (people s) a) x"
  proof -
    have "dept_id ` set (a_departments y) = dept_id ` set (a_departments x)"
      using fg(3) by (force simp: x(4) image_image)
    moreover have "dept_id ` set (u_departments (load (people t) b)) = dept_id ` set (u_departments (load (people s) a))"
      using g by (auto simp: load_department_fields(2) rows a(2) image_iff) metis+
    ultimately show ?thesis by (simp add: shares_department_id_def)
  qed
  have lf: "user_id (load (people t) b) = user_id (load (people s) a)"
    "u_company (load (people t) b) = u_company (load (people s) a)"
    "u_role (load (people t) b) = u_role (load (people s) a)"
    "u_roles (load (people t) b) = u_roles (load (people s) a)"
    by (simp_all add: load_def a(2) rows)
  have members: "member_department_names (load (people t) b) \<inter> article_department_names y = {} \<longleftrightarrow>
      member_department_names (load (people s) a) \<inter> article_department_names x = {}"
    unfolding M(1) N M_def [symmetric] by (rule image_meets [OF f(2) M(2) here'])
  have owned: "owned_department_names (load (people t) b) \<inter> insert (a_dept y) (set (map dept_name (a_departments y))) = {}
      \<longleftrightarrow> owned_department_names (load (people s) a) \<inter> insert (a_dept x) (set (map dept_name (a_departments x))) = {}"
    unfolding W(1) names W_def [symmetric] by (rule image_meets [OF f(2) W(2) here])
  show ?thesis
    by (rule can_view_cong [OF lf _ _ _ _ _ _ _ _ _ ids members owned]) (simp_all add: x(4))
qed


section \<open>What the routes do\<close>

lemma one_or_none_None: "one_or_none P rows = Inr None \<longleftrightarrow> (\<forall>r \<in> set rows. \<not> P r)"
  using filter_empty_conv [of P rows] by (auto simp: one_or_none_def split: list.splits)

lemma normalized_nonempty: "normalize_department_name n = Some name \<Longrightarrow> name \<noteq> []"
  by (auto simp: normalize_department_name_def Let_def split: if_splits)

lemma managed_department:
  assumes "department_for_management u i s = Inr d"
  shows "d \<in> set (departments_of s)" "dept_id d = i" "dept_company d = u_company u"
  using assms by (auto simp: department_for_management_def find_Some_iff split: option.splits)

lemma create_department_Inr:
  assumes "create_department me p s = (Inr d, t)"
  shows "departments_of t = departments_of s @ [d]" "dept_id d = fresh_row (people s)" "dept_name d \<noteq> []"
    "\<forall>e \<in> set (departments_of s). dept_company e = dept_company d \<longrightarrow> lower (dept_name e) \<noteq> lower (dept_name d)"
    "account_rows (people t) = account_rows (people s)" "role_rows (people t) = role_rows (people s)"
    "article_rows t = article_rows s" "fresh_row (people t) = Suc (fresh_row (people s))"
    "review_required d" "dept_company d = acc_company me"
  using assms
  by (auto simp: create_department_def Let_def guard_simps one_or_none_None record_audit_def load_def
      split: option.splits dest: normalized_nonempty)

lemma rename_copies_same [simp]: "rename_copies c n n s = s"
  by (simp add: rename_copies_def renamed_text_def Let_def map_idI cong: if_cong)

lemma renamed_keeps [simp]:
  "departments_of (rename_copies c old name s) = departments_of s"
  "role_rows (people (rename_copies c old name s)) = role_rows (people s)"
  "fresh_row (people (rename_copies c old name s)) = fresh_row (people s)"
  by (simp_all add: rename_copies_def Let_def)

lemma described_keeps [simp]:
  "people (describe_department p i s) = people s" "article_rows (describe_department p i s) = article_rows s"
  by (simp_all add: describe_department_def)

lemma set_review_policy_Inr:
  assumes "set_review_policy u w d = Inr e"
  shows "dept_id e = dept_id d" "dept_company e = dept_company d" "dept_name e = dept_name d"
    "dept_active e = dept_active d"
    "(review_required e, auto_publish_by e) = (review_required d, auto_publish_by d)
       \<or> review_required e \<and> auto_publish_by e = None
       \<or> \<not> review_required e \<and> review_required d \<and> may_waive_review u \<and> auto_publish_by e = Some (user_id u)"
  using assms by (auto simp: set_review_policy_def guard_simps split: option.splits if_splits)

lemma rename_department_Inr:
  assumes "rename_department d n s = Inr (d1, s1)"
  shows "d1 = d\<lparr>dept_name := dept_name d1\<rparr>" "s1 = rename_copies (dept_company d) (dept_name d) (dept_name d1) s"
    "dept_name d1 = dept_name d \<or> dept_name d1 \<noteq> []
      \<and> (\<forall>e \<in> set (departments_of s). dept_company e = dept_company d \<and> dept_id e \<noteq> dept_id d
           \<longrightarrow> lower (dept_name e) \<noteq> lower (dept_name d1))"
  using assms
  by (auto simp: rename_department_def guard_simps one_or_none_None split: option.splits
      dest: normalized_nonempty)

text \<open>A successful change as a whole: which row, under which name, with which copies.\<close>

lemma update_department_Inr:
  assumes "update_department me i p s = (Inr d2, t)"
  obtains d where "d \<in> set (departments_of s)" "dept_id d = i" "dept_company d = acc_company me"
    "dept_id d2 = i" "dept_company d2 = dept_company d"
    "dept_name d2 = dept_name d \<or> dept_name d2 \<noteq> []
      \<and> (\<forall>e \<in> set (departments_of s). dept_company e = dept_company d \<and> dept_id e \<noteq> i
           \<longrightarrow> lower (dept_name e) \<noteq> lower (dept_name d2))"
    "du_active p = None \<Longrightarrow> dept_active d2 = dept_active d"
    "(review_required d2, auto_publish_by d2) = (review_required d, auto_publish_by d)
       \<or> review_required d2 \<and> auto_publish_by d2 = None
       \<or> \<not> review_required d2 \<and> review_required d \<and> may_waive_review (load (people s) me)
          \<and> auto_publish_by d2 = Some (acc_id me)"
    "t = on_people (record_audit (Some (acc_id me)) ''department_update'' ''department'' i ''success'')
           (put_department d2 (describe_department p i
              (rename_copies (dept_company d) (dept_name d) (dept_name d2) s)))"
proof -
  obtain d d1 s1 where d: "department_for_management (load (people s) me) i s = Inr d"
    and d1: "rename_department d (du_name p) s = Inr (d1, s1)"
    and d2: "set_review_policy (load (people s) me) (du_review p)
        (d1\<lparr>dept_active := (case du_active p of None \<Rightarrow> dept_active d1 | Some b \<Rightarrow> b)\<rparr>) = Inr d2"
    and t: "t = on_people (record_audit (Some (acc_id me)) ''department_update'' ''department'' i ''success'')
           (put_department d2 (describe_department p i s1))"
    using assms by (auto simp: update_department_def Let_def guard_simps)
  note m = managed_department [OF d] and r = rename_department_Inr [OF d1] and q = set_review_policy_Inr [OF d2]
  have e: "dept_id d1 = dept_id d" "dept_company d1 = dept_company d" "dept_active d1 = dept_active d"
    "review_required d1 = review_required d" "auto_publish_by d1 = auto_publish_by d"
    by (subst r(1), simp)+
  show thesis
    using q r(2,3) e m by (intro that [of d]) (simp_all add: t load_def)
qed

lemma delete_department_Inr:
  assumes "delete_department me i s = (Inr k, t)"
  obtains d where "d \<in> set (departments_of s)" "dept_id d = i" "dept_company d = acc_company me"
    "\<forall>a \<in> set (account_rows (people s)). i \<notin> set (acc_departments a) \<and> i \<notin> fst ` set (acc_ownerships a)"
    "\<forall>x \<in> set (article_rows s). a_company x = dept_company d \<and> a_dept x = dept_name d \<longrightarrow> a_status x = Deleted"
    "t = on_people (record_audit (Some (acc_id me)) ''department_delete'' ''department'' i ''success'')
           (remove_department d s)"
proof -
  obtain d where d: "department_for_management (load (people s) me) i s = Inr d"
    and free: "\<forall>n \<in> snd ` set (references d s). n = 0"
    and t: "t = on_people (record_audit (Some (acc_id me)) ''department_delete'' ''department'' i ''success'')
           (remove_department d s)"
    using assms by (auto simp: delete_department_def Let_def guard_simps)
  note m = managed_department [OF d]
  have "count_rows (\<lambda>a. dept_id d \<in> set (acc_departments a)) (account_rows (people s)) = 0"
    "count_rows (\<lambda>a. dept_id d \<in> fst ` set (acc_ownerships a)) (account_rows (people s)) = 0"
    "articles_of_department d s = []"
    using free by (auto simp: references_def)
  then show thesis using m t
    by (intro that [of d]) (auto simp: count_rows_zero articles_of_department_def filter_empty_conv load_def)
qed

section \<open>Runs of the department routes\<close>

text \<open>
  A quiet route leaves \<open>active\<close> and the members of every department alone; activation,
  deactivation and the members route are meant to change who may read what.
\<close>

inductive quiet_step :: "organisation \<Rightarrow> organisation \<Rightarrow> bool" where
  created: "create_department me p s = (r, t) \<Longrightarrow> quiet_step s t"
| updated: "update_department me i q s = (r, t) \<Longrightarrow> du_active q = None \<Longrightarrow> quiet_step s t"
| deleted: "delete_department me i s = (k, t) \<Longrightarrow> quiet_step s t"

inductive department_step :: "organisation \<Rightarrow> organisation \<Rightarrow> bool" where
  quiet: "quiet_step s t \<Longrightarrow> department_step s t"
| switched: "update_department me i q s = (r, t) \<Longrightarrow> department_step s t"
| members: "set_department_members me i ids s = (ks, t) \<Longrightarrow> department_step s t"

lemma transaction_unchanged:
  "create_department me p s = (Inl e, t) \<Longrightarrow> t = s"
  "update_department me i q s = (Inl e, t) \<Longrightarrow> t = s"
  "delete_department me i s = (Inl e, t) \<Longrightarrow> t = s"
  by (auto simp: create_department_def update_department_def delete_department_def Let_def
      dest: transaction_Inl)

lemma organisation_inv_append:
  assumes inv: "organisation_inv s" and d: "dept_id d = fresh_row (people s)" "dept_name d \<noteq> []"
    "\<forall>e \<in> set (departments_of s). dept_company e = dept_company d \<longrightarrow> lower (dept_name e) \<noteq> lower (dept_name d)"
    and t: "departments_of t = departments_of s @ [d]" "account_rows (people t) = account_rows (people s)"
      "article_rows t = article_rows s" "fresh_row (people t) = Suc (fresh_row (people s))"
  shows "organisation_inv t"
proof -
  have key: "keyed dept_id (fresh_row (people t)) (departments_of t)"
    using inv d(1) by (auto simp: organisation_inv_def keyed_def unique_key_def t less_Suc_eq image_iff)
  have "account_placed t a" if "a \<in> set (account_rows (people s))" for a
  proof -
    have "account_placed s a" using inv that by (simp add: organisation_inv_def)
    then show ?thesis unfolding account_placed_def t by auto
  qed
  moreover have "article_placed t x" if "x \<in> set (article_rows s)" for x
  proof -
    have "article_placed s x" using inv that by (simp add: organisation_inv_def)
    then show ?thesis by (auto simp: article_placed_def company_names_def t)
  qed
  moreover have "\<forall>e \<in> set (departments_of t). \<forall>e' \<in> set (departments_of t).
      dept_company e = dept_company e' \<and> lower (dept_name e) = lower (dept_name e') \<longrightarrow> e = e'"
    using inv d(3) unfolding organisation_inv_def t by (metis Un_iff empty_iff insert_iff list.set(1,2) set_append)
  moreover have "\<forall>e \<in> set (departments_of t). dept_name e \<noteq> []"
    using inv d(2) by (simp add: organisation_inv_def t)
  ultimately show ?thesis using key by (simp add: organisation_inv_def t(2,3))
qed

lemma organisation_inv_create:
  assumes "organisation_inv s" "create_department me p s = (Inr d, t)"
  shows "organisation_inv t"
  by (rule organisation_inv_append [OF assms(1) create_department_Inr(2-4,1,5,7,8) [OF assms(2)]])

lemma department_unique:
  assumes "organisation_inv s" "d \<in> set (departments_of s)" "e \<in> set (departments_of s)"
  shows "dept_id d = dept_id e \<Longrightarrow> d = e"
    "dept_company d = dept_company e \<Longrightarrow> lower (dept_name d) = lower (dept_name e) \<Longrightarrow> d = e"
proof -
  assume eq: "dept_id d = dept_id e"
  have "unique_key dept_id (departments_of s)" using assms(1) by (simp add: organisation_inv_def keyed_def)
  from unique_key_get_row [OF this assms(2)] unique_key_get_row [OF this assms(3)] eq
  show "d = e" by (metis option.inject)
next
  assume "dept_company d = dept_company e" "lower (dept_name d) = lower (dept_name e)"
  then show "d = e" using assms unfolding organisation_inv_def by blast
qed

text \<open>
  A change of a department, as a situation: row \<open>d\<close> becomes \<open>d2\<close>, its copies follow. Names of
  the company move along \<open>new_name\<close>, rows along \<open>new_row\<close>.
\<close>

definition changes :: "organisation \<Rightarrow> department \<Rightarrow> department \<Rightarrow> organisation \<Rightarrow> bool" where
  "changes s d d2 t =
     (d \<in> set (departments_of s) \<and> dept_id d2 = dept_id d \<and> dept_company d2 = dept_company d
      \<and> (dept_name d2 = dept_name d \<or> dept_name d2 \<noteq> []
         \<and> (\<forall>e \<in> set (departments_of s). dept_company e = dept_company d \<and> dept_id e \<noteq> dept_id d
              \<longrightarrow> lower (dept_name e) \<noteq> lower (dept_name d2)))
      \<and> departments_of t = put_row dept_id d2 (departments_of s)
      \<and> role_rows (people t) = role_rows (people s) \<and> fresh_row (people t) = fresh_row (people s)
      \<and> account_rows (people t) = map (\<lambda>a. if acc_company a = dept_company d
           then a\<lparr>acc_dept := renamed_text (dept_name d) (dept_name d2) (acc_dept a)\<rparr> else a)
           (account_rows (people s))
      \<and> article_rows t = map (\<lambda>x. (if a_company x = dept_company d \<and> a_dept x = dept_name d
           then x\<lparr>a_dept := dept_name d2\<rparr> else x)\<lparr>a_departments := put_row dept_id d2 (a_departments x)\<rparr>)
           (article_rows s))"

lemma update_changes:
  assumes "update_department me i p s = (Inr d2, t)"
  obtains d where "changes s d d2 t" "du_active p = None \<Longrightarrow> dept_active d2 = dept_active d"
proof (rule update_department_Inr [OF assms])
  fix d
  assume d: "d \<in> set (departments_of s)" "dept_id d = i" "dept_id d2 = i" "dept_company d2 = dept_company d"
    "dept_name d2 = dept_name d \<or> dept_name d2 \<noteq> []
      \<and> (\<forall>e \<in> set (departments_of s). dept_company e = dept_company d \<and> dept_id e \<noteq> i
           \<longrightarrow> lower (dept_name e) \<noteq> lower (dept_name d2))"
    "du_active p = None \<Longrightarrow> dept_active d2 = dept_active d"
    and t: "t = on_people (record_audit (Some (acc_id me)) ''department_update'' ''department'' i ''success'')
           (put_department d2 (describe_department p i
              (rename_copies (dept_company d) (dept_name d) (dept_name d2) s)))"
  have "(if b then x\<lparr>a_dept := n\<rparr> else x)\<lparr>a_departments := put_row dept_id d2 (a_departments (if b then x\<lparr>a_dept := n\<rparr> else x))\<rparr>
      = (if b then x\<lparr>a_dept := n\<rparr> else x)\<lparr>a_departments := put_row dept_id d2 (a_departments x)\<rparr>" for b x n
    by simp
  then have "changes s d d2 t"
    using d by (simp add: changes_def t put_department_def rename_copies_def describe_department_def
        record_audit_def Let_def comp_def)
  then show thesis using d(6) by (rule that)
qed

lemma new_name_fresh:
  assumes "organisation_inv s" "changes s d d2 t" "e \<in> set (departments_of s)"
    "dept_company e = dept_company d" "e \<noteq> d"
  shows "lower (dept_name e) \<noteq> lower (dept_name d2)" "dept_name e \<noteq> dept_name d"
proof -
  have d: "d \<in> set (departments_of s)" using assms(2) by (simp add: changes_def)
  have other: "lower (dept_name e) \<noteq> lower (dept_name d)"
    using department_unique(2) [OF assms(1,3) d assms(4)] assms(5) by blast
  then show "dept_name e \<noteq> dept_name d" by metis
  have "dept_id e \<noteq> dept_id d" using department_unique(1) [OF assms(1,3) d] assms(5) by blast
  then show "lower (dept_name e) \<noteq> lower (dept_name d2)"
    using assms(2-4) other by (auto simp: changes_def)
qed

lemma changed_rows:
  assumes "organisation_inv s" "changes s d d2 t"
  shows "set (departments_of t) = insert d2 (set (departments_of s) - {d})" "d2 \<in> set (departments_of t)"
proof -
  have uniq: "unique_key dept_id (departments_of s)"
    using assms(1) by (simp add: organisation_inv_def keyed_def)
  have d: "d \<in> set (departments_of s)" "dept_id d2 = dept_id d" "departments_of t = put_row dept_id d2 (departments_of s)"
    using assms(2) by (simp_all add: changes_def)
  from set_put_row [of dept_id "departments_of s" d2 d] uniq unique_key_get_row [OF uniq d(1)] d
  show "set (departments_of t) = insert d2 (set (departments_of s) - {d})" by simp
  then show "d2 \<in> set (departments_of t)" by simp
qed

lemma changed_article_placed:
  assumes inv: "organisation_inv s" and ch: "changes s d d2 t"
    and x: "article_placed s x"
    and y: "y = (if a_company x = dept_company d \<and> a_dept x = dept_name d
      then x\<lparr>a_dept := dept_name d2\<rparr> else x)\<lparr>a_departments := put_row dept_id d2 (a_departments x)\<rparr>"
  shows "article_placed t y"
proof -
  note rows = changed_rows [OF inv ch]
  have d: "d \<in> set (departments_of s)" "dept_id d2 = dept_id d" "dept_company d2 = dept_company d"
    using ch by (simp_all add: changes_def)
  have co: "a_company y = a_company x" "a_status y = a_status x" "a_departments y = put_row dept_id d2 (a_departments x)"
    by (simp_all add: y)
  have "f \<in> {e \<in> set (departments_of t). dept_company e = a_company y}" if f: "f \<in> set (a_departments y)" for f
  proof -
    obtain e where that: "e \<in> set (a_departments x)" "f = (if dept_id e = dept_id d2 then d2 else e)"
      using f by (auto simp: co put_row_def)
    have e: "e \<in> set (departments_of s)" "dept_company e = a_company x"
      using x that(1) by (auto simp: article_placed_def)
    show ?thesis
      using that(2) e rows department_unique(1) [OF inv e(1) d(1)] d by (auto simp: co(1) split: if_splits)
  qed
  then have "set (a_departments y) \<subseteq> {e \<in> set (departments_of t). dept_company e = a_company y}" by blast
  moreover have "a_dept y \<in> company_names t (a_company y)" if "a_status y \<noteq> Deleted"
  proof -
    have "a_dept x \<in> company_names s (a_company x)" using x that by (simp add: article_placed_def co)
    then obtain e where e: "e \<in> set (departments_of s)" "dept_company e = a_company x" "dept_name e = a_dept x"
      by (auto simp: company_names_def)
    show ?thesis
    proof (cases "a_company x = dept_company d \<and> a_dept x = dept_name d")
      case True
      then show ?thesis using rows(2) d(3) by (auto simp: y company_names_def)
    next
      case False
      then have "e \<noteq> d" using e by auto
      then have "e \<in> {f \<in> set (departments_of t). dept_company f = a_company x}" using rows(1) e by simp
      then have "dept_name e \<in> company_names t (a_company x)" unfolding company_names_def by (rule imageI)
      then show ?thesis using False e(3) by (auto simp: y)
    qed
  qed
  ultimately show ?thesis by (simp add: article_placed_def)
qed

lemma organisation_inv_changes:
  assumes inv: "organisation_inv s" and ch: "changes s d d2 t"
  shows "organisation_inv t"
proof -
  note rows = changed_rows [OF inv ch]
  have d: "d \<in> set (departments_of s)" "dept_id d2 = dept_id d" "dept_company d2 = dept_company d"
    and t: "departments_of t = put_row dept_id d2 (departments_of s)" "fresh_row (people t) = fresh_row (people s)"
    and names: "dept_name d2 = dept_name d \<or> dept_name d2 \<noteq> []"
    using ch by (auto simp: changes_def)
  have "keyed dept_id (fresh_row (people t)) (departments_of t)"
  proof -
    have "unique_key dept_id (departments_of t)"
      using inv by (simp add: organisation_inv_def keyed_def t(1))
    then show ?thesis using inv d unfolding keyed_def rows(1) t(2) by (auto simp: organisation_inv_def keyed_def)
  qed
  moreover have "\<forall>e \<in> set (departments_of t). dept_name e \<noteq> []"
    using inv names d(1) by (auto simp: organisation_inv_def rows(1))
  moreover have "\<forall>e \<in> set (departments_of t). \<forall>e' \<in> set (departments_of t).
      dept_company e = dept_company e' \<and> lower (dept_name e) = lower (dept_name e') \<longrightarrow> e = e'"
    using new_name_fresh(1) [OF inv ch] department_unique(2) [OF inv] unfolding rows(1)
    by (metis (no_types, lifting) Diff_iff d(3) insert_iff)
  moreover have "account_placed t b" if b: "b \<in> set (account_rows (people t))" for b
  proof -
    obtain a where a: "a \<in> set (account_rows (people s))" "acc_departments b = acc_departments a"
      "acc_ownerships b = acc_ownerships a"
      using b ch by (auto simp: changes_def split: if_splits)
    have "account_placed s a" using inv a(1) by (simp add: organisation_inv_def)
    moreover have "dept_id ` set (departments_of t) = dept_id ` set (departments_of s)"
      using map_key_put_row [of dept_id d2 "departments_of s"] unfolding t by (metis list.set_map)
    ultimately show ?thesis by (simp add: account_placed_def a(2,3))
  qed
  moreover have "article_placed t y" if y: "y \<in> set (article_rows t)" for y
  proof -
    obtain x where x: "x \<in> set (article_rows s)" and "y = (if a_company x = dept_company d \<and> a_dept x = dept_name d
      then x\<lparr>a_dept := dept_name d2\<rparr> else x)\<lparr>a_departments := put_row dept_id d2 (a_departments x)\<rparr>"
      using y ch by (auto simp: changes_def)
    moreover from x inv have "article_placed s x" by (simp add: organisation_inv_def)
    ultimately show ?thesis using changed_article_placed [OF inv ch] by blast
  qed
  ultimately show ?thesis by (simp add: organisation_inv_def)
qed

lemma removed_keeps [simp]:
  "departments_of (remove_department d s) = filter (\<lambda>e. dept_id e \<noteq> dept_id d) (departments_of s)"
  "account_rows (people (remove_department d s)) = account_rows (people s)"
  "role_rows (people (remove_department d s)) = role_rows (people s)"
  "fresh_row (people (remove_department d s)) = fresh_row (people s)"
  "article_rows (remove_department d s) =
     map (\<lambda>x. x\<lparr>a_departments := filter (\<lambda>e. dept_id e \<noteq> dept_id d) (a_departments x)\<rparr>) (article_rows s)"
  by (simp_all add: remove_department_def)

lemma audited_keeps [simp]:
  "departments_of (on_people (record_audit w act k i out) s) = departments_of s"
  "account_rows (people (on_people (record_audit w act k i out) s)) = account_rows (people s)"
  "role_rows (people (on_people (record_audit w act k i out) s)) = role_rows (people s)"
  "fresh_row (people (on_people (record_audit w act k i out) s)) = fresh_row (people s)"
  "article_rows (on_people (record_audit w act k i out) s) = article_rows s"
  by (simp_all add: record_audit_def)

lemma organisation_inv_cong:
  assumes "organisation_inv s" "departments_of t = departments_of s" "fresh_row (people t) = fresh_row (people s)"
    "\<forall>a \<in> set (account_rows (people t)). account_placed s a" "article_rows t = article_rows s"
  shows "organisation_inv t"
  using assms by (simp add: organisation_inv_def account_placed_def article_placed_def company_names_def)

lemma organisation_inv_delete:
  assumes inv: "organisation_inv s" and del: "delete_department me i s = (Inr k, t)"
  shows "organisation_inv t"
proof (rule delete_department_Inr [OF del])
  fix d
  assume d: "d \<in> set (departments_of s)" "dept_id d = i"
    and free: "\<forall>a \<in> set (account_rows (people s)). i \<notin> set (acc_departments a) \<and> i \<notin> fst ` set (acc_ownerships a)"
    and unused: "\<forall>x \<in> set (article_rows s). a_company x = dept_company d \<and> a_dept x = dept_name d \<longrightarrow> a_status x = Deleted"
    and t: "t = on_people (record_audit (Some (acc_id me)) ''department_delete'' ''department'' i ''success'')
           (remove_department d s)"
  have rows: "departments_of t = filter (\<lambda>e. dept_id e \<noteq> i) (departments_of s)" by (simp add: t d(2))
  have "keyed dept_id (fresh_row (people t)) (departments_of t)"
    using inv by (simp add: organisation_inv_def keyed_def unique_key_def rows t distinct_map_filter)
  moreover have "account_placed t a" if a: "a \<in> set (account_rows (people s))" for a
  proof -
    have "account_placed s a" using inv a by (simp add: organisation_inv_def)
    moreover have "dept_id ` set (departments_of t) = dept_id ` set (departments_of s) - {i}"
      by (auto simp: rows)
    ultimately show ?thesis using free a unfolding account_placed_def by auto
  qed
  moreover have "article_placed t (x\<lparr>a_departments := filter (\<lambda>e. dept_id e \<noteq> i) (a_departments x)\<rparr>)"
    if x: "x \<in> set (article_rows s)" for x
  proof -
    have placed: "article_placed s x" using inv x by (simp add: organisation_inv_def)
    have "a_dept x \<in> company_names t (a_company x)" if live: "a_status x \<noteq> Deleted"
    proof -
      obtain e where e: "e \<in> set (departments_of s)" "dept_company e = a_company x" "dept_name e = a_dept x"
        using placed live by (auto simp: article_placed_def company_names_def)
      then have "e \<noteq> d" using unused x live by auto
      then have "dept_id e \<noteq> i" using department_unique(1) [OF inv e(1) d(1)] d(2) by auto
      with e(1,2) have "e \<in> {f \<in> set (departments_of t). dept_company f = a_company x}" by (simp add: rows)
      then have "dept_name e \<in> company_names t (a_company x)" unfolding company_names_def by (rule imageI)
      then show ?thesis by (simp add: e(3))
    qed
    then show ?thesis using placed by (auto simp: article_placed_def rows)
  qed
  moreover have "\<forall>e \<in> set (departments_of t). \<forall>e' \<in> set (departments_of t).
      dept_company e = dept_company e' \<and> lower (dept_name e) = lower (dept_name e') \<longrightarrow> e = e'"
    using department_unique(2) [OF inv] by (auto simp: rows)
  moreover have "\<forall>e \<in> set (departments_of t). dept_name e \<noteq> []"
    using inv by (simp add: organisation_inv_def rows)
  ultimately show ?thesis by (simp add: organisation_inv_def t d(2))
qed

lemma members_Inr:
  assumes "replace_department_members me i ids p = (Inr js, q)"
  shows "i \<in> dept_id ` set (department_rows p)"
    "account_rows q = map (\<lambda>a. a\<lparr>acc_departments := filter (\<lambda>k. k \<noteq> i) (acc_departments a)
        @ (if acc_id a \<in> set ids then [i] else [])\<rparr>) (account_rows p)"
proof -
  obtain d where "find (\<lambda>d. dept_id d = i \<and> dept_company d = u_company (load p me)) (department_rows p) = Some d"
    and q: "account_rows q = map (\<lambda>a. a\<lparr>acc_departments := filter (\<lambda>k. k \<noteq> i) (acc_departments a)
        @ (if acc_id a \<in> set ids then [i] else [])\<rparr>) (account_rows p)"
    using assms by (auto simp: replace_department_members_def Let_def guard_simps split: option.splits)
  then show "i \<in> dept_id ` set (department_rows p)" by (auto simp: find_Some_iff)
  from q show "account_rows q = map (\<lambda>a. a\<lparr>acc_departments := filter (\<lambda>k. k \<noteq> i) (acc_departments a)
        @ (if acc_id a \<in> set ids then [i] else [])\<rparr>) (account_rows p)" .
qed

lemma organisation_inv_members:
  assumes inv: "organisation_inv s" and m: "set_department_members me i ids s = (r, t)"
  shows "organisation_inv t"
proof (cases "replace_department_members me i ids (people s)")
  case (Pair q p)
  have t: "t = s\<lparr>people := p\<rparr>" using m Pair by (simp add: set_department_members_def)
  have "account_placed s b" if b: "b \<in> set (account_rows p)" for b
  proof (cases q)
    case (Inl e)
    then have "p = people s" using Pair
      by (auto simp: replace_department_members_def Let_def dest: transaction_Inl)
    then show ?thesis using b inv by (simp add: organisation_inv_def)
  next
    case (Inr js)
    note p = members_Inr [OF Pair [unfolded Inr]]
    obtain a where a: "a \<in> set (account_rows (people s))" "acc_ownerships b = acc_ownerships a"
      "set (acc_departments b) \<subseteq> insert i (set (acc_departments a))"
      using b unfolding p(2) by force
    moreover have "account_placed s a" using inv a(1) by (simp add: organisation_inv_def)
    ultimately show ?thesis using p(1) unfolding account_placed_def by auto
  qed
  moreover have "department_rows p = departments_of s \<and> fresh_row p = fresh_row (people s)"
    using Pair by (auto simp: replace_department_members_def Let_def transaction_def and_then_def unless_def
        record_audit_def split: option.splits sum.splits if_splits)
  ultimately show ?thesis by (intro organisation_inv_cong [OF inv]) (simp_all add: t)
qed

lemma organisation_inv_quiet:
  assumes "organisation_inv s" "quiet_step s t"
  shows "organisation_inv t"
  using assms(2,1)
proof cases
  case (created me p r)
  then show ?thesis using assms(1) organisation_inv_create transaction_unchanged(1) by (cases r) (metis, metis)
next
  case (updated me i q r)
  then show ?thesis using assms(1) organisation_inv_changes transaction_unchanged(2)
    by (cases r) (metis, metis update_changes)
next
  case (deleted me i k)
  then show ?thesis using assms(1) organisation_inv_delete transaction_unchanged(3) by (cases k) (metis, metis)
qed

lemma organisation_inv_step:
  assumes "organisation_inv s" "department_step s t"
  shows "organisation_inv t"
  using assms(2,1)
proof cases
  case quiet
  then show ?thesis using assms(1) by (rule organisation_inv_quiet [rotated])
next
  case (switched me i q r)
  then show ?thesis using assms(1) organisation_inv_changes transaction_unchanged(2)
    by (cases r) (metis, metis update_changes)
next
  case (members me i ids ks)
  then show ?thesis using assms(1) organisation_inv_members by blast
qed

section \<open>What a quiet route leaves to see\<close>

lemma load_append:
  assumes "account_placed s a" "dept_id d \<notin> dept_id ` set (departments_of s)"
    "departments_of t = departments_of s @ [d]" "role_rows (people t) = role_rows (people s)"
  shows "load (people t) a = load (people s) a"
proof -
  have "dept_id d \<notin> set (acc_departments a)" using assms(1,2) by (auto simp: account_placed_def)
  moreover have "get_row dept_id i (departments_of t) = get_row dept_id i (departments_of s)"
    if "(i, b) \<in> set (acc_ownerships a)" for i b
  proof -
    have "i \<in> dept_id ` set (departments_of s)" using assms(1) that by (force simp: account_placed_def)
    then show ?thesis
      using get_row_None_iff [of dept_id i "departments_of s"]
      by (auto simp: assms(3) get_row_append split: option.splits)
  qed
  ultimately show ?thesis
    by (auto simp: load_def assms(3,4) List.map_filter_def intro!: map_cong filter_cong)
qed

lemma load_removed:
  assumes "k \<notin> set (acc_departments a)" "k \<notin> fst ` set (acc_ownerships a)"
    "departments_of t = filter (\<lambda>e. dept_id e \<noteq> k) (departments_of s)" "role_rows (people t) = role_rows (people s)"
  shows "load (people t) a = load (people s) a"
proof -
  have "get_row dept_id i (filter (\<lambda>e. dept_id e \<noteq> k) rows) = get_row dept_id i rows" if "i \<noteq> k" for i rows
    using that by (induction rows) auto
  then have "get_row dept_id i (departments_of t) = get_row dept_id i (departments_of s)"
    if "(i, b) \<in> set (acc_ownerships a)" for i b
    using assms(2) that unfolding assms(3) by force
  moreover have "filter (\<lambda>d. dept_id d \<in> set (acc_departments a)) (departments_of t)
      = filter (\<lambda>d. dept_id d \<in> set (acc_departments a)) (departments_of s)"
    using assms(1) by (auto simp: assms(3) intro: filter_cong)
  ultimately show ?thesis
    by (auto simp: load_def assms(4) List.map_filter_def intro!: map_cong filter_cong)
qed

lemma meets_without: "n \<notin> A \<Longrightarrow> B - {n} \<subseteq> B' \<Longrightarrow> B' \<subseteq> B \<Longrightarrow> A \<inter> B' = {} \<longleftrightarrow> A \<inter> B = {}"
  by blast

text \<open>Dropping an audience nobody belongs to changes nothing for the readers of the company.\<close>

lemma view_without_audience:
  assumes inv: "organisation_inv s" and d: "d \<in> set (departments_of s)"
    and a: "dept_id d \<notin> set (acc_departments a)" "dept_id d \<notin> fst ` set (acc_ownerships a)"
    and x: "x \<in> set (article_rows s)" "a_status x \<noteq> Deleted" "acc_company a = a_company x"
      "a_company x = dept_company d \<Longrightarrow> a_dept x \<noteq> dept_name d"
      "y = x\<lparr>a_departments := filter (\<lambda>e. dept_id e \<noteq> dept_id d) (a_departments x)\<rparr>"
  shows "can_view_article (load (people s) a) y = can_view_article (load (people s) a) x"
proof -
  note placed = placed_names [OF inv x(1,2)]
  have uniq: "unique_key dept_id (departments_of s)" using inv by (simp add: organisation_inv_def keyed_def)
  have other: "dept_name e \<noteq> dept_name d" if "e \<in> set (departments_of s)" "dept_company e = dept_company d" "dept_id e \<noteq> dept_id d" for e
    using department_unique(2) [OF inv that(1) d that(2)] that(3) by auto
  have kept: "set (a_departments y) = {e \<in> set (a_departments x). dept_id e \<noteq> dept_id d}" by (simp add: x(5))
  have dropped: "e = d" if "e \<in> set (a_departments x)" "dept_id e = dept_id d" for e
    using department_unique(1) [OF inv _ d that(2)] that(1) placed(1) by auto
  have gone: "dept_company d = a_company x" if "e \<in> set (a_departments x)" "dept_id e = dept_id d" for e
    using dropped [OF that] that(1) placed(1) by auto
  have foreign: "dept_name d \<notin> member_department_names (load (people s) a)"
    "dept_name d \<notin> owned_department_names (load (people s) a)" if "dept_company d = a_company x"
  proof -
    show "dept_name d \<notin> member_department_names (load (people s) a)"
      using other a(1) that x(3) by (fastforce simp: load_department_fields)
    have "(dept_id d, True) \<notin> set (acc_ownerships a)" using a(2) by force
    then show "dept_name d \<notin> owned_department_names (load (people s) a)"
      using other that x(3) unfolding load_owned [OF uniq] by fastforce
  qed
  have names: "set (map dept_name (a_departments x)) - {dept_name d} \<subseteq> set (map dept_name (a_departments y))"
    "set (map dept_name (a_departments y)) \<subseteq> set (map dept_name (a_departments x))"
    using dropped by (auto simp: kept)
  have actives: "article_department_names x - {dept_name d} \<subseteq> article_department_names y"
    "article_department_names y \<subseteq> article_department_names x"
    using dropped by (auto simp: article_department_names_def kept x(5))
  have unchanged: "y = x" if "dept_company d \<noteq> a_company x"
    using gone that by (cases x) (auto simp: x(5) filter_id_conv)
  show ?thesis
  proof (cases "dept_company d = a_company x")
    case False
    then show ?thesis by (simp add: unchanged)
  next
    case True
    have ids: "shares_department_id (load (people s) a) y = shares_department_id (load (people s) a) x"
      using a(1) unfolding shares_department_id_def by (force simp: kept load_department_fields(2))
    show ?thesis
      by (rule can_view_cong [OF _ _ _ _ _ _ _ _ _ _ _ _ _ ids meets_without [OF foreign(1) [OF True] actives]
            meets_without [OF foreign(2) [OF True]]]) (use names in \<open>auto simp: x(5)\<close>)
  qed
qed

text \<open>Names of a company under a change: nobody else's name is touched, and none is taken twice.\<close>

lemma view_under_change:
  assumes inv: "organisation_inv s" and ch: "changes s d d2 t" and act: "dept_active d2 = dept_active d"
    and x: "x \<in> set (article_rows s)" "a_status x \<noteq> Deleted" "acc_company a = a_company x"
    and b: "b = (if acc_company a = dept_company d
           then a\<lparr>acc_dept := renamed_text (dept_name d) (dept_name d2) (acc_dept a)\<rparr> else a)"
    and y: "y = (if a_company x = dept_company d \<and> a_dept x = dept_name d
      then x\<lparr>a_dept := dept_name d2\<rparr> else x)\<lparr>a_departments := put_row dept_id d2 (a_departments x)\<rparr>"
  shows "can_view_article (load (people t) b) y = can_view_article (load (people s) a) x"
proof -
  define c where "c = a_company x"
  define g where "g e = (if dept_id e = dept_id d2 then d2 else e)" for e
  define f where "f n = (if c = dept_company d \<and> n = dept_name d then dept_name d2 else n)" for n
  have d: "d \<in> set (departments_of s)" "dept_id d2 = dept_id d" "dept_company d2 = dept_company d"
    "role_rows (people t) = role_rows (people s)" and rows: "departments_of t = map g (departments_of s)"
    using ch by (simp_all add: changes_def put_row_def g_def)
  note fresh = new_name_fresh [OF inv ch]
  have row: "e = d" if "e \<in> set (departments_of s)" "dept_id e = dept_id d" for e
    by (rule department_unique(1) [OF inv that(1) d(1) that(2)])
  have g: "dept_id (g e) = dept_id e \<and> dept_company (g e) = dept_company e \<and> dept_active (g e) = dept_active e"
    if "e \<in> set (departments_of s)" for e
    using row [OF that] d(2,3) act by (auto simp: g_def)
  have moved: "dept_name (g e) = f (dept_name e)" if "e \<in> set (departments_of s)" "dept_company e = c" for e
  proof (cases "e = d")
    case True
    then show ?thesis using that(2) d(2) by (simp add: g_def f_def)
  next
    case False
    then have "dept_id e \<noteq> dept_id d2" using row [OF that(1)] d(2) by auto
    then show ?thesis using fresh(2) [OF that(1) _ False] that(2) by (auto simp: g_def f_def)
  qed
  have inj: "inj_on f (company_names s c)"
  proof (cases "c = dept_company d")
    case True
    have "dept_name e \<noteq> dept_name d2" if "e \<in> set (departments_of s)" "dept_company e = c" "dept_name e \<noteq> dept_name d" for e
      using fresh(1) [OF that(1)] that(2,3) True by metis
    then show ?thesis by (auto simp: inj_on_def company_names_def f_def True) metis+
  qed (simp add: f_def inj_on_def)
  have "dept_name d2 \<noteq> []" using inv d(1) ch by (auto simp: organisation_inv_def changes_def)
  then have empty: "[] \<notin> f ` company_names s c"
    using inv by (auto simp: organisation_inv_def company_names_def f_def)
  have y': "y = x\<lparr>a_dept := f (a_dept x), a_departments := map g (a_departments x)\<rparr>"
    by (simp add: y f_def c_def put_row_def g_def)
  have b': "b = a\<lparr>acc_dept := acc_dept b\<rparr>" by (simp add: b)
  show ?thesis
    by (rule view_under_renaming [OF inv rows d(4) g moved inj empty _ b' x(1,2) _ y']) (simp_all add: c_def x(3))
qed

text \<open>The same for one quiet route, with the rows it left behind.\<close>

lemma quiet_access:
  assumes inv: "organisation_inv s" and step: "quiet_step s t"
    and a: "get_row acc_id i (account_rows (people s)) = Some a"
    and x: "get_row article_id j (article_rows s) = Some x" "a_status x \<noteq> Deleted" "acc_company a = a_company x"
  obtains b y where "get_row acc_id i (account_rows (people t)) = Some b"
    "get_row article_id j (article_rows t) = Some y" "acc_company b = a_company y" "a_status y = a_status x"
    "can_view_article (load (people t) b) y = can_view_article (load (people s) a) x"
proof -
  have rows: "a \<in> set (account_rows (people s))" "x \<in> set (article_rows s)"
    using get_row_SomeD(1) [OF a] get_row_SomeD(1) [OF x(1)] by simp_all
  note found = that
  have same: thesis if "t = s" by (rule found [of a x]) (simp_all add: that a x)
  from step show thesis
  proof cases
    case (created me p r)
    show thesis
    proof (cases r)
      case (Inr d)
      note c = create_department_Inr [OF created [unfolded Inr]]
      have "dept_id d \<notin> dept_id ` set (departments_of s)"
        using inv c(2) by (auto simp: organisation_inv_def keyed_def)
      then have "load (people t) a = load (people s) a"
        using inv rows(1) c by (intro load_append) (auto simp: organisation_inv_def)
      then show thesis using a x c by (intro that [of a x]) simp_all
    qed (use created same transaction_unchanged(1) in blast)
  next
    case (updated me k q r)
    show thesis
    proof (cases r)
      case (Inr d2)
      obtain d where ch: "changes s d d2 t" and act: "dept_active d2 = dept_active d"
        using update_changes [OF updated(1) [unfolded Inr]] updated(2) by metis
      define b where "b = (if acc_company a = dept_company d
           then a\<lparr>acc_dept := renamed_text (dept_name d) (dept_name d2) (acc_dept a)\<rparr> else a)"
      define y where "y = (if a_company x = dept_company d \<and> a_dept x = dept_name d
         then x\<lparr>a_dept := dept_name d2\<rparr> else x)\<lparr>a_departments := put_row dept_id d2 (a_departments x)\<rparr>"
      have "get_row acc_id i (account_rows (people t)) = Some b" "get_row article_id j (article_rows t) = Some y"
        using a x(1) ch by (simp_all add: changes_def get_row_map b_def y_def)
      then show thesis
        using view_under_change [OF inv ch act rows(2) x(2,3) b_def y_def] x(3)
        by (intro that [of b y]) (simp_all add: b_def y_def)
    qed (use updated same transaction_unchanged(2) in blast)
  next
    case (deleted me k r)
    show thesis
    proof (cases r)
      case (Inr k')
      show thesis
      proof (rule delete_department_Inr [OF deleted [unfolded Inr]])
        fix d
        assume d: "d \<in> set (departments_of s)" "dept_id d = k"
          "\<forall>a \<in> set (account_rows (people s)). k \<notin> set (acc_departments a) \<and> k \<notin> fst ` set (acc_ownerships a)"
          "\<forall>x \<in> set (article_rows s). a_company x = dept_company d \<and> a_dept x = dept_name d \<longrightarrow> a_status x = Deleted"
          and t: "t = on_people (record_audit (Some (acc_id me)) ''department_delete'' ''department'' k ''success'')
             (remove_department d s)"
        define y where "y = x\<lparr>a_departments := filter (\<lambda>e. dept_id e \<noteq> dept_id d) (a_departments x)\<rparr>"
        have away: "dept_id d \<notin> set (acc_departments a)" "dept_id d \<notin> fst ` set (acc_ownerships a)"
          using d(2,3) rows(1) by simp_all
        have "load (people t) a = load (people s) a" using away by (rule load_removed) (simp_all add: t)
        moreover have "can_view_article (load (people s) a) y = can_view_article (load (people s) a) x"
          using view_without_audience [OF inv d(1) away rows(2) x(2,3) _ y_def] d(4) rows(2) x(2) by blast
        ultimately show thesis
          using a x by (intro that [of a y]) (simp_all add: t y_def get_row_map)
      qed
    qed (use deleted same transaction_unchanged(3) in blast)
  qed
qed

section \<open>A firm with one department\<close>

definition firm :: organisation where
  "firm =
     \<lparr>people = office\<lparr>
        role_rows := [office_role 11 ''CEO'' [(''user.manage'', Company)],
                      office_role 12 ''Staff'' [(''article.read'', Company)]],
        account_rows := [ann, bob\<lparr>acc_dept := Some ''HR'', acc_departments := [20]\<rparr>],
        department_rows := [\<lparr>dept_id = 20, dept_company = ''x'', dept_name = ''HR'', dept_active = True,
                              review_required = True, auto_publish_by = None\<rparr>]\<rparr>,
      profile_rows = [],
      article_rows = [blank_article\<lparr>a_company := ''x'', a_dept := ''HR'', a_departments := []\<rparr>],
      chunk_rows = [], gap_rows = [],
      flag_rows = [\<lparr>ff_key = ''chat'', ff_department = Some ''HR''\<rparr>],
      approver_rules = [\<lparr>ar_company = ''x'', ar_dept = ''HR'', ar_approver = 1, ar_active = True\<rparr>]\<rparr>"

definition rename_to :: "string \<Rightarrow> department_update" where
  "rename_to n = \<lparr>du_name = Some n, du_description = None, du_active = None, du_contact = None, du_review = None\<rparr>"

lemmas firm_defs = firm_def office_def office_role_def people_defs blank_article_def

lemma firm_inv: "organisation_inv firm"
  by (simp add: organisation_inv_def keyed_def unique_key_def account_placed_def article_placed_def
      company_names_def firm_defs image_iff)

lemma firm_managed: "has_permission (load (people firm) ann) ''user.manage'' None Company"
  "u_company (load (people firm) ann) = ''x''"
  by (simp_all add: has_permission_def load_def firm_defs role_counts_def scope_allows_def)

lemma firm_renamed:
  "\<exists>d. fst (update_department ann 20 (rename_to ''People'') firm) = Inr d \<and> dept_name d = ''People''"
proof -
  have "department_for_management (load (people firm) ann) 20 firm = Inr (hd (departments_of firm))"
    by (simp add: department_for_management_def firm_managed(2)) (simp add: firm_def)
  then show ?thesis
    using firm_managed
    by (simp add: update_department_def require_permission_def unless_def rename_to_def rename_department_def
        normalize_department_name_def one_or_none_def set_review_policy_def transaction_def strip_def lstrip_def
        rstrip_def isspace_def) (simp add: firm_def)
qed

section \<open>Properties\<close>

text \<open>
  C9: renaming, creating and deleting departments never changes who may read what. Over any
  sequence of these routes (and of changes to descriptions and review policies), every account
  reads the same articles of its company as before: the account, the article and every
  department it is shared with move to the new name together, a fresh department has no
  readers, and only a department without members, owners and content can be deleted.
\<close>

theorem quiet_routes_keep_access:
  assumes "quiet_step\<^sup>*\<^sup>* s t" "organisation_inv s"
    "get_row acc_id i (account_rows (people s)) = Some a" "get_row article_id j (article_rows s) = Some x"
    "a_status x \<noteq> Deleted" "acc_company a = a_company x"
  shows "\<exists>b y. get_row acc_id i (account_rows (people t)) = Some b \<and> get_row article_id j (article_rows t) = Some y
    \<and> can_view_article (load (people t) b) y = can_view_article (load (people s) a) x"
proof -
  have "organisation_inv t \<and> (\<exists>b y. get_row acc_id i (account_rows (people t)) = Some b
      \<and> get_row article_id j (article_rows t) = Some y \<and> acc_company b = a_company y \<and> a_status y \<noteq> Deleted
      \<and> can_view_article (load (people t) b) y = can_view_article (load (people s) a) x)"
    using assms(1)
  proof induction
    case base
    then show ?case using assms(2-) by blast
  next
    case (step t t')
    then show ?case using organisation_inv_quiet quiet_access by (metis (no_types, lifting))
  qed
  then show ?thesis by blast
qed

theorem quiet_routes_keep_access_witness:
  "\<exists>b y. get_row acc_id 2 (account_rows (people (snd (update_department ann 20 (rename_to ''People'') firm)))) = Some b
    \<and> get_row article_id 1 (article_rows (snd (update_department ann 20 (rename_to ''People'') firm))) = Some y
    \<and> can_view_article (load (people (snd (update_department ann 20 (rename_to ''People'') firm))) b) y"
proof -
  have "quiet_step firm (snd (update_department ann 20 (rename_to ''People'') firm))"
    by (rule updated [where q = "rename_to ''People''"], rule prod.collapse [symmetric]) (simp add: rename_to_def)
  then have step: "quiet_step\<^sup>*\<^sup>* firm (snd (update_department ann 20 (rename_to ''People'') firm))"
    by (rule r_into_rtranclp)
  let ?bob = "bob\<lparr>acc_dept := Some ''HR'', acc_departments := [20]\<rparr>"
  let ?page = "blank_article\<lparr>a_company := ''x'', a_dept := ''HR'', a_departments := []\<rparr>"
  have rows: "get_row acc_id 2 (account_rows (people firm)) = Some ?bob"
    "get_row article_id 1 (article_rows firm) = Some ?page" "a_status ?page \<noteq> Deleted"
    "acc_company ?bob = a_company ?page"
    by (simp_all add: firm_defs)
  have "can_view_article (load (people firm) ?bob) ?page"
    by (simp add: can_view_article_def has_permission_def load_def firm_defs role_counts_def scope_allows_def
        article_resource_def same_tenant_def explicit_user_effect_def source_acl_allows_def governed_by_def
        has_full_company_article_access_def privileged_role_def can_access_article_departments_def
        member_department_names_def article_department_names_def)
  with quiet_routes_keep_access [OF step firm_inv rows] show ?thesis by auto
qed



text \<open>
  Publishing without review is an executive's decision and carries a name. A department
  whose reviews are switched off by the change route was switched off by an Admin or CEO of the
  company, who is recorded as the person its drafts are published by; switching reviews on
  clears the name; any other change leaves the policy alone.
\<close>

theorem review_waiver_authorized:
  assumes "update_department me i p s = (Inr d2, t)"
  shows "\<exists>d \<in> set (departments_of s). dept_id d = i \<and> dept_company d = acc_company me
    \<and> (review_required d \<and> \<not> review_required d2 \<longrightarrow>
         may_self_approve (load (people s) me) \<and> auto_publish_by d2 = Some (acc_id me))
    \<and> (\<not> review_required d \<and> review_required d2 \<longrightarrow> auto_publish_by d2 = None)
    \<and> (review_required d = review_required d2 \<longrightarrow>
         auto_publish_by d2 = auto_publish_by d \<or> review_required d \<and> auto_publish_by d2 = None)"
  by (rule update_department_Inr [OF assms]) (auto simp: may_waive_review_def)

definition waive :: department_update where
  "waive = \<lparr>du_name = None, du_description = None, du_active = None, du_contact = None, du_review = Some False\<rparr>"

theorem review_waiver_authorized_witness:
  "\<exists>d2. fst (update_department ann 20 waive firm) = Inr d2 \<and> \<not> review_required d2
    \<and> auto_publish_by d2 = Some (acc_id ann)"
proof -
  have "department_for_management (load (people firm) ann) 20 firm = Inr (hd (departments_of firm))"
    by (simp add: department_for_management_def firm_managed(2)) (simp add: firm_def)
  moreover have "may_self_approve (load (people firm) ann)"
    by (simp add: may_self_approve_def load_def firm_defs)
  moreover have "review_required (hd (departments_of firm))" by (simp add: firm_def)
  ultimately have "\<exists>d2. fst (update_department ann 20 waive firm) = Inr d2 \<and> \<not> review_required d2"
    using firm_managed(1)
    by (simp add: update_department_def require_permission_def unless_def waive_def rename_department_def
        set_review_policy_def may_waive_review_def transaction_def Let_def)
  then obtain d2 where r: "fst (update_department ann 20 waive firm) = Inr d2" "\<not> review_required d2" by blast
  then have "update_department ann 20 waive firm = (Inr d2, snd (update_department ann 20 waive firm))"
    by (metis prod.collapse)
  from review_waiver_authorized [OF this] r show ?thesis by (auto simp: firm_def)
qed

section \<open>What the routes leave behind\<close>

text \<open>A rename carries the name of an approver rule nowhere: the rule is about no department any more.\<close>

lemma rename_strands_approver_rule:
  "approver_rules (snd (update_department ann 20 (rename_to ''People'') firm)) = approver_rules firm
   \<and> (\<forall>d \<in> set (departments_of (snd (update_department ann 20 (rename_to ''People'') firm))).
        \<forall>r \<in> set (approver_rules firm). ar_dept r \<noteq> dept_name d)"
proof -
  have "department_for_management (load (people firm) ann) 20 firm = Inr (hd (departments_of firm))"
    by (simp add: department_for_management_def firm_managed(2)) (simp add: firm_def)
  then show ?thesis
    using firm_managed
    by (simp add: update_department_def require_permission_def unless_def rename_to_def rename_department_def
        normalize_department_name_def one_or_none_def set_review_policy_def transaction_def strip_def lstrip_def
        rstrip_def isspace_def put_department_def describe_department_def rename_copies_def record_audit_def Let_def)
      (simp add: firm_def put_row_def)
qed

text \<open>Feature flags have no company: a rename moves the flag another company's department relies on.\<close>

lemma rename_moves_every_flag:
  "ff_department f = Some old \<Longrightarrow> f \<in> set (flag_rows s) \<Longrightarrow>
     f\<lparr>ff_department := Some name\<rparr> \<in> set (flag_rows (rename_copies company old name s))"
  by (force simp: rename_copies_def renamed_text_def Let_def)

end
