(* ===== verification/Transport.thy ===== *)
theory Transport
  imports Permissions
begin

text \<open>
  \<open>core/secrets.py\<close> and the part of \<open>domain/connector_adapters.py\<close> that talks to a provider about
  push subscriptions and tokens: the bounded read of a response, the retry loop with its one
  redirect, the address checks, and the subscription calls of the Microsoft Graph and Google Drive
  adapters. Fernet, SHA-256 and the HTTP client are arguments. A URL is the record of what
  \<open>urlsplit\<close> and \<open>ip_address\<close> read in it; a response is the record of what the code reads of it.
\<close>

section \<open>Stored secrets\<close>

record key_settings =
  data_encryption_key :: string
  secret_key :: string
  previous_keys :: string

text \<open>\<open>seal\<close> takes the random part of a token as an argument.\<close>

record fernet =
  sha256 :: "string \<Rightarrow> string"
  seal :: "string \<Rightarrow> string \<Rightarrow> nat \<Rightarrow> string"
  unseal :: "string \<Rightarrow> string \<Rightarrow> string option"

text \<open>A token opens with its own key and with no other.\<close>

definition fernet_law :: "fernet \<Rightarrow> bool" where
  "fernet_law F =
     (\<forall>k k' v r. seal F k v r \<noteq> [] \<and> unseal F k' (seal F k v r) = (if k' = k then Some v else None))"

text \<open>\<open>s.split(",")\<close>\<close>

fun split_commas :: "string \<Rightarrow> string list" where
  "split_commas [] = [[]]"
| "split_commas (c # cs) =
     (if c = CHR '','' then [] # split_commas cs
      else (case split_commas cs of [] \<Rightarrow> [[c]] | w # ws \<Rightarrow> (c # w) # ws))"

definition key_materials :: "key_settings \<Rightarrow> string list" where
  "key_materials K =
     fromkeys ([if data_encryption_key K \<noteq> [] then data_encryption_key K else secret_key K]
       @ filter (\<lambda>k. k \<noteq> []) (map strip (split_commas (previous_keys K)))
       @ (if data_encryption_key K \<noteq> [] then [secret_key K] else []))"

definition fernet_for :: "fernet \<Rightarrow> string \<Rightarrow> string" where
  "fernet_for F material = sha256 F material"

datatype failure =
    Provider_error (failure_message: string) (retryable: bool) (failure_code: "string option")
  | Configuration_error (failure_message: string)
  | Other_error (failure_message: string)

definition encrypt_secret ::
  "fernet \<Rightarrow> key_settings \<Rightarrow> nat \<Rightarrow> string option \<Rightarrow> failure + string option" where
  "encrypt_secret F K r value =
     (case value of
        None \<Rightarrow> Inr None
      | Some v \<Rightarrow>
          if v = [] then Inr None
          else if data_encryption_key K = [] then
            Inl (Other_error ''DATA_ENCRYPTION_KEY is required to store a secret'')
          else Inr (Some (seal F (fernet_for F (data_encryption_key K)) v r)))"

fun first_opened :: "fernet \<Rightarrow> string list \<Rightarrow> string \<Rightarrow> string option" where
  "first_opened F [] token = None"
| "first_opened F (m # ms) token =
     (case unseal F (fernet_for F m) token of Some v \<Rightarrow> Some v | None \<Rightarrow> first_opened F ms token)"

definition decrypt_secret :: "fernet \<Rightarrow> key_settings \<Rightarrow> string option \<Rightarrow> string option" where
  "decrypt_secret F K value =
     (case value of
        None \<Rightarrow> None
      | Some token \<Rightarrow> if token = [] then None else first_opened F (key_materials K) token)"

lemma first_opened_sealed:
  assumes "fernet_law F"
  shows "first_opened F ms (seal F (fernet_for F k) v r) =
     (if \<exists>m \<in> set ms. fernet_for F m = fernet_for F k then Some v else None)"
  using assms by (induction ms) (auto simp: fernet_law_def)

lemma set_key_materials:
  "set (key_materials K) =
     {if data_encryption_key K \<noteq> [] then data_encryption_key K else secret_key K}
     \<union> {k \<in> strip ` set (split_commas (previous_keys K)). k \<noteq> []} \<union> {secret_key K}"
  by (auto simp: key_materials_def)

section \<open>Requests and responses\<close>

record url =
  url_scheme :: string
  url_host :: "string option"
  url_user :: "string option"
  url_password :: "string option"
  url_global :: "bool option"
  url_rest :: string

text \<open>\<open>call_fields\<close> are the query, body and extra headers of a call.\<close>

record api_call =
  call_method :: string
  call_url :: url
  call_fields :: "(string \<times> string) list"

text \<open>
  A response as the code reads it: \<open>wr_location\<close> is the redirect target joined and split,
  \<open>wr_chunks\<close> the sizes of the pieces of the body, \<open>wr_object\<close> what \<open>json.loads\<close> makes of it (its
  string members; \<open>None\<close> when it raises), \<open>wr_error_text\<close> the message of an error payload.
\<close>

record wire_reply =
  wr_status :: nat
  wr_location :: "url option"
  wr_retry_after :: "string option"
  wr_json :: bool
  wr_content_length :: "string option"
  wr_chunks :: "nat list"
  wr_object :: "(string \<times> string) list option"
  wr_error_text :: string

datatype token_grant =
    Client_credentials string
  | Microsoft_refresh string string
  | Google_refresh string

record token_reply =
  tk_access_token :: "string option"
  tk_refresh_token :: "string option"
  tk_expires_in :: "int option"

text \<open>
  The outside world: the HTTP client and the sources of randomness, on a state \<open>'p\<close> of their own.
  \<open>Inl\<close> is an exception of the client.
\<close>

record 'p client =
  exchange :: "api_call \<Rightarrow> string option \<Rightarrow> 'p \<Rightarrow> (string + wire_reply) \<times> 'p"
  post_token :: "token_grant \<Rightarrow> 'p \<Rightarrow> (string + nat \<times> token_reply) \<times> 'p"
  random_bits :: "'p \<Rightarrow> nat \<times> 'p"
  token_urlsafe :: "'p \<Rightarrow> string \<times> 'p"
  uuid4_text :: "'p \<Rightarrow> string \<times> 'p"

record transport_settings =
  keys :: key_settings
  max_json_bytes :: nat
  max_upload_bytes :: nat
  microsoft_mode :: string
  pinned_tenant :: "string option"
  subscription_minutes :: int
  webhook_base_url :: "string option"

text \<open>The state of a call, with a history of what was sent with which token and of every wait.\<close>

record 'p net =
  outside :: 'p
  sent :: "(url \<times> string option) list"
  slept :: "int list"

section \<open>Addresses\<close>

definition validate_provider_url :: "string set \<Rightarrow> url \<Rightarrow> failure + unit" where
  "validate_provider_url allowed u =
     (if url_scheme u \<noteq> ''https'' \<or> \<not> truthy (url_host u) \<or> truthy (url_user u)
         \<or> truthy (url_password u) \<or> lower (or_else (url_host u) []) \<notin> allowed
      then Inl (Provider_error ''Provider returned an untrusted API URL'' False (Some ''untrusted_url''))
      else Inr ())"

definition rstrip_dots :: "string \<Rightarrow> string" where
  "rstrip_dots s = rev (dropWhile (\<lambda>c. c = CHR ''.'') (rev s))"

definition endswith :: "string \<Rightarrow> string \<Rightarrow> bool" where
  "endswith s t = (length t \<le> length s \<and> drop (length s - length t) s = t)"

definition validate_redirect_url :: "url \<Rightarrow> failure + unit" where
  "validate_redirect_url u =
     (let host = rstrip_dots (lower (or_else (url_host u) []));
          unsafe = Provider_error ''Provider returned an unsafe download redirect'' False
                     (Some ''unsafe_redirect'')
      in if url_scheme u \<noteq> ''https'' \<or> host = [] \<or> truthy (url_user u) \<or> truthy (url_password u)
         then Inl unsafe
         else if host = ''localhost'' \<or> endswith host ''.localhost'' \<or> url_global u = Some False
         then Inl unsafe
         else Inr ())"

section \<open>One exchange\<close>

text \<open>\<open>str.isdigit\<close> accepts the superscript digits, which \<open>int\<close> and \<open>float\<close> refuse.\<close>

definition decimal_char :: "char \<Rightarrow> bool" where
  "decimal_char c = (let n = (of_char c :: nat) in 48 \<le> n \<and> n \<le> 57)"

definition isdigit :: "string \<Rightarrow> bool" where
  "isdigit s =
     (s \<noteq> [] \<and> list_all (\<lambda>c. decimal_char c \<or> (of_char c :: nat) \<in> {178, 179, 185}) s)"

definition int_of_text :: "string \<Rightarrow> nat option" where
  "int_of_text s =
     (if s \<noteq> [] \<and> list_all decimal_char s
      then Some (fold (\<lambda>c n. 10 * n + (of_char c - 48)) s 0) else None)"

definition too_large :: failure where
  "too_large = Provider_error ''Provider response exceeds the configured size limit'' False
     (Some ''response_too_large'')"

fun body_fits :: "nat \<Rightarrow> nat \<Rightarrow> nat list \<Rightarrow> bool" where
  "body_fits limit received [] = True"
| "body_fits limit received (c # cs) =
     (received + c \<le> limit \<and> body_fits limit (received + c) cs)"

definition is_redirect :: "wire_reply \<Rightarrow> bool" where
  "is_redirect w = (300 \<le> wr_status w \<and> wr_status w < 400)"

definition read_response ::
  "'p client \<Rightarrow> transport_settings \<Rightarrow> api_call \<Rightarrow> string option \<Rightarrow> 'p net
     \<Rightarrow> (failure + wire_reply) \<times> 'p net" where
  "read_response C cfg call bearer n =
     (case exchange C call bearer (outside n) of (r, p) \<Rightarrow>
        (let n1 = n\<lparr>outside := p, sent := sent n @ [(call_url call, bearer)]\<rparr>
         in (case r of
               Inl message \<Rightarrow> (Inl (Other_error message), n1)
             | Inr w \<Rightarrow>
                 if is_redirect w then (Inr w, n1)
                 else
                   let limit = (if wr_json w then max_json_bytes cfg else max_upload_bytes cfg)
                   in (case wr_content_length w of
                         Some s \<Rightarrow>
                           if isdigit s then
                             (case int_of_text s of
                                None \<Rightarrow> (Inl (Other_error ''ValueError''), n1)
                              | Some k \<Rightarrow>
                                  if k > limit \<or> \<not> body_fits limit 0 (wr_chunks w)
                                  then (Inl too_large, n1) else (Inr w, n1))
                           else if body_fits limit 0 (wr_chunks w) then (Inr w, n1)
                           else (Inl too_large, n1)
                       | None \<Rightarrow>
                           if body_fits limit 0 (wr_chunks w) then (Inr w, n1)
                           else (Inl too_large, n1)))))"

text \<open>The first read of an attempt and the redirect it may follow, without the token.\<close>

definition unsafe_redirect :: "string \<Rightarrow> failure" where
  "unsafe_redirect message = Provider_error message False (Some ''unsafe_redirect'')"

definition follow ::
  "'p client \<Rightarrow> transport_settings \<Rightarrow> api_call \<Rightarrow> string \<Rightarrow> 'p net
     \<Rightarrow> (failure + wire_reply) \<times> 'p net" where
  "follow C cfg call token n =
     (case read_response C cfg call (Some token) n of
        (Inl e, n1) \<Rightarrow> (Inl e, n1)
      | (Inr w, n1) \<Rightarrow>
          if \<not> is_redirect w then (Inr w, n1)
          else
            (case wr_location w of
               None \<Rightarrow> (Inl (unsafe_redirect ''Provider returned an unsupported redirect''), n1)
             | Some target \<Rightarrow>
                 if call_method call \<noteq> ''GET'' then
                   (Inl (unsafe_redirect ''Provider returned an unsupported redirect''), n1)
                 else
                   (case validate_redirect_url target of
                      Inl e \<Rightarrow> (Inl e, n1)
                    | Inr _ \<Rightarrow>
                        (case read_response C cfg (call\<lparr>call_url := target\<rparr>) None n1 of
                           (Inl e, n2) \<Rightarrow> (Inl e, n2)
                         | (Inr w2, n2) \<Rightarrow>
                             if is_redirect w2 then
                               (Inl (unsafe_redirect ''Provider returned too many redirects''), n2)
                             else (Inr w2, n2)))))"

section \<open>The retry loop\<close>

text \<open>Waits are in microseconds. \<open>None\<close> is the \<open>ValueError\<close> of \<open>float\<close> on a superscript digit.\<close>

definition backoff_delay :: "'p client \<Rightarrow> nat \<Rightarrow> 'p net \<Rightarrow> int \<times> 'p net" where
  "backoff_delay C attempt n =
     (case random_bits C (outside n) of (bits, p) \<Rightarrow>
        (seconds (min 16 (2 ^ attempt)) + int (bits mod 500) * 1000, n\<lparr>outside := p\<rparr>))"

definition retry_delay ::
  "'p client \<Rightarrow> nat \<Rightarrow> string option \<Rightarrow> 'p net \<Rightarrow> int option \<times> 'p net" where
  "retry_delay C attempt after n =
     (if truthy after \<and> isdigit (or_else after []) then
        (map_option (\<lambda>k. seconds (min 60 (int k))) (int_of_text (or_else after [])), n)
      else (case backoff_delay C attempt n of (d, n1) \<Rightarrow> (Some d, n1)))"

datatype body = Json_body "(string \<times> string) list" | Raw_body

definition status_text :: "wire_reply \<Rightarrow> string" where
  "status_text w = show_nat (wr_status w)"

definition settle :: "wire_reply \<Rightarrow> failure + body" where
  "settle w =
     (if wr_status w \<in> {401, 403} then
        Inl (Provider_error (''Provider authorization failed ('' @ status_text w @ '')'') False
               (Some (status_text w)))
      else if wr_status w \<ge> 400 then
        (let error_text = (if wr_json w then take 240 (wr_error_text w) else [])
         in Inl (Provider_error (''Provider request failed ('' @ status_text w @ '')''
                   @ (if error_text \<noteq> [] then '': '' @ error_text else [])) True (Some (status_text w))))
      else if wr_json w then
        (case wr_object w of
           None \<Rightarrow> Inl (Provider_error ''Provider returned invalid JSON'' False (Some ''invalid_json''))
         | Some content \<Rightarrow> Inr (Json_body content))
      else Inr Raw_body)"

fun attempts ::
  "'p client \<Rightarrow> transport_settings \<Rightarrow> api_call \<Rightarrow> string \<Rightarrow> nat list \<Rightarrow> 'p net
     \<Rightarrow> (failure + body) \<times> 'p net" where
  "attempts C cfg call token [] n = (Inl (Provider_error ''Provider request failed'' True None), n)"
| "attempts C cfg call token (k # ks) n =
     (case follow C cfg call token n of
        (Inl e, n1) \<Rightarrow> (Inl e, n1)
      | (Inr w, n1) \<Rightarrow>
          if wr_status w \<in> {429, 500, 502, 503, 504} then
            (case retry_delay C k (wr_retry_after w) n1 of
               (None, n2) \<Rightarrow> (Inl (Other_error ''ValueError''), n2)
             | (Some delay, n2) \<Rightarrow>
                 if k = 3 then
                   (Inl (Provider_error (''Provider retry limit reached ('' @ status_text w @ '')'')
                      True (Some (status_text w))), n2)
                 else attempts C cfg call token ks (n2\<lparr>slept := slept n2 @ [delay]\<rparr>))
          else (settle w, n1))"

text \<open>\<open>not_authorized\<close> when the stored token is missing or unreadable.\<close>

definition not_authorized :: "string \<Rightarrow> failure" where
  "not_authorized message = Provider_error message False (Some ''not_authorized'')"

definition access_token :: "fernet \<Rightarrow> transport_settings \<Rightarrow> string option \<Rightarrow> failure + string" where
  "access_token F cfg stored =
     (case decrypt_secret F (keys cfg) stored of
        None \<Rightarrow> Inl (not_authorized ''Connector is not authorized'')
      | Some t \<Rightarrow> if t = [] then Inl (not_authorized ''Connector is not authorized'') else Inr t)"

definition api_request ::
  "'p client \<Rightarrow> fernet \<Rightarrow> transport_settings \<Rightarrow> string set \<Rightarrow> string option \<Rightarrow> api_call \<Rightarrow> 'p net
     \<Rightarrow> (failure + body) \<times> 'p net" where
  "api_request C F cfg allowed stored call n =
     (case validate_provider_url allowed (call_url call) of
        Inl e \<Rightarrow> (Inl e, n)
      | Inr _ \<Rightarrow>
          (case access_token F cfg stored of
             Inl e \<Rightarrow> (Inl e, n)
           | Inr token \<Rightarrow> attempts C cfg call token [0..<4] n))"

text \<open>
  What the attempts of one request add to the history: at most two exchanges each, the token only
  to the address of the call, and a bounded wait before the next attempt.
\<close>

definition bounded_history ::
  "api_call \<Rightarrow> string \<Rightarrow> nat \<Rightarrow> nat \<Rightarrow> 'p net \<Rightarrow> 'p net \<Rightarrow> bool" where
  "bounded_history call token exchanges pauses n n' \<longleftrightarrow>
     (\<exists>new waits. sent n' = sent n @ new \<and> slept n' = slept n @ waits
        \<and> length new \<le> exchanges \<and> length waits \<le> pauses
        \<and> (\<forall>(u, t) \<in> set new.
              (t = Some token \<and> u = call_url call)
              \<or> (t = None \<and> call_method call = ''GET'' \<and> validate_redirect_url u = Inr ()))
        \<and> (\<forall>d \<in> set waits. 0 \<le> d \<and> d \<le> seconds 60))"

lemma bounded_history_refl: "bounded_history call token 0 0 n n"
  by (auto simp: bounded_history_def)

lemma bounded_history_trans:
  assumes "bounded_history call token a b n n1" and "bounded_history call token c d n1 n2"
  shows "bounded_history call token (a + c) (b + d) n n2"
proof -
  from assms(1) obtain x1 w1 where 1: "sent n1 = sent n @ x1" "slept n1 = slept n @ w1"
    "length x1 \<le> a" "length w1 \<le> b"
    "\<forall>(u, t) \<in> set x1. (t = Some token \<and> u = call_url call)
        \<or> (t = None \<and> call_method call = ''GET'' \<and> validate_redirect_url u = Inr ())"
    "\<forall>d \<in> set w1. 0 \<le> d \<and> d \<le> seconds 60"
    unfolding bounded_history_def by blast
  from assms(2) obtain x2 w2 where 2: "sent n2 = sent n1 @ x2" "slept n2 = slept n1 @ w2"
    "length x2 \<le> c" "length w2 \<le> d"
    "\<forall>(u, t) \<in> set x2. (t = Some token \<and> u = call_url call)
        \<or> (t = None \<and> call_method call = ''GET'' \<and> validate_redirect_url u = Inr ())"
    "\<forall>d \<in> set w2. 0 \<le> d \<and> d \<le> seconds 60"
    unfolding bounded_history_def by blast
  from 1 2 show ?thesis
    unfolding bounded_history_def
    by (intro exI [of _ "x1 @ x2"] exI [of _ "w1 @ w2"]) auto
qed

lemma bounded_history_mono:
  "bounded_history call token a b n n' \<Longrightarrow> a \<le> c \<Longrightarrow> b \<le> d \<Longrightarrow> bounded_history call token c d n n'"
  unfolding bounded_history_def by (meson order_trans)

lemma bounded_history_fields:
  "sent n' = sent n \<Longrightarrow> slept n' = slept n \<Longrightarrow> bounded_history call token 0 0 n n'"
  by (auto simp: bounded_history_def)

lemma read_response_history:
  assumes "read_response C cfg call bearer n = (r, n')"
  shows "sent n' = sent n @ [(call_url call, bearer)]" "slept n' = slept n"
  using assms by (auto simp: read_response_def Let_def split: prod.splits sum.splits if_splits option.splits)

lemma follow_history:
  assumes "follow C cfg call token n = (r, n')"
  shows "bounded_history call token 2 0 n n'"
proof -
  obtain r1 n1 where r1: "read_response C cfg call (Some token) n = (r1, n1)" by fastforce
  have one: "bounded_history call token 1 0 n n1"
    using read_response_history [OF r1] by (auto simp: bounded_history_def)
  show ?thesis
  proof (cases "n' = n1")
    case True
    with one show ?thesis by (auto intro: bounded_history_mono)
  next
    case False
    with assms r1 obtain w target where w: "r1 = Inr w" "wr_location w = Some target"
      and get: "call_method call = ''GET''" and safe: "validate_redirect_url target = Inr ()"
      and n': "n' = snd (read_response C cfg (call\<lparr>call_url := target\<rparr>) None n1)"
      unfolding follow_def by (auto split: sum.splits if_splits option.splits prod.splits)
    have "bounded_history call token 1 0 n1 n'"
      using read_response_history [of C cfg "call\<lparr>call_url := target\<rparr>" None n1] get safe n'
      by (cases "read_response C cfg (call\<lparr>call_url := target\<rparr>) None n1")
        (auto simp: bounded_history_def)
    from bounded_history_trans [OF one this] show ?thesis by (rule bounded_history_mono) simp_all
  qed
qed

lemma backoff_bounds: "0 \<le> seconds (min 16 (2 ^ k)) + int (b mod 500) * 1000"
  "seconds (min 16 (2 ^ k)) + int (b mod 500) * 1000 \<le> seconds 60"
proof -
  have "0 \<le> seconds (min 16 (2 ^ k))" "seconds (min 16 (2 ^ k)) \<le> seconds 16"
    by (simp_all add: seconds_def)
  moreover have "int (b mod 500) < 500" by simp
  ultimately show "0 \<le> seconds (min 16 (2 ^ k)) + int (b mod 500) * 1000"
    "seconds (min 16 (2 ^ k)) + int (b mod 500) * 1000 \<le> seconds 60"
    by (simp_all add: seconds_def)
qed

lemma retry_delay_bounds:
  assumes "retry_delay C k after n = (d, n')"
  shows "sent n' = sent n" "slept n' = slept n"
    "\<And>w. d = Some w \<Longrightarrow> 0 \<le> w \<and> w \<le> seconds 60"
  using assms backoff_bounds
  by (auto simp: retry_delay_def backoff_delay_def seconds_def split: if_splits prod.splits)

lemma attempts_history:
  assumes "attempts C cfg call token ks n = (r, n')"
  shows "bounded_history call token (2 * length ks) (length (filter (\<lambda>k. k \<noteq> 3) ks)) n n'"
  using assms
proof (induction ks arbitrary: n)
  case Nil
  then show ?case by (simp add: bounded_history_refl)
next
  case (Cons k ks)
  obtain f n1 where f: "follow C cfg call token n = (f, n1)" by fastforce
  note step = follow_history [OF f]
  have stop: ?case if "sent n' = sent n1" "slept n' = slept n1"
    using bounded_history_trans [OF step bounded_history_fields [OF that]]
    by (rule bounded_history_mono) simp_all
  show ?case
  proof (cases "\<exists>w. f = Inr w \<and> wr_status w \<in> {429, 500, 502, 503, 504}")
    case False
    with Cons.prems f have "n' = n1" by (auto split: sum.splits if_splits)
    then show ?thesis by (intro stop) simp_all
  next
    case True
    then obtain w where w: "f = Inr w" "wr_status w \<in> {429, 500, 502, 503, 504}" by blast
    obtain d n2 where d: "retry_delay C k (wr_retry_after w) n1 = (d, n2)" by fastforce
    note b = retry_delay_bounds [OF d]
    show ?thesis
    proof (cases "d = None \<or> k = 3")
      case True
      with Cons.prems f w d have "n' = n2" by (auto split: option.splits)
      with b show ?thesis by (intro stop) simp_all
    next
      case False
      then obtain pause where pause: "d = Some pause" "k \<noteq> 3" by auto
      let ?n3 = "n2\<lparr>slept := slept n2 @ [pause]\<rparr>"
      have "attempts C cfg call token ks ?n3 = (r, n')"
        using Cons.prems f w d pause by simp
      from Cons.IH [OF this]
      have rest: "bounded_history call token (2 * length ks) (length (filter (\<lambda>k. k \<noteq> 3) ks)) ?n3 n'" .
      have "bounded_history call token 0 1 n1 ?n3"
        using b pause by (auto simp: bounded_history_def)
      from bounded_history_trans [OF bounded_history_trans [OF step this] rest] pause
      show ?thesis by simp
    qed
  qed
qed

section \<open>The adapters\<close>

datatype adapter = Graph | Drive

definition adapter_for :: "string \<Rightarrow> failure + adapter" where
  "adapter_for system =
     (if system \<in> {''sharepoint'', ''onedrive''} then Inr Graph
      else if system = ''google_drive'' then Inr Drive
      else Inl (Provider_error (''Unsupported connector provider: '' @ system) False
                  (Some ''unsupported_provider'')))"

definition graph_host :: string where
  "graph_host = ''graph.microsoft.com''"

definition drive_host :: string where
  "drive_host = ''www.googleapis.com''"

definition allowed_api_hosts :: "adapter \<Rightarrow> string set" where
  "allowed_api_hosts A = (case A of Graph \<Rightarrow> {graph_host} | Drive \<Rightarrow> {drive_host})"

definition api_url :: "string \<Rightarrow> string \<Rightarrow> url" where
  "api_url host rest =
     \<lparr>url_scheme = ''https'', url_host = Some host, url_user = None, url_password = None,
      url_global = None, url_rest = rest\<rparr>"

definition graph_url :: "string \<Rightarrow> url" where
  "graph_url rest = api_url graph_host (''/v1.0'' @ rest)"

definition drive_url :: "string \<Rightarrow> url" where
  "drive_url rest = api_url drive_host (''/drive/v3'' @ rest)"

text \<open>The scope a subscription is for: its id at the provider and the \<open>drive_id\<close> of its config.\<close>

record scope_target =
  st_external :: string
  st_drive :: "string option"

record creation =
  cr_subscription_id :: string
  cr_client_state :: string
  cr_expires_at :: instant
  cr_resource :: "string option"
  cr_lifecycle_url :: "string option"

text \<open>A missing member raises \<open>KeyError\<close>, a body that is no JSON \<open>TypeError\<close>.\<close>

definition json_member :: "string \<Rightarrow> body \<Rightarrow> failure + string" where
  "json_member name b =
     (case b of
        Raw_body \<Rightarrow> Inl (Other_error ''TypeError'')
      | Json_body content \<Rightarrow>
          (case map_of content name of None \<Rightarrow> Inl (Other_error ''KeyError'') | Some v \<Rightarrow> Inr v))"

definition optional_member :: "string \<Rightarrow> body \<Rightarrow> failure + string option" where
  "optional_member name b =
     (case b of
        Raw_body \<Rightarrow> Inl (Other_error ''AttributeError'')
      | Json_body content \<Rightarrow> Inr (map_of content name))"

definition bind_net ::
  "(failure + 'a) \<times> 'p net \<Rightarrow> ('a \<Rightarrow> 'p net \<Rightarrow> (failure + 'b) \<times> 'p net) \<Rightarrow> (failure + 'b) \<times> 'p net" where
  "bind_net r f = (case r of (Inl e, n) \<Rightarrow> (Inl e, n) | (Inr x, n) \<Rightarrow> f x n)"

definition draw :: "('p \<Rightarrow> 'x \<times> 'p) \<Rightarrow> 'p net \<Rightarrow> 'x \<times> 'p net" where
  "draw source n = (case source (outside n) of (x, p) \<Rightarrow> (x, n\<lparr>outside := p\<rparr>))"

definition graph_create_webhook ::
  "'p client \<Rightarrow> fernet \<Rightarrow> transport_settings \<Rightarrow> instant \<Rightarrow> string option \<Rightarrow> scope_target \<Rightarrow> string
     \<Rightarrow> string option \<Rightarrow> 'p net \<Rightarrow> (failure + creation) \<times> 'p net" where
  "graph_create_webhook C F cfg now stored target callback lifecycle n =
     (case draw (token_urlsafe C) n of (client_state, n1) \<Rightarrow>
        (let expires = now + minutes (subscription_minutes cfg);
             path = ''/drives/'' @ (case st_drive target of Some d \<Rightarrow> d | None \<Rightarrow> st_external target)
                      @ ''/root'';
             content = [(''changeType'', ''updated''), (''notificationUrl'', callback),
                       (''resource'', path), (''expirationDateTime'', show_int expires),
                       (''clientState'', client_state)]
                      @ (if truthy lifecycle
                         then [(''lifecycleNotificationUrl'', or_else lifecycle [])] else [])
                      @ [(''Prefer'', ''includesecuritywebhooks'')]
         in bind_net
              (api_request C F cfg (allowed_api_hosts Graph) stored
                 \<lparr>call_method = ''POST'', call_url = graph_url ''/subscriptions'', call_fields = content\<rparr>
                 n1)
              (\<lambda>b n2.
                 (case json_member ''id'' b of
                    Inl e \<Rightarrow> (Inl e, n2)
                  | Inr i \<Rightarrow>
                      (Inr \<lparr>cr_subscription_id = i, cr_client_state = client_state,
                            cr_expires_at = expires, cr_resource = Some path,
                            cr_lifecycle_url = lifecycle\<rparr>, n2)))))"

text \<open>\<open>int(expiration) / 1000\<close> seconds after the epoch, or a day from now.\<close>

definition drive_expiry :: "instant \<Rightarrow> string option \<Rightarrow> failure + instant" where
  "drive_expiry now expiration =
     (if truthy expiration then
        (case int_of_text (or_else expiration []) of
           None \<Rightarrow> Inl (Other_error ''ValueError'') | Some ms \<Rightarrow> Inr (int ms * 1000))
      else Inr (now + minutes (24 * 60)))"

definition drive_create_webhook ::
  "'p client \<Rightarrow> fernet \<Rightarrow> transport_settings \<Rightarrow> instant \<Rightarrow> string option \<Rightarrow> scope_target \<Rightarrow> string
     \<Rightarrow> 'p net \<Rightarrow> (failure + creation) \<times> 'p net" where
  "drive_create_webhook C F cfg now stored target callback n =
     bind_net
       (api_request C F cfg (allowed_api_hosts Drive) stored
          \<lparr>call_method = ''GET'',
           call_url = drive_url (''/changes/startPageToken''
             @ (if truthy (st_drive target)
                then ''?driveId='' @ or_else (st_drive target) [] @ ''&supportsAllDrives=true'' else [])),
           call_fields = []\<rparr> n)
       (\<lambda>start n1.
          case draw (uuid4_text C) n1 of (channel, n2) \<Rightarrow>
          (case draw (token_urlsafe C) n2 of (client_state, n3) \<Rightarrow>
          (case json_member ''startPageToken'' start of
             Inl e \<Rightarrow> (Inl e, n3)
           | Inr page \<Rightarrow>
               bind_net
                 (api_request C F cfg (allowed_api_hosts Drive) stored
                    \<lparr>call_method = ''POST'', call_url = drive_url ''/changes/watch'',
                     call_fields = [(''pageToken'', page), (''supportsAllDrives'', ''true''),
                                    (''id'', channel), (''type'', ''web_hook''),
                                    (''address'', callback), (''token'', client_state)]\<rparr> n3)
                 (\<lambda>b n4.
                    (case optional_member ''expiration'' b of
                       Inl e \<Rightarrow> (Inl e, n4)
                     | Inr expiration \<Rightarrow>
                         (case drive_expiry now expiration of
                            Inl e \<Rightarrow> (Inl e, n4)
                          | Inr expires \<Rightarrow>
                              (case optional_member ''resourceId'' b of
                                 Inl e \<Rightarrow> (Inl e, n4)
                               | Inr watched \<Rightarrow>
                                   (Inr \<lparr>cr_subscription_id = channel, cr_client_state = client_state,
                                         cr_expires_at = expires, cr_resource = watched,
                                         cr_lifecycle_url = None\<rparr>, n4))))))))"

definition create_webhook ::
  "'p client \<Rightarrow> fernet \<Rightarrow> transport_settings \<Rightarrow> instant \<Rightarrow> adapter \<Rightarrow> string option \<Rightarrow> scope_target
     \<Rightarrow> string \<Rightarrow> string option \<Rightarrow> 'p net \<Rightarrow> (failure + creation) \<times> 'p net" where
  "create_webhook C F cfg now A stored target callback lifecycle n =
     (case A of
        Graph \<Rightarrow> graph_create_webhook C F cfg now stored target callback lifecycle n
      | Drive \<Rightarrow> drive_create_webhook C F cfg now stored target callback n)"

text \<open>A Drive channel cannot be extended.\<close>

definition renew_webhook ::
  "'p client \<Rightarrow> fernet \<Rightarrow> transport_settings \<Rightarrow> instant \<Rightarrow> adapter \<Rightarrow> string option \<Rightarrow> string \<Rightarrow> 'p net
     \<Rightarrow> (failure + instant option) \<times> 'p net" where
  "renew_webhook C F cfg now A stored subscription n =
     (case A of
        Graph \<Rightarrow>
          (let expires = now + minutes (subscription_minutes cfg)
           in bind_net
                (api_request C F cfg (allowed_api_hosts Graph) stored
                   \<lparr>call_method = ''PATCH'', call_url = graph_url (''/subscriptions/'' @ subscription),
                    call_fields = [(''expirationDateTime'', show_int expires)]\<rparr> n)
                (\<lambda>b n1. (Inr (Some expires), n1)))
      | Drive \<Rightarrow> (Inr None, n))"

definition delete_webhook ::
  "'p client \<Rightarrow> fernet \<Rightarrow> transport_settings \<Rightarrow> adapter \<Rightarrow> string option \<Rightarrow> string \<Rightarrow> string option
     \<Rightarrow> 'p net \<Rightarrow> (failure + unit) \<times> 'p net" where
  "delete_webhook C F cfg A stored subscription res n =
     (case A of
        Graph \<Rightarrow>
          bind_net
            (api_request C F cfg (allowed_api_hosts Graph) stored
               \<lparr>call_method = ''DELETE'', call_url = graph_url (''/subscriptions/'' @ subscription),
                call_fields = []\<rparr> n)
            (\<lambda>b n1. (Inr (), n1))
      | Drive \<Rightarrow>
          if \<not> truthy res then (Inr (), n)
          else
            bind_net
              (api_request C F cfg (allowed_api_hosts Drive) stored
                 \<lparr>call_method = ''POST'', call_url = drive_url ''/channels/stop'',
                  call_fields = [(''id'', subscription), (''resourceId'', or_else res [])]\<rparr> n)
              (\<lambda>b n1. (Inr (), n1)))"

section \<open>Tokens\<close>

definition refused_unless_ok ::
  "string \<Rightarrow> (string + nat \<times> token_reply) \<Rightarrow> failure + token_reply" where
  "refused_unless_ok message r =
     (case r of
        Inl e \<Rightarrow> Inl (Other_error e)
      | Inr (status, tokens) \<Rightarrow>
          if status \<ge> 400 then Inl (Provider_error message False (Some (show_nat status)))
          else Inr tokens)"

definition token_exchange ::
  "'p client \<Rightarrow> string \<Rightarrow> token_grant \<Rightarrow> 'p net \<Rightarrow> (failure + token_reply) \<times> 'p net" where
  "token_exchange C message grant n =
     (case draw (post_token C grant) n of (r, n1) \<Rightarrow> (refused_unless_ok message r, n1))"

definition fresh_tokens ::
  "'p client \<Rightarrow> fernet \<Rightarrow> transport_settings \<Rightarrow> adapter \<Rightarrow> string option \<Rightarrow> 'p net
     \<Rightarrow> (failure + token_reply) \<times> 'p net" where
  "fresh_tokens C F cfg A stored_refresh n =
     (case A of
        Graph \<Rightarrow>
          (case pinned_tenant cfg of
             None \<Rightarrow>
               (Inl (Provider_error
                  ''MICROSOFT_TENANT_ID must be the Entra tenant GUID (not blank, common, organizations or consumers)''
                  False (Some ''tenant_not_pinned'')), n)
           | Some tenant \<Rightarrow>
               if lower (strip (microsoft_mode cfg)) = ''application'' then
                 token_exchange C ''Microsoft application token request failed''
                   (Client_credentials tenant) n
               else
                 (case decrypt_secret F (keys cfg) stored_refresh of
                    None \<Rightarrow> (Inl (not_authorized ''Microsoft refresh token is missing''), n)
                  | Some t \<Rightarrow>
                      if t = [] then (Inl (not_authorized ''Microsoft refresh token is missing''), n)
                      else token_exchange C ''Microsoft token refresh failed''
                             (Microsoft_refresh tenant t) n))
      | Drive \<Rightarrow>
          (case decrypt_secret F (keys cfg) stored_refresh of
             None \<Rightarrow> (Inl (not_authorized ''Google refresh token is missing''), n)
           | Some t \<Rightarrow>
               if t = [] then (Inl (not_authorized ''Google refresh token is missing''), n)
               else token_exchange C ''Google token refresh failed'' (Google_refresh t) n))"

section \<open>What is shown\<close>

text \<open>
  C13: a connector's token goes to its provider only. Whatever a provider answers, one API request
  makes at most eight exchanges and three waits of at most a minute; the decrypted token is sent to
  the address of the call alone, which is HTTPS on an allowed host, and a redirect is followed only
  on a GET, without the token, to an address that is not local.
\<close>

theorem token_stays_with_provider:
  assumes "api_request C F cfg allowed stored call n = (r, n')"
  shows "(sent n' = sent n \<and> slept n' = slept n)
    \<or> (\<exists>token. decrypt_secret F (keys cfg) stored = Some token
          \<and> validate_provider_url allowed (call_url call) = Inr ()
          \<and> bounded_history call token 8 3 n n')"
proof (cases "validate_provider_url allowed (call_url call)")
  case (Inl e)
  with assms show ?thesis by (simp add: api_request_def)
next
  case valid: (Inr u)
  show ?thesis
  proof (cases "access_token F cfg stored")
    case (Inl e)
    with assms valid show ?thesis by (simp add: api_request_def)
  next
    case (Inr token)
    have "decrypt_secret F (keys cfg) stored = Some token"
      using Inr by (auto simp: access_token_def split: option.splits if_splits)
    moreover have "attempts C cfg call token [0..<4] n = (r, n')"
      using assms valid Inr by (simp add: api_request_def)
    from attempts_history [OF this] have "bounded_history call token 8 3 n n'"
      by (rule bounded_history_mono) (simp_all add: upt_rec)
    ultimately show ?thesis using valid by auto
  qed
qed

text \<open>
  A concrete cipher, which puts the key in front of the text, and a provider that answers a busy
  status, then redirects a GET and then serves it.
\<close>

definition tagged :: "string \<Rightarrow> string" where
  "tagged k = replicate (length k) CHR ''k'' @ ''.'' @ k"

definition plain_fernet :: fernet where
  "plain_fernet =
     \<lparr>sha256 = (\<lambda>s. s), seal = (\<lambda>k v r. tagged k @ v),
      unseal = (\<lambda>k s. if take (length (tagged k)) s = tagged k then Some (drop (length (tagged k)) s)
                       else None)\<rparr>"

lemma tagged_prefix: "tagged k @ v = tagged k' @ w \<Longrightarrow> k = k'"
proof -
  assume eq: "tagged k @ v = tagged k' @ w"
  have run: "takeWhile (\<lambda>c. c = CHR ''k'') (tagged j @ x) = replicate (length j) CHR ''k''" for j x
    by (simp add: tagged_def takeWhile_append)
  have "takeWhile (\<lambda>c. c = CHR ''k'') (tagged k @ v) = takeWhile (\<lambda>c. c = CHR ''k'') (tagged k' @ w)"
    by (simp only: eq)
  then have len: "length k = length k'" by (simp add: run)
  then have "length (tagged k) = length (tagged k')" by (simp add: tagged_def)
  with eq have "tagged k = tagged k'" by (metis append_eq_append_conv)
  then have "drop (Suc (length k)) (tagged k) = drop (Suc (length k')) (tagged k')" by (simp only: len)
  then show "k = k'" by (simp add: tagged_def)
qed

lemma tagged_take: "take (length (tagged k')) (tagged k @ v) = tagged k' \<longleftrightarrow> k' = k"
proof
  assume "take (length (tagged k')) (tagged k @ v) = tagged k'"
  then have "tagged k' @ drop (length (tagged k')) (tagged k @ v) = tagged k @ v"
    using append_take_drop_id [of "length (tagged k')" "tagged k @ v"] by (simp only:)
  then show "k' = k" by (rule tagged_prefix)
qed simp

lemma plain_fernet_simps:
  "sha256 plain_fernet s = s"
  "seal plain_fernet k v r = tagged k @ v"
  "unseal plain_fernet k' (tagged k @ v) = (if k' = k then Some v else None)"
  by (simp_all add: plain_fernet_def tagged_take del: take_append)

lemma plain_fernet_law: "fernet_law plain_fernet"
  unfolding fernet_law_def plain_fernet_simps by (simp add: tagged_def)

definition office_keys :: key_settings where
  "office_keys = \<lparr>data_encryption_key = ''dek'', secret_key = ''jwt'', previous_keys = []\<rparr>"

definition office_transport :: transport_settings where
  "office_transport =
     \<lparr>keys = office_keys, max_json_bytes = 5242880, max_upload_bytes = 52428800,
      microsoft_mode = ''delegated'', pinned_tenant = None, subscription_minutes = 1440,
      webhook_base_url = Some ''https://kb.qnsc.vn''\<rparr>"

definition reply_of :: "nat \<Rightarrow> url option \<Rightarrow> (string \<times> string) list \<Rightarrow> wire_reply" where
  "reply_of status target members =
     \<lparr>wr_status = status, wr_location = target, wr_retry_after = None, wr_json = True,
      wr_content_length = None, wr_chunks = [100], wr_object = Some members, wr_error_text = []\<rparr>"

definition cdn_url :: url where
  "cdn_url = api_url ''cdn.example.com'' ''/page''"

definition busy_client :: "nat client" where
  "busy_client =
     \<lparr>exchange = (\<lambda>call bearer k. (Inr (if k = 0 then reply_of 503 None []
                    else if k = 1 then reply_of 302 (Some cdn_url) []
                    else reply_of 200 None [(''startPageToken'', ''42'')]), Suc k)),
      post_token = (\<lambda>grant k. (Inl ''unreachable'', k)), random_bits = (\<lambda>k. (250, k)),
      token_urlsafe = (\<lambda>k. (''secret'', Suc k)), uuid4_text = (\<lambda>k. (''channel'', Suc k))\<rparr>"

definition page_call :: api_call where
  "page_call =
     \<lparr>call_method = ''GET'', call_url = drive_url ''/changes/startPageToken'', call_fields = []\<rparr>"

abbreviation stored_token :: "string option" where
  "stored_token \<equiv> Some (tagged ''dek'' @ ''bearer'')"

lemma office_secret: "decrypt_secret plain_fernet office_keys stored_token = Some ''bearer''"
proof -
  have "''dek'' \<in> set (key_materials office_keys)"
    by (simp add: set_key_materials office_keys_def)
  then have "first_opened plain_fernet (key_materials office_keys)
      (seal plain_fernet (fernet_for plain_fernet ''dek'') ''bearer'' 0) = Some ''bearer''"
    using first_opened_sealed [OF plain_fernet_law] by auto
  then show ?thesis
    by (simp add: decrypt_secret_def plain_fernet_simps fernet_for_def tagged_def)
qed

lemma office_access: "access_token plain_fernet office_transport stored_token = Inr ''bearer''"
  by (simp add: access_token_def office_transport_def office_secret)

lemma drive_host_lower: "lower drive_host = drive_host" "drive_host \<noteq> []"
  by (simp_all add: drive_host_def lower_def lower_char_def)

lemma page_url_valid: "validate_provider_url (allowed_api_hosts Drive) (call_url page_call) = Inr ()"
  by (simp add: validate_provider_url_def page_call_def drive_url_def api_url_def allowed_api_hosts_def
      drive_host_lower)

lemma cdn_url_safe: "validate_redirect_url cdn_url = Inr ()"
  by code_simp

lemma reply_of_simps [simp]:
  "wr_status (reply_of st target ms) = st" "wr_location (reply_of st target ms) = target"
  "wr_retry_after (reply_of st target ms) = None" "wr_json (reply_of st target ms)"
  "wr_content_length (reply_of st target ms) = None" "wr_chunks (reply_of st target ms) = [100]"
  "wr_object (reply_of st target ms) = Some ms"
  by (simp_all add: reply_of_def)

lemma read_small:
  assumes "exchange C call bearer (outside n) = (Inr (reply_of st target ms), p)"
  shows "read_response C office_transport call bearer n
    = (Inr (reply_of st target ms), n\<lparr>outside := p, sent := sent n @ [(call_url call, bearer)]\<rparr>)"
  using assms by (simp add: read_response_def office_transport_def Let_def)

lemma busy_client_simps:
  "exchange busy_client call bearer k =
     (Inr (if k = 0 then reply_of 503 None [] else if k = 1 then reply_of 302 (Some cdn_url) []
           else reply_of 200 None [(''startPageToken'', ''42'')]), Suc k)"
  "random_bits busy_client k = (250, k)"
  by (simp_all add: busy_client_def)

lemma busy_client_run:
  "api_request busy_client plain_fernet office_transport (allowed_api_hosts Drive) stored_token page_call
     \<lparr>outside = 0, sent = [], slept = []\<rparr>
   = (Inr (Json_body [(''startPageToken'', ''42'')]),
      \<lparr>outside = 3,
       sent = [(call_url page_call, Some ''bearer''), (call_url page_call, Some ''bearer''), (cdn_url, None)],
       slept = [seconds 1 + 250000]\<rparr>)"
proof -
  have get: "call_method page_call = ''GET''" by (simp add: page_call_def)
  have 1: "follow busy_client office_transport page_call ''bearer'' \<lparr>outside = 0, sent = [], slept = []\<rparr>
    = (Inr (reply_of 503 None []), \<lparr>outside = 1, sent = [(call_url page_call, Some ''bearer'')], slept = []\<rparr>)"
    by (simp add: follow_def read_small busy_client_simps is_redirect_def)
  have 2: "follow busy_client office_transport page_call ''bearer'' \<lparr>outside = 1, sent = s, slept = w\<rparr>
    = (Inr (reply_of 200 None [(''startPageToken'', ''42'')]),
       \<lparr>outside = 3, sent = s @ [(call_url page_call, Some ''bearer''), (cdn_url, None)], slept = w\<rparr>)"
    for s w
    by (simp add: follow_def read_small busy_client_simps is_redirect_def get cdn_url_safe)
  show ?thesis
    by (simp add: api_request_def page_url_valid office_access upt_rec 1 2 [unfolded One_nat_def] retry_delay_def backoff_delay_def
        busy_client_simps settle_def)
qed

theorem token_stays_with_provider_witness:
  "\<exists>n'. sent n' = [(call_url page_call, Some ''bearer''), (call_url page_call, Some ''bearer''),
                    (cdn_url, None)]
     \<and> (\<exists>token. decrypt_secret plain_fernet office_keys stored_token = Some token
          \<and> bounded_history page_call token 8 3 \<lparr>outside = (0::nat), sent = [], slept = []\<rparr> n')"
  using token_stays_with_provider [OF busy_client_run]
  by (intro exI [of _ "snd (api_request busy_client plain_fernet office_transport (allowed_api_hosts Drive)
         stored_token page_call \<lparr>outside = 0, sent = [], slept = []\<rparr>)"])
     (simp only: busy_client_run, auto simp: office_transport_def)

text \<open>
  A stored secret survives the rotation of keys. What \<open>encrypt_secret\<close> wrote under one
  configuration is read back under another exactly when the key it was sealed with is still among
  the configured ones: the current key, the previous keys, or the signing key.
\<close>

theorem secret_survives_rotation:
  assumes "fernet_law F" and "encrypt_secret F K r (Some v) = Inr (Some t)"
  shows "decrypt_secret F K' (Some t) =
    (if fernet_for F (data_encryption_key K)
          \<in> fernet_for F ` ({if data_encryption_key K' \<noteq> [] then data_encryption_key K' else secret_key K'}
               \<union> {k \<in> strip ` set (split_commas (previous_keys K')). k \<noteq> []} \<union> {secret_key K'})
     then Some v else None)"
proof -
  have t: "t = seal F (fernet_for F (data_encryption_key K)) v r"
    using assms(2) by (auto simp: encrypt_secret_def split: if_splits)
  with assms(1) have "t \<noteq> []" by (auto simp: fernet_law_def)
  moreover have "(fernet_for F k \<in> fernet_for F ` set ms) = (\<exists>m \<in> set ms. fernet_for F m = fernet_for F k)"
    for k ms by (auto simp: image_iff) (metis)
  ultimately show ?thesis
    unfolding set_key_materials [symmetric]
    by (simp add: decrypt_secret_def t first_opened_sealed [OF assms(1)])
qed

theorem secret_survives_rotation_witness:
  "encrypt_secret plain_fernet office_keys 7 (Some ''bearer'') = Inr stored_token
   \<and> decrypt_secret plain_fernet
        \<lparr>data_encryption_key = ''new'', secret_key = ''jwt'', previous_keys = ''old, dek''\<rparr> stored_token
      = Some ''bearer''
   \<and> decrypt_secret plain_fernet
        \<lparr>data_encryption_key = ''new'', secret_key = ''jwt'', previous_keys = ''old''\<rparr> stored_token = None"
proof -
  have e: "encrypt_secret plain_fernet office_keys 7 (Some ''bearer'') = Inr stored_token"
    by code_simp
  show ?thesis
    using e secret_survives_rotation [OF plain_fernet_law e, of
        "\<lparr>data_encryption_key = ''new'', secret_key = ''jwt'', previous_keys = ''old, dek''\<rparr>"]
      secret_survives_rotation [OF plain_fernet_law e, of
        "\<lparr>data_encryption_key = ''new'', secret_key = ''jwt'', previous_keys = ''old''\<rparr>"]
    by (simp add: fernet_for_def plain_fernet_def office_keys_def strip_def lstrip_def rstrip_def isspace_def)
qed

end
