(* ===== verification/Webhooks.thy ===== *)
theory Webhooks
  imports Transport
begin

text \<open>
  \<open>domain/connector_auth.py\<close>, \<open>domain/webhook_subscriptions.py\<close> and the subscribe route of
  \<open>api/routers/connectors.py\<close>: the tokens of a connector, and the push subscriptions of its
  scopes, which are created, renewed, retired and repaired. \<open>session\<close> is what the open transaction
  sees and \<open>saved\<close> what is committed; \<open>wire\<close> is the provider's side, which no rollback reaches.
\<close>

section \<open>Rows\<close>

record provider_connector = connector +
  cn_name :: string
  cn_status :: string
  cn_created_by :: "uuid option"
  cn_access_token :: "string option"
  cn_refresh_token :: "string option"
  cn_token_expires_at :: "instant option"
  cn_subject :: "string option"
  cn_webhook_enabled :: bool
  cn_sync_mode :: "string option"
  cn_degraded_at :: "instant option"

record source_scope =
  ss_id :: uuid
  ss_connector :: uuid
  ss_external :: string
  ss_drive :: "string option"
  ss_selected :: bool

record subscription =
  ws_connector :: uuid
  ws_scope :: "uuid option"
  ws_provider_id :: string
  ws_token_hash :: "string option"
  ws_resource :: "string option"
  ws_lifecycle_url :: "string option"
  ws_expires_at :: "instant option"
  ws_active :: bool
  ws_reauthorization :: bool
  ws_notified_at :: "instant option"
  ws_lifecycle_at :: "instant option"
  ws_last_error :: "string option"

text \<open>The notification of the people behind a connector, a row of \<open>notification_queue\<close>.\<close>

record degraded_notice =
  dn_recipient :: uuid
  dn_connector :: uuid
  dn_name :: string
  dn_provider :: string
  dn_detail :: string

record hooks =
  connector_rows :: "provider_connector list"
  scope_rows :: "source_scope list"
  subscription_rows :: "subscription list"
  notice_rows :: "degraded_notice list"

record 'p world =
  session :: hooks
  saved :: hooks
  wire :: "'p net"

type_synonym ('a, 'p) outcome = "(failure + 'a) \<times> 'p world"

definition bind_world ::
  "('a, 'p) outcome \<Rightarrow> ('a \<Rightarrow> 'p world \<Rightarrow> ('b, 'p) outcome) \<Rightarrow> ('b, 'p) outcome" where
  "bind_world r f = (case r of (Inl e, w) \<Rightarrow> (Inl e, w) | (Inr x, w) \<Rightarrow> f x w)"

definition on_wire :: "('p net \<Rightarrow> 'x \<times> 'p net) \<Rightarrow> 'p world \<Rightarrow> 'x \<times> 'p world" where
  "on_wire f w = (case f (wire w) of (x, n) \<Rightarrow> (x, w\<lparr>wire := n\<rparr>))"

definition rollback :: "'p world \<Rightarrow> 'p world" where
  "rollback w = w\<lparr>session := saved w\<rparr>"

text \<open>The ids the provider gives to subscriptions are unique; the database refuses a second one.\<close>

definition commit :: "'p world \<Rightarrow> (unit, 'p) outcome" where
  "commit w =
     (if distinct (map ws_provider_id (subscription_rows (session w)))
      then (Inr (), w\<lparr>saved := session w\<rparr>)
      else (Inl (Other_error ''IntegrityError''), rollback w))"

abbreviation put_connector :: "provider_connector \<Rightarrow> hooks \<Rightarrow> hooks" where
  "put_connector c h \<equiv> h\<lparr>connector_rows := put_row conn_id c (connector_rows h)\<rparr>"

section \<open>Authorization of a connector\<close>

definition EXPIRY_SKEW :: int where
  "EXPIRY_SKEW = minutes 5"

definition RENEWAL_HORIZON :: int where
  "RENEWAL_HORIZON = minutes 20"

definition auth_mode :: "transport_settings \<Rightarrow> string \<Rightarrow> failure + string" where
  "auth_mode cfg system =
     (if \<not> is_microsoft_graph (Some system) then Inr ''delegated''
      else
        let mode = lower (strip (microsoft_mode cfg))
        in if mode \<notin> {''delegated'', ''application''} then
             Inl (Provider_error ''MICROSOFT_CONNECTOR_AUTH_MODE must be delegated or application'' False
                    (Some ''invalid_auth_mode''))
           else Inr mode)"

definition token_current :: "instant \<Rightarrow> provider_connector \<Rightarrow> bool" where
  "token_current now c =
     (truthy (cn_access_token c)
      \<and> (case cn_token_expires_at c of None \<Rightarrow> False | Some t \<Rightarrow> t > now + EXPIRY_SKEW))"

definition store_tokens ::
  "fernet \<Rightarrow> transport_settings \<Rightarrow> instant \<Rightarrow> string \<Rightarrow> nat \<Rightarrow> nat \<Rightarrow> token_reply \<Rightarrow> provider_connector
     \<Rightarrow> failure + provider_connector" where
  "store_tokens F cfg now mode r1 r2 tokens c =
     (case encrypt_secret F (keys cfg) r1 (tk_access_token tokens) of
        Inl e \<Rightarrow> Inl e
      | Inr access \<Rightarrow>
          if \<not> truthy access then
            Inl (Provider_error ''Provider returned no access token'' True (Some ''no_access_token''))
          else
            (case encrypt_secret F (keys cfg) r2 (tk_refresh_token tokens) of
               Inl e \<Rightarrow> Inl e
             | Inr refreshed \<Rightarrow>
                 Inr (c\<lparr>cn_access_token := access,
                        cn_refresh_token := (if truthy refreshed then refreshed else cn_refresh_token c),
                        cn_token_expires_at := Some (now + seconds
                          (case tk_expires_in tokens of None \<Rightarrow> 3600 | Some k \<Rightarrow> k)),
                        cn_subject := (if mode = ''application'' then Some ''application''
                                       else cn_subject c)\<rparr>)))"

definition refresh_connector ::
  "'p client \<Rightarrow> fernet \<Rightarrow> transport_settings \<Rightarrow> instant \<Rightarrow> string \<Rightarrow> provider_connector \<Rightarrow> 'p world
     \<Rightarrow> (provider_connector, 'p) outcome" where
  "refresh_connector C F cfg now mode c w =
     (case adapter_for (conn_system c) of
        Inl e \<Rightarrow> (Inl e, w)
      | Inr A \<Rightarrow>
          bind_world (on_wire (fresh_tokens C F cfg A (cn_refresh_token c)) w) (\<lambda>tokens w1.
            case on_wire (draw (random_bits C)) w1 of (r1, w2) \<Rightarrow>
            (case on_wire (draw (random_bits C)) w2 of (r2, w3) \<Rightarrow>
            (case store_tokens F cfg now mode r1 r2 tokens c of
               Inl e \<Rightarrow> (Inl e, w3)
             | Inr c' \<Rightarrow>
                 bind_world (commit (w3\<lparr>session := put_connector c' (session w3)\<rparr>))
                   (\<lambda>_ w4. (Inr c', w4))))))"

text \<open>The value is the connector as the caller's object shows it afterwards.\<close>

definition ensure_connector_authorized ::
  "'p client \<Rightarrow> fernet \<Rightarrow> transport_settings \<Rightarrow> instant \<Rightarrow> provider_connector \<Rightarrow> 'p world
     \<Rightarrow> (provider_connector, 'p) outcome" where
  "ensure_connector_authorized C F cfg now c w =
     (if conn_system c = ''local_folder'' then (Inr c, w)
      else
        (case auth_mode cfg (conn_system c) of
           Inl e \<Rightarrow> (Inl e, w)
         | Inr mode \<Rightarrow>
             if token_current now c then (Inr c, w)
             else if mode = ''delegated'' \<and> \<not> truthy (cn_refresh_token c) then
               (if truthy (cn_access_token c) then (Inr c, w)
                else (Inl (not_authorized ''Connector is not authorized''), w))
             else refresh_connector C F cfg now mode c w))"

section \<open>Creating subscriptions\<close>

definition dashed :: "string \<Rightarrow> string" where
  "dashed s = map (\<lambda>c. if c = CHR ''_'' then CHR ''-'' else c) s"

definition rstrip_slashes :: "string \<Rightarrow> string" where
  "rstrip_slashes s = rev (dropWhile (\<lambda>c. c = CHR ''/'') (rev s))"

definition callback_urls :: "transport_settings \<Rightarrow> string \<Rightarrow> failure + string \<times> string option" where
  "callback_urls cfg system =
     (let base = rstrip_slashes (or_else (webhook_base_url cfg) []);
          callback = base @ ''/api/v1/connectors/webhooks/'' @ dashed system
      in if base = [] then
           Inl (Configuration_error
                  ''Configure CONNECTOR_WEBHOOK_BASE_URL before enabling update notifications'')
         else Inr (callback, if supports_lifecycle_webhooks (Some system)
                             then Some (callback @ ''/lifecycle'') else None))"

definition live_for :: "uuid \<Rightarrow> uuid \<Rightarrow> subscription \<Rightarrow> bool" where
  "live_for i j s = (ws_connector s = i \<and> ws_scope s = Some j \<and> ws_active s)"

definition healthy :: "instant \<Rightarrow> subscription \<Rightarrow> bool" where
  "healthy now s = (case ws_expires_at s of None \<Rightarrow> False | Some t \<Rightarrow> t > now + RENEWAL_HORIZON)"

text \<open>Each old subscription is deleted at the provider, whatever comes of it, and marked inactive.\<close>

fun retire ::
  "(subscription \<Rightarrow> 'p net \<Rightarrow> (failure + unit) \<times> 'p net) \<Rightarrow> (subscription \<Rightarrow> bool)
     \<Rightarrow> subscription list \<Rightarrow> 'p net \<Rightarrow> subscription list \<times> 'p net" where
  "retire delete old [] n = ([], n)"
| "retire delete old (s # ss) n =
     (if old s then
        (case retire delete old ss (snd (delete s n)) of
           (ss', n') \<Rightarrow> (s\<lparr>ws_active := False\<rparr> # ss', n'))
      else (case retire delete old ss n of (ss', n') \<Rightarrow> (s # ss', n')))"

definition new_subscription ::
  "fernet \<Rightarrow> uuid \<Rightarrow> uuid \<Rightarrow> creation \<Rightarrow> subscription" where
  "new_subscription F i j made =
     \<lparr>ws_connector = i, ws_scope = Some j, ws_provider_id = cr_subscription_id made,
      ws_token_hash = Some (sha256 F (cr_client_state made)), ws_resource = cr_resource made,
      ws_lifecycle_url = cr_lifecycle_url made, ws_expires_at = Some (cr_expires_at made),
      ws_active = True, ws_reauthorization = False, ws_notified_at = None, ws_lifecycle_at = None,
      ws_last_error = None\<rparr>"

record created =
  ct_scope :: uuid
  ct_subscription :: string
  ct_expires_at :: instant

record 'p adapter_calls =
  create_call :: "source_scope \<Rightarrow> 'p net \<Rightarrow> (failure + creation) \<times> 'p net"
  renew_call :: "subscription \<Rightarrow> 'p net \<Rightarrow> (failure + instant option) \<times> 'p net"
  delete_call :: "subscription \<Rightarrow> 'p net \<Rightarrow> (failure + unit) \<times> 'p net"

text \<open>The adapter of a connector, with the addresses its provider calls.\<close>

definition adapter_calls ::
  "'p client \<Rightarrow> fernet \<Rightarrow> transport_settings \<Rightarrow> instant \<Rightarrow> adapter \<Rightarrow> provider_connector \<Rightarrow> string
     \<Rightarrow> string option \<Rightarrow> 'p adapter_calls" where
  "adapter_calls C F cfg now A c callback lifecycle =
     \<lparr>create_call = (\<lambda>sc. create_webhook C F cfg now A (cn_access_token c)
                       \<lparr>st_external = ss_external sc, st_drive = ss_drive sc\<rparr> callback lifecycle),
      renew_call = (\<lambda>s. renew_webhook C F cfg now A (cn_access_token c) (ws_provider_id s)),
      delete_call = (\<lambda>s. delete_webhook C F cfg A (cn_access_token c) (ws_provider_id s)
                       (ws_resource s))\<rparr>"

definition replace_subscription ::
  "'p adapter_calls \<Rightarrow> fernet \<Rightarrow> uuid \<Rightarrow> source_scope \<Rightarrow> 'p world \<Rightarrow> (created, 'p) outcome" where
  "replace_subscription P F i sc w =
     (case retire (delete_call P) (live_for i (ss_id sc)) (subscription_rows (session w)) (wire w) of
        (rows, n) \<Rightarrow>
          (let w1 = w\<lparr>session := (session w)\<lparr>subscription_rows := rows\<rparr>, wire := n\<rparr>
           in bind_world (on_wire (create_call P sc) w1) (\<lambda>made w2.
                (Inr \<lparr>ct_scope = ss_id sc, ct_subscription = cr_subscription_id made,
                      ct_expires_at = cr_expires_at made\<rparr>,
                 w2\<lparr>session := (session w2)\<lparr>subscription_rows :=
                       subscription_rows (session w2) @ [new_subscription F i (ss_id sc) made]\<rparr>\<rparr>))))"

fun subscribe_scopes ::
  "'p adapter_calls \<Rightarrow> fernet \<Rightarrow> instant \<Rightarrow> bool \<Rightarrow> uuid \<Rightarrow> source_scope list \<Rightarrow> 'p world
     \<Rightarrow> (created list, 'p) outcome" where
  "subscribe_scopes P F now force i [] w = (Inr [], w)"
| "subscribe_scopes P F now force i (sc # scs) w =
     (if list_ex (healthy now) (filter (live_for i (ss_id sc)) (subscription_rows (session w)))
         \<and> \<not> force
      then subscribe_scopes P F now force i scs w
      else bind_world (replace_subscription P F i sc w) (\<lambda>x w1.
             bind_world (subscribe_scopes P F now force i scs w1) (\<lambda>xs w2. (Inr (x # xs), w2))))"

definition selected_scopes :: "uuid \<Rightarrow> hooks \<Rightarrow> source_scope list" where
  "selected_scopes i h = filter (\<lambda>sc. ss_connector sc = i \<and> ss_selected sc) (scope_rows h)"

definition ensure_webhook_subscriptions ::
  "'p client \<Rightarrow> fernet \<Rightarrow> transport_settings \<Rightarrow> instant \<Rightarrow> bool \<Rightarrow> provider_connector \<Rightarrow> 'p world
     \<Rightarrow> (created list, 'p) outcome" where
  "ensure_webhook_subscriptions C F cfg now force c w =
     (if conn_system c = ''local_folder'' then
        (Inl (Configuration_error ''Local folders do not support webhooks''), w)
      else
        (case callback_urls cfg (conn_system c) of
           Inl e \<Rightarrow> (Inl e, w)
         | Inr (callback, lifecycle) \<Rightarrow>
             (let scopes = selected_scopes (conn_id c) (session w)
              in if scopes = [] then
                   (Inl (Configuration_error
                      ''Select at least one folder or drive before enabling update notifications''), w)
                 else
                   (case adapter_for (conn_system c) of
                      Inl e \<Rightarrow> (Inl e, w)
                    | Inr A \<Rightarrow>
                        bind_world (ensure_connector_authorized C F cfg now c w) (\<lambda>c1 w1.
                          subscribe_scopes (adapter_calls C F cfg now A c1 callback lifecycle) F now
                            force (conn_id c) scopes w1)))))"

section \<open>Renewal\<close>

definition due :: "instant \<Rightarrow> subscription \<Rightarrow> bool" where
  "due now s =
     (ws_active s \<and> (case ws_expires_at s of None \<Rightarrow> False | Some t \<Rightarrow> t \<le> now + RENEWAL_HORIZON))"

definition served :: "provider_connector \<Rightarrow> bool" where
  "served c = (cn_status c = ''active'' \<or> cn_status c = ''error'')"

definition renewal_call ::
  "'p client \<Rightarrow> fernet \<Rightarrow> transport_settings \<Rightarrow> instant \<Rightarrow> provider_connector \<Rightarrow> subscription \<Rightarrow> 'p net
     \<Rightarrow> (failure + instant option) \<times> 'p net" where
  "renewal_call C F cfg now c s n =
     (case adapter_for (conn_system c) of
        Inl e \<Rightarrow> (Inl e, n)
      | Inr A \<Rightarrow> renew_webhook C F cfg now A (cn_access_token c) (ws_provider_id s) n)"

text \<open>One due subscription; only an error that is no provider error stops the pass.\<close>

definition renew_one ::
  "'p client \<Rightarrow> fernet \<Rightarrow> transport_settings \<Rightarrow> instant \<Rightarrow> provider_connector list \<Rightarrow> subscription
     \<Rightarrow> 'p net \<Rightarrow> (failure + subscription) \<times> 'p net" where
  "renew_one C F cfg now cs s n =
     (case get_row conn_id (ws_connector s) cs of
        None \<Rightarrow> (Inr s, n)
      | Some c \<Rightarrow>
          if \<not> served c then (Inr s, n)
          else
            (case renewal_call C F cfg now c s n of
               (Inl (Provider_error m b k), n1) \<Rightarrow> (Inr (s\<lparr>ws_active := False\<rparr>), n1)
             | (Inl e, n1) \<Rightarrow> (Inl e, n1)
             | (Inr None, n1) \<Rightarrow> (Inr (s\<lparr>ws_active := False\<rparr>), n1)
             | (Inr (Some t), n1) \<Rightarrow> (Inr (s\<lparr>ws_expires_at := Some t\<rparr>), n1)))"

fun renew_rows ::
  "'p client \<Rightarrow> fernet \<Rightarrow> transport_settings \<Rightarrow> instant \<Rightarrow> provider_connector list \<Rightarrow> subscription list
     \<Rightarrow> 'p net \<Rightarrow> (failure + subscription list) \<times> 'p net" where
  "renew_rows C F cfg now cs [] n = (Inr [], n)"
| "renew_rows C F cfg now cs (s # ss) n =
     bind_net (if due now s then renew_one C F cfg now cs s n else (Inr s, n)) (\<lambda>s1 n1.
       bind_net (renew_rows C F cfg now cs ss n1) (\<lambda>ss1 n2. (Inr (s1 # ss1), n2)))"

definition renew_due_subscriptions ::
  "'p client \<Rightarrow> fernet \<Rightarrow> transport_settings \<Rightarrow> instant \<Rightarrow> 'p world \<Rightarrow> (unit, 'p) outcome" where
  "renew_due_subscriptions C F cfg now w =
     (case on_wire (renew_rows C F cfg now (connector_rows (session w))
                      (subscription_rows (session w))) w of
        (Inl e, w1) \<Rightarrow> (Inl e, rollback w1)
      | (Inr rows, w1) \<Rightarrow> commit (w1\<lparr>session := (session w1)\<lparr>subscription_rows := rows\<rparr>\<rparr>))"

section \<open>Repair\<close>

definition mark_degraded ::
  "instant \<Rightarrow> provider_connector \<Rightarrow> failure \<Rightarrow> provider_connector \<Rightarrow> hooks \<Rightarrow> hooks" where
  "mark_degraded now seen e c h =
     (let c' = c\<lparr>cn_degraded_at := (case cn_degraded_at seen of Some t \<Rightarrow> Some t | None \<Rightarrow> Some now)\<rparr>;
          h' = put_connector c' h
      in (case cn_created_by c of
            Some who \<Rightarrow>
              if cn_degraded_at seen = None then
                h'\<lparr>notice_rows := notice_rows h' @
                     [\<lparr>dn_recipient = who, dn_connector = conn_id c, dn_name = cn_name c,
                       dn_provider = conn_system c, dn_detail = take 500 (failure_message e)\<rparr>]\<rparr>
              else h'
          | None \<Rightarrow> h'))"

definition repair_failed ::
  "instant \<Rightarrow> provider_connector \<Rightarrow> failure \<Rightarrow> 'p world \<Rightarrow> (unit, 'p) outcome" where
  "repair_failed now seen e w =
     (let w1 = rollback w
      in (case get_row conn_id (conn_id seen) (connector_rows (session w1)) of
            None \<Rightarrow> (Inr (), w1)
          | Some c \<Rightarrow> commit (w1\<lparr>session := mark_degraded now seen e c (session w1)\<rparr>)))"

definition clear_degraded :: "provider_connector \<Rightarrow> hooks \<Rightarrow> hooks" where
  "clear_degraded seen h =
     (if cn_degraded_at seen = None then h
      else h\<lparr>connector_rows := map (\<lambda>c. if conn_id c = conn_id seen then c\<lparr>cn_degraded_at := None\<rparr> else c)
                                (connector_rows h)\<rparr>)"

definition repair_one ::
  "'p client \<Rightarrow> fernet \<Rightarrow> transport_settings \<Rightarrow> instant \<Rightarrow> uuid \<Rightarrow> 'p world \<Rightarrow> (unit, 'p) outcome" where
  "repair_one C F cfg now i w =
     (case get_row conn_id i (connector_rows (session w)) of
        None \<Rightarrow> (Inr (), w)
      | Some c \<Rightarrow>
          if \<not> cn_webhook_enabled c then (Inr (), w)
          else
            (case ensure_webhook_subscriptions C F cfg now False c w of
               (Inl (Other_error m), w1) \<Rightarrow> (Inl (Other_error m), rollback w1)
             | (Inl e, w1) \<Rightarrow> repair_failed now c e w1
             | (Inr xs, w1) \<Rightarrow> commit (w1\<lparr>session := clear_degraded c (session w1)\<rparr>)))"

fun repair_each ::
  "'p client \<Rightarrow> fernet \<Rightarrow> transport_settings \<Rightarrow> instant \<Rightarrow> uuid list \<Rightarrow> 'p world \<Rightarrow> (unit, 'p) outcome" where
  "repair_each C F cfg now [] w = (Inr (), w)"
| "repair_each C F cfg now (i # is) w =
     bind_world (repair_one C F cfg now i w) (\<lambda>_ w1. repair_each C F cfg now is w1)"

definition repair_webhook_subscriptions ::
  "'p client \<Rightarrow> fernet \<Rightarrow> transport_settings \<Rightarrow> instant \<Rightarrow> 'p world \<Rightarrow> (unit, 'p) outcome" where
  "repair_webhook_subscriptions C F cfg now w =
     repair_each C F cfg now
       (map conn_id (filter (\<lambda>c. conn_system c \<in> REMOTE_PROVIDERS \<and> served c)
                       (connector_rows (session w)))) w"

text \<open>The task that runs every ten minutes, in a session of its own.\<close>

definition renew_webhook_subscriptions ::
  "'p client \<Rightarrow> fernet \<Rightarrow> transport_settings \<Rightarrow> instant \<Rightarrow> 'p world \<Rightarrow> (unit, 'p) outcome" where
  "renew_webhook_subscriptions C F cfg now w =
     bind_world (renew_due_subscriptions C F cfg now (rollback w)) (\<lambda>_ w1.
       repair_webhook_subscriptions C F cfg now w1)"

section \<open>The subscribe route\<close>

definition connector_for_user :: "user \<Rightarrow> uuid \<Rightarrow> hooks \<Rightarrow> provider_connector option" where
  "connector_for_user u i h =
     find (\<lambda>c. conn_id c = i \<and> (has_permission u ''connector.manage'' None Global
                                 \<or> conn_company c = u_company u)) (connector_rows h)"

definition subscribe_webhooks ::
  "'p client \<Rightarrow> fernet \<Rightarrow> transport_settings \<Rightarrow> instant \<Rightarrow> user \<Rightarrow> uuid \<Rightarrow> 'p world
     \<Rightarrow> created list result \<times> 'p world" where
  "subscribe_webhooks C F cfg now u i w0 =
     (let w = rollback w0
      in if \<not> has_permission u ''connector.manage'' None Company then
           (raise 403 ''Missing permission: connector.manage'', w)
         else
           (case connector_for_user u i (session w) of
              None \<Rightarrow> (raise 404 ''Connector not found'', w)
            | Some c \<Rightarrow>
                (case ensure_webhook_subscriptions C F cfg now True c w of
                   (Inl (Configuration_error m), w1) \<Rightarrow> (raise 422 m, rollback w1)
                 | (Inl e, w1) \<Rightarrow> (raise 500 ''Internal Server Error'', rollback w1)
                 | (Inr xs, w1) \<Rightarrow>
                     (case commit (w1\<lparr>session := (session w1)\<lparr>connector_rows :=
                          map (\<lambda>k. if conn_id k = i
                               then k\<lparr>cn_webhook_enabled := True, cn_sync_mode := Some ''on_update'',
                                       cn_degraded_at := None\<rparr> else k) (connector_rows (session w1))\<rparr>\<rparr>) of
                        (Inl e, w2) \<Rightarrow> (raise 500 ''Internal Server Error'', w2)
                      | (Inr _, w2) \<Rightarrow> (Inr xs, w2)))))"

section \<open>One live subscription per scope\<close>

definition lone :: "hooks \<Rightarrow> bool" where
  "lone h = (\<forall>i j. count_rows (live_for i j) (subscription_rows h) \<le> 1)"

definition session_ok :: "hooks \<Rightarrow> bool" where
  "session_ok h = (lone h \<and> unique_key ss_id (scope_rows h) \<and> unique_key conn_id (connector_rows h))"

definition hooks_inv :: "hooks \<Rightarrow> bool" where
  "hooks_inv h = (session_ok h \<and> distinct (map ws_provider_id (subscription_rows h)))"

definition world_ok :: "'p world \<Rightarrow> bool" where
  "world_ok w = (session_ok (session w) \<and> hooks_inv (saved w))"

lemma count_map_le:
  "(\<And>s. P (f s) \<Longrightarrow> P s) \<Longrightarrow> count_rows P (map f rows) \<le> count_rows P rows"
  by (rule count_rows_map)

lemma retire_rows:
  "fst (retire delete old rows n) = map (\<lambda>s. if old s then s\<lparr>ws_active := False\<rparr> else s) rows"
  by (induction rows arbitrary: n) (auto split: prod.splits dest: arg_cong [where f = fst])

lemma live_retired:
  "live_for i j (if live_for a b s then s\<lparr>ws_active := False\<rparr> else s)
     \<longleftrightarrow> live_for i j s \<and> \<not> live_for a b s"
  by (auto simp: live_for_def)

lemma live_new [simp]:
  "live_for i j (new_subscription F a b made) \<longleftrightarrow> i = a \<and> j = b"
  by (auto simp: live_for_def new_subscription_def)

lemma count_retired:
  "count_rows (live_for i j) (map (\<lambda>s. if live_for a b s then s\<lparr>ws_active := False\<rparr> else s) rows)
     \<le> (if i = a \<and> j = b then 0 else count_rows (live_for i j) rows)"
proof (cases "i = a \<and> j = b")
  case True
  have z: "\<not> live_for a b (if live_for a b s then s\<lparr>ws_active := False\<rparr> else s)" for s
    by (simp only: live_retired) simp
  have "count_rows (live_for a b)
      (map (\<lambda>s. if live_for a b s then s\<lparr>ws_active := False\<rparr> else s) rows) = 0"
  proof (induction rows)
    case (Cons r rows)
    then show ?case by (simp only: list.map count_rows_simps z if_False add_0)
  qed simp
  with True show ?thesis by simp
next
  case False
  have "count_rows (live_for i j) (map (\<lambda>s. if live_for a b s then s\<lparr>ws_active := False\<rparr> else s) rows)
      \<le> count_rows (live_for i j) rows"
    by (rule count_rows_map) (simp only: live_retired)
  then show ?thesis by (simp only: False if_False)
qed

lemma bind_world_ok:
  "world_ok (snd r) \<Longrightarrow> (\<And>x w. r = (Inr x, w) \<Longrightarrow> world_ok (snd (f x w))) \<Longrightarrow>
     world_ok (snd (bind_world r f))"
  by (auto simp: bind_world_def split: prod.splits sum.splits)

lemma on_wire_fields:
  "on_wire f w = (x, w') \<Longrightarrow> session w' = session w" "on_wire f w = (x, w') \<Longrightarrow> saved w' = saved w"
  by (auto simp: on_wire_def split: prod.splits)

lemma on_wire_snd [simp]: "session (snd (on_wire f w)) = session w" "saved (snd (on_wire f w)) = saved w"
  by (simp_all add: on_wire_def split: prod.splits)

lemma on_wire_ok: "on_wire f w = (x, w') \<Longrightarrow> world_ok w' = world_ok w"
  by (auto simp: world_ok_def on_wire_def split: prod.splits)

lemma commit_ok: "world_ok w \<Longrightarrow> world_ok (snd (commit w))"
  by (simp add: commit_def world_ok_def hooks_inv_def rollback_def)

lemma rollback_ok: "world_ok w \<Longrightarrow> world_ok (rollback w)"
  by (simp add: rollback_def world_ok_def hooks_inv_def)

lemma rollback_fields [simp]: "session (rollback w) = saved w" "saved (rollback w) = saved w"
  "wire (rollback w) = wire w"
  by (simp_all add: rollback_def)

lemma session_ok_cong:
  "subscription_rows h' = subscription_rows h \<Longrightarrow> scope_rows h' = scope_rows h \<Longrightarrow>
     map conn_id (connector_rows h') = map conn_id (connector_rows h) \<Longrightarrow> session_ok h' = session_ok h"
  by (simp add: session_ok_def lone_def unique_key_def)

lemma world_ok_session:
  "world_ok w \<Longrightarrow> session_ok (session w') \<Longrightarrow> saved w' = saved w \<Longrightarrow> world_ok w'"
  by (simp add: world_ok_def)

lemma replace_subscription_ok:
  assumes "world_ok w"
  shows "world_ok (snd (replace_subscription P F i sc w))"
proof -
  obtain rows n where rows: "retire (delete_call P) (live_for i (ss_id sc)) (subscription_rows (session w))
      (wire w) = (rows, n)" by fastforce
  then have r: "rows = map (\<lambda>s. if live_for i (ss_id sc) s then s\<lparr>ws_active := False\<rparr> else s)
      (subscription_rows (session w))"
    using retire_rows [of "delete_call P" "live_for i (ss_id sc)" "subscription_rows (session w)" "wire w"]
    by simp
  have le: "count_rows (live_for a b) (subscription_rows (session w)) \<le> 1" for a b
    using assms by (simp add: world_ok_def session_ok_def lone_def)
  have gone: "count_rows (live_for a b) rows \<le> (if a = i \<and> b = ss_id sc then 0 else 1)" for a b
    using order_trans [OF count_retired [of a b i "ss_id sc" "subscription_rows (session w)"]] le [of a b]
    unfolding r by (auto split: if_splits)
  let ?w1 = "w\<lparr>session := (session w)\<lparr>subscription_rows := rows\<rparr>, wire := n\<rparr>"
  have "count_rows (live_for a b) rows \<le> 1" for a b
    using gone [of a b] by (auto split: if_splits)
  then have 1: "world_ok ?w1"
    using assms by (simp add: world_ok_def session_ok_def lone_def)
  have "world_ok (w2\<lparr>session := (session w2)\<lparr>subscription_rows :=
      subscription_rows (session w2) @ [new_subscription F i (ss_id sc) made]\<rparr>\<rparr>)"
    if "on_wire (create_call P sc) ?w1 = (r2, w2)" for r2 w2 made
  proof -
    have "count_rows (live_for a b) (rows @ [new_subscription F i (ss_id sc) made]) \<le> 1" for a b
      using gone [of a b] by (auto split: if_splits)
    with on_wire_fields [OF that] 1 show ?thesis
      by (simp add: world_ok_def session_ok_def lone_def)
  qed
  moreover have "world_ok (snd (on_wire (create_call P sc) ?w1))"
    using 1 by (simp add: world_ok_def)
  ultimately show ?thesis
    unfolding replace_subscription_def rows prod.case Let_def by (intro bind_world_ok) auto
qed

lemma subscribe_scopes_ok: "world_ok w \<Longrightarrow> world_ok (snd (subscribe_scopes P F now force i scs w))"
proof (induction scs arbitrary: w)
  case Nil
  then show ?case by simp
next
  case (Cons sc scs)
  have "world_ok (snd (bind_world (replace_subscription P F i sc w) (\<lambda>x w1.
      bind_world (subscribe_scopes P F now force i scs w1) (\<lambda>xs w2. (Inr (x # xs), w2)))))"
  proof (rule bind_world_ok)
    show "world_ok (snd (replace_subscription P F i sc w))"
      by (rule replace_subscription_ok [OF Cons.prems])
    fix x w1 assume "replace_subscription P F i sc w = (Inr x, w1)"
    with replace_subscription_ok [OF Cons.prems, of P F i sc] have "world_ok w1" by simp
    from Cons.IH [OF this]
    show "world_ok (snd (bind_world (subscribe_scopes P F now force i scs w1)
        (\<lambda>xs w2. (Inr (x # xs), w2))))"
      by (intro bind_world_ok) auto
  qed
  with Cons.IH [OF Cons.prems] show ?case
    unfolding subscribe_scopes.simps(2) by (split if_split) blast
qed

lemma refresh_connector_ok:
  assumes "world_ok w"
  shows "world_ok (snd (refresh_connector C F cfg now mode c w))"
proof (cases "adapter_for (conn_system c)")
  case (Inl e)
  with assms show ?thesis by (simp add: refresh_connector_def)
next
  case (Inr A)
  let ?draw = "on_wire (draw (random_bits C))"
  have "world_ok (snd (case ?draw w1 of (r1, w2) \<Rightarrow>
            (case ?draw w2 of (r2, w3) \<Rightarrow>
            (case store_tokens F cfg now mode r1 r2 tokens c of
               Inl e \<Rightarrow> (Inl e, w3)
             | Inr c' \<Rightarrow> bind_world (commit (w3\<lparr>session := put_connector c' (session w3)\<rparr>))
                   (\<lambda>_ w4. (Inr c', w4))))))" if "world_ok w1" for w1 tokens
  proof -
    obtain r1 w2 where 1: "?draw w1 = (r1, w2)" by fastforce
    obtain r2 w3 where 2: "?draw w2 = (r2, w3)" by fastforce
    have ok: "world_ok w3" using that on_wire_ok [OF 1] on_wire_ok [OF 2] by simp
    have "world_ok (snd (bind_world (commit (w3\<lparr>session := put_connector c' (session w3)\<rparr>))
        (\<lambda>_ w4. (Inr c', w4))))" for c'
    proof (rule bind_world_ok)
      have put: "world_ok (w3\<lparr>session := put_connector c' (session w3)\<rparr>)"
        using ok by (simp add: world_ok_def session_ok_def lone_def)
      then show "world_ok (snd (commit (w3\<lparr>session := put_connector c' (session w3)\<rparr>)))"
        by (rule commit_ok)
      fix x w4 assume "commit (w3\<lparr>session := put_connector c' (session w3)\<rparr>) = (Inr x, w4)"
      with commit_ok [OF put] show "world_ok (snd (Inr c', w4))" by simp
    qed
    with ok show ?thesis by (simp add: 1 2 split: sum.splits)
  qed
  with assms Inr show ?thesis
    unfolding refresh_connector_def
    by (simp, intro bind_world_ok) (simp_all add: world_ok_def on_wire_fields)
qed

lemma authorized_ok:
  "world_ok w \<Longrightarrow> world_ok (snd (ensure_connector_authorized C F cfg now c w))"
  using refresh_connector_ok [of w C F cfg now _ c]
  by (simp add: ensure_connector_authorized_def split: sum.splits)

lemma ensure_ok:
  assumes "world_ok w"
  shows "world_ok (snd (ensure_webhook_subscriptions C F cfg now force c w))"
proof -
  have "world_ok (snd (bind_world (ensure_connector_authorized C F cfg now c w) (\<lambda>c1 w1.
      subscribe_scopes (adapter_calls C F cfg now A c1 callback lifecycle) F now force (conn_id c)
        scopes w1)))" for A callback lifecycle scopes
    using authorized_ok [OF assms, of C F cfg now c] by (intro bind_world_ok subscribe_scopes_ok) auto
  with assms show ?thesis
    by (simp add: ensure_webhook_subscriptions_def Let_def split: sum.splits prod.splits)
qed

lemma renew_one_live:
  "renew_one C F cfg now cs s n = (Inr s1, n1) \<Longrightarrow> live_for i j s1 \<Longrightarrow> live_for i j s"
  by (auto simp: renew_one_def live_for_def split: option.splits if_splits prod.splits sum.splits failure.splits)

lemma renew_rows_count:
  "renew_rows C F cfg now cs ss n = (Inr ss1, n1) \<Longrightarrow>
     count_rows (live_for i j) ss1 \<le> count_rows (live_for i j) ss"
proof (induction ss arbitrary: n ss1 n1)
  case Nil
  then show ?case by simp
next
  case (Cons s ss)
  from Cons.prems obtain s1 n2 rest where
    one: "(if due now s then renew_one C F cfg now cs s n else (Inr s, n)) = (Inr s1, n2)"
    and rest: "renew_rows C F cfg now cs ss n2 = (Inr rest, n1)" and ss1: "ss1 = s1 # rest"
    by (auto simp: bind_net_def split: prod.splits sum.splits)
  from one have "live_for i j s1 \<Longrightarrow> live_for i j s"
    by (auto intro: renew_one_live split: if_splits)
  with Cons.IH [OF rest] show ?case by (simp add: ss1)
qed

lemma session_world_ok:
  "world_ok w \<Longrightarrow> session_ok h \<Longrightarrow> world_ok (w\<lparr>session := h\<rparr>)"
  by (simp add: world_ok_def)

lemma renew_due_ok: "world_ok w \<Longrightarrow> world_ok (snd (renew_due_subscriptions C F cfg now w))"
proof -
  assume ok: "world_ok w"
  obtain r w1 where r: "on_wire (renew_rows C F cfg now (connector_rows (session w))
      (subscription_rows (session w))) w = (r, w1)" by fastforce
  have ok1: "world_ok w1" using ok on_wire_ok [OF r] by simp
  show ?thesis
  proof (cases r)
    case (Inl e)
    with r ok1 show ?thesis by (simp add: renew_due_subscriptions_def rollback_ok)
  next
    case (Inr rows)
    with r have "\<And>i j. count_rows (live_for i j) rows \<le> count_rows (live_for i j) (subscription_rows (session w))"
      by (auto simp: on_wire_def intro: renew_rows_count split: prod.splits)
    with ok have "session_ok ((session w1)\<lparr>subscription_rows := rows\<rparr>)"
      using on_wire_fields [OF r]
      by (simp add: world_ok_def session_ok_def lone_def) (meson order_trans)
    then have "world_ok (w1\<lparr>session := (session w1)\<lparr>subscription_rows := rows\<rparr>\<rparr>)"
      using ok1 by (rule session_world_ok [rotated])
    from commit_ok [OF this] show ?thesis by (simp add: renew_due_subscriptions_def r Inr)
  qed
qed

lemma mark_degraded_ok: "session_ok (mark_degraded now seen e c h) = session_ok h"
  by (simp add: mark_degraded_def Let_def session_ok_def lone_def split: option.splits)

lemma clear_degraded_ok: "session_ok (clear_degraded c h) = session_ok h"
  by (rule session_ok_cong) (auto simp: clear_degraded_def)

lemma repair_failed_ok: "world_ok w \<Longrightarrow> world_ok (snd (repair_failed now seen e w))"
  unfolding repair_failed_def Let_def
  by (auto intro!: commit_ok session_world_ok rollback_ok simp: mark_degraded_ok split: option.splits)
     (simp add: world_ok_def hooks_inv_def)

lemma repair_one_ok: "world_ok w \<Longrightarrow> world_ok (snd (repair_one C F cfg now i w))"
proof -
  assume ok: "world_ok w"
  have "world_ok (snd (case ensure_webhook_subscriptions C F cfg now False c w of
             (Inl (Other_error m), w1) \<Rightarrow> (Inl (Other_error m), rollback w1)
           | (Inl e, w1) \<Rightarrow> repair_failed now c e w1
           | (Inr xs, w1) \<Rightarrow> commit (w1\<lparr>session := clear_degraded c (session w1)\<rparr>)))" for c
  proof -
    obtain r w1 where r: "ensure_webhook_subscriptions C F cfg now False c w = (r, w1)" by fastforce
    with ensure_ok [OF ok, of C F cfg now False c] have "world_ok w1" by simp
    then show ?thesis
      by (auto simp: r clear_degraded_ok world_ok_def [of w1]
          intro!: repair_failed_ok rollback_ok commit_ok session_world_ok split: sum.splits failure.splits)
  qed
  with ok show ?thesis by (simp add: repair_one_def split: option.splits)
qed

lemma repair_each_ok: "world_ok w \<Longrightarrow> world_ok (snd (repair_each C F cfg now is w))"
proof (induction "is" arbitrary: w)
  case (Cons i "is")
  show ?case
    unfolding repair_each.simps
  proof (rule bind_world_ok)
    show "world_ok (snd (repair_one C F cfg now i w))" by (rule repair_one_ok [OF Cons.prems])
    fix x w1 assume "repair_one C F cfg now i w = (Inr x, w1)"
    with repair_one_ok [OF Cons.prems, of C F cfg now i] show "world_ok (snd (repair_each C F cfg now is w1))"
      by (intro Cons.IH) simp
  qed
qed simp

lemma maintenance_ok: "world_ok w \<Longrightarrow> world_ok (snd (renew_webhook_subscriptions C F cfg now w))"
  unfolding renew_webhook_subscriptions_def repair_webhook_subscriptions_def
proof (rule bind_world_ok)
  assume "world_ok w"
  then show ok: "world_ok (snd (renew_due_subscriptions C F cfg now (rollback w)))"
    by (intro renew_due_ok rollback_ok)
  fix x w1 assume "renew_due_subscriptions C F cfg now (rollback w) = (Inr x, w1)"
  with ok show "world_ok (snd (repair_each C F cfg now (map conn_id (filter (\<lambda>c. conn_system c \<in> REMOTE_PROVIDERS
      \<and> served c) (connector_rows (session w1)))) w1))"
    by (intro repair_each_ok) simp
qed

lemma subscribe_webhooks_ok: "world_ok w \<Longrightarrow> world_ok (snd (subscribe_webhooks C F cfg now u i w))"
proof -
  assume "world_ok w"
  then have ok: "world_ok (rollback w)" by (rule rollback_ok)
  have "world_ok (snd (case ensure_webhook_subscriptions C F cfg now True c (rollback w) of
                   (Inl (Configuration_error m), w1) \<Rightarrow> (raise 422 m, rollback w1)
                 | (Inl e, w1) \<Rightarrow> (raise 500 ''Internal Server Error'', rollback w1)
                 | (Inr xs, w1) \<Rightarrow>
                     (case commit (w1\<lparr>session := (session w1)\<lparr>connector_rows :=
                          map (\<lambda>k. if conn_id k = i
                               then k\<lparr>cn_webhook_enabled := True, cn_sync_mode := Some ''on_update'',
                                       cn_degraded_at := None\<rparr> else k) (connector_rows (session w1))\<rparr>\<rparr>) of
                        (Inl e, w2) \<Rightarrow> (raise 500 ''Internal Server Error'', w2)
                      | (Inr _, w2) \<Rightarrow> (Inr xs, w2))))" for c
  proof -
    obtain r w1 where r: "ensure_webhook_subscriptions C F cfg now True c (rollback w) = (r, w1)" by fastforce
    with ensure_ok [OF ok, of C F cfg now True c] have w1: "world_ok w1" by simp
    let ?w2 = "w1\<lparr>session := (session w1)\<lparr>connector_rows :=
        map (\<lambda>k. if conn_id k = i then k\<lparr>cn_webhook_enabled := True, cn_sync_mode := Some ''on_update'',
                                       cn_degraded_at := None\<rparr> else k) (connector_rows (session w1))\<rparr>\<rparr>"
    have "map conn_id (connector_rows (session ?w2)) = map conn_id (connector_rows (session w1))"
      by simp
    then have "session_ok (session ?w2) = session_ok (session w1)"
      by (intro session_ok_cong) simp_all
    with w1 have "world_ok ?w2" by (simp add: world_ok_def)
    from commit_ok [OF this] have "world_ok (snd (case commit ?w2 of
        (Inl e, w2) \<Rightarrow> (raise 500 ''Internal Server Error'', w2) | (Inr _, w2) \<Rightarrow> (Inr xs, w2)))" for xs :: "created list"
      by (cases "commit ?w2") (simp split: sum.splits)
    then show ?thesis
      using rollback_ok [OF w1] by (simp add: r split: sum.splits failure.splits)
  qed
  with ok show ?thesis
    unfolding subscribe_webhooks_def Let_def
    by (simp split: option.splits if_splits)
qed

text \<open>The contract of everything that works on subscriptions, and what it means for the committed rows.\<close>

locale webhook_operation =
  fixes op :: "'p world \<Rightarrow> 'p world"
  assumes ok: "world_ok w \<Longrightarrow> world_ok (op w)"
begin

lemma saved_ok: "world_ok w \<Longrightarrow> hooks_inv (saved (op w))"
  using ok by (simp add: world_ok_def)

lemma at_most_one_live:
  "world_ok w \<Longrightarrow> count_rows (live_for i j) (subscription_rows (saved (op w))) \<le> 1"
  using saved_ok by (simp add: hooks_inv_def session_ok_def lone_def)

lemma iterated_ok: "world_ok w \<Longrightarrow> world_ok ((op ^^ k) w)"
  by (induction k) (simp_all add: ok)

end

interpretation upkeep: webhook_operation "\<lambda>w. snd (renew_webhook_subscriptions C F cfg now w)"
  for C F cfg now
  by unfold_locales (rule maintenance_ok)

interpretation subscription: webhook_operation "\<lambda>w. snd (subscribe_webhooks C F cfg now u i w)"
  for C F cfg now u i
  by unfold_locales (rule subscribe_webhooks_ok)

section \<open>Every selected scope is covered\<close>

text \<open>What the adapter creates outlives the horizon of the repair pass.\<close>

definition lasting :: "'p adapter_calls \<Rightarrow> instant \<Rightarrow> bool" where
  "lasting P now =
     (\<forall>sc n made n'. create_call P sc n = (Inr made, n') \<longrightarrow> cr_expires_at made > now + RENEWAL_HORIZON)"

definition covered :: "instant \<Rightarrow> uuid \<Rightarrow> hooks \<Rightarrow> source_scope \<Rightarrow> bool" where
  "covered now i h sc = (\<exists>s \<in> set (subscription_rows h). live_for i (ss_id sc) s \<and> healthy now s)"

lemma covered_list_ex:
  "list_ex (healthy now) (filter (live_for i (ss_id sc)) (subscription_rows h)) = covered now i h sc"
  by (auto simp: covered_def list_ex_iff)

lemma minutes_less [simp]: "minutes a < minutes b \<longleftrightarrow> a < b"
  by (simp add: minutes_def seconds_def)

lemma bind_net_Inr:
  "bind_net r f = (Inr y, n') \<longleftrightarrow> (\<exists>x n. r = (Inr x, n) \<and> f x n = (Inr y, n'))"
  by (auto simp: bind_net_def split: prod.splits sum.splits)

lemma bind_world_Inr:
  "bind_world r f = (Inr y, w') \<longleftrightarrow> (\<exists>x w. r = (Inr x, w) \<and> f x w = (Inr y, w'))"
  by (auto simp: bind_world_def split: prod.splits sum.splits)

lemma graph_creation_expiry:
  assumes "graph_create_webhook C F cfg now stored target callback lifecycle n = (Inr made, n')"
  shows "cr_expires_at made = now + minutes (subscription_minutes cfg)"
proof -
  obtain x n1 where d: "draw (token_urlsafe C) n = (x, n1)" by fastforce
  show ?thesis
    using assms unfolding graph_create_webhook_def d prod.case Let_def bind_net_Inr
    by (elim exE conjE) (auto simp only: prod.inject sum.inject creation.select_convs sum.distinct
        split: sum.splits)
qed

lemma graph_lasting:
  "20 < subscription_minutes cfg \<Longrightarrow> lasting (adapter_calls C F cfg now Graph c callback lifecycle) now"
  by (auto simp: lasting_def adapter_calls_def create_webhook_def RENEWAL_HORIZON_def
      dest!: graph_creation_expiry)

lemma replace_rows:
  assumes "replace_subscription P F i sc w = (Inr x, w')"
  shows "\<exists>made n. fst (create_call P sc n) = Inr made
    \<and> subscription_rows (session w') =
        map (\<lambda>s. if live_for i (ss_id sc) s then s\<lparr>ws_active := False\<rparr> else s)
          (subscription_rows (session w)) @ [new_subscription F i (ss_id sc) made]
    \<and> scope_rows (session w') = scope_rows (session w)"
proof -
  obtain rows n where rows: "retire (delete_call P) (live_for i (ss_id sc)) (subscription_rows (session w))
      (wire w) = (rows, n)" by fastforce
  with retire_rows [of "delete_call P" "live_for i (ss_id sc)" "subscription_rows (session w)" "wire w"]
  have r: "map (\<lambda>s. if live_for i (ss_id sc) s then s\<lparr>ws_active := False\<rparr> else s)
      (subscription_rows (session w)) = rows" by simp
  from assms obtain made n' where made: "create_call P sc n = (Inr made, n')"
    and w': "session w' = (session w)\<lparr>subscription_rows := rows @ [new_subscription F i (ss_id sc) made]\<rparr>"
    by (auto simp: replace_subscription_def rows Let_def bind_world_Inr on_wire_def split: prod.splits)
  from made have "fst (create_call P sc n) = Inr made" by simp
  with w' show ?thesis unfolding r by auto
qed

lemma replace_covers:
  assumes "replace_subscription P F i sc w = (Inr x, w')" and "lasting P now"
  shows "covered now i (session w') sc"
proof -
  from replace_rows [OF assms(1)] obtain made n where
    "fst (create_call P sc n) = Inr made"
    "new_subscription F i (ss_id sc) made \<in> set (subscription_rows (session w'))"
    by auto
  moreover from calculation(1) assms(2) have "cr_expires_at made > now + RENEWAL_HORIZON"
    by (cases "create_call P sc n") (auto simp: lasting_def)
  ultimately show ?thesis
    by (force simp: covered_def healthy_def new_subscription_def live_for_def)
qed

lemma replace_keeps_others:
  assumes "replace_subscription P F i sc w = (Inr x, w')" and "ss_id sc' \<noteq> ss_id sc"
    and "covered now i (session w) sc'"
  shows "covered now i (session w') sc'"
proof -
  from assms(3) obtain s where s: "s \<in> set (subscription_rows (session w))"
    "live_for i (ss_id sc') s" "healthy now s" by (auto simp: covered_def)
  with assms(2) have "\<not> live_for i (ss_id sc) s" by (auto simp: live_for_def)
  with s(1) replace_rows [OF assms(1)] have "s \<in> set (subscription_rows (session w'))" by force
  with s show ?thesis by (auto simp: covered_def)
qed

lemma subscribe_scopes_covers:
  assumes "subscribe_scopes P F now force i scs w = (Inr xs, w')" and "lasting P now"
    and "distinct (map ss_id scs)"
  shows "(\<forall>sc \<in> set scs. covered now i (session w') sc)
    \<and> (\<forall>sc. ss_id sc \<notin> ss_id ` set scs \<longrightarrow> covered now i (session w) sc \<longrightarrow> covered now i (session w') sc)
    \<and> scope_rows (session w') = scope_rows (session w)"
  using assms(1,3)
proof (induction scs arbitrary: w xs)
  case Nil
  then show ?case by simp
next
  case (Cons sc scs)
  show ?case
  proof (cases "covered now i (session w) sc \<and> \<not> force")
    case True
    with Cons.prems have "subscribe_scopes P F now force i scs w = (Inr xs, w')"
      by (simp add: covered_list_ex)
    from Cons.IH [OF this] Cons.prems True show ?thesis by auto
  next
    case False
    then have "\<not> (list_ex (healthy now) (filter (live_for i (ss_id sc)) (subscription_rows (session w)))
        \<and> \<not> force)"
      by (simp only: covered_list_ex simp_thms)
    with Cons.prems obtain x w1 ys where
      one: "replace_subscription P F i sc w = (Inr x, w1)"
      and rest: "subscribe_scopes P F now force i scs w1 = (Inr ys, w')"
      by (simp only: subscribe_scopes.simps(2) if_False bind_world_Inr) auto
    have "covered now i (session w1) sc" by (rule replace_covers [OF one assms(2)])
    moreover have "scope_rows (session w1) = scope_rows (session w)"
      using replace_rows [OF one] by blast
    ultimately show ?thesis
      using Cons.IH [OF rest] Cons.prems(2) replace_keeps_others [OF one]
      by (auto simp: image_iff)
  qed
qed

lemma subscribe_scopes_idle:
  "\<forall>sc \<in> set scs. covered now i (session w) sc \<Longrightarrow> subscribe_scopes P F now False i scs w = (Inr [], w)"
  by (induction scs) (simp_all add: covered_list_ex)

lemma store_tokens_fields:
  assumes "store_tokens F cfg now mode r1 r2 tokens c = Inr c1"
  shows "conn_id c1 = conn_id c" "conn_system c1 = conn_system c"
    "cn_degraded_at c1 = cn_degraded_at c" "cn_created_by c1 = cn_created_by c"
  using assms by (auto simp: store_tokens_def split: sum.splits if_splits)

lemma refresh_success:
  assumes "refresh_connector C F cfg now mode c w = (Inr c1, w1)"
  obtains r1 r2 tokens where "store_tokens F cfg now mode r1 r2 tokens c = Inr c1"
    "session w1 = put_connector c1 (session w)" "saved w1 = session w1"
proof (cases "adapter_for (conn_system c)")
  case (Inl e)
  with assms show ?thesis by (simp add: refresh_connector_def)
next
  case (Inr A)
  let ?draw = "on_wire (draw (random_bits C))"
  obtain r w2 where f: "on_wire (fresh_tokens C F cfg A (cn_refresh_token c)) w = (r, w2)" by fastforce
  obtain r1 w3 where 1: "?draw w2 = (r1, w3)" by fastforce
  obtain r2 w4 where 2: "?draw w3 = (r2, w4)" by fastforce
  have same: "session w4 = session w"
    using on_wire_fields(1) [OF f] on_wire_fields(1) [OF 1] on_wire_fields(1) [OF 2] by simp
  from assms obtain tokens where tokens: "r = Inr tokens"
    by (cases r) (simp_all add: refresh_connector_def Inr f bind_world_def)
  show ?thesis
  proof (cases "store_tokens F cfg now mode r1 r2 tokens c")
    case (Inl e)
    with assms show ?thesis by (simp add: refresh_connector_def Inr f tokens bind_world_def 1 2)
  next
    case st: (Inr c2)
    with assms same have "c2 = c1" "session w1 = put_connector c1 (session w)" "saved w1 = session w1"
      by (auto simp: refresh_connector_def Inr f tokens bind_world_def 1 2 commit_def
          split: if_splits)
    with st that show ?thesis by blast
  qed
qed

lemma authorized_success:
  assumes "ensure_connector_authorized C F cfg now c w = (Inr c1, w1)"
  shows "(c1 = c \<and> w1 = w)
    \<or> (\<exists>r1 r2 tokens mode. store_tokens F cfg now mode r1 r2 tokens c = Inr c1
         \<and> session w1 = put_connector c1 (session w) \<and> saved w1 = session w1)"
  using assms
  by (auto simp: ensure_connector_authorized_def split: sum.splits if_splits elim!: refresh_success)

lemma authorized_scopes:
  assumes "ensure_connector_authorized C F cfg now c w = (Inr c1, w1)"
  shows "scope_rows (session w1) = scope_rows (session w)"
  using authorized_success [OF assms] by auto

lemma ensure_success:
  assumes "ensure_webhook_subscriptions C F cfg now force c w = (Inr xs, w')"
  obtains callback lifecycle A c1 w1 where
    "conn_system c \<noteq> ''local_folder''" "callback_urls cfg (conn_system c) = Inr (callback, lifecycle)"
    "selected_scopes (conn_id c) (session w) \<noteq> []" "adapter_for (conn_system c) = Inr A"
    "ensure_connector_authorized C F cfg now c w = (Inr c1, w1)"
    "subscribe_scopes (adapter_calls C F cfg now A c1 callback lifecycle) F now force (conn_id c)
       (selected_scopes (conn_id c) (session w)) w1 = (Inr xs, w')"
  using assms
  by (auto simp: ensure_webhook_subscriptions_def Let_def bind_world_Inr
      split: if_splits sum.splits prod.splits)


section \<open>A degraded connector is reported once\<close>

text \<open>What the reports are about: the mark and owner of a connector, and its notices.\<close>

definition note_state :: "uuid \<Rightarrow> hooks \<Rightarrow> (instant option \<times> uuid option) option \<times> nat" where
  "note_state j h =
     (map_option (\<lambda>c. (cn_degraded_at c, cn_created_by c)) (get_row conn_id j (connector_rows h)),
      count_rows (\<lambda>n. dn_connector n = j) (notice_rows h))"

abbreviation clean :: "'p world \<Rightarrow> bool" where
  "clean w \<equiv> session w = saved w"

definition quiet :: "'p world \<Rightarrow> 'p world \<Rightarrow> bool" where
  "quiet w w' = (\<forall>j. note_state j (session w') = note_state j (session w)
                   \<and> note_state j (saved w') = note_state j (saved w))"

lemma quiet_refl: "session w' = session w \<Longrightarrow> saved w' = saved w \<Longrightarrow> quiet w w'"
  by (simp add: quiet_def)

lemma quiet_trans: "quiet w w1 \<Longrightarrow> quiet w1 w2 \<Longrightarrow> quiet w w2"
  by (simp add: quiet_def)

lemma note_state_subscriptions [simp]: "note_state j (h\<lparr>subscription_rows := rows\<rparr>) = note_state j h"
  by (simp add: note_state_def)

lemma note_state_put:
  assumes "get_row conn_id (conn_id c) (connector_rows h) = Some c"
    and "store_tokens F cfg now mode r1 r2 tokens c = Inr c1"
  shows "note_state j (put_connector c1 h) = note_state j h"
proof -
  note f = store_tokens_fields [OF assms(2)]
  show ?thesis
  proof (cases "j = conn_id c")
    case True
    with f assms(1) get_put_same [of conn_id c1 "connector_rows h"] show ?thesis
      by (simp add: note_state_def)
  next
    case False
    with f get_put_other [of j conn_id c1 "connector_rows h"] show ?thesis
      by (simp add: note_state_def)
  qed
qed

lemma quiet_bind:
  "quiet w (snd r) \<Longrightarrow> (\<And>x w1. r = (Inr x, w1) \<Longrightarrow> quiet w1 (snd (f x w1))) \<Longrightarrow>
     quiet w (snd (bind_world r f))"
  by (auto simp: bind_world_def intro: quiet_trans split: prod.splits sum.splits)

lemma replace_quiet: "quiet w (snd (replace_subscription P F i sc w))"
  by (auto simp: replace_subscription_def Let_def bind_world_def on_wire_def quiet_def
      split: prod.splits sum.splits)

lemma subscribe_scopes_quiet: "quiet w (snd (subscribe_scopes P F now force i scs w))"
proof (induction scs arbitrary: w)
  case Nil
  then show ?case by (simp add: quiet_refl)
next
  case (Cons sc scs)
  have "quiet w (snd (bind_world (replace_subscription P F i sc w) (\<lambda>x w1.
      bind_world (subscribe_scopes P F now force i scs w1) (\<lambda>xs w2. (Inr (x # xs), w2)))))"
    by (intro quiet_bind replace_quiet Cons.IH) (simp add: quiet_refl)
  with Cons.IH [of w] show ?case
    unfolding subscribe_scopes.simps(2) by (split if_split) blast
qed

lemma quiet_commit:
  assumes "clean w" and "\<And>j. note_state j (session w1) = note_state j (session w)" and "saved w1 = saved w"
  shows "quiet w (snd (commit w1))"
  using assms by (simp add: quiet_def commit_def rollback_def)

lemma refresh_quiet:
  assumes "clean w" and "get_row conn_id (conn_id c) (connector_rows (session w)) = Some c"
  shows "quiet w (snd (refresh_connector C F cfg now mode c w))"
proof (cases "adapter_for (conn_system c)")
  case (Inl e)
  then show ?thesis by (simp add: refresh_connector_def quiet_refl)
next
  case (Inr A)
  let ?draw = "on_wire (draw (random_bits C))"
  obtain r w2 where f: "on_wire (fresh_tokens C F cfg A (cn_refresh_token c)) w = (r, w2)" by fastforce
  obtain r1 w3 where 1: "?draw w2 = (r1, w3)" by fastforce
  obtain r2 w4 where 2: "?draw w3 = (r2, w4)" by fastforce
  have same: "session w2 = session w" "saved w2 = saved w" "session w4 = session w" "saved w4 = saved w"
    using on_wire_fields [OF f] on_wire_fields [OF 1] on_wire_fields [OF 2] by simp_all
  show ?thesis
  proof (cases r)
    case (Inl e)
    with Inr f same show ?thesis by (simp add: refresh_connector_def bind_world_def quiet_refl)
  next
    case tokens: (Inr tokens)
    show ?thesis
    proof (cases "store_tokens F cfg now mode r1 r2 tokens c")
      case (Inl e)
      with same show ?thesis
        by (simp add: refresh_connector_def Inr f tokens bind_world_def 1 2 quiet_refl)
    next
      case st: (Inr c2)
      let ?w5 = "w4\<lparr>session := put_connector c2 (session w4)\<rparr>"
      have "quiet w (snd (commit ?w5))"
        using note_state_put [OF assms(2) st] same assms(1) by (intro quiet_commit) simp_all
      then show ?thesis
        by (cases "commit ?w5") (simp add: refresh_connector_def \<open>adapter_for (conn_system c) = Inr A\<close>
            f tokens bind_world_def 1 2 st split: sum.splits)
    qed
  qed
qed

lemma ensure_quiet:
  assumes "clean w" and "get_row conn_id (conn_id c) (connector_rows (session w)) = Some c"
  shows "quiet w (snd (ensure_webhook_subscriptions C F cfg now force c w))"
proof -
  have auth: "quiet w (snd (ensure_connector_authorized C F cfg now c w))"
    using refresh_quiet [OF assms]
    by (simp add: ensure_connector_authorized_def quiet_refl split: sum.splits)
  have "quiet w (snd (bind_world (ensure_connector_authorized C F cfg now c w) (\<lambda>c1 w1.
      subscribe_scopes (adapter_calls C F cfg now A c1 callback lifecycle) F now force (conn_id c)
        scopes w1)))" for A callback lifecycle scopes
    by (intro quiet_bind auth subscribe_scopes_quiet)
  then show ?thesis
    by (simp add: ensure_webhook_subscriptions_def Let_def quiet_refl split: sum.splits prod.splits)
qed

text \<open>The reports a step from \<open>h\<close> to \<open>h'\<close> owes for connector \<open>j\<close>: one when it is newly marked.\<close>

definition newly_degraded :: "uuid \<Rightarrow> hooks \<Rightarrow> hooks \<Rightarrow> bool" where
  "newly_degraded j h h' =
     (case (get_row conn_id j (connector_rows h), get_row conn_id j (connector_rows h')) of
        (Some c, Some c') \<Rightarrow> cn_degraded_at c = None \<and> cn_degraded_at c' \<noteq> None \<and> cn_created_by c \<noteq> None
      | _ \<Rightarrow> False)"

definition reported :: "uuid \<Rightarrow> hooks \<Rightarrow> hooks \<Rightarrow> bool" where
  "reported j h h' =
     (count_rows (\<lambda>n. dn_connector n = j) (notice_rows h')
        = count_rows (\<lambda>n. dn_connector n = j) (notice_rows h) + (if newly_degraded j h h' then 1 else 0))"

lemma note_state_reported:
  assumes "note_state j h' = note_state j h"
  shows "reported j h h'"
  using assms
  by (auto simp: note_state_def reported_def newly_degraded_def split: option.splits)

lemma mark_degraded_reported:
  assumes "get_row conn_id (conn_id c) (connector_rows h) = Some c"
    and "cn_degraded_at seen = cn_degraded_at c"
  shows "reported (conn_id c) h (mark_degraded now seen e c h)"
    and "j \<noteq> conn_id c \<Longrightarrow> note_state j (mark_degraded now seen e c h) = note_state j h"
proof -
  let ?c' = "c\<lparr>cn_degraded_at := (case cn_degraded_at seen of Some t \<Rightarrow> Some t | None \<Rightarrow> Some now)\<rparr>"
  have rows: "connector_rows (mark_degraded now seen e c h) = put_row conn_id ?c' (connector_rows h)"
    by (simp add: mark_degraded_def Let_def split: option.splits)
  have "get_row conn_id (conn_id c) (put_row conn_id ?c' (connector_rows h)) = Some ?c'"
    using get_put_same [of conn_id ?c' "connector_rows h"] assms(1) by simp
  then show "reported (conn_id c) h (mark_degraded now seen e c h)"
    using assms unfolding reported_def newly_degraded_def rows
    by (auto simp: mark_degraded_def Let_def split: option.splits)
  assume j: "j \<noteq> conn_id c"
  have "get_row conn_id j (put_row conn_id ?c' (connector_rows h)) = get_row conn_id j (connector_rows h)"
    using j by (intro get_put_other) simp
  with j show "note_state j (mark_degraded now seen e c h) = note_state j h"
    unfolding note_state_def rows by (simp add: mark_degraded_def Let_def split: option.splits)
qed

lemma clear_degraded_state:
  "j \<noteq> conn_id seen \<Longrightarrow> note_state j (clear_degraded seen h) = note_state j h"
  "get_row conn_id (conn_id seen) (connector_rows h) = Some c \<Longrightarrow> cn_degraded_at c = cn_degraded_at seen \<Longrightarrow>
     reported (conn_id seen) h (clear_degraded seen h)"
proof -
  let ?f = "\<lambda>c :: provider_connector. if conn_id c = conn_id seen then c\<lparr>cn_degraded_at := None\<rparr> else c"
  have g: "get_row conn_id j (map ?f rows) = map_option ?f (get_row conn_id j rows)" for j rows
    by (rule get_row_map) simp
  show "note_state j (clear_degraded seen h) = note_state j h" if "j \<noteq> conn_id seen"
  proof -
    have "map_option ?f (get_row conn_id j rows) = get_row conn_id j rows" for rows
      using that by (cases "get_row conn_id j rows") (auto dest: get_row_SomeD)
    then have "get_row conn_id j (map ?f rows) = get_row conn_id j rows" for rows
      by (simp only: g)
    then show ?thesis by (simp add: clear_degraded_def note_state_def)
  qed
  show "reported (conn_id seen) h (clear_degraded seen h)"
    if "get_row conn_id (conn_id seen) (connector_rows h) = Some c" "cn_degraded_at c = cn_degraded_at seen"
    using that by (auto simp: clear_degraded_def reported_def newly_degraded_def g)
qed

lemma clean_commit: "clean (snd (commit w))"
  by (simp add: commit_def rollback_def)

lemma note_state_row:
  assumes "note_state j h' = note_state j h" and "get_row conn_id j (connector_rows h) = Some c"
  obtains c' where "get_row conn_id j (connector_rows h') = Some c'"
    "cn_degraded_at c' = cn_degraded_at c" "cn_created_by c' = cn_created_by c"
  using assms by (auto simp: note_state_def)

lemma reported_note_state:
  "reported j h h' \<longleftrightarrow> snd (note_state j h') = snd (note_state j h)
     + (if (case (fst (note_state j h), fst (note_state j h')) of
              (Some (d, who), Some (d', who')) \<Rightarrow> d = None \<and> d' \<noteq> None \<and> who \<noteq> None | _ \<Rightarrow> False)
        then 1 else 0)"
  by (cases "get_row conn_id j (connector_rows h)"; cases "get_row conn_id j (connector_rows h')")
    (simp_all add: reported_def newly_degraded_def note_state_def)

lemma reported_cong:
  assumes "note_state j h1 = note_state j h" and "reported j h1 h'"
  shows "reported j h h'"
  using assms(2) unfolding reported_note_state assms(1) .

lemma commit_split:
  "clean (snd (commit w1)) \<and> (saved (snd (commit w1)) = session w1 \<or> saved (snd (commit w1)) = saved w1)"
  by (simp add: commit_def rollback_def)

text \<open>What one connector's repair does to the reports of every connector.\<close>

definition repaired :: "uuid \<Rightarrow> 'p world \<Rightarrow> 'p world \<Rightarrow> bool" where
  "repaired i w w' \<longleftrightarrow> clean w' \<and> reported i (saved w) (saved w')
     \<and> (\<forall>j. j \<noteq> i \<longrightarrow> note_state j (saved w') = note_state j (saved w))"

lemma repaired_commit:
  assumes "quiet w w1" and "clean w" and "saved w2 = saved w1"
    and "reported i (session w1) (session w2)"
    and "\<And>j. j \<noteq> i \<Longrightarrow> note_state j (session w2) = note_state j (session w1)"
  shows "repaired i w (snd (commit w2))"
proof -
  have q: "note_state j (session w1) = note_state j (saved w)" "note_state j (saved w1) = note_state j (saved w)"
    for j using assms(1,2) by (simp_all add: quiet_def)
  from commit_split [of w2] show ?thesis
  proof (elim conjE disjE)
    assume "clean (snd (commit w2))" "saved (snd (commit w2)) = session w2"
    with q assms(4,5) show ?thesis
      by (auto simp: repaired_def intro: reported_cong)
  next
    assume "clean (snd (commit w2))" "saved (snd (commit w2)) = saved w2"
    with q assms(3) show ?thesis
      by (auto simp: repaired_def intro: note_state_reported)
  qed
qed

lemma repaired_quiet:
  assumes "quiet w w1" and "clean w1" and "clean w"
  shows "repaired i w w1"
  using assms by (auto simp: repaired_def quiet_def intro: note_state_reported)

lemma repair_failed_reported:
  assumes "clean w" and "get_row conn_id (conn_id c) (connector_rows (session w)) = Some c" and "quiet w w1"
  shows "repaired (conn_id c) w (snd (repair_failed now c e w1))"
proof -
  have q: "note_state j (saved w1) = note_state j (saved w)" for j
    using assms(3) by (simp add: quiet_def)
  from assms(1,2) have "get_row conn_id (conn_id c) (connector_rows (saved w)) = Some c" by simp
  with q [of "conn_id c"] obtain c1 where c1: "get_row conn_id (conn_id c) (connector_rows (saved w1)) = Some c1"
    "cn_degraded_at c1 = cn_degraded_at c" by (rule note_state_row)
  from c1 have id: "conn_id c1 = conn_id c" by (auto dest: get_row_SomeD)
  let ?w2 = "(rollback w1)\<lparr>session := mark_degraded now c e c1 (saved w1)\<rparr>"
  have row: "get_row conn_id (conn_id c1) (connector_rows (saved w1)) = Some c1"
    using c1 id by simp
  have "repaired (conn_id c1) w (snd (commit ?w2))"
  proof (rule repaired_commit)
    show "quiet w (rollback w1)"
      using assms(1,3) by (simp add: quiet_def)
    show "clean w" by (rule assms(1))
    show "reported (conn_id c1) (session (rollback w1)) (session ?w2)"
      using mark_degraded_reported(1) [OF row] c1(2) by simp
    show "note_state j (session ?w2) = note_state j (session (rollback w1))" if "j \<noteq> conn_id c1" for j
      using mark_degraded_reported(2) [OF row _ that] c1(2) by simp
  qed simp
  then show ?thesis using c1 id by (simp add: repair_failed_def Let_def)
qed

lemma repair_one_reported:
  assumes "clean w"
  shows "repaired i w (snd (repair_one C F cfg now i w))"
proof (cases "get_row conn_id i (connector_rows (session w))")
  case None
  with assms show ?thesis by (simp add: repair_one_def repaired_quiet [OF quiet_refl])
next
  case (Some c)
  from Some have id: "conn_id c = i" by (auto dest: get_row_SomeD)
  with Some have row: "get_row conn_id (conn_id c) (connector_rows (session w)) = Some c" by simp
  obtain r w1 where r: "ensure_webhook_subscriptions C F cfg now False c w = (r, w1)" by fastforce
  with ensure_quiet [OF assms row, of C F cfg now False] have q: "quiet w w1" by simp
  have undone: "quiet w (rollback w1)" "clean (rollback w1)"
    using q assms by (simp_all add: quiet_def)
  have failed: "repaired i w (snd (repair_failed now c e w1))" for e
    using repair_failed_reported [OF assms row q] id by simp
  have cleared: "repaired i w (snd (commit (w1\<lparr>session := clear_degraded c (session w1)\<rparr>)))"
  proof (rule repaired_commit [OF q assms])
    have "note_state i (session w1) = note_state i (session w)" using q by (simp add: quiet_def)
    from note_state_row [OF this Some] obtain c1 where
      "get_row conn_id i (connector_rows (session w1)) = Some c1" "cn_degraded_at c1 = cn_degraded_at c" .
    with id show "reported i (session w1) (session (w1\<lparr>session := clear_degraded c (session w1)\<rparr>))"
      using clear_degraded_state(2) [of c "session w1" c1] by simp
    show "note_state j (session (w1\<lparr>session := clear_degraded c (session w1)\<rparr>)) = note_state j (session w1)"
      if "j \<noteq> i" for j
      using clear_degraded_state(1) [of j c] that id by simp
  qed simp
  show ?thesis
    using failed cleared repaired_quiet [OF undone assms] repaired_quiet [of w w, OF _ assms assms]
    by (auto simp: repair_one_def Some r quiet_refl split: sum.splits failure.splits)
qed

lemma repair_each_reported:
  assumes "clean w" and "distinct is"
  shows "clean (snd (repair_each C F cfg now is w))
    \<and> (\<forall>j. reported j (saved w) (saved (snd (repair_each C F cfg now is w)))
         \<and> (j \<notin> set is \<longrightarrow> note_state j (saved (snd (repair_each C F cfg now is w))) = note_state j (saved w)))"
  using assms
proof (induction "is" arbitrary: w)
  case Nil
  then show ?case by (simp add: note_state_reported)
next
  case (Cons i "is")
  obtain r w1 where r: "repair_one C F cfg now i w = (r, w1)" by fastforce
  with repair_one_reported [OF Cons.prems(1), of i C F cfg now] have one: "repaired i w w1" by simp
  then have w1: "clean w1" "reported i (saved w) (saved w1)"
    "\<And>j. j \<noteq> i \<Longrightarrow> note_state j (saved w1) = note_state j (saved w)"
    by (auto simp: repaired_def)
  have all1: "reported j (saved w) (saved w1)" for j
    using w1 by (cases "j = i") (auto intro: note_state_reported)
  show ?case
  proof (cases r)
    case (Inl e)
    with r w1 all1 show ?thesis by (simp add: bind_world_def)
  next
    case (Inr u)
    let ?w2 = "snd (repair_each C F cfg now is w1)"
    from Cons.IH [OF w1(1)] Cons.prems(2) have ih: "clean ?w2"
      "\<And>j. reported j (saved w1) (saved ?w2)"
      "\<And>j. j \<notin> set is \<Longrightarrow> note_state j (saved ?w2) = note_state j (saved w1)"
      by auto
    have "reported j (saved w) (saved ?w2)" for j
    proof (cases "j = i")
      case True
      with Cons.prems(2) have "note_state j (saved ?w2) = note_state j (saved w1)" by (intro ih) simp
      with all1 [of j] show ?thesis
        unfolding reported_note_state by simp
    next
      case False
      show ?thesis by (rule reported_cong [OF w1(3) [OF False] ih(2)])
    qed
    with ih w1(3) show ?thesis by (simp add: r Inr bind_world_def)
  qed
qed

text \<open>
  C28: a connector that cannot keep its subscriptions is reported to its creator exactly once. Over a
  whole repair pass, every connector gains one notice if the pass marks it degraded for the first
  time, and none otherwise, so the ten-minute pass does not repeat itself.
\<close>

theorem degraded_reported_once:
  assumes "clean w" and "unique_key conn_id (connector_rows (saved w))"
  shows "count_rows (\<lambda>n. dn_connector n = j)
           (notice_rows (saved (snd (repair_webhook_subscriptions C F cfg now w))))
    = count_rows (\<lambda>n. dn_connector n = j) (notice_rows (saved w))
      + (if newly_degraded j (saved w) (saved (snd (repair_webhook_subscriptions C F cfg now w)))
         then 1 else 0)"
proof -
  have "distinct (map conn_id (filter P (connector_rows (session w))))" for P
    using assms by (simp add: unique_key_def distinct_map_filter)
  from repair_each_reported [OF assms(1) this] show ?thesis
    by (simp add: repair_webhook_subscriptions_def reported_def)
qed

section \<open>A connector of the office\<close>

text \<open>
  A provider that holds one subscription per resource, refuses a second with 409 as Microsoft Graph
  does, and refuses everything for one drive while it is down. Its state is what it holds and
  whether it is down.
\<close>

definition drive_path :: "string \<Rightarrow> string" where
  "drive_path d = ''/drives/'' @ d @ ''/root''"

definition strict_provider :: "(string list \<times> bool) client" where
  "strict_provider =
     \<lparr>exchange = (\<lambda>call bearer p.
        (case map_of (call_fields call) ''resource'' of
           None \<Rightarrow> (Inr (reply_of 404 None []), p)
         | Some r \<Rightarrow>
             if r \<in> set (fst p) then (Inr (reply_of 409 None []), p)
             else if snd p \<and> r = drive_path ''d2'' then (Inr (reply_of 400 None []), p)
             else (Inr (reply_of 200 None [(''id'', r)]), (r # fst p, snd p)))),
      post_token = (\<lambda>grant p. (Inl ''unreachable'', p)), random_bits = (\<lambda>p. (0, p)),
      token_urlsafe = (\<lambda>p. (''secret'', p)), uuid4_text = (\<lambda>p. (''channel'', p))\<rparr>"

definition office_connector :: "instant option \<Rightarrow> provider_connector" where
  "office_connector degraded =
     \<lparr>conn_id = 7, conn_system = ''sharepoint'', conn_company = ''qnsc'', cn_name = ''Files'',
      cn_status = ''active'', cn_created_by = Some 9, cn_access_token = stored_token,
      cn_refresh_token = None, cn_token_expires_at = Some (minutes 2880), cn_subject = None,
      cn_webhook_enabled = True, cn_sync_mode = Some ''on_update'', cn_degraded_at = degraded\<rparr>"

definition office_scope :: "uuid \<Rightarrow> string \<Rightarrow> source_scope" where
  "office_scope i d =
     \<lparr>ss_id = i, ss_connector = 7, ss_external = d, ss_drive = Some d, ss_selected = True\<rparr>"

definition office_hooks :: "source_scope list \<Rightarrow> instant option \<Rightarrow> degraded_notice list \<Rightarrow> hooks" where
  "office_hooks scs degraded notices =
     \<lparr>connector_rows = [office_connector degraded], scope_rows = scs, subscription_rows = [],
      notice_rows = notices\<rparr>"

definition office_world :: "hooks \<Rightarrow> string list \<Rightarrow> bool \<Rightarrow> (string list \<times> bool) world" where
  "office_world h held down =
     \<lparr>session = h, saved = h, wire = \<lparr>outside = (held, down), sent = [], slept = []\<rparr>\<rparr>"

abbreviation strict_calls ::
  "instant \<Rightarrow> string \<Rightarrow> string option \<Rightarrow> (string list \<times> bool) adapter_calls" where
  "strict_calls now callback lifecycle \<equiv>
     adapter_calls strict_provider plain_fernet office_transport now Graph (office_connector None)
       callback lifecycle"

lemma graph_host_lower: "lower graph_host = graph_host" "graph_host \<noteq> []"
  by (simp_all add: graph_host_def lower_def lower_char_def)

lemma graph_url_valid: "validate_provider_url (allowed_api_hosts Graph) (graph_url rest) = Inr ()"
  by (simp add: validate_provider_url_def graph_url_def api_url_def allowed_api_hosts_def graph_host_lower)

text \<open>A request that is answered at the first attempt.\<close>

lemma request_answered:
  assumes "exchange C call (Some ''bearer'') (outside n) = (Inr (reply_of st None ms), p)"
    and "validate_provider_url allowed (call_url call) = Inr ()"
    and "st < 300 \<or> 400 \<le> st" and "st \<notin> {429, 500, 502, 503, 504}"
  shows "api_request C plain_fernet office_transport allowed stored_token call n
    = (settle (reply_of st None ms),
       n\<lparr>outside := p, sent := sent n @ [(call_url call, Some ''bearer'')]\<rparr>)"
  using assms
  by (auto simp: api_request_def office_access upt_rec follow_def read_small is_redirect_def)

lemma strict_exchange:
  "map_of (call_fields call) ''resource'' = Some r \<Longrightarrow> exchange strict_provider call b p =
     (if r \<in> set (fst p) then (Inr (reply_of 409 None []), p)
      else if snd p \<and> r = drive_path ''d2'' then (Inr (reply_of 400 None []), p)
      else (Inr (reply_of 200 None [(''id'', r)]), (r # fst p, snd p)))"
  by (simp add: strict_provider_def)

lemma office_minutes: "subscription_minutes office_transport = 1440"
  by (simp add: office_transport_def)

lemma office_token: "cn_access_token (office_connector t) = stored_token"
  by (simp add: office_connector_def)

definition refused :: "nat \<Rightarrow> failure" where
  "refused st = Provider_error (''Provider request failed ('' @ show_nat st @ '')'') True (Some (show_nat st))"

lemma settle_refused:
  "settle (reply_of 409 None []) = Inl (refused 409)" "settle (reply_of 400 None []) = Inl (refused 400)"
  "settle (reply_of 200 None ms) = Inr (Json_body ms)"
  by (simp_all add: settle_def refused_def status_text_def reply_of_def)

lemma strict_create:
  assumes "ss_drive sc = Some d"
  shows "create_call (strict_calls now callback lifecycle) sc n =
    (let p = outside n; path = drive_path d;
         n' = n\<lparr>sent := sent n @ [(graph_url ''/subscriptions'', Some ''bearer'')]\<rparr>
     in if path \<in> set (fst p) then (Inl (refused 409), n')
        else if snd p \<and> path = drive_path ''d2'' then (Inl (refused 400), n')
        else (Inr \<lparr>cr_subscription_id = path, cr_client_state = ''secret'',
                   cr_expires_at = now + minutes 1440, cr_resource = Some path,
                   cr_lifecycle_url = lifecycle\<rparr>,
              n'\<lparr>outside := (path # fst p, snd p)\<rparr>))"
proof -
  let ?content = "[(''changeType'', ''updated''), (''notificationUrl'', callback),
                       (''resource'', drive_path d), (''expirationDateTime'', show_int (now + minutes 1440)),
                       (''clientState'', ''secret'')]
                      @ (if truthy lifecycle
                         then [(''lifecycleNotificationUrl'', or_else lifecycle [])] else [])
                      @ [(''Prefer'', ''includesecuritywebhooks'')]"
  let ?call = "\<lparr>call_method = ''POST'', call_url = graph_url ''/subscriptions'', call_fields = ?content\<rparr>"
  have path: "map_of (call_fields ?call) ''resource'' = Some (drive_path d)" by simp
  have draw: "draw (token_urlsafe strict_provider) n = (''secret'', n)"
    by (simp add: draw_def strict_provider_def)
  have go: "create_call (strict_calls now callback lifecycle) sc n =
     bind_net (api_request strict_provider plain_fernet office_transport (allowed_api_hosts Graph) stored_token ?call n)
       (\<lambda>b n2. (case json_member ''id'' b of
                    Inl e \<Rightarrow> (Inl e, n2)
                  | Inr i \<Rightarrow>
                      (Inr \<lparr>cr_subscription_id = i, cr_client_state = ''secret'',
                            cr_expires_at = now + minutes 1440, cr_resource = Some (drive_path d),
                            cr_lifecycle_url = lifecycle\<rparr>, n2)))"
    unfolding adapter_calls_def adapter_calls.select_convs create_webhook_def adapter.case
      graph_create_webhook_def scope_target.select_convs assms option.case Let_def office_minutes
      office_token drive_path_def draw prod.case ..
  have once: "api_request strict_provider plain_fernet office_transport (allowed_api_hosts Graph) stored_token ?call n
      = (settle (reply_of st None ms), n\<lparr>outside := p, sent := sent n @ [(graph_url ''/subscriptions'', Some ''bearer'')]\<rparr>)"
    if "exchange strict_provider ?call (Some ''bearer'') (outside n) = (Inr (reply_of st None ms), p)"
      "st \<in> {200, 400, 409}" for st ms p
    using request_answered [OF that(1), where allowed = "allowed_api_hosts Graph"] that(2) graph_url_valid
    by auto
  have n: "n\<lparr>outside := outside n, sent := x\<rparr> = n\<lparr>sent := x\<rparr>" for x by simp
  consider (held) "drive_path d \<in> set (fst (outside n))"
    | (down) "drive_path d \<notin> set (fst (outside n))" "snd (outside n)" "drive_path d = drive_path ''d2''"
    | (free) "drive_path d \<notin> set (fst (outside n))" "\<not> (snd (outside n) \<and> drive_path d = drive_path ''d2'')"
    by blast
  note split = this
  have ok: "200 \<in> {200, 400, 409::nat}" "400 \<in> {200, 400, 409::nat}" "409 \<in> {200, 400, 409::nat}"
    by simp_all
  show ?thesis
  proof (cases rule: split)
    case held
    then have x: "exchange strict_provider ?call (Some ''bearer'') (outside n) = (Inr (reply_of 409 None []), outside n)"
      using strict_exchange [OF path] by simp
    show ?thesis unfolding go once [OF x ok(3)] n settle_refused
      using held by (simp add: bind_net_def Let_def)
  next
    case down
    then have x: "exchange strict_provider ?call (Some ''bearer'') (outside n) = (Inr (reply_of 400 None []), outside n)"
      using strict_exchange [OF path] by simp
    show ?thesis unfolding go once [OF x ok(2)] n settle_refused
      using down by (simp add: bind_net_def Let_def)
  next
    case free
    then have x: "exchange strict_provider ?call (Some ''bearer'') (outside n)
        = (Inr (reply_of 200 None [(''id'', drive_path d)]), (drive_path d # fst (outside n), snd (outside n)))"
      unfolding strict_exchange [OF path] by (simp only: if_False)
    show ?thesis unfolding go once [OF x ok(1)] settle_refused
      using free by (simp add: bind_net_def Let_def json_member_def)
  qed
qed

lemma office_authorized:
  assumes "now + EXPIRY_SKEW < minutes 2880"
  shows "ensure_connector_authorized C F office_transport now (office_connector t) w
    = (Inr (office_connector t), w)"
  using assms
  by (simp add: ensure_connector_authorized_def office_connector_def token_current_def auth_mode_def
      office_transport_def lower_def lower_char_def strip_def lstrip_def rstrip_def isspace_def Let_def
      tagged_def)

lemma office_ensure:
  assumes "now + EXPIRY_SKEW < minutes 2880" and "session w = (office_hooks scs t notices)\<lparr>subscription_rows := subs\<rparr>"
    and "\<forall>sc \<in> set scs. ss_connector sc = 7 \<and> ss_selected sc" and "scs \<noteq> []"
  obtains callback lifecycle where
    "ensure_webhook_subscriptions strict_provider plain_fernet office_transport now force (office_connector t) w
     = subscribe_scopes (strict_calls now callback lifecycle) plain_fernet now force 7 scs w"
proof -
  obtain callback lifecycle where url: "callback_urls office_transport ''sharepoint'' = Inr (callback, lifecycle)"
    by (simp add: callback_urls_def office_transport_def rstrip_slashes_def Let_def)
  have calls: "adapter_calls strict_provider plain_fernet office_transport now Graph (office_connector t)
      callback lifecycle = strict_calls now callback lifecycle"
    by (simp add: adapter_calls_def office_token)
  have sel: "selected_scopes 7 (session w) = scs"
    using assms(2,3) by (auto simp: selected_scopes_def office_hooks_def intro: filter_True)
  have "conn_system (office_connector t) = ''sharepoint''" "conn_id (office_connector t) = 7"
    by (simp_all add: office_connector_def)
  with url sel assms(4) have "ensure_webhook_subscriptions strict_provider plain_fernet office_transport now
      force (office_connector t) w
     = subscribe_scopes (strict_calls now callback lifecycle) plain_fernet now force 7 scs w"
    by (simp add: ensure_webhook_subscriptions_def Let_def adapter_for_def bind_world_def
        office_authorized [OF assms(1)] calls)
  then show ?thesis by (rule that)
qed

definition created_row :: "instant \<Rightarrow> string option \<Rightarrow> uuid \<Rightarrow> string \<Rightarrow> subscription" where
  "created_row now lifecycle i d =
     new_subscription plain_fernet 7 i
       \<lparr>cr_subscription_id = drive_path d, cr_client_state = ''secret'',
        cr_expires_at = now + minutes 1440, cr_resource = Some (drive_path d), cr_lifecycle_url = lifecycle\<rparr>"

text \<open>One scope without a live row, when its drive is free and when it is refused.\<close>

lemma retire_none: "\<forall>s \<in> set rows. \<not> old s \<Longrightarrow> retire delete old rows n = (rows, n)"
  by (induction rows arbitrary: n) auto

lemma office_replace_free:
  assumes "\<forall>s \<in> set (subscription_rows (session w)). \<not> live_for 7 i s"
    and "drive_path d \<notin> set (fst (outside (wire w)))"
    and "\<not> (snd (outside (wire w)) \<and> drive_path d = drive_path ''d2'')"
  obtains x w' where
    "replace_subscription (strict_calls now callback lifecycle) plain_fernet 7 (office_scope i d) w = (Inr x, w')"
    "session w' = (session w)\<lparr>subscription_rows := subscription_rows (session w) @ [created_row now lifecycle i d]\<rparr>"
    "saved w' = saved w" "outside (wire w') = (drive_path d # fst (outside (wire w)), snd (outside (wire w)))"
  using that assms strict_create [of "office_scope i d" d now callback lifecycle "wire w"]
  by (simp add: replace_subscription_def retire_none office_scope_def Let_def bind_world_def on_wire_def
      created_row_def)

lemma office_replace_refused:
  assumes "\<forall>s \<in> set (subscription_rows (session w)). \<not> live_for 7 i s"
    and "drive_path d \<in> set (fst (outside (wire w)))
      \<or> (snd (outside (wire w)) \<and> drive_path d = drive_path ''d2'')"
  obtains st w' where
    "replace_subscription (strict_calls now callback lifecycle) plain_fernet 7 (office_scope i d) w
       = (Inl (refused st), w')"
    "saved w' = saved w" "outside (wire w') = outside (wire w)"
  using that assms strict_create [of "office_scope i d" d now callback lifecycle "wire w"]
  by (cases "drive_path d \<in> set (fst (outside (wire w)))")
    (simp_all add: replace_subscription_def retire_none office_scope_def Let_def bind_world_def on_wire_def)

abbreviation two_scopes :: "source_scope list" where
  "two_scopes \<equiv> [office_scope 11 ''d1'', office_scope 12 ''d2'']"

lemma two_paths: "drive_path ''d1'' \<noteq> drive_path ''d2''"
  by (simp add: drive_path_def)

lemma created_not_live: "i \<noteq> j \<Longrightarrow> \<not> live_for 7 i (created_row now lifecycle j d)"
  by (simp add: created_row_def)

text \<open>Both ways a pass over the two scopes fails: on the first scope, or after creating it.\<close>

lemma office_subscribe_fails:
  assumes "subscription_rows (session w) = []"
    and "outside (wire w) = ([], True) \<or> fst (outside (wire w)) = [drive_path ''d1'']"
  obtains st w' where
    "subscribe_scopes (strict_calls now callback lifecycle) plain_fernet now False 7 two_scopes w
       = (Inl (refused st), w')"
    "saved w' = saved w" "outside (wire w') = ([drive_path ''d1''], snd (outside (wire w)))"
proof (cases "fst (outside (wire w)) = [drive_path ''d1'']")
  case True
  obtain st w' where r: "replace_subscription (strict_calls now callback lifecycle) plain_fernet 7
      (office_scope 11 ''d1'') w = (Inl (refused st), w')"
    and w': "saved w' = saved w" "outside (wire w') = outside (wire w)"
    using office_replace_refused [of w 11 "''d1''" now callback lifecycle] assms(1) True by auto
  have "outside (wire w') = ([drive_path ''d1''], snd (outside (wire w)))"
    using w'(2) True by (cases "outside (wire w)") simp
  with r w' assms(1) that show ?thesis by (simp add: bind_world_def)
next
  case False
  with assms(2) have p: "outside (wire w) = ([], True)" by simp
  obtain x w1 where 1: "replace_subscription (strict_calls now callback lifecycle) plain_fernet 7
      (office_scope 11 ''d1'') w = (Inr x, w1)"
    and w1: "session w1 = (session w)\<lparr>subscription_rows := [created_row now lifecycle 11 ''d1'']\<rparr>"
      "saved w1 = saved w" "outside (wire w1) = ([drive_path ''d1''], True)"
    using office_replace_free [of w 11 "''d1''" now callback lifecycle] assms(1) p two_paths by auto
  have "\<forall>s \<in> set (subscription_rows (session w1)). \<not> live_for 7 12 s"
    using w1(1) created_not_live by simp
  then obtain st w' where 2: "replace_subscription (strict_calls now callback lifecycle) plain_fernet 7
      (office_scope 12 ''d2'') w1 = (Inl (refused st), w')"
    and w': "saved w' = saved w1" "outside (wire w') = outside (wire w1)"
    using office_replace_refused [of w1 12 "''d2''" now callback lifecycle] w1(3) by auto
  have no: "\<not> list_ex (healthy now) (filter (live_for 7 12) (subscription_rows (session w1)))"
    using w1(1) created_not_live by simp
  show ?thesis
    by (rule that [of st w']) (use 1 2 w1 w' no assms(1) p in
      \<open>simp_all add: bind_world_def office_scope_def\<close>)
qed

text \<open>
  Two folders of one drive are two scopes with the same resource, so a provider that holds one
  subscription per resource refuses the second of them whatever its state: the connector can never
  be subscribed.
\<close>

lemma shared_drive_never_subscribes:
  assumes "subscription_rows (session w) = []" and "i \<noteq> j"
  shows "\<exists>st w'. subscribe_scopes (strict_calls now callback lifecycle) plain_fernet now force 7
    [office_scope i d, office_scope j d] w = (Inl (refused st), w')"
proof (cases "drive_path d \<in> set (fst (outside (wire w)))
    \<or> (snd (outside (wire w)) \<and> drive_path d = drive_path ''d2'')")
  case True
  moreover have "\<forall>s \<in> set (subscription_rows (session w)). \<not> live_for 7 i s" using assms(1) by simp
  ultimately obtain st w' where "replace_subscription (strict_calls now callback lifecycle) plain_fernet 7
      (office_scope i d) w = (Inl (refused st), w')"
    using office_replace_refused [of w i d now callback lifecycle] by blast
  with assms(1) show ?thesis by (auto simp: bind_world_def)
next
  case False
  then have free: "drive_path d \<notin> set (fst (outside (wire w)))"
    "\<not> (snd (outside (wire w)) \<and> drive_path d = drive_path ''d2'')" by auto
  have live: "\<forall>s \<in> set (subscription_rows (session w)). \<not> live_for 7 i s" using assms(1) by simp
  obtain x w1 where 1: "replace_subscription (strict_calls now callback lifecycle) plain_fernet 7
      (office_scope i d) w = (Inr x, w1)"
    and w1: "session w1 = (session w)\<lparr>subscription_rows := [created_row now lifecycle i d]\<rparr>"
      "drive_path d \<in> set (fst (outside (wire w1)))"
    by (rule office_replace_free [OF live free, of now callback lifecycle]) (simp add: assms(1))
  have none: "\<forall>s \<in> set (subscription_rows (session w1)). \<not> live_for 7 j s"
    using w1(1) created_not_live [of j i] assms(2) by simp
  obtain st w' where 2: "replace_subscription (strict_calls now callback lifecycle) plain_fernet 7
      (office_scope j d) w1 = (Inl (refused st), w')"
    using office_replace_refused [OF none, of d now callback lifecycle] w1(2) by blast
  have "\<not> list_ex (healthy now) (filter (live_for 7 j) (subscription_rows (session w1)))"
    using none by (auto simp: list_ex_iff)
  with 1 2 assms(1) show ?thesis by (auto simp: bind_world_def office_scope_def)
qed

lemma two_scopes_selected: "\<forall>sc \<in> set two_scopes. ss_connector sc = 7 \<and> ss_selected sc"
  by (simp add: office_scope_def)

text \<open>A repair pass over the office that fails, whatever its connector's mark was.\<close>

lemma office_repair_fails:
  assumes "clean w" and "saved w = office_hooks two_scopes t notices" and "now + EXPIRY_SKEW < minutes 2880"
    and "outside (wire w) = ([], True) \<or> fst (outside (wire w)) = [drive_path ''d1'']"
  obtains w' notices' where
    "repair_webhook_subscriptions strict_provider plain_fernet office_transport now w = (Inr (), w')"
    "clean w'" "saved w' = office_hooks two_scopes (Some (case t of Some d \<Rightarrow> d | None \<Rightarrow> now)) notices'"
    "length notices' = length notices + (if t = None then 1 else 0)"
    "outside (wire w') = ([drive_path ''d1''], snd (outside (wire w)))"
proof -
  have s: "session w = (office_hooks two_scopes t notices)\<lparr>subscription_rows := []\<rparr>"
    using assms(1,2) by (simp add: office_hooks_def)
  obtain callback lifecycle where e: "ensure_webhook_subscriptions strict_provider plain_fernet office_transport
      now False (office_connector t) w
      = subscribe_scopes (strict_calls now callback lifecycle) plain_fernet now False 7 two_scopes w"
    by (rule office_ensure [OF assms(3) s two_scopes_selected]) simp
  have "subscription_rows (session w) = []" by (simp add: s)
  from office_subscribe_fails [OF this assms(4), of now callback lifecycle] obtain st w1 where
    f: "ensure_webhook_subscriptions strict_provider plain_fernet office_transport now False (office_connector t) w
        = (Inl (refused st), w1)"
    and w1: "saved w1 = saved w" "outside (wire w1) = ([drive_path ''d1''], snd (outside (wire w)))"
    unfolding e by metis
  have ids: "map conn_id (filter (\<lambda>c. conn_system c \<in> REMOTE_PROVIDERS \<and> served c) (connector_rows (session w))) = [7]"
    by (simp add: s office_hooks_def office_connector_def REMOTE_PROVIDERS_def served_def)
  have row: "get_row conn_id 7 (connector_rows (session w)) = Some (office_connector t)"
    by (simp add: s office_hooks_def office_connector_def)
  have on: "cn_webhook_enabled (office_connector t)" by (simp add: office_connector_def)
  let ?h = "mark_degraded now (office_connector t) (refused st) (office_connector t) (saved w)"
  let ?w2 = "(rollback w1)\<lparr>session := ?h\<rparr>"
  obtain notices' where h: "?h = office_hooks two_scopes (Some (case t of Some d \<Rightarrow> d | None \<Rightarrow> now)) notices'"
    and n: "length notices' = length notices + (if t = None then 1 else 0)"
    by (cases t) (simp_all add: mark_degraded_def assms(2) office_hooks_def office_connector_def Let_def)
  have id: "conn_id (office_connector t) = 7" by (simp add: office_connector_def)
  have failed: "repair_failed now (office_connector t) (refused st) w1 = commit ?w2"
    using row by (simp add: repair_failed_def Let_def id w1 assms(1))
  have "repair_one strict_provider plain_fernet office_transport now 7 w = commit ?w2"
    unfolding failed [symmetric] by (simp add: repair_one_def row on f) (simp add: refused_def)
  moreover have committed: "commit ?w2 = (Inr (), ?w2\<lparr>saved := ?h\<rparr>)"
    by (simp add: commit_def h) (simp add: office_hooks_def)
  ultimately have step: "repair_webhook_subscriptions strict_provider plain_fernet office_transport now w
      = (Inr (), ?w2\<lparr>saved := ?h\<rparr>)"
    unfolding repair_webhook_subscriptions_def ids by (simp add: bind_world_def)
  show ?thesis
    by (rule that [OF step _ _ n]) (simp_all add: h w1)
qed

section \<open>A rollback forgets what the provider holds\<close>

definition maintenance ::
  "instant list \<Rightarrow> (string list \<times> bool) world \<Rightarrow> (string list \<times> bool) world" where
  "maintenance nows w =
     fold (\<lambda>now w. snd (renew_webhook_subscriptions strict_provider plain_fernet office_transport now w)) nows w"

definition provider_back :: "(string list \<times> bool) world \<Rightarrow> (string list \<times> bool) world" where
  "provider_back w = w\<lparr>wire := (wire w)\<lparr>outside := (fst (outside (wire w)), False)\<rparr>\<rparr>"

lemma office_maintenance_stuck:
  assumes "clean w" and "saved w = office_hooks two_scopes (Some t) notices"
    and "fst (outside (wire w)) = [drive_path ''d1'']" and "\<forall>now \<in> set nows. now + EXPIRY_SKEW < minutes 2880"
  shows "\<exists>notices'. saved (maintenance nows w) = office_hooks two_scopes (Some t) notices'
    \<and> outside (wire (maintenance nows w)) = ([drive_path ''d1''], snd (outside (wire w)))"
  using assms
proof (induction nows arbitrary: w notices)
  case Nil
  then show ?case by (cases "outside (wire w)") (auto simp: maintenance_def)
next
  case (Cons now nows)
  have "subscription_rows (saved w) = []" by (simp add: Cons.prems office_hooks_def)
  then have idle: "renew_due_subscriptions strict_provider plain_fernet office_transport now (rollback w) = (Inr (), w)"
    using Cons.prems(1) by (simp add: renew_due_subscriptions_def on_wire_def commit_def rollback_def)
  from Cons.prems(4) have t: "now + EXPIRY_SKEW < minutes 2880" by simp
  from office_repair_fails [OF Cons.prems(1,2) t disjI2 [OF Cons.prems(3)]] obtain w' notices' where
    w': "repair_webhook_subscriptions strict_provider plain_fernet office_transport now w = (Inr (), w')"
    "clean w'" "saved w' = office_hooks two_scopes (Some t) notices'"
    "outside (wire w') = ([drive_path ''d1''], snd (outside (wire w)))"
    by (metis option.simps(5))
  have "maintenance (now # nows) w = maintenance nows w'"
    by (simp add: maintenance_def renew_webhook_subscriptions_def idle bind_world_def w'(1))
  with Cons.IH [OF w'(2,3)] w'(4) Cons.prems(4) show ?case by simp
qed

text \<open>
  A repair that subscribes the first scope and fails on the second rolls the first subscription's
  row back, while the provider keeps it. A provider that holds one subscription per resource then
  refuses every later attempt, for as long as it keeps the forgotten one, although nothing is wrong
  with it any more: no scope of the connector is ever subscribed again.
\<close>

lemma lost_subscription_blocks_repair:
  assumes "\<forall>now \<in> set nows. now + EXPIRY_SKEW < minutes 2880"
  shows "subscription_rows (saved (maintenance nows (provider_back (maintenance [0]
      (office_world (office_hooks two_scopes None []) [] True))))) = []"
proof -
  let ?w = "office_world (office_hooks two_scopes None []) [] True"
  have idle: "renew_due_subscriptions strict_provider plain_fernet office_transport 0 (rollback ?w) = (Inr (), ?w)"
    by (simp add: renew_due_subscriptions_def on_wire_def commit_def rollback_def office_world_def office_hooks_def)
  have "clean ?w" "saved ?w = office_hooks two_scopes None []" "outside (wire ?w) = ([], True)"
    "0 + EXPIRY_SKEW < minutes 2880"
    by (simp_all add: office_world_def EXPIRY_SKEW_def)
  from office_repair_fails [OF this(1,2,4) disjI1 [OF this(3)]] obtain w' notices' where
    w': "repair_webhook_subscriptions strict_provider plain_fernet office_transport 0 ?w = (Inr (), w')"
    "clean w'" "saved w' = office_hooks two_scopes (Some 0) notices'" "fst (outside (wire w')) = [drive_path ''d1'']"
    by (metis fst_conv option.simps(4))
  have first: "maintenance [0] ?w = w'"
    by (simp add: maintenance_def renew_webhook_subscriptions_def idle bind_world_def w'(1))
  have "clean (provider_back w')" "saved (provider_back w') = office_hooks two_scopes (Some 0) notices'"
    "fst (outside (wire (provider_back w'))) = [drive_path ''d1'']"
    using w' by (simp_all add: provider_back_def)
  from office_maintenance_stuck [OF this assms] obtain notices2 where
    "saved (maintenance nows (provider_back w')) = office_hooks two_scopes (Some 0) notices2" by blast
  then show ?thesis unfolding first by (simp add: office_hooks_def)
qed

section \<open>Witnesses\<close>

theorem degraded_reported_once_witness:
  "count_rows (\<lambda>n. dn_connector n = 7) (notice_rows (saved (snd (repair_webhook_subscriptions
      strict_provider plain_fernet office_transport 0 (office_world (office_hooks two_scopes None []) [] True)))))
   = 1"
proof -
  let ?w = "office_world (office_hooks two_scopes None []) [] True"
  have w: "clean ?w" "saved ?w = office_hooks two_scopes None []" "outside (wire ?w) = ([], True)"
    "0 + EXPIRY_SKEW < minutes 2880"
    by (simp_all add: office_world_def EXPIRY_SKEW_def)
  from office_repair_fails [OF w(1,2,4) disjI1 [OF w(3)]] obtain w' notices' where
    w': "repair_webhook_subscriptions strict_provider plain_fernet office_transport 0 ?w = (Inr (), w')"
    "saved w' = office_hooks two_scopes (Some 0) notices'"
    by (metis option.simps(4))
  have "newly_degraded 7 (saved ?w) (saved w')"
    unfolding w(2) w'(2) by (simp add: newly_degraded_def office_hooks_def office_connector_def)
  moreover have "unique_key conn_id (connector_rows (saved ?w))"
    unfolding w(2) by (simp add: office_hooks_def unique_key_def)
  moreover have "notice_rows (saved ?w) = []"
    by (simp only: w(2)) (simp add: office_hooks_def)
  ultimately show ?thesis
    using degraded_reported_once [OF w(1), of 7 strict_provider plain_fernet office_transport 0] w'(1)
    by simp
qed


end
