(* ===== verification/SyncQueue.thy ===== *)
theory SyncQueue
  imports Prelude
begin

text \<open>
  \<open>src/domain/sync_queue.py\<close>: the durable queue of connector synchronisation requests, with
  the dispatcher and the worker task of \<open>src/workers/tasks.py\<close> that drive it. Each
  operation is one committed transaction on the \<open>sync_requests\<close> table; \<open>now\<close> is the
  value \<open>datetime.utcnow()\<close> returns in it, and fresh ids come from a counter. The row
  lock and the advisory lock of \<open>claim_sync_request\<close> make a claim atomic, so a run of the
  system is a sequence of whole operations.
\<close>

section \<open>Rows\<close>

datatype sync_status = Queued | Dispatched | Running | Completed | Failed

record sync_request =
  sr_id :: uuid
  sr_connector :: uuid
  sr_scope :: "uuid option"
  sr_job :: "uuid option"
  sr_reason :: string
  sr_priority :: int
  sr_status :: sync_status
  sr_attempts :: nat
  sr_available_at :: instant
  sr_locked_at :: "instant option"
  sr_started_at :: "instant option"
  sr_completed_at :: "instant option"
  sr_last_error :: "string option"
  sr_created_at :: instant

record connector_job =
  job_id :: uuid
  job_connector :: uuid
  job_requested_by :: "uuid option"

record queue =
  requests :: "sync_request list"
  jobs :: "connector_job list"
  next_id :: uuid

abbreviation request_of :: "queue \<Rightarrow> uuid \<Rightarrow> sync_request option" where
  "request_of q i \<equiv> get_row sr_id i (requests q)"

definition put_request :: "sync_request \<Rightarrow> queue \<Rightarrow> queue" where
  "put_request r q = q\<lparr>requests := put_row sr_id r (requests q)\<rparr>"

section \<open>Operations\<close>

text \<open>\<open>ORDER BY priority, created_at LIMIT 1\<close>\<close>

definition first_by_priority :: "sync_request list \<Rightarrow> sync_request option" where
  "first_by_priority rs =
     (case sort_key (\<lambda>r. sr_created_at r) rs of
        [] \<Rightarrow> None
      | rs' \<Rightarrow> Some (hd (sort_key sr_priority rs')))"

definition coalescible :: "uuid \<Rightarrow> uuid option \<Rightarrow> sync_request \<Rightarrow> bool" where
  "coalescible connector scope r =
     (sr_connector r = connector \<and> sr_scope r = scope \<and> sr_status r = Queued)"

definition refresh_existing :: "instant \<Rightarrow> string \<Rightarrow> int \<Rightarrow> sync_request \<Rightarrow> sync_request" where
  "refresh_existing now reason priority r =
     (let more_urgent = priority < sr_priority r;
          r1 = (if more_urgent then r\<lparr>sr_priority := priority\<rparr> else r);
          r2 = (if more_urgent \<or> reason \<in> {''manual'', ''webhook''}
                then r1\<lparr>sr_available_at := min (sr_available_at r1) now\<rparr> else r1)
      in if reason \<noteq> [] \<and> sr_reason r2 = ''polling'' then r2\<lparr>sr_reason := reason\<rparr> else r2)"

definition enqueue_connector_sync ::
  "instant \<Rightarrow> uuid \<Rightarrow> uuid option \<Rightarrow> string \<Rightarrow> uuid option \<Rightarrow> int \<Rightarrow> queue
     \<Rightarrow> queue \<times> sync_request" where
  "enqueue_connector_sync now connector scope reason requested_by priority q =
     (case first_by_priority (filter (coalescible connector scope) (requests q)) of
        Some existing \<Rightarrow>
          let r = refresh_existing now reason priority existing in (put_request r q, r)
      | None \<Rightarrow>
          let job = \<lparr>job_id = next_id q, job_connector = connector,
                     job_requested_by = requested_by\<rparr>;
              r = \<lparr>sr_id = Suc (next_id q), sr_connector = connector, sr_scope = scope,
                   sr_job = Some (job_id job), sr_reason = reason, sr_priority = priority,
                   sr_status = Queued, sr_attempts = 0, sr_available_at = now,
                   sr_locked_at = None, sr_started_at = None, sr_completed_at = None,
                   sr_last_error = None, sr_created_at = now\<rparr>
          in (q\<lparr>requests := requests q @ [r], jobs := jobs q @ [job],
                next_id := Suc (Suc (next_id q))\<rparr>, r))"

definition in_flight_status :: "sync_status \<Rightarrow> bool" where
  "in_flight_status st = (st = Dispatched \<or> st = Running)"

definition claim_row :: "instant \<Rightarrow> sync_request \<Rightarrow> sync_request" where
  "claim_row now r =
     r\<lparr>sr_status := Dispatched, sr_locked_at := Some now, sr_attempts := sr_attempts r + 1\<rparr>"

definition claim_sync_request :: "instant \<Rightarrow> uuid \<Rightarrow> queue \<Rightarrow> queue \<times> sync_request option" where
  "claim_sync_request now i q =
     (case request_of q i of
        None \<Rightarrow> (q, None)
      | Some r \<Rightarrow>
          if \<not> (sr_status r = Queued \<and> sr_available_at r \<le> now) then (q, None)
          else if list_ex (\<lambda>o'. sr_connector o' = sr_connector r \<and> sr_id o' \<noteq> sr_id r
                             \<and> in_flight_status (sr_status o')) (requests q)
          then (q, None)
          else (put_request (claim_row now r) q, Some (claim_row now r)))"

definition start_row :: "instant \<Rightarrow> sync_request \<Rightarrow> sync_request" where
  "start_row now r =
     r\<lparr>sr_status := Running,
       sr_started_at := (case sr_started_at r of None \<Rightarrow> Some now | Some t \<Rightarrow> Some t)\<rparr>"

definition mark_sync_request_running :: "instant \<Rightarrow> uuid \<Rightarrow> queue \<Rightarrow> queue" where
  "mark_sync_request_running now i q =
     (case request_of q i of None \<Rightarrow> q | Some r \<Rightarrow> put_request (start_row now r) q)"

text \<open>\<open>min(1800, 2 ** min(attempts, 10))\<close> seconds\<close>

definition backoff_seconds :: "nat \<Rightarrow> int" where
  "backoff_seconds attempts = min 1800 (2 ^ min attempts 10)"

definition finish_row ::
  "instant \<Rightarrow> bool \<Rightarrow> string option \<Rightarrow> bool \<Rightarrow> sync_request \<Rightarrow> sync_request" where
  "finish_row now success error retryable r =
     (let r1 = r\<lparr>sr_locked_at := None,
                 sr_last_error := (case error of None \<Rightarrow> None
                    | Some e \<Rightarrow> if e = [] then None else Some (take 2000 e))\<rparr>
      in if success then r1\<lparr>sr_status := Completed, sr_completed_at := Some now\<rparr>
         else if retryable \<and> sr_attempts r1 < 8 then
           r1\<lparr>sr_status := Queued,
              sr_available_at := now + seconds (backoff_seconds (sr_attempts r1))\<rparr>
         else r1\<lparr>sr_status := Failed\<rparr>)"

definition finish_sync_request ::
  "instant \<Rightarrow> uuid \<Rightarrow> bool \<Rightarrow> string option \<Rightarrow> bool \<Rightarrow> queue \<Rightarrow> queue" where
  "finish_sync_request now i success error retryable q =
     (case request_of q i of
        None \<Rightarrow> q
      | Some r \<Rightarrow> put_request (finish_row now success error retryable r) q)"

definition is_stale :: "instant \<Rightarrow> int \<Rightarrow> int \<Rightarrow> sync_request \<Rightarrow> bool" where
  "is_stale now stale_after running_stale_after r =
     ((sr_status r = Dispatched
        \<and> (case sr_locked_at r of None \<Rightarrow> True | Some t \<Rightarrow> t < now - minutes stale_after))
      \<or> (sr_status r = Running
        \<and> (case sr_started_at r of None \<Rightarrow> False
           | Some t \<Rightarrow> t < now - minutes running_stale_after)))"

definition requeue :: "instant \<Rightarrow> sync_request \<Rightarrow> sync_request" where
  "requeue now r =
     r\<lparr>sr_status := Queued, sr_available_at := now, sr_locked_at := None,
       sr_last_error := Some ''Recovered after worker/process interruption''\<rparr>"

definition recover_stale_sync_requests ::
  "instant \<Rightarrow> int \<Rightarrow> int \<Rightarrow> queue \<Rightarrow> queue \<times> nat" where
  "recover_stale_sync_requests now stale_after running_stale_after q =
     (let stale = is_stale now stale_after running_stale_after
      in (q\<lparr>requests := map (\<lambda>r. if stale r then requeue now r else r) (requests q)\<rparr>,
          length (filter stale (requests q))))"

section \<open>Dispatcher and worker\<close>

text \<open>
  \<open>dispatch_pending_sync_requests\<close>: recover, take the 25 most urgent due requests, and claim
  them one by one. A claim that has a job is handed to a worker.
\<close>

definition due_request_ids :: "instant \<Rightarrow> queue \<Rightarrow> uuid list" where
  "due_request_ids now q =
     map sr_id (take 25 (sort_key sr_priority (sort_key sr_created_at
       (filter (\<lambda>r. sr_status r = Queued \<and> sr_available_at r \<le> now) (requests q)))))"

fun claim_each :: "instant \<Rightarrow> uuid list \<Rightarrow> queue \<Rightarrow> queue \<times> uuid list" where
  "claim_each now [] q = (q, [])"
| "claim_each now (i # is) q =
     (let (q1, claimed) = claim_sync_request now i q;
          (q2, sent) = claim_each now is q1
      in (q2, (case claimed of
                 Some r \<Rightarrow> (case sr_job r of Some _ \<Rightarrow> sr_id r # sent | None \<Rightarrow> sent)
               | None \<Rightarrow> sent)))"

definition dispatch_pending_sync_requests :: "instant \<Rightarrow> queue \<Rightarrow> queue \<times> uuid list" where
  "dispatch_pending_sync_requests now q =
     (let q1 = fst (recover_stale_sync_requests now 15 180 q)
      in claim_each now (due_request_ids now q1) q1)"

section \<open>Invariants\<close>

definition wf_queue :: "queue \<Rightarrow> bool" where
  "wf_queue q = (unique_key sr_id (requests q) \<and> (\<forall>r \<in> set (requests q). sr_id r < next_id q))"

definition walking :: "uuid \<Rightarrow> sync_request \<Rightarrow> bool" where
  "walking c r = (sr_connector r = c \<and> in_flight_status (sr_status r))"

definition active_for :: "uuid \<Rightarrow> uuid option \<Rightarrow> sync_request \<Rightarrow> bool" where
  "active_for c s r =
     (sr_connector r = c \<and> sr_scope r = s \<and> sr_status r \<in> {Queued, Dispatched, Running})"

text \<open>One provider walk per connector; one in flight plus one waiting per scope.\<close>

definition single_flight :: "queue \<Rightarrow> bool" where
  "single_flight q = (\<forall>c. count_rows (walking c) (requests q) \<le> 1)"

definition bounded_backlog :: "queue \<Rightarrow> bool" where
  "bounded_backlog q = (\<forall>c s. count_rows (active_for c s) (requests q) \<le> 2)"

definition queue_inv :: "queue \<Rightarrow> bool" where
  "queue_inv q = (wf_queue q \<and> single_flight q \<and> bounded_backlog q)"

lemma requests_put_request [simp]:
  "requests (put_request r q) = put_row sr_id r (requests q)"
  "next_id (put_request r q) = next_id q" "jobs (put_request r q) = jobs q"
  by (simp_all add: put_request_def)

lemma wf_queue_put:
  assumes "wf_queue q" and "request_of q (sr_id r) \<noteq> None"
  shows "wf_queue (put_request r q)"
proof -
  from assms obtain r0 where r0: "r0 \<in> set (requests q)" "sr_id r0 = sr_id r"
    by (auto dest: get_row_SomeD)
  with assms(1) have "sr_id r < next_id q" by (auto simp: wf_queue_def)
  with assms(1) set_put_row_subset [of sr_id r "requests q"] show ?thesis
    by (auto simp: wf_queue_def)
qed

lemma same_id_same_row:
  "wf_queue q \<Longrightarrow> request_of q i = Some r \<Longrightarrow> r' \<in> set (requests q) \<Longrightarrow> sr_id r' = i \<Longrightarrow> r' = r"
  using unique_key_get_row [of sr_id "requests q" r'] by (simp add: wf_queue_def)

text \<open>
  An operation that rewrites one request in place: it keeps the identity of the request,
  its connector and its scope. What it may do to the status decides which invariant it
  keeps.
\<close>

locale request_update =
  fixes upd :: "sync_request \<Rightarrow> sync_request"
  assumes upd_id: "sr_id (upd r) = sr_id r"
    and upd_connector: "sr_connector (upd r) = sr_connector r"
    and upd_scope: "sr_scope (upd r) = sr_scope r"
begin

lemma wf_upd: "wf_queue q \<Longrightarrow> request_of q i = Some r \<Longrightarrow> wf_queue (put_request (upd r) q)"
  by (rule wf_queue_put) (auto simp: upd_id dest: get_row_SomeD)

lemma walking_upd:
  assumes "wf_queue q" and "request_of q i = Some r"
    and "in_flight_status (sr_status (upd r)) \<Longrightarrow> in_flight_status (sr_status r)"
  shows "count_rows (walking c) (requests (put_request (upd r) q))
           \<le> count_rows (walking c) (requests q)"
  unfolding requests_put_request
proof (rule count_put_row)
  fix r' assume "r' \<in> set (requests q)" "sr_id r' = sr_id (upd r)" "walking c (upd r)"
  then have "r' = r"
    using get_row_SomeD(2) [OF assms(2)] upd_id by (intro same_id_same_row [OF assms(1,2)]) simp_all
  with \<open>walking c (upd r)\<close> assms(3) show "walking c r'" by (simp add: walking_def upd_connector)
qed

lemma active_upd:
  assumes "wf_queue q" and "request_of q i = Some r"
    and "sr_status r \<in> {Queued, Dispatched, Running}"
  shows "count_rows (active_for c s) (requests (put_request (upd r) q))
           \<le> count_rows (active_for c s) (requests q)"
  unfolding requests_put_request
proof (rule count_put_row)
  fix r' assume "r' \<in> set (requests q)" "sr_id r' = sr_id (upd r)" "active_for c s (upd r)"
  then have "r' = r"
    using get_row_SomeD(2) [OF assms(2)] upd_id by (intro same_id_same_row [OF assms(1,2)]) simp_all
  with \<open>active_for c s (upd r)\<close> assms(3) show "active_for c s r'"
    by (simp add: active_for_def upd_connector upd_scope)
qed

lemma inv_upd:
  assumes "queue_inv q" and "request_of q i = Some r"
    and "sr_status r \<in> {Queued, Dispatched, Running}"
    and "in_flight_status (sr_status (upd r)) \<Longrightarrow> in_flight_status (sr_status r)"
  shows "queue_inv (put_request (upd r) q)"
  using assms wf_upd [of q i r] walking_upd [of q i r] active_upd [of q i r]
  unfolding queue_inv_def single_flight_def bounded_backlog_def by (meson order_trans)

end

interpretation claim: request_update "claim_row now" for now
  by unfold_locales (simp_all add: claim_row_def)

interpretation start: request_update "start_row now" for now
  by unfold_locales (simp_all add: start_row_def)

interpretation finish: request_update "finish_row now success error retryable"
  for now success error retryable
  by unfold_locales (simp_all add: finish_row_def Let_def)

interpretation recover: request_update "requeue now" for now
  by unfold_locales (simp_all add: requeue_def)

interpretation coalesce: request_update "refresh_existing now reason priority"
  for now reason priority
  by unfold_locales (simp_all add: refresh_existing_def Let_def)

subsection \<open>Preservation\<close>

lemma first_by_priority_Some:
  assumes "first_by_priority rs = Some r"
  shows "r \<in> set rs"
proof -
  have ne: "rs \<noteq> []"
    using assms by (auto simp: first_by_priority_def)
  then have "sort_key sr_created_at rs \<noteq> []"
    by (metis set_empty set_sort)
  then obtain x xs where x: "sort_key sr_created_at rs = x # xs"
    by (cases "sort_key sr_created_at rs") auto
  have "sort_key sr_priority (x # xs) \<noteq> []"
    by (metis list.distinct(1) set_empty set_sort)
  then have "hd (sort_key sr_priority (x # xs)) \<in> set (sort_key sr_priority (x # xs))"
    by (rule hd_in_set)
  then have "hd (sort_key sr_priority (x # xs)) \<in> set rs"
    using x by (metis set_sort)
  with x assms show ?thesis by (simp add: first_by_priority_def)
qed

lemma first_by_priority_None: "first_by_priority rs = None \<longleftrightarrow> rs = []"
proof
  assume "first_by_priority rs = None"
  then have "sort_key sr_created_at rs = []"
    by (auto simp: first_by_priority_def split: list.splits)
  then show "rs = []" by (metis set_empty set_sort)
qed (simp add: first_by_priority_def)

lemma enqueue_cases:
  obtains (coalesced) existing where
      "existing \<in> set (requests q)" "coalescible c s existing"
      "fst (enqueue_connector_sync now c s reason who prio q) =
         put_request (refresh_existing now reason prio existing) q"
  | (fresh) r where
      "\<And>x. x \<in> set (requests q) \<Longrightarrow> \<not> coalescible c s x"
      "requests (fst (enqueue_connector_sync now c s reason who prio q)) = requests q @ [r]"
      "next_id (fst (enqueue_connector_sync now c s reason who prio q)) = Suc (Suc (next_id q))"
      "sr_id r = Suc (next_id q)" "sr_connector r = c" "sr_scope r = s" "sr_status r = Queued"
proof (cases "first_by_priority (filter (coalescible c s) (requests q))")
  case None
  then have "\<And>x. x \<in> set (requests q) \<Longrightarrow> \<not> coalescible c s x"
    by (auto simp: first_by_priority_None filter_empty_conv)
  with None show ?thesis
    by (intro fresh) (auto simp: enqueue_connector_sync_def Let_def)
next
  case (Some existing)
  from first_by_priority_Some [OF this] Some show ?thesis
    by (intro coalesced [of existing]) (auto simp: enqueue_connector_sync_def Let_def)
qed

lemma enqueue_inv:
  assumes "queue_inv q"
  shows "queue_inv (fst (enqueue_connector_sync now c s reason who prio q))"
proof (cases rule: enqueue_cases [of q c s now reason who prio])
  case (coalesced existing)
  have "request_of q (sr_id existing) = Some existing"
    using assms coalesced(1) by (simp add: queue_inv_def wf_queue_def unique_key_get_row)
  moreover have "sr_status existing = Queued" using coalesced(2) by (simp add: coalescible_def)
  moreover from this have "\<not> in_flight_status (sr_status (refresh_existing now reason prio existing))"
    by (simp add: refresh_existing_def in_flight_status_def Let_def)
  ultimately show ?thesis
    unfolding coalesced(3) using assms by (intro coalesce.inv_upd) auto
next
  case (fresh r)
  let ?q = "fst (enqueue_connector_sync now c s reason who prio q)"
  have wf: "wf_queue q" using assms by (simp add: queue_inv_def)
  have "wf_queue ?q"
    using wf fresh(2-4) by (fastforce simp: wf_queue_def unique_key_def)
  moreover have "single_flight ?q"
    using assms fresh(2,7)
    by (simp add: queue_inv_def single_flight_def walking_def in_flight_status_def)
  moreover have "count_rows (active_for c' s') (requests ?q) \<le> 2" for c' s'
  proof (cases "c' = c \<and> s' = s")
    case True
    have "count_rows (active_for c s) (requests q) \<le> count_rows (walking c) (requests q)"
      using fresh(1)
      by (intro count_rows_mono)
         (auto simp: active_for_def walking_def coalescible_def in_flight_status_def)
    also have "\<dots> \<le> 1" using assms by (simp add: queue_inv_def single_flight_def)
    finally show ?thesis using True fresh by (simp add: active_for_def)
  next
    case False
    then have "\<not> active_for c' s' r" using fresh by (auto simp: active_for_def)
    with fresh(2) assms show ?thesis by (simp add: queue_inv_def bounded_backlog_def)
  qed
  ultimately show ?thesis by (simp add: queue_inv_def bounded_backlog_def)
qed

lemma claim_cases:
  obtains (refused) "claim_sync_request now i q = (q, None)"
  | (claimed) r where "request_of q i = Some r" "sr_status r = Queued" "sr_available_at r \<le> now"
      "\<And>x. x \<in> set (requests q) \<Longrightarrow> sr_connector x = sr_connector r \<Longrightarrow> sr_id x \<noteq> sr_id r
          \<Longrightarrow> \<not> in_flight_status (sr_status x)"
      "claim_sync_request now i q = (put_request (claim_row now r) q, Some (claim_row now r))"
proof (cases "request_of q i")
  case None
  then show ?thesis by (intro refused) (simp add: claim_sync_request_def)
next
  case (Some r)
  show ?thesis
  proof (cases "sr_status r = Queued \<and> sr_available_at r \<le> now \<and>
      (\<forall>x \<in> set (requests q). sr_connector x = sr_connector r \<longrightarrow> sr_id x \<noteq> sr_id r
          \<longrightarrow> \<not> in_flight_status (sr_status x))")
    case True
    with Some show ?thesis
      by (intro claimed [of r]) (auto simp: claim_sync_request_def list_ex_iff)
  next
    case False
    with Some show ?thesis
      by (intro refused) (auto simp: claim_sync_request_def list_ex_iff)
  qed
qed

lemma claim_inv:
  assumes "queue_inv q"
  shows "queue_inv (fst (claim_sync_request now i q))"
proof (cases rule: claim_cases [of now i q])
  case refused
  then show ?thesis using assms by simp
next
  case (claimed r)
  let ?q = "put_request (claim_row now r) q"
  have wf: "wf_queue q" using assms by (simp add: queue_inv_def)
  have walks: "count_rows (walking c) (requests ?q) \<le> 1" for c
  proof (cases "c = sr_connector r")
    case True
    have "count_rows (walking c) (requests q) = 0"
      unfolding count_rows_zero
    proof
      fix x assume x: "x \<in> set (requests q)"
      show "\<not> walking c x"
      proof (cases "sr_id x = sr_id r")
        case True
        then have "x = r"
          using x claimed(1) wf get_row_SomeD(2) [OF claimed(1)]
          by (auto intro: same_id_same_row)
        then show ?thesis using claimed(2) by (simp add: walking_def in_flight_status_def)
      next
        case False
        then show ?thesis using claimed(4) [OF x] True by (auto simp: walking_def)
      qed
    qed
    then show ?thesis
      using count_put_row_Suc [of sr_id "requests q" "walking c" "claim_row now r"] wf
      by (simp add: wf_queue_def)
  next
    case False
    then have "count_rows (walking c) (requests ?q) \<le> count_rows (walking c) (requests q)"
      unfolding requests_put_request
      by (intro count_put_row) (auto simp: walking_def claim.upd_connector)
    then show ?thesis using assms by (auto simp: queue_inv_def single_flight_def intro: order_trans)
  qed
  have "count_rows (active_for c s) (requests ?q) \<le> count_rows (active_for c s) (requests q)" for c s
    using wf claimed(1) by (rule claim.active_upd) (simp add: claimed(2))
  then have "bounded_backlog ?q"
    using assms unfolding queue_inv_def bounded_backlog_def by (meson order_trans)
  with walks claim.wf_upd [OF wf claimed(1)] show ?thesis
    by (simp add: claimed(5) queue_inv_def single_flight_def)
qed

lemma finish_row_not_in_flight:
  "\<not> in_flight_status (sr_status (finish_row now success error retryable r))"
  by (simp add: finish_row_def in_flight_status_def Let_def)

lemma finish_inv:
  assumes "queue_inv q" and "request_of q i = Some r" and "in_flight_status (sr_status r)"
  shows "queue_inv (finish_sync_request now i success error retryable q)"
  using assms finish_row_not_in_flight [of now success error retryable r]
  unfolding finish_sync_request_def by (auto simp: in_flight_status_def intro!: finish.inv_upd)

lemma start_inv:
  assumes "queue_inv q" and "request_of q i = Some r" and "in_flight_status (sr_status r)"
  shows "queue_inv (mark_sync_request_running now i q)"
  using assms unfolding mark_sync_request_running_def
  by (auto simp: in_flight_status_def intro!: start.inv_upd)

lemma recover_requests:
  "requests (fst (recover_stale_sync_requests now a b q)) =
     map (\<lambda>r. if is_stale now a b r then requeue now r else r) (requests q)"
  "next_id (fst (recover_stale_sync_requests now a b q)) = next_id q"
  by (simp_all add: recover_stale_sync_requests_def Let_def)

lemma recover_inv:
  assumes "queue_inv q"
  shows "queue_inv (fst (recover_stale_sync_requests now a b q))"
proof -
  let ?f = "\<lambda>r. if is_stale now a b r then requeue now r else r"
  have ids: "map sr_id (map ?f (requests q)) = map sr_id (requests q)"
    by (simp add: recover.upd_id)
  have "wf_queue (fst (recover_stale_sync_requests now a b q))"
    using assms unfolding queue_inv_def wf_queue_def unique_key_def recover_requests ids
    by (auto simp: recover.upd_id)
  moreover have "count_rows (walking c) (map ?f (requests q)) \<le> count_rows (walking c) (requests q)" for c
    by (rule count_rows_map) (auto simp: walking_def requeue_def in_flight_status_def split: if_splits)
  moreover have "count_rows (active_for c s) (map ?f (requests q))
      \<le> count_rows (active_for c s) (requests q)" for c s
    by (rule count_rows_map) (auto simp: active_for_def requeue_def is_stale_def split: if_splits)
  ultimately show ?thesis
    using assms unfolding queue_inv_def single_flight_def bounded_backlog_def recover_requests
    by (meson order_trans)
qed

lemma claim_each_inv: "queue_inv q \<Longrightarrow> queue_inv (fst (claim_each now is q))"
proof (induction "is" arbitrary: q)
  case Nil
  then show ?case by simp
next
  case (Cons i "is")
  from Cons.IH [OF claim_inv [OF Cons.prems, of now i]] show ?case
    by (simp add: case_prod_unfold Let_def)
qed

lemma dispatch_inv: "queue_inv q \<Longrightarrow> queue_inv (fst (dispatch_pending_sync_requests now q))"
  unfolding dispatch_pending_sync_requests_def Let_def by (intro claim_each_inv recover_inv)

section \<open>Runs\<close>

text \<open>
  The queue as its callers drive it. Enqueueing, dispatching, claiming and recovering can
  happen at any moment. A worker starts a request that is still dispatched to it and
  finishes a request that is in flight; \<open>late_start_breaks_single_flight\<close> below is what
  happens to a worker that starts after its request was recovered.
\<close>

inductive queue_step :: "queue \<Rightarrow> queue \<Rightarrow> bool" where
  enqueue: "queue_step q (fst (enqueue_connector_sync now c s reason who prio q))"
| claim: "queue_step q (fst (claim_sync_request now i q))"
| dispatch: "queue_step q (fst (dispatch_pending_sync_requests now q))"
| start: "request_of q i = Some r \<Longrightarrow> in_flight_status (sr_status r) \<Longrightarrow>
     queue_step q (mark_sync_request_running now i q)"
| finish: "request_of q i = Some r \<Longrightarrow> in_flight_status (sr_status r) \<Longrightarrow>
     queue_step q (finish_sync_request now i success error retryable q)"
| recover: "queue_step q (fst (recover_stale_sync_requests now a b q))"

definition empty_queue :: queue where
  "empty_queue = \<lparr>requests = [], jobs = [], next_id = 0\<rparr>"

inductive queue_reachable :: "queue \<Rightarrow> bool" where
  initial: "queue_reachable empty_queue"
| step: "queue_reachable q \<Longrightarrow> queue_step q q' \<Longrightarrow> queue_reachable q'"

lemma empty_queue_inv: "queue_inv empty_queue"
  by (simp add: queue_inv_def wf_queue_def single_flight_def bounded_backlog_def
      empty_queue_def unique_key_def)

lemma queue_step_inv: "queue_step q q' \<Longrightarrow> queue_inv q \<Longrightarrow> queue_inv q'"
  by (induction rule: queue_step.induct)
     (auto intro: enqueue_inv claim_inv dispatch_inv start_inv finish_inv recover_inv)

lemma queue_reachable_inv: "queue_reachable q \<Longrightarrow> queue_inv q"
  by (induction rule: queue_reachable.induct) (auto intro: empty_queue_inv queue_step_inv)

section \<open>Properties\<close>

text \<open>
  C34: at most one provider walk per connector. In every reachable state of the queue, for
  every connector at most one request is dispatched or running, and for every scope of a
  connector at most two requests are active (one in flight and one waiting).
\<close>

theorem one_walk_per_connector:
  assumes "queue_reachable q"
  shows "count_rows (\<lambda>r. sr_connector r = c \<and> sr_status r \<in> {Dispatched, Running}) (requests q) \<le> 1
    \<and> count_rows (\<lambda>r. sr_connector r = c \<and> sr_scope r = s
         \<and> sr_status r \<in> {Queued, Dispatched, Running}) (requests q) \<le> 2"
proof -
  have "(\<lambda>r. sr_connector r = c \<and> sr_status r \<in> {Dispatched, Running}) = walking c"
    by (auto simp: walking_def in_flight_status_def)
  moreover have "(\<lambda>r. sr_connector r = c \<and> sr_scope r = s
      \<and> sr_status r \<in> {Queued, Dispatched, Running}) = active_for c s"
    by (auto simp: active_for_def)
  ultimately show ?thesis
    using queue_reachable_inv [OF assms]
    by (simp add: queue_inv_def single_flight_def bounded_backlog_def)
qed

text \<open>A run used by the witnesses: two scopes of connector 7 enqueued, the first claimed.\<close>

definition two_scopes :: queue where
  "two_scopes = fst (enqueue_connector_sync 0 7 (Some 2) ''reconcile'' None 40
     (fst (enqueue_connector_sync 0 7 (Some 1) ''reconcile'' None 40 empty_queue)))"

definition first_claimed :: queue where
  "first_claimed = fst (claim_sync_request 0 1 two_scopes)"

lemma two_scopes_reachable: "queue_reachable two_scopes"
  unfolding two_scopes_def by (intro queue_reachable.step [OF _ enqueue] initial)

lemma first_claimed_reachable: "queue_reachable first_claimed"
  unfolding first_claimed_def by (rule queue_reachable.step [OF two_scopes_reachable claim])

lemma two_scopes_requests:
  "map sr_id (requests two_scopes) = [1, 3]" "map sr_status (requests two_scopes) = [Queued, Queued]"
  by (simp_all add: two_scopes_def enqueue_connector_sync_def first_by_priority_def
      coalescible_def empty_queue_def Let_def)

theorem one_walk_per_connector_witness:
  "map sr_status (requests first_claimed) = [Dispatched, Queued]
   \<and> count_rows (\<lambda>r. sr_connector r = 7 \<and> sr_status r \<in> {Dispatched, Running})
       (requests first_claimed) \<le> 1"
  using one_walk_per_connector [OF first_claimed_reachable, of 7 None]
  by (simp add: first_claimed_def claim_sync_request_def claim_row_def in_flight_status_def
      two_scopes_def enqueue_connector_sync_def first_by_priority_def coalescible_def
      empty_queue_def put_request_def Let_def)

text \<open>
  The claim. A request is handed out exactly when it is queued, due, and no other
  request of its connector is in flight; it is then marked dispatched with one more attempt
  and a lock time, and every other request is left alone. Otherwise nothing changes.
\<close>

theorem claim_sync_request_correct:
  assumes "wf_queue q"
  shows "case claim_sync_request now i q of
      (q', Some r') \<Rightarrow> \<exists>r. request_of q i = Some r \<and> sr_status r = Queued
          \<and> sr_available_at r \<le> now
          \<and> (\<forall>x \<in> set (requests q). sr_connector x = sr_connector r \<longrightarrow>
               sr_status x \<notin> {Dispatched, Running})
          \<and> r' = r\<lparr>sr_status := Dispatched, sr_locked_at := Some now, sr_attempts := sr_attempts r + 1\<rparr>
          \<and> request_of q' i = Some r' \<and> (\<forall>j. j \<noteq> i \<longrightarrow> request_of q' j = request_of q j)
    | (q', None) \<Rightarrow> q' = q
          \<and> (\<forall>r. request_of q i = Some r \<longrightarrow> sr_status r = Queued \<longrightarrow> sr_available_at r \<le> now \<longrightarrow>
               (\<exists>x \<in> set (requests q). sr_connector x = sr_connector r \<and> sr_id x \<noteq> i
                  \<and> sr_status x \<in> {Dispatched, Running}))"
proof (cases rule: claim_cases [of now i q])
  case refused
  have "\<exists>x \<in> set (requests q). sr_connector x = sr_connector r \<and> sr_id x \<noteq> i
      \<and> sr_status x \<in> {Dispatched, Running}"
    if "request_of q i = Some r" "sr_status r = Queued" "sr_available_at r \<le> now" for r
    using refused that get_row_SomeD(2) [OF that(1)]
    by (auto simp: claim_sync_request_def list_ex_iff in_flight_status_def split: if_splits)
  with refused show ?thesis by auto
next
  case (claimed r)
  have id: "sr_id r = i" using get_row_SomeD(2) [OF claimed(1)] .
  have "sr_status x \<notin> {Dispatched, Running}"
    if "x \<in> set (requests q)" "sr_connector x = sr_connector r" for x
  proof (cases "sr_id x = i")
    case True
    with same_id_same_row [OF assms claimed(1) that(1)] claimed(2) show ?thesis by simp
  next
    case False
    with claimed(4) [OF that] id show ?thesis by (auto simp: in_flight_status_def)
  qed
  moreover have "request_of (put_request (claim_row now r) q) i = Some (claim_row now r)"
    using claimed(1) id get_put_same [of sr_id "claim_row now r" "requests q"]
    by (simp add: claim.upd_id)
  moreover have "request_of (put_request (claim_row now r) q) j = request_of q j" if "j \<noteq> i" for j
    using that id get_put_other [of j sr_id "claim_row now r" "requests q"]
    by (simp add: claim.upd_id)
  ultimately show ?thesis using claimed by (auto simp: claim_row_def)
qed

theorem claim_sync_request_correct_witness:
  "wf_queue two_scopes \<and> claim_sync_request 5 3 first_claimed = (first_claimed, None)"
proof -
  have wf: "wf_queue first_claimed"
    using queue_reachable_inv [OF first_claimed_reachable] by (simp add: queue_inv_def)
  have "\<exists>x \<in> set (requests first_claimed). sr_connector x = 7 \<and> sr_status x = Dispatched"
    by (simp add: first_claimed_def claim_sync_request_def claim_row_def in_flight_status_def
      two_scopes_def enqueue_connector_sync_def first_by_priority_def coalescible_def
      empty_queue_def put_request_def Let_def)
  moreover have "\<exists>r. request_of first_claimed 3 = Some r \<and> sr_connector r = 7"
    by (simp add: first_claimed_def claim_sync_request_def claim_row_def in_flight_status_def
      two_scopes_def enqueue_connector_sync_def first_by_priority_def coalescible_def
      empty_queue_def put_request_def Let_def)
  moreover obtain q' c where c: "claim_sync_request 5 3 first_claimed = (q', c)"
    by fastforce
  ultimately have "q' = first_claimed \<and> c = None"
    using claim_sync_request_correct [OF wf, where now = 5 and i = 3, unfolded c]
    by (cases c) auto
  with c have "claim_sync_request 5 3 first_claimed = (first_claimed, None)" by simp
  then show ?thesis
    using queue_reachable_inv [OF two_scopes_reachable] by (simp add: queue_inv_def)
qed

text \<open>
  Retries are bounded and quick. A failed request goes back to the queue only while it
  has used fewer than eight attempts and the failure is retryable, and then becomes due
  again within 128 seconds: the 1800-second cap of the backoff is never reached.
\<close>

theorem finish_backoff_bound:
  assumes "request_of q i = Some r"
    and "request_of (finish_sync_request now i False error retryable q) i = Some r'"
  shows "if retryable \<and> sr_attempts r < 8
    then sr_status r' = Queued \<and> now < sr_available_at r' \<and> sr_available_at r' \<le> now + seconds 128
    else sr_status r' = Failed"
proof -
  have id: "sr_id r = i" using get_row_SomeD(2) [OF assms(1)] .
  have r': "r' = finish_row now False error retryable r"
    using assms id get_put_same [of sr_id "finish_row now False error retryable r" "requests q"]
    by (simp add: finish_sync_request_def finish.upd_id)
  have "1 \<le> backoff_seconds n \<and> backoff_seconds n \<le> 128" if "n < 8" for n
  proof -
    have "(2::int) ^ n \<le> 2 ^ 7" using that by (intro power_increasing) auto
    then show ?thesis using that by (simp add: backoff_seconds_def min_def)
  qed
  from this [of "sr_attempts r"] show ?thesis
    using r' by (auto simp: finish_row_def Let_def seconds_def)
qed

theorem finish_backoff_bound_witness:
  "\<exists>r'. request_of (finish_sync_request 0 1 False None True first_claimed) 1 = Some r'
     \<and> sr_status r' = Queued \<and> sr_available_at r' \<le> seconds 128"
proof -
  have "\<exists>r. request_of first_claimed 1 = Some r \<and> sr_attempts r = 1"
    by (simp add: first_claimed_def claim_sync_request_def claim_row_def in_flight_status_def
      two_scopes_def enqueue_connector_sync_def first_by_priority_def coalescible_def
      empty_queue_def put_request_def Let_def)
  then obtain r where r: "request_of first_claimed 1 = Some r" "sr_attempts r = 1" by blast
  have id: "sr_id r = 1" using get_row_SomeD(2) [OF r(1)] .
  have r': "request_of (finish_sync_request 0 1 False None True first_claimed) 1 =
      Some (finish_row 0 False None True r)"
    using r id get_put_same [of sr_id "finish_row 0 False None True r" "requests first_claimed"]
    by (simp add: finish_sync_request_def finish.upd_id)
  from finish_backoff_bound [OF r(1) r'] r(2) r' show ?thesis by auto
qed

text \<open>
  The stale window of a running request is measured from its first start. A request that
  is started again after a retry keeps its old start time, so when that lies further back
  than the running window the very next recovery puts the fresh walk back in the queue.
\<close>

theorem restarted_request_is_stale_at_once:
  assumes "request_of q i = Some r" and "sr_started_at r = Some t0"
    and "t0 < now - minutes 180"
  shows "\<exists>r'. request_of (fst (recover_stale_sync_requests now 15 180
           (mark_sync_request_running now i q))) i = Some r' \<and> sr_status r' = Queued"
proof -
  let ?q = "mark_sync_request_running now i q"
  have id: "sr_id r = i" using get_row_SomeD(2) [OF assms(1)] .
  have "request_of ?q i = Some (start_row now r)"
    using assms(1) id get_put_same [of sr_id "start_row now r" "requests q"]
    by (simp add: mark_sync_request_running_def start.upd_id)
  moreover have "request_of (fst (recover_stale_sync_requests now 15 180 ?q)) i =
      map_option (\<lambda>r. if is_stale now 15 180 r then requeue now r else r) (request_of ?q i)"
    unfolding recover_requests by (rule get_row_map) (simp add: recover.upd_id)
  moreover have "is_stale now 15 180 (start_row now r)"
    using assms(2,3) by (simp add: is_stale_def start_row_def)
  ultimately show ?thesis by (simp add: requeue_def)
qed

theorem restarted_request_is_stale_at_once_witness:
  "\<exists>q q' now. queue_reachable q \<and> queue_step q q'
     \<and> map sr_status (requests q') = [Running, Queued]
     \<and> (\<exists>r'. request_of (fst (recover_stale_sync_requests now 15 180 q')) 1 = Some r'
          \<and> sr_status r' = Queued)"
proof -
  let ?t = "minutes 181"
  let ?q1 = "mark_sync_request_running 0 1 first_claimed"
  let ?q2 = "finish_sync_request 1 1 False None True ?q1"
  let ?q3 = "fst (claim_sync_request ?t 1 ?q2)"
  note defs = first_claimed_def claim_sync_request_def claim_row_def in_flight_status_def
    two_scopes_def enqueue_connector_sync_def first_by_priority_def coalescible_def
    empty_queue_def put_request_def mark_sync_request_running_def start_row_def
    finish_sync_request_def finish_row_def backoff_seconds_def minutes_def seconds_def Let_def
  have s1: "queue_step first_claimed ?q1"
    by (rule start) (simp add: defs)+
  have s2: "queue_step ?q1 ?q2"
    by (rule finish) (simp add: defs)+
  have reach: "queue_reachable ?q3"
    by (intro queue_reachable.step [OF _ claim] queue_reachable.step [OF _ s2]
        queue_reachable.step [OF _ s1] first_claimed_reachable)
  have "\<exists>r. request_of ?q3 1 = Some r \<and> sr_started_at r = Some 0 \<and> sr_status r = Dispatched"
    by (simp add: defs)
  then obtain r where r: "request_of ?q3 1 = Some r" "sr_started_at r = Some 0"
    "sr_status r = Dispatched" by blast
  have s4: "queue_step ?q3 (mark_sync_request_running ?t 1 ?q3)"
    using r(1) by (rule start) (simp add: in_flight_status_def r(3))
  have st: "map sr_status (requests (mark_sync_request_running ?t 1 ?q3)) = [Running, Queued]"
    by (simp add: defs)
  have "\<exists>r'. request_of (fst (recover_stale_sync_requests ?t 15 180
      (mark_sync_request_running ?t 1 ?q3))) 1 = Some r' \<and> sr_status r' = Queued"
    using r(1,2) by (rule restarted_request_is_stale_at_once) (simp add: minutes_def seconds_def)
  with reach s4 st show ?thesis
    by (intro exI [of _ ?q3] exI [of _ "mark_sync_request_running ?t 1 ?q3"] exI [of _ ?t] conjI)
qed

text \<open>
  Starting is not guarded. \<open>mark_sync_request_running\<close> does not look at the status of the
  request, so a worker that starts after its request was recovered as stale, and another
  request of the connector was claimed, makes two walks of one connector run at once.
\<close>

theorem late_start_breaks_single_flight:
  "\<exists>q. queue_reachable q \<and>
     count_rows (\<lambda>r. sr_connector r = 7 \<and> sr_status r \<in> {Dispatched, Running})
       (requests (mark_sync_request_running (minutes 17) 1 q)) = 2"
proof (intro exI conjI)
  let ?q1 = "fst (recover_stale_sync_requests (minutes 16) 15 180 first_claimed)"
  let ?q2 = "fst (claim_sync_request (minutes 16) 3 ?q1)"
  show "queue_reachable ?q2"
    by (intro queue_reachable.step [OF _ claim] queue_reachable.step [OF _ recover]
        first_claimed_reachable)
  show "count_rows (\<lambda>r. sr_connector r = 7 \<and> sr_status r \<in> {Dispatched, Running})
      (requests (mark_sync_request_running (minutes 17) 1 ?q2)) = 2"
    by (simp add: first_claimed_def claim_sync_request_def claim_row_def in_flight_status_def
      two_scopes_def enqueue_connector_sync_def first_by_priority_def coalescible_def
      empty_queue_def put_request_def mark_sync_request_running_def start_row_def
      recover_stale_sync_requests_def is_stale_def requeue_def minutes_def seconds_def Let_def)
qed

section \<open>Progress\<close>

definition busy :: "queue \<Rightarrow> uuid \<Rightarrow> bool" where
  "busy q c = list_ex (walking c) (requests q)"

lemma claim_keeps_other: "j \<noteq> i \<Longrightarrow> request_of (fst (claim_sync_request now i q)) j = request_of q j"
proof -
  assume "j \<noteq> i"
  moreover have "request_of q i = Some r \<Longrightarrow> sr_id (claim_row now r) = i" for r
    by (auto simp: claim_row_def dest: get_row_SomeD)
  ultimately show ?thesis
    by (auto simp: claim_sync_request_def get_put_other split: option.splits)
qed

lemma claim_keeps_busy:
  assumes "wf_queue q" "busy q c"
  shows "busy (fst (claim_sync_request now i q)) c"
proof (cases "request_of q i")
  case (Some r)
  obtain w where w: "w \<in> set (requests q)" "walking c w"
    using assms(2) by (auto simp: busy_def list_ex_iff)
  have "w \<in> set (requests (put_request (claim_row now r) q))" if "sr_status r = Queued"
  proof -
    have "sr_id w \<noteq> sr_id (claim_row now r)"
      using w that same_id_same_row [OF assms(1) Some w(1)] get_row_SomeD(2) [OF Some]
      by (auto simp: claim_row_def walking_def in_flight_status_def)
    then show ?thesis using w(1) by (force simp: put_row_def)
  qed
  with w assms(2) Some show ?thesis
    by (auto simp: claim_sync_request_def busy_def list_ex_iff)
qed (use assms in \<open>simp add: claim_sync_request_def\<close>)

lemma claim_makes_busy:
  assumes "request_of q i = Some r" "sr_status r = Queued" "sr_available_at r \<le> now"
  shows "busy (fst (claim_sync_request now i q)) (sr_connector r)"
proof (cases "list_ex (\<lambda>o'. sr_connector o' = sr_connector r \<and> sr_id o' \<noteq> sr_id r
    \<and> in_flight_status (sr_status o')) (requests q)")
  case True
  then show ?thesis
    using assms by (auto simp: claim_sync_request_def busy_def walking_def list_ex_iff)
next
  case False
  have "claim_row now r \<in> set (put_row sr_id (claim_row now r) (requests q))"
    using get_row_SomeD [OF assms(1)]
    by (auto simp: put_row_def claim.upd_id intro!: image_eqI [of _ _ r])
  moreover have "walking (sr_connector r) (claim_row now r)"
    by (simp add: walking_def claim.upd_connector) (simp add: claim_row_def in_flight_status_def)
  ultimately have "\<exists>w \<in> set (requests (put_request (claim_row now r) q)). walking (sr_connector r) w"
    by auto
  moreover have "fst (claim_sync_request now i q) = put_request (claim_row now r) q"
    using False assms by (simp add: claim_sync_request_def)
  ultimately show ?thesis by (simp add: busy_def list_ex_iff)
qed

lemma claim_wf: "wf_queue q \<Longrightarrow> wf_queue (fst (claim_sync_request now i q))"
  by (auto simp: claim_sync_request_def claim.wf_upd split: option.splits)

lemma claim_each_fst: "fst (claim_each now (i # is) q) = fst (claim_each now is (fst (claim_sync_request now i q)))"
  by (simp add: case_prod_beta Let_def)

lemma claim_each_busy:
  "wf_queue q \<Longrightarrow> busy q c \<Longrightarrow> busy (fst (claim_each now is q)) c"
proof (induction "is" arbitrary: q)
  case (Cons i "is")
  then show ?case unfolding claim_each_fst by (intro Cons.IH claim_wf claim_keeps_busy)
qed simp

lemma claim_each_progress:
  assumes "wf_queue q" "i \<in> set is" "request_of q i = Some r" "sr_status r = Queued"
    "sr_available_at r \<le> now"
  shows "busy (fst (claim_each now is q)) (sr_connector r)"
  using assms
proof (induction "is" arbitrary: q)
  case (Cons j js)
  show ?case
  proof (cases "j = i")
    case True
    show ?thesis unfolding claim_each_fst True
      by (rule claim_each_busy [OF claim_wf [OF Cons.prems(1)]])
         (rule claim_makes_busy [OF Cons.prems(3-5)])
  next
    case False
    then show ?thesis unfolding claim_each_fst
      using Cons.prems claim_keeps_other [of i j now q] by (intro Cons.IH claim_wf) auto
  qed
qed simp

text \<open>
  C35: the dispatcher makes progress. Once stale requests are recovered, every request among the
  25 most urgent due ones gets a walk of its connector: after the dispatch its connector has a
  request in flight, the request itself or one that was there before. So while something is
  due, a dispatch never leaves every connector of the batch idle.
\<close>

theorem dispatch_progress:
  assumes "queue_reachable q" and "i \<in> set (due_request_ids now (fst (recover_stale_sync_requests now 15 180 q)))"
  shows "\<exists>r. request_of (fst (recover_stale_sync_requests now 15 180 q)) i = Some r \<and> sr_status r = Queued
    \<and> busy (fst (dispatch_pending_sync_requests now q)) (sr_connector r)"
proof -
  let ?q = "fst (recover_stale_sync_requests now 15 180 q)"
  have wf: "wf_queue ?q"
    using recover_inv [OF queue_reachable_inv [OF assms(1)]] by (simp add: queue_inv_def)
  obtain r where r: "r \<in> set (requests ?q)" "sr_id r = i" "sr_status r = Queued" "sr_available_at r \<le> now"
    using assms(2) unfolding due_request_ids_def by (auto dest!: in_set_takeD)
  have "request_of ?q i = Some r"
    using unique_key_get_row [of sr_id "requests ?q" r] wf r by (simp add: wf_queue_def)
  with claim_each_progress [OF wf assms(2) this r(3,4)] r(3) show ?thesis
    by (auto simp: dispatch_pending_sync_requests_def Let_def)
qed

theorem dispatch_progress_witness:
  "queue_reachable two_scopes \<and> due_request_ids 5 (fst (recover_stale_sync_requests 5 15 180 two_scopes)) = [1, 3]
   \<and> busy (fst (dispatch_pending_sync_requests 5 two_scopes)) 7"
proof -
  have due: "due_request_ids 5 (fst (recover_stale_sync_requests 5 15 180 two_scopes)) = [1, 3]"
    and conn: "request_of (fst (recover_stale_sync_requests 5 15 180 two_scopes)) 1 = Some r \<Longrightarrow> sr_connector r = 7" for r
    by (auto simp: due_request_ids_def recover_stale_sync_requests_def is_stale_def
        two_scopes_def enqueue_connector_sync_def first_by_priority_def coalescible_def
        empty_queue_def Let_def)
  have "1 \<in> set (due_request_ids 5 (fst (recover_stale_sync_requests 5 15 180 two_scopes)))"
    by (simp add: due)
  from dispatch_progress [OF two_scopes_reachable this] obtain r where
    r: "request_of (fst (recover_stale_sync_requests 5 15 180 two_scopes)) 1 = Some r"
    and walk: "busy (fst (dispatch_pending_sync_requests 5 two_scopes)) (sr_connector r)"
    by (elim exE conjE)
  from walk have "busy (fst (dispatch_pending_sync_requests 5 two_scopes)) 7"
    unfolding conn [OF r] .
  with due two_scopes_reachable show ?thesis by (intro conjI)
qed

end
