(* ===== verification/Notifications.thy ===== *)
theory Notifications
  imports Webhooks SyncQueue
begin

text \<open>
  The webhook inbox: \<open>_enqueue_webhook\<close> of \<open>api/routers/connectors.py\<close>, which authenticates what a
  provider sends, files it in \<open>connector_notifications\<close> and wakes the synchronisation queue, with
  the retention of \<open>workers/tasks.py\<close> on that table. Sessions run without autoflush, so a row added
  and not yet flushed is not seen by a query. Printing JSON is an argument.
\<close>

section \<open>Rows and requests\<close>

datatype inbox_status = Received | Processed | Queued_for_sync

record inbox_row =
  in_connector :: uuid
  in_scope :: "uuid option"
  in_provider :: string
  in_subscription :: string
  in_hash :: string
  in_resource :: "string option"
  in_change :: "string option"
  in_lifecycle :: "string option"
  in_status :: inbox_status
  in_received_at :: instant
  in_processed_at :: "instant option"

text \<open>The members of a notification the code reads, and the text of the rest of it.\<close>

record item =
  it_subscription :: "string option"
  it_client_state :: "string option"
  it_lifecycle :: "string option"
  it_change :: "string option"
  it_resource :: "string option"
  it_rest :: string

definition empty_item :: item where
  "empty_item =
     \<lparr>it_subscription = None, it_client_state = None, it_lifecycle = None, it_change = None,
      it_resource = None, it_rest = []\<rparr>"

text \<open>
  A request: its headers, and its body as \<open>json.loads\<close> reads it. \<open>rq_body\<close> is \<open>None\<close> when the body
  does not parse; otherwise its own members, if it is a non-empty object, and its list \<open>value\<close>, where
  an element that is no object is \<open>None\<close>.
\<close>

record webhook_request =
  rq_channel :: "string option"
  rq_channel_token :: "string option"
  rq_resource_state :: "string option"
  rq_content_length :: "string option"
  rq_body :: "(item option \<times> item option list) option"

record intake =
  in_subs :: "subscription list"
  in_rows :: "inbox_row list"
  in_pending :: "inbox_row list"
  in_queue :: queue
  in_claimable :: "uuid list"

definition MAX_WEBHOOK_BYTES :: nat where
  "MAX_WEBHOOK_BYTES = 1048576"

text \<open>\<open>a or b or ""\<close> on optional texts.\<close>

fun first_text :: "string option list \<Rightarrow> string" where
  "first_text [] = []"
| "first_text (t # ts) = (if truthy t then or_else t [] else first_text ts)"

section \<open>One notification\<close>

definition row_key :: "inbox_row \<Rightarrow> string \<times> string \<times> string" where
  "row_key r = (in_provider r, in_subscription r, in_hash r)"

definition flush :: "intake \<Rightarrow> failure + intake" where
  "flush t =
     (let rows = in_rows t @ in_pending t
      in if distinct (map row_key rows) then Inr (t\<lparr>in_rows := rows, in_pending := []\<rparr>)
         else Inl (Other_error ''IntegrityError''))"

definition put_subscription :: "subscription \<Rightarrow> subscription list \<Rightarrow> subscription list" where
  "put_subscription s rows = map (\<lambda>r. if ws_provider_id r = ws_provider_id s then s else r) rows"

definition item_subscription :: "item option \<Rightarrow> webhook_request \<Rightarrow> string \<Rightarrow> item \<Rightarrow> string" where
  "item_subscription own rq provider x =
     first_text [it_subscription x, Option.bind own it_subscription,
                 if provider = ''google_drive'' then rq_channel rq else None]"

definition item_client_state :: "item option \<Rightarrow> webhook_request \<Rightarrow> string \<Rightarrow> item \<Rightarrow> string" where
  "item_client_state own rq provider x =
     first_text [it_client_state x, Option.bind own it_client_state,
                 if provider = ''google_drive'' then rq_channel_token rq else None]"

text \<open>An active subscription whose stored hash is the hash of the secret that came with the item.\<close>

definition authentic :: "(string \<Rightarrow> string) \<Rightarrow> string \<Rightarrow> subscription \<Rightarrow> bool" where
  "authentic sha client_state s =
     (ws_active s \<and> truthy (ws_token_hash s) \<and> client_state \<noteq> []
      \<and> ws_token_hash s = Some (sha client_state))"

definition lifecycle_of :: "item option \<Rightarrow> bool \<Rightarrow> item \<Rightarrow> string option" where
  "lifecycle_of own lifecycle_only x =
     (let e = first_text [it_lifecycle x, Option.bind own it_lifecycle]
      in if e \<noteq> [] then Some e else if lifecycle_only then Some ''unknown'' else None)"

definition change_of :: "item option \<Rightarrow> item \<Rightarrow> string option" where
  "change_of own x =
     (let c = first_text [it_change x, Option.bind own it_change] in if c = [] then None else Some c)"

definition note_lifecycle :: "instant \<Rightarrow> string \<Rightarrow> subscription \<Rightarrow> subscription" where
  "note_lifecycle now event s =
     (let s1 = s\<lparr>ws_lifecycle_at := Some now\<rparr>
      in if event = ''reauthorizationRequired''
         then s1\<lparr>ws_reauthorization := True,
                 ws_last_error := Some ''Microsoft Graph requires connector reauthorization''\<rparr>
         else s1)"

text \<open>A change: the inbox is flushed and the connector's queue is woken.\<close>

definition wake_sync :: "instant \<Rightarrow> subscription \<Rightarrow> inbox_row \<Rightarrow> intake \<Rightarrow> failure + intake" where
  "wake_sync now s row t =
     (case flush (t\<lparr>in_pending := in_pending t @ [row\<lparr>in_status := Queued_for_sync\<rparr>],
                    in_subs := put_subscription (s\<lparr>ws_notified_at := Some now\<rparr>) (in_subs t)\<rparr>) of
        Inl e \<Rightarrow> Inl e
      | Inr t1 \<Rightarrow>
          (case enqueue_connector_sync now (ws_connector s) (ws_scope s) ''webhook'' None 10
                  (in_queue t1) of
             (q, r) \<Rightarrow>
               Inr (t1\<lparr>in_queue := q,
                       in_claimable := (if sr_job r \<noteq> None \<and> sr_status r = Queued
                         then in_claimable t1 @ [sr_id r] else in_claimable t1)\<rparr>)))"

definition take_item ::
  "(string \<Rightarrow> string) \<Rightarrow> (string \<Rightarrow> string \<Rightarrow> item \<Rightarrow> string) \<Rightarrow> instant \<Rightarrow> string \<Rightarrow> bool
     \<Rightarrow> webhook_request \<Rightarrow> item option \<Rightarrow> item \<Rightarrow> intake \<Rightarrow> failure + intake" where
  "take_item sha dumps now provider lifecycle_only rq own x t =
     (let i = item_subscription own rq provider x
      in if i = [] then Inr t
         else
           (case find (\<lambda>s. ws_provider_id s = i) (in_subs t) of
              None \<Rightarrow> Inr t
            | Some s \<Rightarrow>
                if \<not> authentic sha (item_client_state own rq provider x) s then Inr t
                else
                  let hash = sha (dumps provider i x);
                      event = lifecycle_of own lifecycle_only x;
                      row = \<lparr>in_connector = ws_connector s, in_scope = ws_scope s, in_provider = provider,
                             in_subscription = i, in_hash = hash, in_resource = it_resource x,
                             in_change = change_of own x, in_lifecycle = event, in_status = Received,
                             in_received_at = now, in_processed_at = None\<rparr>
                  in if list_ex (\<lambda>r. row_key r = (provider, i, hash)) (in_rows t) then Inr t
                     else
                       (case event of
                          Some e \<Rightarrow>
                            Inr (t\<lparr>in_pending := in_pending t
                                     @ [row\<lparr>in_status := Processed, in_processed_at := Some now\<rparr>],
                                   in_subs := put_subscription (note_lifecycle now e s) (in_subs t)\<rparr>)
                        | None \<Rightarrow> wake_sync now s row t)))"

fun take_items ::
  "(string \<Rightarrow> string) \<Rightarrow> (string \<Rightarrow> string \<Rightarrow> item \<Rightarrow> string) \<Rightarrow> instant \<Rightarrow> string \<Rightarrow> bool
     \<Rightarrow> webhook_request \<Rightarrow> item option \<Rightarrow> item list \<Rightarrow> intake \<Rightarrow> failure + intake" where
  "take_items sha dumps now provider lifecycle_only rq own [] t = Inr t"
| "take_items sha dumps now provider lifecycle_only rq own (x # xs) t =
     (case take_item sha dumps now provider lifecycle_only rq own x t of
        Inl e \<Rightarrow> Inl e
      | Inr t1 \<Rightarrow> take_items sha dumps now provider lifecycle_only rq own xs t1)"

section \<open>One delivery\<close>

text \<open>The database the inbox works on.\<close>

record inbox =
  subs :: "subscription list"
  rows :: "inbox_row list"
  queue_of :: queue

definition header_item :: "webhook_request \<Rightarrow> string \<Rightarrow> item" where
  "header_item rq provider =
     empty_item\<lparr>it_subscription := (if provider = ''google_drive'' then rq_channel rq else None),
                it_client_state := (if provider = ''google_drive'' then rq_channel_token rq else None),
                it_change := rq_resource_state rq\<rparr>"

definition items_of :: "webhook_request \<Rightarrow> string \<Rightarrow> item option \<times> item option list \<Rightarrow> item list" where
  "items_of rq provider b =
     (case b of (own, listed) \<Rightarrow>
        if listed \<noteq> [] then map (\<lambda>x. case x of None \<Rightarrow> empty_item | Some i \<Rightarrow> i) listed
        else (case own of Some i \<Rightarrow> [i] | None \<Rightarrow> [header_item rq provider]))"

definition commit_intake :: "intake \<Rightarrow> failure + inbox \<times> uuid list" where
  "commit_intake t =
     (case flush t of
        Inl e \<Rightarrow> Inl e
      | Inr t1 \<Rightarrow> Inr (\<lparr>subs = in_subs t1, rows = in_rows t1, queue_of = in_queue t1\<rparr>,
                      fromkeys (in_claimable t1)))"

text \<open>\<open>int\<close> raises on a digit that is no decimal digit.\<close>

definition oversized :: "webhook_request \<Rightarrow> failure + bool" where
  "oversized rq =
     (if truthy (rq_content_length rq) \<and> isdigit (or_else (rq_content_length rq) []) then
        (case int_of_text (or_else (rq_content_length rq) []) of
           None \<Rightarrow> Inl (Other_error ''ValueError'') | Some k \<Rightarrow> Inr (k > MAX_WEBHOOK_BYTES))
      else Inr False)"

text \<open>Every request woken is claimed in a transaction of its own; a claim is handed to a worker.\<close>

definition enqueue_webhook ::
  "(string \<Rightarrow> string) \<Rightarrow> (string \<Rightarrow> string \<Rightarrow> item \<Rightarrow> string) \<Rightarrow> instant \<Rightarrow> string \<Rightarrow> bool
     \<Rightarrow> webhook_request \<Rightarrow> inbox \<Rightarrow> (failure + uuid list) \<times> inbox" where
  "enqueue_webhook sha dumps now provider lifecycle_only rq d =
     (case oversized rq of
        Inl e \<Rightarrow> (Inl e, d)
      | Inr True \<Rightarrow> (Inr [], d)
      | Inr False \<Rightarrow>
        (case rq_body rq of
           None \<Rightarrow> (Inr [], d)
         | Some b \<Rightarrow>
             (case (case take_items sha dumps now provider lifecycle_only rq (fst b)
                           (items_of rq provider b)
                           \<lparr>in_subs = subs d, in_rows = rows d, in_pending = [],
                            in_queue = queue_of d, in_claimable = []\<rparr> of
                      Inl e \<Rightarrow> Inl e | Inr t \<Rightarrow> commit_intake t) of
                Inl e \<Rightarrow> (Inl e, d)
              | Inr (d1, woken) \<Rightarrow>
                  (case claim_each now woken (queue_of d1) of
                     (q, handed) \<Rightarrow> (Inr handed, d1\<lparr>queue_of := q\<rparr>)))))"

section \<open>Retention\<close>

definition prunable :: "instant \<Rightarrow> inbox_row \<Rightarrow> bool" where
  "prunable cutoff r =
     (in_status r = Processed
      \<and> (case in_processed_at r of Some t \<Rightarrow> t | None \<Rightarrow> in_received_at r) < cutoff)"

text \<open>One batched pass deletes some of the rows that may go.\<close>

definition prune_inbox :: "instant \<Rightarrow> (inbox_row \<Rightarrow> bool) \<Rightarrow> inbox \<Rightarrow> inbox" where
  "prune_inbox cutoff victim d =
     d\<lparr>rows := filter (\<lambda>r. \<not> (prunable cutoff r \<and> victim r)) (rows d)\<rparr>"

section \<open>Only the provider wakes the queue\<close>

text \<open>The subscription an item authenticates against, if it does.\<close>

definition vouched ::
  "(string \<Rightarrow> string) \<Rightarrow> string \<Rightarrow> webhook_request \<Rightarrow> item option \<Rightarrow> subscription list \<Rightarrow> item \<Rightarrow> bool" where
  "vouched sha provider rq own ss x =
     (item_subscription own rq provider x \<noteq> []
      \<and> (case find (\<lambda>s. ws_provider_id s = item_subscription own rq provider x) ss of
           None \<Rightarrow> False | Some s \<Rightarrow> authentic sha (item_client_state own rq provider x) s))"

lemma take_item_refused:
  "\<not> vouched sha provider rq own (in_subs t) x \<Longrightarrow>
     take_item sha dumps now provider lifecycle_only rq own x t = Inr t"
  by (auto simp: take_item_def vouched_def Let_def split: option.splits)

lemma take_items_refused:
  "list_all (\<lambda>x. \<not> vouched sha provider rq own (in_subs t) x) xs \<Longrightarrow>
     take_items sha dumps now provider lifecycle_only rq own xs t = Inr t"
  by (induction xs) (simp_all add: take_item_refused)

abbreviation opened :: "inbox \<Rightarrow> intake" where
  "opened d \<equiv> \<lparr>in_subs = subs d, in_rows = rows d, in_pending = [], in_queue = queue_of d,
                 in_claimable = []\<rparr>"

lemma commit_opened:
  "commit_intake (opened d) =
     (if distinct (map row_key (rows d)) then Inr (d, []) else Inl (Other_error ''IntegrityError''))"
  by (simp add: commit_intake_def flush_def Let_def)

lemma refused_delivery:
  assumes "\<And>b. rq_body rq = Some b \<Longrightarrow>
      take_items sha dumps now provider lifecycle_only rq (fst b) (items_of rq provider b) (opened d)
        = Inr (opened d)"
  shows "snd (enqueue_webhook sha dumps now provider lifecycle_only rq d) = d
    \<and> (fst (enqueue_webhook sha dumps now provider lifecycle_only rq d) = Inr []
        \<or> (\<exists>m. fst (enqueue_webhook sha dumps now provider lifecycle_only rq d) = Inl (Other_error m)))"
  using assms
  by (cases "distinct (map row_key (rows d))")
    (auto simp: enqueue_webhook_def commit_opened oversized_def split: option.splits bool.splits)

text \<open>
  C12: only the provider of a subscription wakes the synchronisation of its connector. If a delivery
  changes the inbox, a subscription or the queue, or hands work to a worker, then one of its items
  names an active subscription and carries the secret whose hash that subscription stores; a
  subscription without a stored hash is never believed.
\<close>

theorem only_the_provider_wakes:
  assumes "enqueue_webhook sha dumps now provider lifecycle_only rq d = (r, d')"
    and "d' \<noteq> d \<or> r = Inr (i # is)"
  shows "\<exists>b x s. rq_body rq = Some b \<and> x \<in> set (items_of rq provider b)
    \<and> s \<in> set (subs d) \<and> ws_provider_id s = item_subscription (fst b) rq provider x
    \<and> ws_active s \<and> item_client_state (fst b) rq provider x \<noteq> []
    \<and> ws_token_hash s = Some (sha (item_client_state (fst b) rq provider x))"
proof (rule ccontr)
  assume none: "\<not> ?thesis"
  have "take_items sha dumps now provider lifecycle_only rq (fst b) (items_of rq provider b) (opened d)
      = Inr (opened d)" if b: "rq_body rq = Some b" for b
  proof (rule take_items_refused)
    show "list_all (\<lambda>x. \<not> vouched sha provider rq (fst b) (in_subs (opened d)) x) (items_of rq provider b)"
      using none b by (auto simp: list_all_iff vouched_def authentic_def find_Some_iff split: option.splits)
  qed
  from refused_delivery [of rq sha dumps now provider lifecycle_only d, OF this] assms show False
    by auto
qed

section \<open>What a delivery keeps\<close>

lemma flush_rows:
  "flush t = Inr t1 \<Longrightarrow> in_rows t1 = in_rows t @ in_pending t \<and> in_pending t1 = []
     \<and> in_subs t1 = in_subs t \<and> in_queue t1 = in_queue t \<and> in_claimable t1 = in_claimable t
     \<and> distinct (map row_key (in_rows t1))"
  by (auto simp: flush_def Let_def split: if_splits)

text \<open>A stamp changes no field the liveness of a subscription depends on.\<close>

definition stamped :: "subscription list \<Rightarrow> subscription list \<Rightarrow> bool" where
  "stamped ss ss' =
     list_all2 (\<lambda>s s'. ws_connector s' = ws_connector s \<and> ws_scope s' = ws_scope s
       \<and> ws_provider_id s' = ws_provider_id s \<and> ws_active s' = ws_active s) ss ss'"

lemma stamped_refl: "stamped ss ss"
  by (simp add: stamped_def list_all2_refl)

lemma stamped_trans: "stamped a b \<Longrightarrow> stamped b c \<Longrightarrow> stamped a c"
  unfolding stamped_def by (erule (1) list_all2_trans [rotated]) simp

lemma stamped_put:
  assumes "distinct (map ws_provider_id ss)" and "s \<in> set ss"
    and "ws_connector s' = ws_connector s" "ws_scope s' = ws_scope s"
    and "ws_provider_id s' = ws_provider_id s" "ws_active s' = ws_active s"
  shows "stamped ss (put_subscription s' ss)"
proof -
  have "r = s" if "r \<in> set ss" "ws_provider_id r = ws_provider_id s" for r
    using assms(1,2) that by (metis distinct_map inj_onD)
  then show ?thesis
    unfolding stamped_def put_subscription_def list_all2_map2
    by (intro list.rel_refl_strong) (auto simp: assms(3-6))
qed

lemma stamped_ids: "stamped ss ss' \<Longrightarrow> map ws_provider_id ss' = map ws_provider_id ss"
  unfolding stamped_def by (induction rule: list_all2_induct) simp_all

lemma stamped_live: "stamped ss ss' \<Longrightarrow> count_rows (live_for i j) ss' = count_rows (live_for i j) ss"
  unfolding stamped_def by (induction rule: list_all2_induct) (simp_all add: live_for_def)

text \<open>What taking an item establishes from one state of the intake to the next.\<close>

definition advances_to :: "intake \<Rightarrow> intake \<Rightarrow> bool" where
  "advances_to t t' \<longleftrightarrow>
     (distinct (map ws_provider_id (in_subs t)) \<longrightarrow> stamped (in_subs t) (in_subs t'))
     \<and> set (in_rows t) \<subseteq> set (in_rows t')
     \<and> (queue_inv (in_queue t) \<longrightarrow> queue_inv (in_queue t'))"

lemma intake_refl: "advances_to t t"
  by (simp add: advances_to_def stamped_refl)

lemma intake_trans: "advances_to t t1 \<Longrightarrow> advances_to t1 t2 \<Longrightarrow> advances_to t t2"
  by (auto simp: advances_to_def stamped_ids intro: stamped_trans)

lemma note_lifecycle_fields [simp]:
  "ws_connector (note_lifecycle now e s) = ws_connector s" "ws_scope (note_lifecycle now e s) = ws_scope s"
  "ws_provider_id (note_lifecycle now e s) = ws_provider_id s"
  "ws_active (note_lifecycle now e s) = ws_active s"
  by (simp_all add: note_lifecycle_def Let_def)

lemma wake_sync_advances:
  assumes "wake_sync now s row t = Inr t'"
    and "distinct (map ws_provider_id (in_subs t)) \<Longrightarrow> stamped (in_subs t) (put_subscription (s\<lparr>ws_notified_at := Some now\<rparr>) (in_subs t))"
  shows "advances_to t t'"
proof -
  let ?t0 = "t\<lparr>in_pending := in_pending t @ [row\<lparr>in_status := Queued_for_sync\<rparr>],
               in_subs := put_subscription (s\<lparr>ws_notified_at := Some now\<rparr>) (in_subs t)\<rparr>"
  from assms(1) obtain t1 where t1: "flush ?t0 = Inr t1"
    by (auto simp: wake_sync_def split: sum.splits)
  with assms(1) have t': "in_subs t' = in_subs t1" "in_rows t' = in_rows t1"
    "in_queue t' = fst (enqueue_connector_sync now (ws_connector s) (ws_scope s) ''webhook'' None 10 (in_queue t1))"
    by (auto simp: wake_sync_def split: prod.splits)
  from flush_rows [OF t1] t' assms(2) show ?thesis by (auto simp: advances_to_def enqueue_inv)
qed

lemma take_item_advances:
  assumes "take_item sha dumps now provider lifecycle_only rq own x t = Inr t'"
  shows "advances_to t t'"
proof (cases "vouched sha provider rq own (in_subs t) x")
  case False
  with assms take_item_refused show ?thesis by (metis intake_refl sum.inject(2))
next
  case True
  then obtain s where s: "find (\<lambda>s. ws_provider_id s = item_subscription own rq provider x) (in_subs t) = Some s"
    and a: "authentic sha (item_client_state own rq provider x) s"
    and i: "item_subscription own rq provider x \<noteq> []"
    by (auto simp: vouched_def split: option.splits)
  from s have "s \<in> set (in_subs t)" by (auto simp: find_Some_iff)
  note put = stamped_put [OF _ this]
  show ?thesis
  proof (cases "list_ex (\<lambda>r. row_key r = (provider, item_subscription own rq provider x,
      sha (dumps provider (item_subscription own rq provider x) x))) (in_rows t)")
    case True
    with assms s a i have "t' = t" by (simp add: take_item_def Let_def)
    then show ?thesis by (simp add: intake_refl)
  next
    case new: False
    show ?thesis
    proof (cases "lifecycle_of own lifecycle_only x")
      case (Some e)
      with assms s a i new have "in_subs t' = put_subscription (note_lifecycle now e s) (in_subs t)"
        "in_rows t' = in_rows t" "in_queue t' = in_queue t"
        by (auto simp: take_item_def Let_def)
      with put [of "note_lifecycle now e s"] show ?thesis by (simp add: advances_to_def)
    next
      case None
      with assms s a i new obtain row where "wake_sync now s row t = Inr t'"
        by (auto simp: take_item_def Let_def)
      then show ?thesis
        using put [of "s\<lparr>ws_notified_at := Some now\<rparr>"] by (intro wake_sync_advances) simp_all
    qed
  qed
qed

lemma take_items_advances:
  "take_items sha dumps now provider lifecycle_only rq own xs t = Inr t' \<Longrightarrow> advances_to t t'"
proof (induction xs arbitrary: t)
  case Nil
  then show ?case by (simp add: intake_refl)
next
  case (Cons x xs)
  from Cons.prems obtain t1 where t1: "take_item sha dumps now provider lifecycle_only rq own x t = Inr t1"
    "take_items sha dumps now provider lifecycle_only rq own xs t1 = Inr t'"
    by (auto split: sum.splits)
  from take_item_advances [OF t1(1)] Cons.IH [OF t1(2)] show ?case by (rule intake_trans)
qed

lemma delivery_cases:
  obtains (unchanged) "snd (enqueue_webhook sha dumps now provider lifecycle_only rq d) = d"
  | (filed) b t t1 where "rq_body rq = Some b"
    "take_items sha dumps now provider lifecycle_only rq (fst b) (items_of rq provider b) (opened d) = Inr t"
    "flush t = Inr t1"
    "snd (enqueue_webhook sha dumps now provider lifecycle_only rq d)
      = \<lparr>subs = in_subs t1, rows = in_rows t1,
         queue_of = fst (claim_each now (fromkeys (in_claimable t1)) (in_queue t1))\<rparr>"
  by (cases "snd (enqueue_webhook sha dumps now provider lifecycle_only rq d) = d")
    (auto simp: enqueue_webhook_def commit_intake_def split: sum.splits bool.splits option.splits prod.splits)

lemma enqueue_webhook_keeps:
  shows "distinct (map ws_provider_id (subs d)) \<Longrightarrow>
      stamped (subs d) (subs (snd (enqueue_webhook sha dumps now provider lifecycle_only rq d)))"
    and "set (rows d) \<subseteq> set (rows (snd (enqueue_webhook sha dumps now provider lifecycle_only rq d)))"
    and "queue_inv (queue_of d) \<Longrightarrow>
      queue_inv (queue_of (snd (enqueue_webhook sha dumps now provider lifecycle_only rq d)))"
proof -
  have "(distinct (map ws_provider_id (subs d)) \<longrightarrow>
        stamped (subs d) (subs (snd (enqueue_webhook sha dumps now provider lifecycle_only rq d))))
      \<and> set (rows d) \<subseteq> set (rows (snd (enqueue_webhook sha dumps now provider lifecycle_only rq d)))
      \<and> (queue_inv (queue_of d) \<longrightarrow>
        queue_inv (queue_of (snd (enqueue_webhook sha dumps now provider lifecycle_only rq d))))"
  proof (cases rule: delivery_cases [of sha dumps now provider lifecycle_only rq d])
    case unchanged
    then show ?thesis by (simp add: stamped_refl)
  next
    case (filed b t t1)
    from take_items_advances [OF filed(2)] flush_rows [OF filed(3)] filed(4) show ?thesis
      by (auto simp: advances_to_def claim_each_inv)
  qed
  then show "distinct (map ws_provider_id (subs d)) \<Longrightarrow>
      stamped (subs d) (subs (snd (enqueue_webhook sha dumps now provider lifecycle_only rq d)))"
    "set (rows d) \<subseteq> set (rows (snd (enqueue_webhook sha dumps now provider lifecycle_only rq d)))"
    "queue_inv (queue_of d) \<Longrightarrow>
      queue_inv (queue_of (snd (enqueue_webhook sha dumps now provider lifecycle_only rq d)))"
    by simp_all
qed

section \<open>A change is filed once, for ever\<close>

text \<open>Everything that happens to the inbox: deliveries, retention, and the rest of the system.\<close>

datatype inbox_event =
    Delivery instant string bool webhook_request
  | Prune instant "inbox_row \<Rightarrow> bool"
  | Elsewhere "subscription list" queue

definition inbox_step ::
  "(string \<Rightarrow> string) \<Rightarrow> (string \<Rightarrow> string \<Rightarrow> item \<Rightarrow> string) \<Rightarrow> inbox_event \<Rightarrow> inbox \<Rightarrow> inbox" where
  "inbox_step sha dumps e d =
     (case e of
        Delivery now provider lifecycle_only rq \<Rightarrow>
          snd (enqueue_webhook sha dumps now provider lifecycle_only rq d)
      | Prune cutoff victim \<Rightarrow> prune_inbox cutoff victim d
      | Elsewhere ss q \<Rightarrow> d\<lparr>subs := ss, queue_of := q\<rparr>)"

lemma filed_row_stays:
  "r \<in> set (rows d) \<Longrightarrow> in_status r = Queued_for_sync \<Longrightarrow> r \<in> set (rows (fold (inbox_step sha dumps) es d))"
proof (induction es arbitrary: d)
  case (Cons e es)
  have "r \<in> set (rows (inbox_step sha dumps e d))"
    using Cons.prems
    by (cases e) (auto simp: inbox_step_def prune_inbox_def prunable_def
        intro: subsetD [OF enqueue_webhook_keeps(2)])
  then show ?case using Cons.IH Cons.prems(2) by simp
qed simp

lemma accepted_row:
  assumes "snd (enqueue_webhook sha dumps now provider lifecycle_only rq d) \<noteq> d"
    and "rq_body rq = Some b" and "items_of rq provider b = [x]"
    and "lifecycle_of (fst b) lifecycle_only x = None"
  defines "i \<equiv> item_subscription (fst b) rq provider x"
  obtains r where "r \<in> set (rows (snd (enqueue_webhook sha dumps now provider lifecycle_only rq d)))"
    "row_key r = (provider, i, sha (dumps provider i x))" "in_status r = Queued_for_sync"
proof (cases rule: delivery_cases [of sha dumps now provider lifecycle_only rq d])
  case unchanged
  with assms(1) show ?thesis by simp
next
  case (filed b' t t1)
  with assms(2,3) have t: "take_item sha dumps now provider lifecycle_only rq (fst b) x (opened d) = Inr t"
    by (auto split: sum.splits)
  show ?thesis
  proof (cases "t = opened d")
    case True
    with filed(3,4) assms(1) have False by (auto simp: flush_def Let_def split: if_splits)
    then show ?thesis ..
  next
    case False
    with t assms(4) obtain s row where w: "wake_sync now s row (opened d) = Inr t"
      and row: "row_key row = (provider, i, sha (dumps provider i x))"
      by (auto simp: take_item_def i_def [symmetric] row_key_def Let_def
          split: if_splits option.splits)
    have "row\<lparr>in_status := Queued_for_sync\<rparr> \<in> set (in_rows t)"
      using w by (auto simp: wake_sync_def flush_def Let_def split: sum.splits prod.splits if_splits)
    with flush_rows [OF filed(3)] filed(4) row show ?thesis
      by (intro that [of "row\<lparr>in_status := Queued_for_sync\<rparr>"]) (auto simp: row_key_def)
  qed
qed


section \<open>A Drive channel\<close>

definition plain_dumps :: "string \<Rightarrow> string \<Rightarrow> item \<Rightarrow> string" where
  "plain_dumps provider i x = provider @ i @ or_else (it_change x) []"

definition drive_channel :: subscription where
  "drive_channel =
     \<lparr>ws_connector = 7, ws_scope = Some 11, ws_provider_id = ''channel'', ws_token_hash = Some ''secret'',
      ws_resource = Some ''watched'', ws_lifecycle_url = None, ws_expires_at = Some (minutes 1440),
      ws_active = True, ws_reauthorization = False, ws_notified_at = None, ws_lifecycle_at = None,
      ws_last_error = None\<rparr>"

definition quiet_inbox :: inbox where
  "quiet_inbox =
     \<lparr>subs = [drive_channel], rows = [], queue_of = \<lparr>requests = [], jobs = [], next_id = 100\<rparr>\<rparr>"

definition drive_change :: "string \<Rightarrow> webhook_request" where
  "drive_change token =
     \<lparr>rq_channel = Some ''channel'', rq_channel_token = Some token, rq_resource_state = Some ''change'',
      rq_content_length = None, rq_body = Some (None, [])\<rparr>"

definition plain_sha :: "string \<Rightarrow> string" where
  "plain_sha s = s"

lemma drive_change_size: "oversized (drive_change token) = Inr False"
  by (simp add: oversized_def drive_change_def)

definition change_row :: inbox_row where
  "change_row =
     \<lparr>in_connector = 7, in_scope = Some 11, in_provider = ''google_drive'', in_subscription = ''channel'',
      in_hash = plain_dumps ''google_drive'' ''channel'' (header_item (drive_change ''secret'') ''google_drive''),
      in_resource = None, in_change = Some ''change'', in_lifecycle = None, in_status = Received,
      in_received_at = 5, in_processed_at = None\<rparr>"

lemma drive_change_taken:
  "take_item plain_sha plain_dumps 5 ''google_drive'' False (drive_change ''secret'') None
     (header_item (drive_change ''secret'') ''google_drive'') (opened quiet_inbox)
   = wake_sync 5 drive_channel change_row (opened quiet_inbox)"
  by (simp add: take_item_def quiet_inbox_def drive_channel_def drive_change_def header_item_def
      empty_item_def item_subscription_def item_client_state_def authentic_def lifecycle_of_def
      change_of_def change_row_def plain_sha_def Let_def)

definition channel_request :: sync_request where
  "channel_request =
     \<lparr>sr_id = 101, sr_connector = 7, sr_scope = Some 11, sr_job = Some 100, sr_reason = ''webhook'',
      sr_priority = 10, sr_status = Queued, sr_attempts = 0, sr_available_at = 5, sr_locked_at = None,
      sr_started_at = None, sr_completed_at = None, sr_last_error = None, sr_created_at = 5\<rparr>"

lemma channel_enqueued:
  "enqueue_connector_sync 5 7 (Some 11) ''webhook'' None 10 \<lparr>requests = [], jobs = [], next_id = 100\<rparr>
   = (\<lparr>requests = [channel_request],
       jobs = [\<lparr>job_id = 100, job_connector = 7, job_requested_by = None\<rparr>], next_id = 102\<rparr>,
      channel_request)"
  by (simp add: enqueue_connector_sync_def first_by_priority_def channel_request_def Let_def)

lemma channel_claimed:
  "claim_sync_request 5 101 \<lparr>requests = [channel_request], jobs = js, next_id = 102\<rparr>
   = (\<lparr>requests = [claim_row 5 channel_request], jobs = js, next_id = 102\<rparr>,
      Some (claim_row 5 channel_request))"
  by (simp add: claim_sync_request_def channel_request_def put_request_def claim_row_def)

lemma drive_change_flushed:
  "wake_sync 5 drive_channel change_row (opened quiet_inbox)
   = Inr \<lparr>in_subs = [drive_channel\<lparr>ws_notified_at := Some 5\<rparr>],
          in_rows = [change_row\<lparr>in_status := Queued_for_sync\<rparr>], in_pending = [],
          in_queue = \<lparr>requests = [channel_request],
                      jobs = [\<lparr>job_id = 100, job_connector = 7, job_requested_by = None\<rparr>], next_id = 102\<rparr>,
          in_claimable = [101]\<rparr>"
proof -
  have s: "ws_connector drive_channel = 7" "ws_scope drive_channel = Some 11"
    by (simp_all add: drive_channel_def)
  have r: "sr_job channel_request = Some 100" "sr_status channel_request = Queued" "sr_id channel_request = 101"
    by (simp_all add: channel_request_def)
  show ?thesis
    by (simp add: wake_sync_def flush_def quiet_inbox_def put_subscription_def Let_def s channel_enqueued r)
qed

lemma drive_change_woken:
  "fst (enqueue_webhook plain_sha plain_dumps 5 ''google_drive'' False (drive_change ''secret'') quiet_inbox)
     = Inr [101]"
  "map in_status (rows (snd (enqueue_webhook plain_sha plain_dumps 5 ''google_drive'' False
       (drive_change ''secret'') quiet_inbox))) = [Queued_for_sync]"
proof -
  have b: "rq_body (drive_change ''secret'') = Some (None, [])" by (simp add: drive_change_def)
  have i: "items_of (drive_change ''secret'') ''google_drive'' (None, [])
      = [header_item (drive_change ''secret'') ''google_drive'']" by (simp add: items_of_def)
  have c: "sr_job (claim_row 5 channel_request) = Some 100" "sr_id (claim_row 5 channel_request) = 101"
    by (simp_all add: claim_row_def channel_request_def)
  have k: "claim_each 5 [101] \<lparr>requests = [channel_request], jobs = js, next_id = 102\<rparr>
      = (\<lparr>requests = [claim_row 5 channel_request], jobs = js, next_id = 102\<rparr>, [101])" for js
    by (simp add: channel_claimed c)
  have f: "fromkeys [101::nat] = [101]" by (simp add: fromkeys_def)
  show "fst (enqueue_webhook plain_sha plain_dumps 5 ''google_drive'' False (drive_change ''secret'') quiet_inbox)
     = Inr [101]"
    "map in_status (rows (snd (enqueue_webhook plain_sha plain_dumps 5 ''google_drive'' False
       (drive_change ''secret'') quiet_inbox))) = [Queued_for_sync]"
    by (simp_all add: enqueue_webhook_def drive_change_size b i drive_change_taken drive_change_flushed
        commit_intake_def flush_def Let_def f k del: claim_each.simps)
qed


theorem only_the_provider_wakes_witness:
  "fst (enqueue_webhook plain_sha plain_dumps 5 ''google_drive'' False (drive_change ''secret'') quiet_inbox)
     = Inr [101]
   \<and> (\<exists>s. s \<in> set (subs quiet_inbox) \<and> ws_active s \<and> (\<exists>x. ws_token_hash s = Some (plain_sha
         (item_client_state None (drive_change ''secret'') ''google_drive'' x))))"
proof -
  obtain r d' where e: "enqueue_webhook plain_sha plain_dumps 5 ''google_drive'' False (drive_change ''secret'')
      quiet_inbox = (r, d')" by fastforce
  with drive_change_woken(1) have r: "r = Inr [101]" by simp
  from only_the_provider_wakes [OF e disjI2 [OF r]] have "\<exists>b x s. rq_body (drive_change ''secret'') = Some b
      \<and> s \<in> set (subs quiet_inbox) \<and> ws_active s
      \<and> ws_token_hash s = Some (plain_sha (item_client_state (fst b) (drive_change ''secret'') ''google_drive'' x))"
    by blast
  then show ?thesis using drive_change_woken(1) by (auto simp: drive_change_def)
qed

text \<open>
  Two equal lifecycle notifications in one delivery: neither is flushed when the other is looked up,
  so the commit breaks the unique constraint and the whole delivery is lost.
\<close>

lemma doubled_lifecycle_rejected:
  fixes x :: item
  defines "x \<equiv> empty_item\<lparr>it_subscription := Some ''channel'', it_client_state := Some ''secret'',
                          it_lifecycle := Some ''reauthorizationRequired''\<rparr>"
  shows "enqueue_webhook plain_sha plain_dumps 5 ''sharepoint'' True
      ((drive_change ''secret'')\<lparr>rq_body := Some (None, [Some x, Some x])\<rparr>) quiet_inbox
    = (Inl (Other_error ''IntegrityError''), quiet_inbox)"
proof -
  have "oversized ((drive_change ''secret'')\<lparr>rq_body := Some (None, [Some x, Some x])\<rparr>) = Inr False"
    by (simp add: oversized_def drive_change_def)
  then show ?thesis
    unfolding enqueue_webhook_def x_def
    by (simp add: drive_change_def quiet_inbox_def drive_channel_def items_of_def empty_item_def
      take_item_def item_subscription_def item_client_state_def authentic_def lifecycle_of_def
      change_of_def flush_def Let_def commit_intake_def put_subscription_def note_lifecycle_def row_key_def plain_sha_def)
qed

section \<open>The whole of push\<close>

text \<open>
  A delivery works on the committed subscriptions in a transaction of its own; no maintenance pass
  is open meanwhile in a run, so the session of the next one starts from what it leaves.
\<close>

record 'p push =
  push_world :: "'p world"
  push_rows :: "inbox_row list"
  push_queue :: queue

definition deliver ::
  "fernet \<Rightarrow> (string \<Rightarrow> string \<Rightarrow> item \<Rightarrow> string) \<Rightarrow> instant \<Rightarrow> string \<Rightarrow> bool \<Rightarrow> webhook_request \<Rightarrow> 'p push
     \<Rightarrow> 'p push" where
  "deliver F dumps now provider lifecycle_only rq s =
     (let h = saved (push_world s);
          d = snd (enqueue_webhook (sha256 F) dumps now provider lifecycle_only rq
                     \<lparr>subs = subscription_rows h, rows = push_rows s, queue_of = push_queue s\<rparr>);
          h' = h\<lparr>subscription_rows := subs d\<rparr>
      in \<lparr>push_world = (push_world s)\<lparr>session := h', saved := h'\<rparr>, push_rows = rows d,
          push_queue = queue_of d\<rparr>)"

text \<open>
  A run: maintenance passes, subscribe requests and deliveries in any order, with anything the rest
  of the system may do in between: connectors and scopes change, subscriptions are stopped, lose
  their scope or go with their connector, the queue is worked, the inbox pruned, the provider moves.
\<close>

inductive push_run ::
  "fernet \<Rightarrow> (string \<Rightarrow> string \<Rightarrow> item \<Rightarrow> string) \<Rightarrow> 'p push \<Rightarrow> bool"
  for F :: fernet and dumps :: "string \<Rightarrow> string \<Rightarrow> item \<Rightarrow> string" where
  start: "world_ok w \<Longrightarrow> subscription_rows (saved w) = [] \<Longrightarrow> queue_inv q \<Longrightarrow>
    push_run F dumps \<lparr>push_world = w, push_rows = [], push_queue = q\<rparr>"
| upkeep: "push_run F dumps s \<Longrightarrow>
    push_run F dumps (s\<lparr>push_world := snd (renew_webhook_subscriptions C F cfg now (push_world s))\<rparr>)"
| subscribe: "push_run F dumps s \<Longrightarrow>
    push_run F dumps (s\<lparr>push_world := snd (subscribe_webhooks C F cfg now u i (push_world s))\<rparr>)"
| delivery: "push_run F dumps s \<Longrightarrow> push_run F dumps (deliver F dumps now provider lifecycle_only rq s)"
| rows_edited: "push_run F dumps s \<Longrightarrow> unique_key conn_id cs \<Longrightarrow> unique_key ss_id scs \<Longrightarrow>
    push_run F dumps (s\<lparr>push_world := (push_world s)\<lparr>saved :=
      (saved (push_world s))\<lparr>connector_rows := cs, scope_rows := scs\<rparr>\<rparr>\<rparr>)"
| stopped: "push_run F dumps s \<Longrightarrow>
    push_run F dumps (s\<lparr>push_world := (push_world s)\<lparr>saved := (saved (push_world s))\<lparr>subscription_rows :=
      map (\<lambda>x. if P x then x\<lparr>ws_active := False\<rparr> else if Q x then x\<lparr>ws_scope := None\<rparr> else x)
        (filter R (subscription_rows (saved (push_world s))))\<rparr>\<rparr>\<rparr>)"
| elsewhere: "push_run F dumps s \<Longrightarrow> queue_inv q \<Longrightarrow> (\<And>r. r \<in> set rs \<Longrightarrow> r \<in> set (push_rows s)) \<Longrightarrow>
    push_run F dumps (s\<lparr>push_world := (push_world s)\<lparr>wire := n\<rparr>, push_rows := rs, push_queue := q\<rparr>)"

definition push_ok :: "'p push \<Rightarrow> bool" where
  "push_ok s = (world_ok (push_world s) \<and> queue_inv (push_queue s))"

lemma deliver_ok: "push_ok s \<Longrightarrow> push_ok (deliver F dumps now provider lifecycle_only rq s)"
proof -
  assume ok: "push_ok s"
  let ?h = "saved (push_world s)"
  let ?before = "\<lparr>subs = subscription_rows ?h, rows = push_rows s, queue_of = push_queue s\<rparr>"
  let ?d = "snd (enqueue_webhook (sha256 F) dumps now provider lifecycle_only rq ?before)"
  have inv: "hooks_inv ?h" using ok by (simp add: push_ok_def world_ok_def)
  then have st: "stamped (subscription_rows ?h) (subs ?d)"
    using enqueue_webhook_keeps(1) [where d = ?before] by (simp add: hooks_inv_def)
  have "queue_inv (queue_of ?d)"
    using ok enqueue_webhook_keeps(3) [where d = ?before] by (simp add: push_ok_def)
  moreover have "hooks_inv (?h\<lparr>subscription_rows := subs ?d\<rparr>)"
    using inv stamped_ids [OF st] stamped_live [OF st]
    by (simp add: hooks_inv_def session_ok_def lone_def)
  ultimately show ?thesis
    by (simp add: push_ok_def deliver_def Let_def world_ok_def hooks_inv_def)
qed

lemma stopped_live:
  "live_for i j (if P x then x\<lparr>ws_active := False\<rparr> else if Q x then x\<lparr>ws_scope := None\<rparr> else x) \<Longrightarrow>
     live_for i j x"
  by (auto simp: live_for_def split: if_splits)

lemma count_filter: "count_rows P (filter R rs) \<le> count_rows P rs"
  by (induction rs) auto

lemma push_run_ok: "push_run F dumps s \<Longrightarrow> push_ok s"
proof (induction rule: push_run.induct)
  case (upkeep s C cfg now)
  then show ?case by (simp add: push_ok_def upkeep.ok)
next
  case (subscribe s C cfg now u i)
  then show ?case by (simp add: push_ok_def subscription.ok)
next
  case (stopped s P Q R)
  let ?rows = "subscription_rows (saved (push_world s))"
  let ?f = "\<lambda>x. if P x then x\<lparr>ws_active := False\<rparr> else if Q x then x\<lparr>ws_scope := None\<rparr> else x"
  have "count_rows (live_for i j) (map ?f (filter R ?rows)) \<le> count_rows (live_for i j) ?rows" for i j
    by (rule order_trans [OF count_rows_map count_filter]) (rule stopped_live)
  moreover have "map ws_provider_id (map ?f (filter R ?rows)) = map ws_provider_id (filter R ?rows)"
    by simp
  ultimately have "hooks_inv ((saved (push_world s))\<lparr>subscription_rows := map ?f (filter R ?rows)\<rparr>)"
    using stopped.IH unfolding push_ok_def world_ok_def hooks_inv_def session_ok_def lone_def
    by (simp add: distinct_map_filter del: map_map) (meson order_trans)
  with stopped.IH show ?case by (simp add: push_ok_def world_ok_def)
next
  case (delivery s now provider lifecycle_only rq)
  then show ?case by (intro deliver_ok)
qed (auto simp: push_ok_def world_ok_def hooks_inv_def session_ok_def lone_def)


text \<open>The office with one drive: the first pass subscribes it.\<close>

lemma office_pass_subscribes:
  defines "w \<equiv> office_world (office_hooks [office_scope 11 ''d1''] None []) [] False"
  shows "count_rows (live_for 7 11) (subscription_rows (saved (snd
    (renew_webhook_subscriptions strict_provider plain_fernet office_transport 0 w)))) = 1"
proof -
  let ?scs = "[office_scope 11 ''d1'']"
  have t: "0 + EXPIRY_SKEW < minutes 2880" by (simp add: EXPIRY_SKEW_def)
  have s: "session w = (office_hooks ?scs None [])\<lparr>subscription_rows := []\<rparr>" "clean w"
    "outside (wire w) = ([], False)"
    by (simp_all add: w_def office_world_def office_hooks_def)
  obtain callback lifecycle where e: "ensure_webhook_subscriptions strict_provider plain_fernet office_transport
      0 False (office_connector None) w
      = subscribe_scopes (strict_calls 0 callback lifecycle) plain_fernet 0 False 7 ?scs w"
    by (rule office_ensure [where force = False, OF t s(1)]) (simp_all add: office_scope_def)
  obtain x w1 where 1: "replace_subscription (strict_calls 0 callback lifecycle) plain_fernet 7
      (office_scope 11 ''d1'') w = (Inr x, w1)"
    and w1: "session w1 = (session w)\<lparr>subscription_rows := subscription_rows (session w)
        @ [created_row 0 lifecycle 11 ''d1'']\<rparr>" "saved w1 = saved w"
    by (rule office_replace_free [of w 11 "''d1''" 0 callback lifecycle]) (simp_all add: s)
  have sub: "ensure_webhook_subscriptions strict_provider plain_fernet office_transport 0 False
      (office_connector None) w = (Inr [x], w1)"
    unfolding e using 1 s(1) by (simp add: bind_world_def)
  have ids: "map conn_id (filter (\<lambda>c. conn_system c \<in> REMOTE_PROVIDERS \<and> served c) (connector_rows (session w))) = [7]"
    by (simp add: s office_hooks_def office_connector_def REMOTE_PROVIDERS_def served_def)
  have row: "get_row conn_id 7 (connector_rows (session w)) = Some (office_connector None)"
    by (simp add: s office_hooks_def office_connector_def)
  have on: "cn_webhook_enabled (office_connector None)" "cn_degraded_at (office_connector None) = None"
    by (simp_all add: office_connector_def)
  have idle: "renew_due_subscriptions strict_provider plain_fernet office_transport 0 (rollback w) = (Inr (), w)"
    using s by (simp add: renew_due_subscriptions_def on_wire_def commit_def rollback_def)
  have "repair_one strict_provider plain_fernet office_transport 0 7 w = commit w1"
    by (simp add: repair_one_def row on sub clear_degraded_def)
  moreover have "commit w1 = (Inr (), w1\<lparr>saved := session w1\<rparr>)"
    by (simp add: commit_def w1 s)
  ultimately have "repair_webhook_subscriptions strict_provider plain_fernet office_transport 0 w
      = (Inr (), w1\<lparr>saved := session w1\<rparr>)"
    unfolding repair_webhook_subscriptions_def ids by (simp add: bind_world_def)
  then have "snd (renew_webhook_subscriptions strict_provider plain_fernet office_transport 0 w) = w1\<lparr>saved := session w1\<rparr>"
    by (simp add: renew_webhook_subscriptions_def idle bind_world_def)
  then show ?thesis by (simp add: w1 s created_row_def)
qed


end
