(* ===== verification/Spec2Isabelle.thy ===== *)
theory Spec2Isabelle
  imports Articles Agents Splitter Authentication Management Organisation Notifications
begin

text \<open>
  A verification of the core of the QNSC knowledge-base backend, the Python service under
  \<open>src/src\<close>. File names below are relative to it.

  \<^bold>\<open>The program.\<close> A company's documents enter as drafts, uploaded by people or walked by
  connectors. A draft is prepared (split into candidates, given a reading view), submitted,
  assigned to a reviewer and then approved, which publishes an article or a new version of one,
  or rejected. Two sweeps can decide drafts without a person: the approval agent, which asks a
  language model under written rules, and the auto-publishing of departments without review.
  Articles are created, edited, restored and deleted, and every read goes through role-based
  permissions and per-article rules. Published text is cut into chunks for retrieval.
  Connector walks are scheduled by a durable queue. Several tenants (company domains) share one
  database. People come in by invitation, by an administrator's hand or through Microsoft, sign
  in with a password, and hold access tokens, rotating refresh tokens and personal tokens; roles
  with scoped permissions say what they may do.

  \<^bold>\<open>Theories and sources.\<close>

  \<^item> \<open>Prelude\<close>: identifiers, instants, strings as Python has them (\<open>strip\<close>, \<open>splitlines\<close>,
    \<open>lower\<close>, \<open>isspace\<close> on code points below 256), tables as lists of rows with \<open>get_row\<close>
    and \<open>put_row\<close>, errors as values (\<open>HTTPException\<close> and \<open>result\<close>), the combinators
    \<open>and_then\<close>, \<open>unless\<close> and \<open>transaction\<close> for guards and rolled-back transactions, and the
    collections of simplification rules the other theories use.
  \<^item> \<open>Models\<close>: \<open>models/*.py\<close>, one record per table, with the columns the services use.
  \<^item> \<open>Rbac\<close>: \<open>domain/rbac.py\<close>, the catalogue, the default roles and every query of
    \<open>AuthorizationService\<close>. The locale \<open>scoped_authorization\<close> states what the other theories rely
    on.
  \<^item> \<open>Permissions\<close>: \<open>domain/permissions.py\<close>, \<open>domain/connector_providers.py\<close> and the visibility
    predicate of \<open>repositories/article.py\<close>, with how the two relate.
  \<^item> \<open>Departments\<close>: \<open>domain/departments.py\<close>.
  \<^item> \<open>Store\<close>: the database as a record of tables; \<open>repositories/governance.py\<close> and
    \<open>repositories/user.py\<close>.
  \<^item> \<open>Chunker\<close>, \<open>Splitter\<close>, \<open>Restructure\<close>: \<open>rag/chunker.py\<close>, \<open>domain/document_splitter.py\<close> and the
    deterministic part of \<open>domain/content_restructure.py\<close>.
  \<^item> \<open>Governance\<close>, \<open>Candidates\<close>, \<open>Approval\<close>: the service of \<open>domain/governance.py\<close>: the draft state
    machine, queue, submission, assignment, rejection and reading views; the batch review of
    split documents; and the approval of a draft, each handler whole. The locale
    \<open>draft_operation\<close> is the tenant contract of the handlers.
  \<^item> \<open>Workflow\<close>: one step is one handler call by any user with any outcome; what every
    sequence of calls keeps.
  \<^item> \<open>Articles\<close>: \<open>domain/articles.py\<close> with the version, tag and deletion queries of
    \<open>repositories/article.py\<close>. The locale \<open>article_operation\<close> is the version contract,
    interpreted for creation, update, restoration, deletion and approval.
  \<^item> \<open>Agents\<close>: \<open>domain/approval_agent.py\<close> and \<open>domain/department_auto_publish.py\<close>.
  \<^item> \<open>SyncQueue\<close>: \<open>domain/sync_queue.py\<close> and the dispatcher of \<open>workers/tasks.py\<close>. The locale
    \<open>request_update\<close> is the contract of every operation that rewrites one request.
  \<^item> \<open>RateLimit\<close>: \<open>core/rate_limit.py\<close> and \<open>core/retry.py\<close>.
  \<^item> \<open>Accounts\<close>: the account tables (\<open>models/user.py\<close>, \<open>models/sessions.py\<close>,
    \<open>models/access_token.py\<close>), \<open>bootstrap_rbac\<close>, \<open>domain/auth.py\<close> and \<open>core/security.py\<close>; the
    well-formedness \<open>auth_inv\<close> of the tables and what no handler takes back (\<open>evolves\<close>).
  \<^item> \<open>Sessions\<close>: login, refresh, logout and the password routes of \<open>api/routers/auth.py\<close>,
    \<open>get_current_user\<close> of \<open>api/deps.py\<close>, the session routes of \<open>api/routers/account.py\<close> and
    \<open>domain/access_tokens.py\<close> with its router. The locale \<open>account_contract\<close> is what a relation
    between databases needs for every handler to keep it.
  \<^item> \<open>Invitations\<close>: the invitation routes and \<open>entra_callback\<close> of \<open>api/routers/auth.py\<close>.
  \<^item> \<open>Identity\<close>: its user, CEO, role and permission routes with their helpers.
  \<^item> \<open>Authority\<close>: who holds a global grant, and that handlers called without one create none; a
    second interpretation of \<open>account_contract\<close>.
  \<^item> \<open>Office\<close>: a concrete signing scheme and two populated databases, for the witnesses.
  \<^item> \<open>Authentication\<close>, \<open>Management\<close>: runs of the identity routes (\<open>auth_run\<close>) and what holds of
    them; what the management routes establish.

  \<^item> \<open>Organisation\<close>: the department routes of \<open>api/routers/auth.py\<close>, with every table a
    department's name or id is copied into.
  \<^item> \<open>Transport\<close>: \<open>core/secrets.py\<close> and, of \<open>domain/connector_adapters.py\<close>, the request loop and the
    subscription and token calls of both adapters.
  \<^item> \<open>Webhooks\<close>: \<open>domain/connector_auth.py\<close>, \<open>domain/webhook_subscriptions.py\<close>, the maintenance task
    and the subscribe route. The locale \<open>webhook_operation\<close> is what every operation on
    subscriptions keeps.
  \<^item> \<open>Notifications\<close>: the inbox \<open>_enqueue_webhook\<close> of \<open>api/routers/connectors.py\<close>, and the runs in
    which deliveries, maintenance and subscribing interleave (\<open>push_run\<close>).

  \<^bold>\<open>State and errors.\<close> A handler is a function from the database to an outcome: an error or a
  value, and the database after the call. Where the code rolls a transaction back the database
  is returned unchanged; where it commits in two steps and the second can fail, the model keeps
  what the first committed. Every \<open>raise\<close> is a branch with the status code and message of the
  source. The clock, a fresh identifier and every setting a function reads are arguments or
  fields of the state. A row lock makes a handler atomic, so concurrent requests are modelled
  as sequences of whole calls; \<open>Webhooks\<close> keeps what the open session sees, what is committed and
  what the provider holds apart, because a rollback reaches only the first; \<open>SyncQueue\<close> separates the claim, the start and the finish of a
  walk, because those are separate transactions.

  \<^bold>\<open>Parameters.\<close> Code outside the repository is an argument: SHA-256, bcrypt and the signing of
  tokens (the record \<open>crypto\<close>; \<open>jwt_law\<close> says that a token decodes to its claims until it
  expires), fresh random secrets, the claims Microsoft's token carries, the folding of accents in a
  search, JSON parsing and printing, Fernet encryption (\<open>fernet_law\<close> says that a token opens with
  its own key only), the HTTP client that reaches the providers, the reply of the language model, the commands of the Redis
  client (each may raise), the steps that run after a publication has been committed. Theorems
  that need something of them say so as a hypothesis (a counter of a bucket only grows; the
  background steps leave drafts and articles alone) and their witnesses instantiate it.

  \<^bold>\<open>What is shown.\<close>

  \<^item> Isolation: no permission reaches another tenant without a global grant or ownership; both
    article checks respect tenant, denial, provider audience, status and sensitivity; the draft
    handlers change drafts of the caller's company only.
  \<^item> The review workflow: in every reachable database the logged transitions of each draft form
    a path of the state machine to its status, ids are unique, and an approved draft stays
    approved; an approval is authorised, happens at most once, writes exactly the rows stated,
    and a failed one changes nothing; a connector document never becomes wider than its mapped
    audience.
  \<^item> Articles: the version history is gapless and current in every reachable database, an edit
    can be undone, deletion respects holds and retention.
  \<^item> Identity: over every run of the routes ids, addresses and secret hashes stay unique; a
    refresh token, a reset link and an invitation work once; a password reset and a deactivation
    end what was issued before; a login, and a personal token, authenticate as their account until
    they expire; callers without a global grant never make anyone hold one.
  \<^item> Departments: renaming and deleting them never changes who may read which article, and what
    refers to them stays consistent.
  \<^item> Push: one live subscription per scope in every run, lasting cover of every selected scope, one
    report per failure, tokens sent to the provider only, and notifications believed only with the
    secret of their subscription.
  \<^item> Automation: whatever the model replies, the agent acts within the rule's and its author's
    authority; a department without review publishes only drafts of ordinary risk as its named
    person.
  \<^item> Text: chunking, splitting and the fallback reading view keep every visible character in
    order; chunks and candidates are bounded; the cut of a long document ends.
  \<^item> The queue: one walk per connector at a time in every run, an exact claim, and progress at
    every dispatch. Limits hold in every window and through an outage; the retry loop ends.
  \<^item> Some statements are of what the code does although a comment or its purpose says otherwise, for
    instance that a change that was accepted once is dropped for ever; each says so in its text.

  \<^bold>\<open>Bounds.\<close> Numbers of the source (48,000 characters per candidate, 25 requests per dispatch,
  8 attempts, 1800 seconds of backoff, 15 and 180 minutes of staleness, 4 attempts and 60 seconds of
  waiting per provider request, a horizon of 20 minutes) are the same here. Every
  recursion is total, so nothing runs on fuel: \<open>parts_from\<close> and \<open>retry_from\<close> carry
  termination proofs, the other loops are structural.

  \<^bold>\<open>Not modelled.\<close> The widths of text columns and the detail texts of audit rows; characters
  beyond code point 255 in the regular expressions; the language-model pipeline
  (\<open>domain/ai_service.py\<close>, \<open>domain/llm_client.py\<close>), vector and full-text search (evaluated by
  PostgreSQL), the provider walks (\<open>domain/cloud_sync.py\<close>) with the discovery, change feeds and
  downloads of the adapters, which call remote services; the HTTP
  routers other than those named above, which parse requests and shape responses around the
  services; dashboards, listings and metrics. Of the smaller services the edit requests
  (\<open>domain/article_edit_requests.py\<close>), near-duplicate detection (\<open>rag/dedupe.py\<close>), automatic access
  lists (\<open>domain/acl_auto.py\<close>) and the purge of a tenant (\<open>domain/kb_purge.py\<close>) are left out.
\<close>

end
